(* ===== verification/Prelude.thy ===== *)
theory Prelude
  imports Complex_Main "HOL-Library.AList" "HOL-Library.Monad_Syntax"
begin

text \<open>
  Shared vocabulary of the development: the Python values the components pass around
  (JSON payloads, dictionaries that remember insertion order, strings, floats as exact
  rationals), results that may raise, and the generic lemmas the component theories
  share.  Three collections carry them: \<open>dict_simps\<close> (lookups after dictionary
  updates), \<open>str_defs\<close> (the string helpers, unfolded by evaluations) and
  \<open>inv_intros\<close> (preservation of component invariants).
\<close>

named_theorems dict_simps "lookups in insertion-ordered dictionaries"
named_theorems str_defs "definitions of the Python string helpers"
named_theorems inv_intros "preservation of component invariants"

section \<open>Results that may raise\<close>

text \<open>The exceptions the modelled code raises or catches.\<close>

datatype exn =
    ValueError
  | KeyError string
  | TypeError
  | GossipBusError
  | ChainIntegrityError
  | BudgetError
  | BudgetConflictError
  | BudgetInsufficientError
  | BudgetUnavailableError
  | BudgetExceededError
  | UnknownReservationError
  | TokenCliffExceededError
  | FrugalityPolicyError
  | PolicyUnavailable
  | NoBackendAvailableError
  | BackendOfflineError
  | ModelEndpointPolicyError
  | PipelineError
  | PipelineDisabledError
  | PipelineConfigError
  | PipelineApprovalError
  | PipelinePolicyError
  | PipelineExecutionError
  | PipelineCandidateUnavailableError bool
  | Tier5ConfigurationError
  | IntegrityError
  | HardwareAffinityError
  | RuntimeError
  | SkillResolutionError
  | RecursionBudgetExceeded
  | ReplayJobNotFoundError
  | ReplayJobNotReplayableError
  | ReplayNoQueuedSpecError
  | CancelledError
  | HTTPException nat
  | OtherError

datatype 'a res = Raise exn | Ret 'a

definition is_Ret :: "'a res \<Rightarrow> bool" where
  "is_Ret r = (case r of Ret _ \<Rightarrow> True | Raise _ \<Rightarrow> False)"

lemma is_Ret_simps [simp]: "is_Ret (Ret x)" "\<not> is_Ret (Raise e)"
  by (simp_all add: is_Ret_def)

lemma is_Ret_iff: "is_Ret r \<longleftrightarrow> (\<exists>x. r = Ret x)"
  by (cases r) simp_all

definition res_bind :: "'a res \<Rightarrow> ('a \<Rightarrow> 'b res) \<Rightarrow> 'b res" where
  "res_bind r f = (case r of Raise e \<Rightarrow> Raise e | Ret x \<Rightarrow> f x)"

lemma res_bind_simps [simp]:
  "res_bind (Ret x) f = f x" "res_bind (Raise e) f = Raise e"
  by (simp_all add: res_bind_def)

lemma res_bind_eq_Ret: "res_bind r f = Ret y \<longleftrightarrow> (\<exists>x. r = Ret x \<and> f x = Ret y)"
  by (cases r) simp_all

text \<open>A list comprehension whose element expression may raise: the first exception wins.\<close>

fun res_map :: "('a \<Rightarrow> 'b res) \<Rightarrow> 'a list \<Rightarrow> 'b list res" where
  "res_map f [] = Ret []"
| "res_map f (x # xs) =
     res_bind (f x) (\<lambda>y. res_bind (res_map f xs) (\<lambda>ys. Ret (y # ys)))"

lemma res_map_cong [fundef_cong]:
  "xs = ys \<Longrightarrow> (\<And>x. x \<in> set ys \<Longrightarrow> f x = g x) \<Longrightarrow> res_map f xs = res_map g ys"
  by (induction xs arbitrary: ys) auto

lemma res_map_Ret: "(\<And>x. x \<in> set xs \<Longrightarrow> f x = Ret (g x)) \<Longrightarrow> res_map f xs = Ret (map g xs)"
  by (induction xs) auto

section \<open>Dictionaries that remember insertion order\<close>

text \<open>
  A Python \<open>dict\<close> is an association list: \<open>d[k] = v\<close> overwrites in place or appends
  (\<open>AList.update\<close>), \<open>d.pop(k, None)\<close> is \<open>AList.delete\<close>, \<open>d.get(k)\<close> is \<open>map_of\<close>,
  \<open>d.update(p)\<close> is \<open>dict_update\<close>.
\<close>

type_synonym ('k, 'v) dict = "('k \<times> 'v) list"

abbreviation dict_ok :: "('k, 'v) dict \<Rightarrow> bool" where
  "dict_ok d \<equiv> distinct (map fst d)"

definition dict_update :: "('k, 'v) dict \<Rightarrow> ('k, 'v) dict \<Rightarrow> ('k, 'v) dict" where
  "dict_update d p = fold (\<lambda>(k, v) acc. AList.update k v acc) p d"

definition dict_get :: "('k, 'v) dict \<Rightarrow> 'k \<Rightarrow> 'v \<Rightarrow> 'v" where
  "dict_get d k dflt = (case map_of d k of None \<Rightarrow> dflt | Some v \<Rightarrow> v)"

lemma map_of_update [dict_simps]:
  "map_of (AList.update k v d) k' = (if k' = k then Some v else map_of d k')"
  by (simp add: update_conv')

lemma map_of_delete [dict_simps]:
  "map_of (AList.delete k d) k' = (if k' = k then None else map_of d k')"
  by (simp add: delete_conv')

lemma dict_ok_update [simp]: "dict_ok d \<Longrightarrow> dict_ok (AList.update k v d)"
  by (rule distinct_update)

lemma dict_ok_delete [simp]: "dict_ok d \<Longrightarrow> dict_ok (AList.delete k d)"
  by (rule distinct_delete)

lemma dict_update_simps [simp]:
  "dict_update d [] = d"
  "dict_update d ((k, v) # p) = dict_update (AList.update k v d) p"
  by (simp_all add: dict_update_def)

lemma dict_ok_dict_update [simp]: "dict_ok d \<Longrightarrow> dict_ok (dict_update d p)"
  by (induction p arbitrary: d) auto

lemma map_of_dict_update [dict_simps]:
  "dict_ok p \<Longrightarrow>
   map_of (dict_update d p) k = (case map_of p k of Some v \<Rightarrow> Some v | None \<Rightarrow> map_of d k)"
proof (induction p arbitrary: d)
  case Nil
  then show ?case by simp
next
  case (Cons a p)
  obtain k' v' where a: "a = (k', v')" by (cases a)
  show ?case
  proof (cases "k = k'")
    case True
    with Cons.prems a have "map_of p k = None" by (auto simp: map_of_eq_None_iff)
    with True Cons a show ?thesis by (simp add: map_of_update)
  next
    case False
    with Cons a show ?thesis by (simp add: map_of_update split: option.splits)
  qed
qed

lemma dict_update_nonempty: "p \<noteq> [] \<Longrightarrow> dict_update d p \<noteq> []"
proof (induction p arbitrary: d)
  case Nil
  then show ?case by simp
next
  case (Cons a p)
  obtain k v where a: "a = (k, v)" by (cases a)
  show ?case
  proof (cases "p = []")
    case True
    with a show ?thesis by (simp add: update_nonempty)
  next
    case False
    with Cons.IH a show ?thesis by simp
  qed
qed

lemma dict_get_simps [dict_simps]:
  "dict_get (AList.update k v d) k' x = (if k' = k then v else dict_get d k' x)"
  "dict_get [] k' x = x"
  by (simp_all add: dict_get_def map_of_update)

lemma map_of_map_values:
  "map_of (map (\<lambda>(k, v). (k, f k v)) d) k = map_option (f k) (map_of d k)"
  by (induction d) auto

lemma fst_map_values [simp]:
  "map fst (map (\<lambda>(k, v). (k, f k v)) d) = map fst d"
  by (induction d) auto

lemma map_of_filter_keys:
  "map_of (filter (\<lambda>(k, v). P k) d) k = (if P k then map_of d k else None)"
  by (induction d) auto

lemma update_new: "map_of d k = None \<Longrightarrow> AList.update k v d = d @ [(k, v)]"
  by (induction d) (auto split: if_splits)

lemma delete_absent: "map_of d k = None \<Longrightarrow> AList.delete k d = d"
  by (induction d) (auto split: if_splits)

lemma length_delete_less: "k \<in> fst ` set d \<Longrightarrow> length (AList.delete k d) < length d"
  by (auto simp: AList.delete_eq intro: length_filter_less)

lemma length_update:
  "length (AList.update k v d) = (if map_of d k = None then Suc (length d) else length d)"
  by (induction d) auto

section \<open>JSON values\<close>

text \<open>
  What \<open>json.dumps\<close>/\<open>json.loads\<close> carry across the event log.  Numbers keep Python's
  distinction between \<open>int\<close> and \<open>float\<close>; a float is an exact rational.
\<close>

datatype json =
    JNull
  | JBool bool
  | JInt int
  | JFloat rat
  | JStr string
  | JList "json list"
  | JObj "(string \<times> json) list"

type_synonym payload = "(string, json) dict"

text \<open>Python truthiness, as used by \<open>if not x\<close> and \<open>x or y\<close>.\<close>

fun truthy :: "json \<Rightarrow> bool" where
  "truthy JNull = False"
| "truthy (JBool b) = b"
| "truthy (JInt i) = (i \<noteq> 0)"
| "truthy (JFloat q) = (q \<noteq> 0)"
| "truthy (JStr s) = (s \<noteq> [])"
| "truthy (JList xs) = (xs \<noteq> [])"
| "truthy (JObj d) = (d \<noteq> [])"

definition jget :: "payload \<Rightarrow> string \<Rightarrow> json" where
  "jget d k = dict_get d k JNull"

lemma jget_Some: "map_of d k = Some v \<Longrightarrow> jget d k = v"
  by (simp add: jget_def dict_get_def)

lemma jget_None: "map_of d k = None \<Longrightarrow> jget d k = JNull"
  by (simp add: jget_def dict_get_def)

lemma jget_JStr: "jget d k = JStr s \<longleftrightarrow> map_of d k = Some (JStr s)"
  by (auto simp: jget_def dict_get_def split: option.splits)

lemma jget_dict_update [dict_simps]:
  "dict_ok p \<Longrightarrow>
   jget (dict_update d p) k = (case map_of p k of Some v \<Rightarrow> v | None \<Rightarrow> jget d k)"
  by (simp add: jget_def dict_get_def map_of_dict_update split: option.splits)

lemma jget_Nil [simp]: "jget [] k = JNull"
  by (simp add: jget_def dict_get_def)

text \<open>An optional value as the JSON it serialises to.\<close>

fun jopt :: "('a \<Rightarrow> json) \<Rightarrow> 'a option \<Rightarrow> json" where
  "jopt f None = JNull"
| "jopt f (Some x) = f x"

section \<open>Strings\<close>

text \<open>
  Strings are Python \<open>str\<close> values over the first 256 code points, so \<open>length\<close> counts code
  points; the character classes below are those of \<open>str.isspace\<close>, \<open>str.isalnum\<close> and
  the \<open>re\<close> module on that range.
\<close>

definition code :: "char \<Rightarrow> nat" where
  "code c = of_char c"

definition is_space :: "char \<Rightarrow> bool" where
  "is_space c = (let n = code c in
     (9 \<le> n \<and> n \<le> 13) \<or> (28 \<le> n \<and> n \<le> 32) \<or> n = 133 \<or> n = 160)"

definition is_digit :: "char \<Rightarrow> bool" where
  "is_digit c = (48 \<le> code c \<and> code c \<le> 57)"

definition is_upper :: "char \<Rightarrow> bool" where
  "is_upper c = (65 \<le> code c \<and> code c \<le> 90)"

definition is_lower :: "char \<Rightarrow> bool" where
  "is_lower c = (97 \<le> code c \<and> code c \<le> 122)"

definition is_alpha :: "char \<Rightarrow> bool" where
  "is_alpha c = (is_upper c \<or> is_lower c)"

definition is_alnum :: "char \<Rightarrow> bool" where
  "is_alnum c = (is_alpha c \<or> is_digit c)"

definition is_word :: "char \<Rightarrow> bool" where
  "is_word c = (is_alnum c \<or> c = CHR ''_'' \<or>
     (let n = code c in n = 170 \<or> n = 178 \<or> n = 179 \<or> n = 181 \<or> n = 185 \<or> n = 186 \<or>
        (188 \<le> n \<and> n \<le> 190) \<or> (192 \<le> n \<and> n \<le> 214) \<or> (216 \<le> n \<and> n \<le> 246) \<or> 248 \<le> n))"

definition to_lower :: "char \<Rightarrow> char" where
  "to_lower c = (if is_upper c \<or> (192 \<le> code c \<and> code c \<le> 222 \<and> code c \<noteq> 215)
     then char_of (code c + 32) else c)"

definition to_upper :: "char \<Rightarrow> char" where
  "to_upper c = (if is_lower c then char_of (code c - 32) else c)"

definition py_strip :: "string \<Rightarrow> string" where
  "py_strip s = rev (dropWhile is_space (rev (dropWhile is_space s)))"

fun split_on :: "char \<Rightarrow> string \<Rightarrow> string list" where
  "split_on c [] = [[]]"
| "split_on c (x # xs) =
     (if x = c then [] # split_on c xs
      else (case split_on c xs of [] \<Rightarrow> [[x]] | w # ws \<Rightarrow> (x # w) # ws))"

text \<open>\<open>s.lower()\<close>, \<open>s.endswith(suffix)\<close>, \<open>p in s\<close>, the truth of an optional string and
  \<open>s.rstrip("/")\<close>.\<close>

definition lower :: "string \<Rightarrow> string" where
  "lower s = map to_lower s"

definition ends_with :: "string \<Rightarrow> string \<Rightarrow> bool" where
  "ends_with suffix s = (take (length suffix) (rev s) = rev suffix)"

fun has_sub :: "string \<Rightarrow> string \<Rightarrow> bool" where
  "has_sub p [] = (p = [])"
| "has_sub p (c # cs) = (take (length p) (c # cs) = p \<or> has_sub p cs)"

definition truthy_str :: "string option \<Rightarrow> bool" where
  "truthy_str o1 = (case o1 of None \<Rightarrow> False | Some s \<Rightarrow> s \<noteq> [])"

definition rstrip_slash :: "string \<Rightarrow> string" where
  "rstrip_slash s = rev (dropWhile (\<lambda>c. c = CHR ''/'') (rev s))"

lemmas [str_defs] =
  code_def is_space_def is_digit_def is_upper_def is_lower_def is_alpha_def is_alnum_def
  is_word_def to_lower_def to_upper_def py_strip_def

lemma py_strip_idem [simp]: "py_strip (py_strip s) = py_strip s"
proof -
  have "dropWhile is_space (rev (dropWhile is_space s)) = rev (py_strip s)" by (simp add: py_strip_def)
  moreover have "dropWhile is_space (py_strip s) = py_strip s"
  proof (cases "py_strip s")
    case (Cons c cs)
    have "\<not> is_space c"
    proof -
      let ?d = "dropWhile is_space s"
      obtain t where t: "?d = py_strip s @ t"
        unfolding py_strip_def by (metis rev_append rev_rev_ident takeWhile_dropWhile_id)
      with Cons have "?d = c # (cs @ t)" by simp
      then show ?thesis by (metis hd_dropWhile list.distinct(1) list.sel(1))
    qed
    with Cons show ?thesis by simp
  qed simp
  moreover have "dropWhile is_space (rev (py_strip s)) = rev (py_strip s)"
    unfolding py_strip_def by (simp add: dropWhile_idem)
  ultimately show ?thesis by (simp add: py_strip_def [of "py_strip s"])
qed

lemma split_on_nonempty [simp]: "split_on c s \<noteq> []"
  by (induction s) (auto split: list.splits)

section \<open>Integers from text and JSON\<close>

text \<open>
  \<open>int(s)\<close> on a string: surrounding whitespace, an optional sign, digits with single
  underscores between them.  \<open>int(x)\<close> on a JSON value truncates floats towards zero.
\<close>

fun digits_ok :: "string \<Rightarrow> bool" where
  "digits_ok [] = False"
| "digits_ok [c] = is_digit c"
| "digits_ok (c # d # cs) = (is_digit c \<and> (if d = CHR ''_'' then digits_ok cs else digits_ok (d # cs)))"

definition digits_value :: "string \<Rightarrow> int" where
  "digits_value s = foldl (\<lambda>n c. 10 * n + (int (code c) - 48)) 0 (filter is_digit s)"

definition parse_int :: "string \<Rightarrow> int option" where
  "parse_int s =
     (case py_strip s of
        [] \<Rightarrow> None
      | c # cs \<Rightarrow>
          if c = CHR ''-'' then (if digits_ok cs then Some (- digits_value cs) else None)
          else if c = CHR ''+'' then (if digits_ok cs then Some (digits_value cs) else None)
          else (if digits_ok (c # cs) then Some (digits_value (c # cs)) else None))"

definition trunc :: "rat \<Rightarrow> int" where
  "trunc q = (if 0 \<le> q then \<lfloor>q\<rfloor> else - \<lfloor>- q\<rfloor>)"

fun py_int :: "json \<Rightarrow> int res" where
  "py_int (JInt i) = Ret i"
| "py_int (JBool b) = Ret (of_bool b)"
| "py_int (JFloat q) = Ret (trunc q)"
| "py_int (JStr s) = (case parse_int s of None \<Rightarrow> Raise ValueError | Some i \<Rightarrow> Ret i)"
| "py_int JNull = Raise TypeError"
| "py_int (JList xs) = Raise TypeError"
| "py_int (JObj d) = Raise TypeError"

text \<open>Iterating over a JSON value in a \<open>for\<close> loop.\<close>

fun py_iter :: "json \<Rightarrow> json list res" where
  "py_iter (JList xs) = Ret xs"
| "py_iter (JStr s) = Ret (map (\<lambda>c. JStr [c]) s)"
| "py_iter (JObj d) = Ret (map (\<lambda>kv. JStr (fst kv)) d)"
| "py_iter _ = Raise TypeError"

text \<open>\<open>str(n)\<close> and \<open>f"{n}"\<close> of an int.\<close>

fun show_nat :: "nat \<Rightarrow> string" where
  "show_nat n = (if n < 10 then [char_of (48 + n)] else show_nat (n div 10) @ [char_of (48 + n mod 10)])"

definition show_int :: "int \<Rightarrow> string" where
  "show_int i = (if i < 0 then CHR ''-'' # show_nat (nat (- i)) else show_nat (nat i))"

section \<open>Typed reads\<close>

text \<open>
  A dataclass field read from JSON has the type it is declared with; a value of another JSON
  type is a \<open>TypeError\<close> of the model, at the place where the field is read.
\<close>

definition jstrs :: "string list \<Rightarrow> json" where
  "jstrs xs = JList (map JStr xs)"

fun as_str :: "json \<Rightarrow> string res" where
  "as_str (JStr s) = Ret s"
| "as_str _ = Raise TypeError"

fun as_strs :: "json \<Rightarrow> string list res" where
  "as_strs (JList xs) = res_map as_str xs"
| "as_strs _ = Raise TypeError"

fun as_integer :: "json \<Rightarrow> int res" where
  "as_integer (JInt i) = Ret i"
| "as_integer _ = Raise TypeError"

fun as_time :: "json \<Rightarrow> rat option res" where
  "as_time JNull = Ret None"
| "as_time (JFloat q) = Ret (Some q)"
| "as_time (JInt i) = Ret (Some (of_int i))"
| "as_time _ = Raise TypeError"

fun as_float :: "json \<Rightarrow> rat res" where
  "as_float (JFloat q) = Ret q"
| "as_float (JInt i) = Ret (of_int i)"
| "as_float _ = Raise TypeError"

lemma as_strs_jstrs [simp]: "as_strs (jstrs xs) = Ret xs"
  unfolding jstrs_def by (induction xs) simp_all

lemma as_time_jopt [simp]: "as_time (jopt JFloat t) = Ret t"
  by (cases t) simp_all

text \<open>\<open>E(value)\<close> for an enumeration with string values.\<close>

definition enum_of :: "('a \<Rightarrow> string) \<Rightarrow> 'a list \<Rightarrow> json \<Rightarrow> 'a res" where
  "enum_of value_of members j =
     (case find (\<lambda>m. j = JStr (value_of m)) members of Some m \<Rightarrow> Ret m | None \<Rightarrow> Raise ValueError)"

lemma enum_of_value:
  assumes "inj_on value_of (set members)" and "m \<in> set members"
  shows "enum_of value_of members (JStr (value_of m)) = Ret m"
proof -
  have "find (\<lambda>x. JStr (value_of m) = JStr (value_of x)) members = Some m"
    using assms
  proof (induction members)
    case (Cons x xs)
    have "value_of m = value_of x \<Longrightarrow> m = x" using Cons.prems by (metis inj_on_def list.set_intros(1))
    moreover have "inj_on value_of (set xs)" using Cons.prems(1) by simp
    ultimately show ?case using Cons by (cases "x = m") auto
  qed simp
  then show ?thesis by (simp add: enum_of_def)
qed

section \<open>Rounding\<close>

text \<open>Python's \<open>round(x, n)\<close>: half to even on the scaled value.\<close>

definition round_half_even :: "rat \<Rightarrow> int" where
  "round_half_even q = (let f = \<lfloor>q\<rfloor>; d = q - of_int f in
     if d < 1 / 2 then f else if 1 / 2 < d then f + 1 else if even f then f else f + 1)"

definition py_round :: "nat \<Rightarrow> rat \<Rightarrow> rat" where
  "py_round n q = of_int (round_half_even (q * 10 ^ n)) / 10 ^ n"

lemma round_half_even_of_int [simp]: "round_half_even (of_int i) = i"
  by (simp add: round_half_even_def)

lemma round_half_even_lower: "q - 1 / 2 \<le> of_int (round_half_even q)"
proof -
  have "q < of_int \<lfloor>q\<rfloor> + 1" by linarith
  then show ?thesis by (auto simp: round_half_even_def Let_def)
qed

lemma round_half_even_upper: "of_int (round_half_even q) \<le> q + 1 / 2"
proof -
  have "of_int \<lfloor>q\<rfloor> \<le> q" by (rule of_int_floor_le)
  then have "of_int \<lfloor>q\<rfloor> \<le> q + 1 / 2" by linarith
  then show ?thesis by (auto simp: round_half_even_def Let_def)
qed

lemma round_half_even_mono: "p \<le> q \<Longrightarrow> round_half_even p \<le> round_half_even q"
proof -
  assume pq: "p \<le> q"
  show ?thesis
  proof (cases "\<lfloor>p\<rfloor> = \<lfloor>q\<rfloor>")
    case True
    with pq show ?thesis by (simp add: round_half_even_def Let_def)
  next
    case False
    from pq have "\<lfloor>p\<rfloor> \<le> \<lfloor>q\<rfloor>" by (rule floor_mono)
    with False have "\<lfloor>p\<rfloor> + 1 \<le> \<lfloor>q\<rfloor>" by linarith
    moreover have "round_half_even p \<le> \<lfloor>p\<rfloor> + 1"
      by (simp add: round_half_even_def Let_def)
    moreover have "\<lfloor>q\<rfloor> \<le> round_half_even q"
      by (simp add: round_half_even_def Let_def)
    ultimately show ?thesis by linarith
  qed
qed

lemma py_round_mono: "p \<le> q \<Longrightarrow> py_round n p \<le> py_round n q"
  by (simp add: py_round_def divide_right_mono round_half_even_mono mult_right_mono)

lemma py_round_of_int [simp]: "py_round n (of_int i) = of_int i"
proof -
  have "(of_int i :: rat) * 10 ^ n = of_int (i * 10 ^ n)" by simp
  then show ?thesis by (simp only: py_round_def round_half_even_of_int) simp
qed

lemma py_round_0 [simp]: "py_round n 0 = 0"
  using py_round_of_int [of n 0] by simp

lemma py_round_1 [simp]: "py_round n 1 = 1"
  using py_round_of_int [of n 1] by simp

section \<open>Conversions\<close>

definition json_text :: "(json \<Rightarrow> string) \<Rightarrow> json \<Rightarrow> string" where
  "json_text repr v =
     (case v of
        JStr s \<Rightarrow> s
      | JInt i \<Rightarrow> show_int i
      | JBool b \<Rightarrow> if b then ''True'' else ''False''
      | JNull \<Rightarrow> ''None''
      | _ \<Rightarrow> repr v)"

text \<open>\<open>float(s)\<close> on a finite decimal literal; the literals of infinity and NaN are not numbers
  of the model.\<close>

definition parse_exponent :: "string \<Rightarrow> int option" where
  "parse_exponent e =
     (case e of
        [] \<Rightarrow> Some 0
      | _ # ds \<Rightarrow>
          (case ds of
             [] \<Rightarrow> None
           | c # cs \<Rightarrow>
               if c = CHR ''-'' then (if digits_ok cs then Some (- digits_value cs) else None)
               else if c = CHR ''+'' then (if digits_ok cs then Some (digits_value cs) else None)
               else (if digits_ok ds then Some (digits_value ds) else None)))"

definition parse_decimal :: "string \<Rightarrow> rat option" where
  "parse_decimal u =
     (let m = takeWhile (\<lambda>c. c \<noteq> CHR ''e'' \<and> c \<noteq> CHR ''E'') u;
          ip = takeWhile (\<lambda>c. c \<noteq> CHR ''.'') m;
          fp = drop (length ip + 1) m
      in if (ip = [] \<and> fp = []) \<or> (ip \<noteq> [] \<and> \<not> digits_ok ip) \<or> (fp \<noteq> [] \<and> \<not> digits_ok fp) then None
         else case parse_exponent (drop (length m) u) of
                None \<Rightarrow> None
              | Some e \<Rightarrow>
                  (let v = of_int (digits_value ip) + of_int (digits_value fp) / 10 ^ length (filter is_digit fp)
                   in Some (if 0 \<le> e then v * 10 ^ nat e else v / 10 ^ nat (- e))))"

definition parse_float :: "string \<Rightarrow> rat option" where
  "parse_float s =
     (case py_strip s of
        [] \<Rightarrow> None
      | c # cs \<Rightarrow>
          if c = CHR ''-'' then map_option uminus (parse_decimal cs)
          else if c = CHR ''+'' then parse_decimal cs
          else parse_decimal (c # cs))"

fun py_float :: "json \<Rightarrow> rat res" where
  "py_float (JFloat q) = Ret q"
| "py_float (JInt i) = Ret (of_int i)"
| "py_float (JBool b) = Ret (of_bool b)"
| "py_float (JStr s) = (case parse_float s of None \<Rightarrow> Raise ValueError | Some q \<Rightarrow> Ret q)"
| "py_float JNull = Raise TypeError"
| "py_float (JList xs) = Raise TypeError"
| "py_float (JObj d) = Raise TypeError"

text \<open>\<open>sep.join(words)\<close>.\<close>

fun join_with :: "string \<Rightarrow> string list \<Rightarrow> string" where
  "join_with sep [] = []"
| "join_with sep [w] = w"
| "join_with sep (w # ws) = w @ sep @ join_with sep ws"

text \<open>\<open>except (TypeError, ValueError) as exc: raise E\<close> and the variant that also catches
  \<open>KeyError\<close>.\<close>

definition recast :: "exn \<Rightarrow> 'a res \<Rightarrow> 'a res" where
  "recast e r = (case r of Ret x \<Rightarrow> Ret x | Raise x \<Rightarrow> Raise (if x = TypeError \<or> x = ValueError then e else x))"

definition is_KeyError :: "exn \<Rightarrow> bool" where
  "is_KeyError e = (case e of KeyError _ \<Rightarrow> True | _ \<Rightarrow> False)"

definition or_empty :: "json \<Rightarrow> json" where
  "or_empty v = (if truthy v then v else JObj [])"

section \<open>Files\<close>

text \<open>What a call of \<open>write_text\<close> may do: write, fail before the file is opened, or fail after it has
  been truncated.\<close>

datatype write_outcome = Written | NotWritten | Truncated

end
