(* ===== verification/Redaction.thy ===== *)
theory Redaction
  imports Prelude
begin

text \<open>
  \<open>orchestrator/redaction.py\<close> and \<open>orchestrator/memory_governance.py\<close>: the filter every
  payload passes before it reaches the durable event log.  The secret patterns are
  regular expressions that are sequences of bounded repetitions and word boundaries;
  \<open>rmatch\<close> is Python's greedy, backtracking match of such a sequence and \<open>re_sub\<close> the
  left-to-right substitution of \<open>re.sub\<close>.
\<close>

section \<open>The pattern matcher\<close>

datatype ritem = Bound | Rep nat "nat option" "char \<Rightarrow> bool"

definition lit :: "string \<Rightarrow> ritem list" where
  "lit s = map (\<lambda>c. Rep 1 (Some 1) (\<lambda>x. x = c)) s"

definition ilit :: "string \<Rightarrow> ritem list" where
  "ilit s = map (\<lambda>c. Rep 1 (Some 1) (\<lambda>x. to_lower x = to_lower c)) s"

definition word_at :: "char option \<Rightarrow> bool" where
  "word_at o' = (case o' of None \<Rightarrow> False | Some c \<Rightarrow> is_word c)"

definition head_opt :: "string \<Rightarrow> char option" where
  "head_opt s = (case s of [] \<Rightarrow> None | c # _ \<Rightarrow> Some c)"

text \<open>The longest run of characters satisfying \<open>p\<close>, at most \<open>hi\<close> of them.\<close>

definition run_length :: "(char \<Rightarrow> bool) \<Rightarrow> nat option \<Rightarrow> string \<Rightarrow> nat" where
  "run_length p hi s = (let n = length (takeWhile p s) in
     case hi of None \<Rightarrow> n | Some h \<Rightarrow> min h n)"

definition prev_after :: "nat \<Rightarrow> char option \<Rightarrow> string \<Rightarrow> char option" where
  "prev_after k prev s = (if k = 0 then prev else Some (s ! (k - 1)))"

fun first_some :: "'a option list \<Rightarrow> 'a option" where
  "first_some [] = None"
| "first_some (None # xs) = first_some xs"
| "first_some (Some x # xs) = Some x"

fun rmatch :: "ritem list \<Rightarrow> char option \<Rightarrow> string \<Rightarrow> nat option" where
  "rmatch [] prev s = Some 0"
| "rmatch (Bound # r) prev s =
     (if word_at prev \<noteq> word_at (head_opt s) then rmatch r prev s else None)"
| "rmatch (Rep lo hi p # r) prev s =
     first_some (map (\<lambda>k. map_option ((+) k) (rmatch r (prev_after k prev s) (drop k s)))
       (rev [lo ..< Suc (run_length p hi s)]))"

definition REDACTED :: string where
  "REDACTED = ''[REDACTED]''"

function re_sub :: "ritem list \<Rightarrow> char option \<Rightarrow> string \<Rightarrow> string" where
  "re_sub pat prev [] = []"
| "re_sub pat prev (c # cs) =
     (case rmatch pat prev (c # cs) of
        Some (Suc n) \<Rightarrow> REDACTED @ re_sub pat (Some ((c # cs) ! n)) (drop n cs)
      | _ \<Rightarrow> c # re_sub pat (Some c) cs)"
  by pat_completeness auto
termination
  by (relation "measure (\<lambda>(pat, prev, s). length s)") auto

fun re_search :: "ritem list \<Rightarrow> char option \<Rightarrow> string \<Rightarrow> bool" where
  "re_search pat prev [] = (rmatch pat prev [] \<noteq> None)"
| "re_search pat prev (c # cs) =
     (rmatch pat prev (c # cs) \<noteq> None \<or> re_search pat (Some c) cs)"

section \<open>The secret patterns\<close>

definition among :: "string \<Rightarrow> char \<Rightarrow> bool" where
  "among extra c = (is_alnum c \<or> c \<in> set extra)"

definition google_api_key :: "ritem list" where
  "google_api_key = lit ''AIza'' @ [Rep 20 None (among ''_-'')]"

definition telegram_bot_token :: "ritem list" where
  "telegram_bot_token =
     Bound # Rep 8 (Some 10) is_digit # lit '':'' @ [Rep 30 None (among ''_-''), Bound]"

definition github_pat :: "ritem list" where
  "github_pat = Bound # lit ''ghp_'' @ [Rep 20 None is_alnum, Bound]"

definition openai_api_key :: "ritem list" where
  "openai_api_key = Bound # lit ''sk-'' @ [Rep 20 None is_alnum, Bound]"

definition anthropic_api_key :: "ritem list" where
  "anthropic_api_key = Bound # lit ''sk-ant-'' @ [Rep 20 None (among ''_-''), Bound]"

definition bearer_token :: "ritem list" where
  "bearer_token =
     Bound # ilit ''Bearer'' @ [Rep 1 None is_space, Rep 20 None (among ''._-''), Bound]"

definition SECRET_PATTERNS :: "ritem list list" where
  "SECRET_PATTERNS =
     [google_api_key, telegram_bot_token, github_pat, openai_api_key, anthropic_api_key,
      bearer_token]"

definition EMAIL_PATTERN :: "ritem list" where
  "EMAIL_PATTERN =
     Bound # Rep 1 None (among ''._%+-'') # lit ''@'' @ [Rep 1 None (among ''.-'')] @
     lit ''.'' @ [Rep 2 None is_alpha, Bound]"

definition CREDENTIAL_KEYS :: "string list" where
  "CREDENTIAL_KEYS =
     [''api_key'', ''apiKey'', ''token'', ''secret'', ''password'', ''authorization'', ''botToken'',
      ''paths'', ''path'', ''backend_urls'', ''backend_url'', ''openclaw_config'', ''metadata'']"

definition CONTENT_KEYS :: "string list" where
  "CONTENT_KEYS =
     [''raw_prompt'', ''prompt'', ''transcript'', ''messages'', ''tool_trace'', ''tool_traces'',
      ''chain_of_thought'', ''model_internals'']"

section \<open>Redaction\<close>

definition redact_text :: "string \<Rightarrow> string" where
  "redact_text value =
     (if value = [] then value
      else (let redacted = fold (\<lambda>pattern s. re_sub pattern None s) SECRET_PATTERNS value
            in re_sub EMAIL_PATTERN None redacted))"

fun redact_value :: "json \<Rightarrow> json"
  and redact_items :: "json list \<Rightarrow> json list"
  and redact_mapping :: "payload \<Rightarrow> payload" where
  "redact_value (JStr s) = JStr (redact_text s)"
| "redact_value (JObj d) = JObj (redact_mapping d)"
| "redact_value (JList xs) = JList (redact_items xs)"
| "redact_value JNull = JNull"
| "redact_value (JBool b) = JBool b"
| "redact_value (JInt i) = JInt i"
| "redact_value (JFloat q) = JFloat q"
| "redact_items [] = []"
| "redact_items (x # xs) = redact_value x # redact_items xs"
| "redact_mapping [] = []"
| "redact_mapping ((key, value) # rest) =
     (if key \<in> set CREDENTIAL_KEYS then (key, JStr REDACTED)
      else if key \<in> set CONTENT_KEYS then (key, redact_value value)
      else (key, redact_value value)) # redact_mapping rest"

definition contains_secret :: "string \<Rightarrow> bool" where
  "contains_secret value =
     (if value = [] then False else (\<exists>pattern \<in> set SECRET_PATTERNS. re_search pattern None value))"

section \<open>Memory governance\<close>

definition classify_event :: "string \<Rightarrow> payload \<Rightarrow> string" where
  "classify_event event_type p =
     (if event_type = ''error'' then ''error''
      else if event_type = ''route'' then ''routing''
      else if event_type \<in> {''dispatch'', ''result''} \<or> ''prompt'' \<in> fst ` set p
              \<or> ''messages'' \<in> fst ` set p then ''prompt''
      else if event_type = ''heartbeat'' then ''heartbeat''
      else ''operational'')"

text \<open>\<open>py_str\<close> is Python's \<open>str\<close> on the payload dictionary.\<close>

definition classify_and_redact ::
  "(payload \<Rightarrow> string) \<Rightarrow> payload \<Rightarrow> string \<Rightarrow> payload \<times> string" where
  "classify_and_redact py_str p event_type =
     (let memory_class = classify_event event_type p;
          redacted = AList.update ''_memory_class'' (JStr memory_class) (redact_mapping p);
          redacted = (if contains_secret (py_str p)
                      then AList.update ''_redaction_applied'' (JBool True) redacted
                      else redacted)
      in (redacted, memory_class))"

section \<open>Matching consumes a bounded, non-empty prefix\<close>

fun item_min :: "ritem \<Rightarrow> nat" where
  "item_min Bound = 0"
| "item_min (Rep lo hi p) = lo"

definition min_len :: "ritem list \<Rightarrow> nat" where
  "min_len pat = sum_list (map item_min pat)"

lemma min_len_simps [simp]:
  "min_len [] = 0" "min_len (Bound # r) = min_len r" "min_len (Rep lo hi p # r) = lo + min_len r"
  "min_len (a @ b) = min_len a + min_len b"
  by (simp_all add: min_len_def)

lemma min_len_lit [simp]: "min_len (lit s) = length s" "min_len (ilit s) = length s"
  by (induction s) (simp_all add: lit_def ilit_def)

lemma first_some_mem: "first_some xs = Some x \<Longrightarrow> Some x \<in> set xs"
  by (induction xs rule: first_some.induct) auto

lemma run_length_le: "run_length p hi s \<le> length s"
  by (auto simp: run_length_def Let_def length_takeWhile_le min.coboundedI2 split: option.splits)

lemma run_length_holds: "i < run_length p hi s \<Longrightarrow> p (s ! i)"
proof -
  assume "i < run_length p hi s"
  then have i: "i < length (takeWhile p s)"
    by (auto simp: run_length_def Let_def split: option.splits)
  then have "p (takeWhile p s ! i)" by (meson nth_mem set_takeWhileD)
  with i show ?thesis by (simp add: takeWhile_nth)
qed

lemma rmatch_Rep_elim:
  assumes "rmatch (Rep lo hi p # r) prev s = Some n"
  obtains k m where "lo \<le> k" "k \<le> run_length p hi s"
    "rmatch r (prev_after k prev s) (drop k s) = Some m" "n = k + m"
proof -
  from assms have "Some n \<in> (\<lambda>k. map_option ((+) k) (rmatch r (prev_after k prev s) (drop k s)))
      ` set (rev [lo ..< Suc (run_length p hi s)])"
    using first_some_mem by fastforce
  then obtain k where "k \<in> set (rev [lo ..< Suc (run_length p hi s)])"
    and "Some n = map_option ((+) k) (rmatch r (prev_after k prev s) (drop k s))"
    by blast
  then show ?thesis using that by (auto simp: map_option_case split: option.splits)
qed

lemma rmatch_bounds: "rmatch pat prev s = Some n \<Longrightarrow> min_len pat \<le> n \<and> n \<le> length s"
proof (induction pat arbitrary: prev s n)
  case Nil
  then show ?case by simp
next
  case (Cons it r)
  show ?case
  proof (cases it)
    case Bound
    with Cons show ?thesis by (auto split: if_splits)
  next
    case (Rep lo hi p)
    with Cons.prems obtain k m where k: "lo \<le> k" "k \<le> run_length p hi s"
      "rmatch r (prev_after k prev s) (drop k s) = Some m" "n = k + m"
      by (auto elim: rmatch_Rep_elim simp del: rmatch.simps)
    from Cons.IH [OF k(3)] k Rep run_length_le [of p hi s] show ?thesis by auto
  qed
qed

lemma rmatch_uses:
  "rmatch pat prev s = Some n \<Longrightarrow> Rep lo hi p \<in> set pat \<Longrightarrow> 0 < lo \<Longrightarrow> \<exists>c \<in> set s. p c"
proof (induction pat arbitrary: prev s n)
  case Nil
  then show ?case by simp
next
  case (Cons it r)
  show ?case
  proof (cases it)
    case Bound
    with Cons show ?thesis by (auto split: if_splits)
  next
    case (Rep lo' hi' p')
    with Cons.prems(1) obtain k m where k: "lo' \<le> k" "k \<le> run_length p' hi' s"
      "rmatch r (prev_after k prev s) (drop k s) = Some m"
      by (auto elim: rmatch_Rep_elim simp del: rmatch.simps)
    show ?thesis
    proof (cases "Rep lo hi p \<in> set r")
      case True
      from Cons.IH [OF k(3) True Cons.prems(3)] show ?thesis by (auto dest: in_set_dropD)
    next
      case False
      with Cons.prems Rep have eq: "lo = lo'" "hi = hi'" "p = p'" by auto
      with Cons.prems(3) k have pos: "0 < run_length p hi s" by auto
      with run_length_le [of p hi s] have "0 < length s" by linarith
      then have "s ! 0 \<in> set s" by (rule nth_mem)
      with run_length_holds [OF pos] show ?thesis by blast
    qed
  qed
qed

lemma re_sub_id:
  "(\<And>prev' us vs. s = us @ vs \<Longrightarrow> vs \<noteq> [] \<Longrightarrow> rmatch pat prev' vs = None) \<Longrightarrow> re_sub pat prev s = s"
proof (induction s arbitrary: prev)
  case Nil
  then show ?case by simp
next
  case (Cons c cs)
  have "rmatch pat prev (c # cs) = None" using Cons.prems [of "[]"] by simp
  moreover have "re_sub pat (Some c) cs = cs"
  proof (rule Cons.IH)
    fix prev' us vs assume "cs = us @ vs" "vs \<noteq> []"
    then show "rmatch pat prev' vs = None" using Cons.prems [of "c # us" vs] by simp
  qed
  ultimately show ?case by simp
qed

lemma re_sub_short: "length s < min_len pat \<Longrightarrow> re_sub pat prev s = s"
proof (rule re_sub_id)
  fix prev' us vs assume "length s < min_len pat" "s = us @ vs"
  then have "length vs < min_len pat" by simp
  then show "rmatch pat prev' vs = None"
    using rmatch_bounds [of pat prev' vs] by (cases "rmatch pat prev' vs") auto
qed

lemma re_sub_missing:
  assumes "Rep lo hi p \<in> set pat" and "0 < lo" and "\<not> (\<exists>c \<in> set s. p c)"
  shows "re_sub pat prev s = s"
proof (rule re_sub_id)
  fix prev' us vs assume "s = us @ vs"
  with assms(3) have "\<not> (\<exists>c \<in> set vs. p c)" by auto
  then show "rmatch pat prev' vs = None"
    using rmatch_uses [OF _ assms(1,2)] by (cases "rmatch pat prev' vs") blast+
qed

lemma SECRET_PATTERNS_min_len: "pat \<in> set SECRET_PATTERNS \<Longrightarrow> 23 \<le> min_len pat"
  by (auto simp: SECRET_PATTERNS_def google_api_key_def telegram_bot_token_def github_pat_def
      openai_api_key_def anthropic_api_key_def bearer_token_def)

lemma fold_re_sub_short:
  "length s < 23 \<Longrightarrow> set pats \<subseteq> set SECRET_PATTERNS \<Longrightarrow>
   fold (\<lambda>pattern s. re_sub pattern None s) pats s = s"
proof (induction pats)
  case Nil
  then show ?case by simp
next
  case (Cons p pats)
  then have "23 \<le> min_len p" by (simp add: SECRET_PATTERNS_min_len)
  with Cons show ?case by (simp add: re_sub_short)
qed

text \<open>A short string without an at-sign is stored unchanged.\<close>

lemma redact_text_short [simp]:
  assumes "length s < 23" and "CHR ''@'' \<notin> set s"
  shows "redact_text s = s"
proof -
  have "Rep 1 (Some 1) (\<lambda>x. x = CHR ''@'') \<in> set EMAIL_PATTERN"
    by (simp add: EMAIL_PATTERN_def lit_def)
  with assms have "re_sub EMAIL_PATTERN None s = s"
    by (intro re_sub_missing [where lo = 1]) auto
  with assms show ?thesis
    by (simp add: redact_text_def fold_re_sub_short Let_def)
qed

section \<open>Redaction keeps the shape of a payload\<close>

lemma keys_redact_mapping [simp]: "map fst (redact_mapping d) = map fst d"
  by (induction d) auto

lemma map_of_redact_mapping [dict_simps]:
  "map_of (redact_mapping d) k =
     (case map_of d k of None \<Rightarrow> None
      | Some v \<Rightarrow> Some (if k \<in> set CREDENTIAL_KEYS then JStr REDACTED else redact_value v))"
  by (induction d) auto

lemma redact_text_Nil [simp]: "redact_text [] = []"
  by (simp add: redact_text_def)

text \<open>What reaches the durable store: the redacted payload without the governance markers.\<close>

definition durable :: "payload \<Rightarrow> payload" where
  "durable p =
     AList.delete ''_redaction_applied'' (AList.delete ''_memory_class'' (redact_mapping p))"

lemma delete_update_same: "AList.delete k (AList.update k v d) = AList.delete k d"
  by (induction d) auto

lemma delete_update_other: "k \<noteq> k' \<Longrightarrow> AList.delete k (AList.update k' v d) = AList.update k' v (AList.delete k d)"
  by (induction d) auto

text \<open>
  The durable payload does not depend on whether \<open>str(payload)\<close> was seen to hold a secret.
\<close>

lemma classify_and_redact_durable:
  "AList.delete ''_redaction_applied''
     (AList.delete ''_memory_class'' (fst (classify_and_redact py_str p et))) = durable p"
  by (simp add: classify_and_redact_def durable_def Let_def delete_update_same
      delete_update_other)

lemma dict_ok_durable [simp]: "dict_ok p \<Longrightarrow> dict_ok (durable p)"
  by (simp add: durable_def)

lemma map_of_durable [dict_simps]:
  "map_of (durable p) k =
     (if k = ''_memory_class'' \<or> k = ''_redaction_applied'' then None
      else map_of (redact_mapping p) k)"
  by (simp add: durable_def map_of_delete)

end
