(* ===== verification/GossipBus.thy ===== *)
theory GossipBus
  imports Redaction
begin

text \<open>
  \<open>orchestrator/gossip_bus.py\<close>: the append-only SQLite event log every coordination
  component reads and writes.  The state is the \<open>gossip\<close> table with its AUTOINCREMENT
  counter, the \<open>task_claims\<close> table that lives in the same database, and the process-wide
  set of pending embeddings.  The wall clock, \<open>uuid4\<close>, the worktree label, the
  environment variable \<open>PT_AGENT_ID\<close> and SQLite's lock outcomes are inputs (\<open>run_env\<close>);
  all clock readings of one operation return the same instant.
\<close>

section \<open>State and environment\<close>

record gossip_row =
  row_id :: nat
  event_uuid :: string
  row_ts :: rat
  event_type :: string
  row_payload :: payload
  embed_status :: string

record bus =
  gossip :: "gossip_row list"
  gossip_seq :: nat
  task_claims :: "(string, string \<times> rat) dict"
  pending_embeds :: "nat list"

definition empty_bus :: bus where
  "empty_bus = \<lparr>gossip = [], gossip_seq = 0, task_claims = [], pending_embeds = []\<rparr>"

text \<open>The outcome of one attempt to take SQLite's write lock.\<close>

datatype db_outcome = Acquired | Locked | Broken

record run_env =
  now :: rat
  worktree_label :: string
  pt_agent_id :: "string option"
  py_str :: "payload \<Rightarrow> string"
  uuid4 :: "nat \<Rightarrow> string"
  lock_attempt :: "nat \<Rightarrow> db_outcome"
  emit_ok :: bool

section \<open>Writing\<close>

definition MAX_PENDING :: nat where
  "MAX_PENDING = 500"

definition find_uuid :: "string \<Rightarrow> bus \<Rightarrow> gossip_row option" where
  "find_uuid u b = find (\<lambda>r. event_uuid r = u) (gossip b)"

text \<open>
  \<open>INSERT OR IGNORE\<close> under the unique index on \<open>event_uuid\<close>: a duplicate leaves the table
  unchanged and the stored row is returned, stripped of the governance markers.
  \<open>draw\<close> numbers the \<open>uuid4\<close> draws of the calling operation.
\<close>

definition insert_event ::
  "run_env \<Rightarrow> nat \<Rightarrow> bus \<Rightarrow> string \<Rightarrow> payload \<Rightarrow> rat option \<Rightarrow> string option
   \<Rightarrow> (nat \<times> string \<times> payload \<times> bool) \<times> bus" where
  "insert_event env draw b ev_type p timestamp uuid =
     (let safe_payload = fst (classify_and_redact (py_str env) p ev_type);
          durable_payload = AList.delete ''_redaction_applied''
                              (AList.delete ''_memory_class'' safe_payload);
          u = (case uuid of None \<Rightarrow> uuid4 env draw | Some u \<Rightarrow> if u = [] then uuid4 env draw else u);
          ts = (case timestamp of None \<Rightarrow> now env | Some t \<Rightarrow> t)
      in case find_uuid u b of
           Some row \<Rightarrow>
             ((row_id row, u,
               AList.delete ''_redaction_applied''
                 (AList.delete ''_memory_class'' (row_payload row)), False), b)
         | None \<Rightarrow>
             ((Suc (gossip_seq b), u, durable_payload, True),
              b\<lparr>gossip := gossip b @ [\<lparr>row_id = Suc (gossip_seq b), event_uuid = u, row_ts = ts,
                   event_type = ev_type, row_payload = durable_payload,
                   embed_status = ''pending''\<rparr>],
                gossip_seq := Suc (gossip_seq b)\<rparr>))"

definition schedule_embedding :: "nat \<Rightarrow> bus \<Rightarrow> bus" where
  "schedule_embedding rid b =
     (if MAX_PENDING \<le> length (pending_embeds b) then b
      else b\<lparr>pending_embeds := pending_embeds b @ [rid]\<rparr>)"

text \<open>\<open>insert_event\<close>, commit, then embedding for genuinely new rows.\<close>

definition insert_and_schedule ::
  "run_env \<Rightarrow> nat \<Rightarrow> bus \<Rightarrow> string \<Rightarrow> payload \<Rightarrow> string option \<Rightarrow> string \<times> bus" where
  "insert_and_schedule env draw b ev_type p uuid =
     (case insert_event env draw b ev_type p None uuid of
        ((rid, u, safe_payload, inserted), b') \<Rightarrow>
          (u, if inserted then schedule_embedding rid b' else b'))"

definition extract_forwarded_uuid ::
  "payload \<Rightarrow> string option \<Rightarrow> payload \<times> string option" where
  "extract_forwarded_uuid p uuid =
     (if uuid \<noteq> None then (p, uuid)
      else case jget p ''_gossip_uuid'' of
             JStr u \<Rightarrow> if u = [] then (p, uuid) else (AList.delete ''_gossip_uuid'' p, Some u)
           | _ \<Rightarrow> (p, uuid))"

definition emit ::
  "run_env \<Rightarrow> nat \<Rightarrow> bus \<Rightarrow> string \<Rightarrow> payload \<Rightarrow> string option \<Rightarrow> string res \<times> bus" where
  "emit env draw b ev_type p uuid =
     (case extract_forwarded_uuid p uuid of (p', uuid') \<Rightarrow>
        if \<not> emit_ok env then (Raise GossipBusError, b)
        else (case insert_and_schedule env draw b ev_type p' uuid' of (u, b') \<Rightarrow> (Ret u, b')))"

text \<open>The background embedding task: its outcome is written back to the row.\<close>

definition update_embed_status :: "nat \<Rightarrow> string \<Rightarrow> bus \<Rightarrow> bus" where
  "update_embed_status rid status b =
     b\<lparr>gossip := map (\<lambda>r. if row_id r = rid then r\<lparr>embed_status := status\<rparr> else r) (gossip b)\<rparr>"

definition embed_and_store :: "bool \<Rightarrow> nat \<Rightarrow> bus \<Rightarrow> bus" where
  "embed_and_store stored rid b =
     (let b' = update_embed_status rid (if stored then ''embedded'' else ''failed'') b
      in b'\<lparr>pending_embeds := filter (\<lambda>x. x \<noteq> rid) (pending_embeds b')\<rparr>)"

section \<open>Reading\<close>

text \<open>\<open>SELECT ... WHERE P ORDER BY id ASC\<close>.\<close>

definition select_asc :: "(gossip_row \<Rightarrow> bool) \<Rightarrow> bus \<Rightarrow> gossip_row list" where
  "select_asc P b = sort_key row_id (filter P (gossip b))"

definition tail :: "bus \<Rightarrow> nat \<Rightarrow> string option \<Rightarrow> gossip_row list" where
  "tail b limit ev_type =
     (case ev_type of
        Some t \<Rightarrow> if t \<noteq> [] then take limit (rev (select_asc (\<lambda>r. event_type r = t) b))
                  else take limit (rev (select_asc (\<lambda>_. True) b))
      | None \<Rightarrow> take limit (rev (select_asc (\<lambda>_. True) b)))"

text \<open>\<open>json_extract(payload_json, '$.kind') IN (kinds)\<close> on heartbeat rows.\<close>

definition kind_in :: "string list \<Rightarrow> payload \<Rightarrow> bool" where
  "kind_in kinds p = (\<exists>k \<in> set kinds. jget p ''kind'' = JStr k)"

definition heartbeat_row :: "string list \<Rightarrow> gossip_row \<Rightarrow> bool" where
  "heartbeat_row kinds r = (event_type r = ''heartbeat'' \<and> kind_in kinds (row_payload r))"

section \<open>Query sanitising\<close>

definition FTS5_OPERATORS :: string where
  "FTS5_OPERATORS = [CHR 0x22, CHR 0x27] @ '':*+-()[]{}^''"

definition FTS5_KEYWORDS :: "string list" where
  "FTS5_KEYWORDS = [''AND'', ''OR'', ''NOT'', ''NEAR'']"

text \<open>\<open>str.split()\<close> and \<open>" ".join\<close>.\<close>

fun ws_split :: "string \<Rightarrow> string \<Rightarrow> string list" where
  "ws_split acc [] = (if acc = [] then [] else [rev acc])"
| "ws_split acc (c # cs) =
     (if is_space c then (if acc = [] then ws_split [] cs else rev acc # ws_split [] cs)
      else ws_split (c # acc) cs)"

definition sanitize_fts_query :: "string \<Rightarrow> string" where
  "sanitize_fts_query query =
     (if query = [] then []
      else (let cleaned = map (\<lambda>c. if c \<in> set FTS5_OPERATORS then CHR '' '' else c) query;
                tokens = map (\<lambda>t. if t \<in> set FTS5_KEYWORDS then map to_lower t else t)
                           (ws_split [] cleaned)
            in py_strip (join_with '' '' tokens)))"

section \<open>The log invariant\<close>

definition bus_ok :: "bus \<Rightarrow> bool" where
  "bus_ok b \<longleftrightarrow>
     sorted_wrt (<) (map row_id (gossip b)) \<and>
     (\<forall>r \<in> set (gossip b). row_id r \<le> gossip_seq b) \<and>
     distinct (map event_uuid (gossip b)) \<and>
     (\<forall>r \<in> set (gossip b). dict_ok (row_payload r)) \<and>
     dict_ok (task_claims b)"

definition fresh_uuid :: "string \<Rightarrow> bus \<Rightarrow> bool" where
  "fresh_uuid u b = (u \<notin> event_uuid ` set (gossip b))"

lemma find_uuid_None: "find_uuid u b = None \<longleftrightarrow> fresh_uuid u b"
  by (auto simp: find_uuid_def fresh_uuid_def find_None_iff)

lemma find_uuid_Some: "find_uuid u b = Some r \<Longrightarrow> r \<in> set (gossip b) \<and> event_uuid r = u"
  by (auto simp: find_uuid_def find_Some_iff)

lemma bus_ok_empty [inv_intros]: "bus_ok empty_bus"
  by (simp add: bus_ok_def empty_bus_def)

lemma select_asc_filter: "bus_ok b \<Longrightarrow> select_asc P b = filter P (gossip b)"
proof -
  assume "bus_ok b"
  then have "sorted (map row_id (gossip b))"
    by (simp add: bus_ok_def strict_sorted_imp_sorted)
  then have "sorted (map row_id (filter P (gossip b)))" by (rule sorted_filter)
  then show ?thesis by (simp add: select_asc_def sort_key_id_if_sorted)
qed

section \<open>The log as an interface\<close>

text \<open>
  What the folds over the log rely on: a write appends exactly one event, and every view
  that is a fold of the selected events advances by that event.
\<close>

locale event_log =
  fixes inv :: "'s \<Rightarrow> bool"
    and admits :: "'e \<Rightarrow> 's \<Rightarrow> bool"
    and append_ev :: "'e \<Rightarrow> 's \<Rightarrow> 's"
    and events :: "'s \<Rightarrow> 'r list"
    and stored :: "'e \<Rightarrow> 's \<Rightarrow> 'r"
  assumes inv_append: "inv s \<Longrightarrow> admits e s \<Longrightarrow> inv (append_ev e s)"
    and events_append: "inv s \<Longrightarrow> admits e s \<Longrightarrow> events (append_ev e s) = events s @ [stored e s]"
begin

lemma selected_append:
  assumes "inv s" and "admits e s"
  shows "filter P (events (append_ev e s)) =
         filter P (events s) @ (if P (stored e s) then [stored e s] else [])"
  using events_append [OF assms] by simp

lemma fold_append:
  assumes "inv s" and "admits e s"
  shows "fold f (filter P (events (append_ev e s))) a =
         (if P (stored e s) then f (stored e s) (fold f (filter P (events s)) a)
          else fold f (filter P (events s)) a)"
  using selected_append [OF assms] by simp

lemma history_kept:
  assumes "inv s" and "admits e s" and "r \<in> set (events s)"
  shows "r \<in> set (events (append_ev e s))"
  using events_append [OF assms(1,2)] assms(3) by simp

end

text \<open>An event as the bus receives it: environment, draw number, type, payload, identity.\<close>

type_synonym bus_event = "run_env \<times> nat \<times> string \<times> payload \<times> string option"

fun event_identity :: "bus_event \<Rightarrow> string" where
  "event_identity (env, draw, t, p, uuid) =
     (case uuid of None \<Rightarrow> uuid4 env draw | Some u \<Rightarrow> if u = [] then uuid4 env draw else u)"

fun admissible :: "bus_event \<Rightarrow> bus \<Rightarrow> bool" where
  "admissible (env, draw, t, p, uuid) b =
     (dict_ok p \<and> fresh_uuid (event_identity (env, draw, t, p, uuid)) b)"

fun bus_append :: "bus_event \<Rightarrow> bus \<Rightarrow> bus" where
  "bus_append (env, draw, t, p, uuid) b = snd (insert_and_schedule env draw b t p uuid)"

fun bus_stored :: "bus_event \<Rightarrow> bus \<Rightarrow> gossip_row" where
  "bus_stored (env, draw, t, p, uuid) b =
     \<lparr>row_id = Suc (gossip_seq b), event_uuid = event_identity (env, draw, t, p, uuid),
      row_ts = now env, event_type = t, row_payload = durable p, embed_status = ''pending''\<rparr>"

lemma schedule_embedding_fields [simp]:
  "gossip (schedule_embedding n b) = gossip b"
  "gossip_seq (schedule_embedding n b) = gossip_seq b"
  "task_claims (schedule_embedding n b) = task_claims b"
  by (simp_all add: schedule_embedding_def)

lemma insert_fresh:
  assumes "fresh_uuid (event_identity (env, draw, t, p, uuid)) b"
  shows "insert_event env draw b t p None uuid =
    ((Suc (gossip_seq b), event_identity (env, draw, t, p, uuid), durable p, True),
     b\<lparr>gossip := gossip b @ [bus_stored (env, draw, t, p, uuid) b],
       gossip_seq := Suc (gossip_seq b)\<rparr>)"
  using assms find_uuid_None [of "event_identity (env, draw, t, p, uuid)" b]
  by (simp add: insert_event_def Let_def classify_and_redact_durable)

lemma insert_duplicate:
  assumes "\<not> fresh_uuid (event_identity (env, draw, t, p, uuid)) b"
  shows "snd (insert_event env draw b t p ts uuid) = b"
    and "snd (snd (snd (fst (insert_event env draw b t p ts uuid)))) = False"
  using assms find_uuid_None [of "event_identity (env, draw, t, p, uuid)" b]
  by (auto simp: insert_event_def Let_def split: option.splits)

lemma bus_append_fields:
  assumes "fresh_uuid (event_identity e) b"
  shows "gossip (bus_append e b) = gossip b @ [bus_stored e b]"
    and "gossip_seq (bus_append e b) = Suc (gossip_seq b)"
    and "task_claims (bus_append e b) = task_claims b"
proof -
  obtain env draw t p uuid where e: "e = (env, draw, t, p, uuid)" by (cases e)
  show "gossip (bus_append e b) = gossip b @ [bus_stored e b]"
    "gossip_seq (bus_append e b) = Suc (gossip_seq b)"
    "task_claims (bus_append e b) = task_claims b"
    using insert_fresh [of env draw t p uuid b] assms e
    by (simp_all add: insert_and_schedule_def)
qed

lemma bus_ok_append:
  assumes "bus_ok b" and "admissible e b"
  shows "bus_ok (bus_append e b)"
proof -
  obtain env draw t p uuid where e: "e = (env, draw, t, p, uuid)" by (cases e)
  from assms e have fresh: "fresh_uuid (event_identity e) b" by simp
  have "sorted_wrt (<) (map row_id (gossip b @ [bus_stored e b]))"
    using assms(1) e by (fastforce simp: bus_ok_def sorted_wrt_append)
  moreover have "distinct (map event_uuid (gossip b @ [bus_stored e b]))"
    using assms(1) fresh e by (auto simp: bus_ok_def fresh_uuid_def)
  ultimately show ?thesis
    using assms e bus_append_fields [OF fresh] by (auto simp: bus_ok_def)
qed

interpretation bus_log: event_log bus_ok admissible bus_append gossip bus_stored
proof
  fix b e assume "bus_ok b" "admissible e b"
  then show "bus_ok (bus_append e b)" by (rule bus_ok_append)
next
  fix b e assume "bus_ok b" "admissible e b"
  then have "fresh_uuid (event_identity e) b" by (cases e) simp
  then show "gossip (bus_append e b) = gossip b @ [bus_stored e b]" by (rule bus_append_fields)
qed

lemma select_asc_append:
  assumes "bus_ok b" and "admissible e b"
  shows "select_asc P (bus_append e b) =
         select_asc P b @ (if P (bus_stored e b) then [bus_stored e b] else [])"
  using bus_log.selected_append [OF assms] select_asc_filter assms(1) bus_ok_append [OF assms]
  by simp

lemma emit_simps:
  assumes "emit_ok env" and "map_of p ''_gossip_uuid'' = None"
  shows "emit env draw b t p uuid = (Ret (event_identity (env, draw, t, p, uuid)), bus_append (env, draw, t, p, uuid) b)"
proof -
  have x: "extract_forwarded_uuid p uuid = (p, uuid)"
    using assms(2) by (simp add: extract_forwarded_uuid_def jget_None)
  have "fst (insert_and_schedule env draw b t p uuid) = event_identity (env, draw, t, p, uuid)"
    by (auto simp: insert_and_schedule_def insert_event_def Let_def split: option.splits prod.splits)
  with x assms(1) show ?thesis
    by (cases "insert_and_schedule env draw b t p uuid") (simp add: emit_def)
qed

lemma emit_failed: "\<not> emit_ok env \<Longrightarrow> emit env draw b t p uuid = (Raise GossipBusError, b)"
  by (simp add: emit_def split: prod.splits)

text \<open>Every write leaves the log invariant and the claims table intact.\<close>

lemma insert_event_bus_ok:
  assumes "bus_ok b" and "dict_ok p"
  shows "bus_ok (snd (insert_and_schedule env draw b t p uuid))"
    and "task_claims (snd (insert_and_schedule env draw b t p uuid)) = task_claims b"
proof -
  let ?e = "(env, draw, t, p, uuid)"
  show "bus_ok (snd (insert_and_schedule env draw b t p uuid))"
  proof (cases "fresh_uuid (event_identity ?e) b")
    case True
    with assms bus_ok_append [of b ?e] show ?thesis by simp
  next
    case False
    with insert_duplicate [OF False, of None] assms(1) show ?thesis
      by (auto simp: insert_and_schedule_def split: prod.splits)
  qed
  show "task_claims (snd (insert_and_schedule env draw b t p uuid)) = task_claims b"
  proof (cases "fresh_uuid (event_identity ?e) b")
    case True
    from bus_append_fields(3) [OF True] show ?thesis by simp
  next
    case False
    with insert_duplicate [OF False, of None] show ?thesis
      by (auto simp: insert_and_schedule_def split: prod.splits)
  qed
qed

lemma emit_bus_ok:
  assumes "bus_ok b" and "dict_ok p"
  shows "bus_ok (snd (emit env draw b t p uuid))"
    and "task_claims (snd (emit env draw b t p uuid)) = task_claims b"
proof -
  have "dict_ok (fst (extract_forwarded_uuid p uuid))"
    using assms(2) by (auto simp: extract_forwarded_uuid_def split: json.splits)
  then show "bus_ok (snd (emit env draw b t p uuid))"
    "task_claims (snd (emit env draw b t p uuid)) = task_claims b"
    using insert_event_bus_ok [OF assms(1)] assms(1)
    by (auto simp: emit_def split: prod.splits if_splits) (metis snd_conv)+
qed


section \<open>Environments\<close>

text \<open>Fresh event identities: \<open>uuid4\<close> never repeats.\<close>

definition env_ok :: "run_env \<Rightarrow> bus \<Rightarrow> bool" where
  "env_ok env b = (inj (uuid4 env) \<and> (\<forall>d. fresh_uuid (uuid4 env d) b))"

lemma env_ok_fresh: "env_ok env b \<Longrightarrow> fresh_uuid (uuid4 env d) b"
  by (simp add: env_ok_def)

lemma durable_str:
  assumes "map_of p k = Some (JStr s)"
    and "k \<notin> set CREDENTIAL_KEYS" and "k \<noteq> ''_memory_class''" and "k \<noteq> ''_redaction_applied''"
  shows "map_of (durable p) k = Some (JStr (redact_text s))"
  using assms by (simp add: dict_simps)

text \<open>A concrete environment for the witnesses: every lock attempt and every write succeeds.\<close>

definition demo_env :: "char \<Rightarrow> run_env" where
  "demo_env c = \<lparr>now = 5, worktree_label = ''wt'', pt_agent_id = None, py_str = (\<lambda>_. []),
     uuid4 = (\<lambda>n. c # replicate n (CHR ''x'')), lock_attempt = (\<lambda>_. Acquired), emit_ok = True\<rparr>"

lemma demo_env_fields [simp]:
  "lock_attempt (demo_env c) n = Acquired" "emit_ok (demo_env c)" "uuid4 (demo_env c) n = c # replicate n (CHR ''x'')"
  "pt_agent_id (demo_env c) = None"
  by (simp_all add: demo_env_def)

lemma demo_env_inj: "inj (uuid4 (demo_env c))"
  by (auto intro!: injI dest: arg_cong [where f = length])

lemma env_ok_empty: "env_ok (demo_env c) empty_bus"
  using demo_env_inj by (simp add: env_ok_def fresh_uuid_def empty_bus_def)

end
