(* ===== verification/ReorderBuffer.thy ===== *)
theory ReorderBuffer
  imports GossipBus
begin

text \<open>
  \<open>ClaimSequence\<close> and \<open>ReorderBuffer\<close> of \<open>orchestrator/coordination/types.py\<close> and the
  replay of them over the event log in \<open>orchestrator/coordination/reorder_buffer.py\<close>:
  numbered claims arrive in any order and are released in order, starting at a watermark.
\<close>

section \<open>Sequenced claims\<close>

record claim_sequence =
  cs_agent_id :: json
  claim_num :: int
  cs_task :: json
  cs_timestamp :: json
  cs_notes :: json
  cs_worktree :: json

definition claim_to_payload :: "claim_sequence \<Rightarrow> payload" where
  "claim_to_payload c =
     [(''kind'', JStr ''claim_sequence''), (''agent_id'', cs_agent_id c),
      (''claim_num'', JInt (claim_num c)), (''task'', cs_task c),
      (''timestamp'', cs_timestamp c), (''notes'', cs_notes c), (''worktree'', cs_worktree c)]"

definition require :: "payload \<Rightarrow> string \<Rightarrow> json res" where
  "require p k = (case map_of p k of None \<Rightarrow> Raise (KeyError k) | Some v \<Rightarrow> Ret v)"

text \<open>
  \<open>ClaimSequence.from_payload\<close>.  A claim number that is neither an int nor a bool makes the
  first comparison of \<open>add_claim\<close> raise \<open>TypeError\<close>; the model raises it here.
\<close>

definition claim_from_payload :: "payload \<Rightarrow> claim_sequence res" where
  "claim_from_payload p =
     res_bind (require p ''agent_id'') (\<lambda>agent.
     res_bind (require p ''claim_num'') (\<lambda>num.
     res_bind (require p ''task'') (\<lambda>task.
     res_bind (require p ''timestamp'') (\<lambda>timestamp.
       let mk = (\<lambda>n. Ret \<lparr>cs_agent_id = agent, claim_num = n, cs_task = task,
                    cs_timestamp = timestamp, cs_notes = dict_get p ''notes'' (JStr []),
                    cs_worktree = dict_get p ''worktree'' (JStr [])\<rparr>)
       in case num of JInt n \<Rightarrow> mk n | JBool b \<Rightarrow> mk (of_bool b) | _ \<Rightarrow> Raise TypeError))))"

section \<open>The buffer\<close>

record reorder_buffer =
  rb_agent_id :: json
  buffer :: "(int, claim_sequence) dict"
  watermark :: int

definition new_buffer :: "json \<Rightarrow> reorder_buffer" where
  "new_buffer agent = \<lparr>rb_agent_id = agent, buffer = [], watermark = 0\<rparr>"

text \<open>The \<open>while new_watermark in self.buffer\<close> loop.\<close>

function pop_run ::
  "(int, claim_sequence) dict \<Rightarrow> int \<Rightarrow> claim_sequence list \<times> (int, claim_sequence) dict \<times> int" where
  "pop_run buf w =
     (case map_of buf w of
        None \<Rightarrow> ([], buf, w)
      | Some c \<Rightarrow> (case pop_run (AList.delete w buf) (w + 1) of
                     (out, buf', w') \<Rightarrow> (c # out, buf', w')))"
  by pat_completeness auto
termination
proof (relation "measure (\<lambda>(buf, w). length buf)", goal_cases)
  case 1
  show ?case by simp
next
  case (2 buf w c)
  then have "w \<in> fst ` set buf" by (force dest: map_of_SomeD)
  then show ?case by (simp add: length_delete_less)
qed

declare pop_run.simps [simp del]

definition add_claim ::
  "claim_sequence \<Rightarrow> reorder_buffer \<Rightarrow> claim_sequence list \<times> reorder_buffer" where
  "add_claim c b =
     (if claim_num c < watermark b then ([], b)
      else if claim_num c = watermark b then
        (case pop_run (buffer b) (watermark b + 1) of
           (out, buf', w') \<Rightarrow> (c # out, b\<lparr>buffer := buf', watermark := w'\<rparr>))
      else if map_of (buffer b) (claim_num c) = None
           then ([], b\<lparr>buffer := AList.update (claim_num c) c (buffer b)\<rparr>)
           else ([], b))"

definition drain :: "reorder_buffer \<Rightarrow> claim_sequence list \<times> reorder_buffer" where
  "drain b =
     (if buffer b = [] then ([], b)
      else (let keys = sort (map fst (buffer b))
            in (map (\<lambda>k. the (map_of (buffer b) k)) keys,
                b\<lparr>buffer := [], watermark := last keys + 1\<rparr>)))"

text \<open>\<open>status()\<close>: watermark, number buffered, sorted buffered numbers.\<close>

definition rb_status :: "reorder_buffer \<Rightarrow> json \<times> int \<times> nat \<times> int list" where
  "rb_status b = (rb_agent_id b, watermark b, length (buffer b), sort (map fst (buffer b)))"

section \<open>Replay over the event log\<close>

definition REORDER_BUFFER_KINDS :: "string list" where
  "REORDER_BUFFER_KINDS = [''claim_sequence'', ''buffer_drained'']"

definition fetch_reorder_buffer_events :: "bus \<Rightarrow> gossip_row list" where
  "fetch_reorder_buffer_events b = select_asc (heartbeat_row REORDER_BUFFER_KINDS) b"

definition as_int :: "json \<Rightarrow> int option" where
  "as_int j = (case j of JInt n \<Rightarrow> Some n | JBool b \<Rightarrow> Some (of_bool b) | _ \<Rightarrow> None)"

text \<open>A drain marker raises the watermark and drops what lies strictly below it.\<close>

definition apply_drained :: "int \<Rightarrow> reorder_buffer \<Rightarrow> reorder_buffer" where
  "apply_drained new_watermark b =
     (let w = max (watermark b) new_watermark
      in b\<lparr>watermark := w, buffer := filter (\<lambda>(k, c). \<not> k < w) (buffer b)\<rparr>)"

definition replay_event ::
  "payload \<Rightarrow> (json, reorder_buffer) dict \<Rightarrow> (json, reorder_buffer) dict res" where
  "replay_event p buffers =
     (let kind = jget p ''kind''; agent = jget p ''agent_id'' in
      if \<not> truthy agent then Ret buffers
      else (let b = dict_get buffers agent (new_buffer agent);
                buffers = AList.update agent b buffers in
            if kind = JStr ''claim_sequence''
            then res_bind (claim_from_payload p)
                   (\<lambda>c. Ret (AList.update agent (snd (add_claim c b)) buffers))
            else if kind = JStr ''buffer_drained''
            then (case as_int (jget p ''new_watermark'') of
                    Some w \<Rightarrow> Ret (AList.update agent (apply_drained w b) buffers)
                  | None \<Rightarrow> Ret buffers)
            else Ret buffers))"

fun replay :: "payload list \<Rightarrow> (json, reorder_buffer) dict \<Rightarrow> (json, reorder_buffer) dict res" where
  "replay [] buffers = Ret buffers"
| "replay (p # ps) buffers = res_bind (replay_event p buffers) (replay ps)"

definition get_reorder_buffers :: "bus \<Rightarrow> (json, reorder_buffer) dict res" where
  "get_reorder_buffers b = replay (map row_payload (fetch_reorder_buffer_events b)) []"

datatype seq_claim_status = SeqEmitted int int | SeqBuffered int "int list" | SeqOther int

text \<open>\<open>claim_with_seq\<close>: publish, replay, and report from the watermarks before and after.\<close>

definition claim_with_seq ::
  "run_env \<Rightarrow> bus \<Rightarrow> string \<Rightarrow> int \<Rightarrow> string \<Rightarrow> string \<Rightarrow> seq_claim_status res \<times> bus" where
  "claim_with_seq env b agent seq task notes =
     (case get_reorder_buffers b of
        Raise e \<Rightarrow> (Raise e, b)
      | Ret before \<Rightarrow>
          (let w_before = watermark (dict_get before (JStr agent) (new_buffer (JStr agent)));
               c = \<lparr>cs_agent_id = JStr agent, claim_num = seq, cs_task = JStr task,
                    cs_timestamp = JFloat (now env), cs_notes = JStr notes,
                    cs_worktree = JStr (worktree_label env)\<rparr>
           in case emit env 0 b ''heartbeat'' (claim_to_payload c) None of
                (Raise e, b') \<Rightarrow> (Raise e, b')
              | (Ret _, b') \<Rightarrow>
                  (case get_reorder_buffers b' of
                     Raise e \<Rightarrow> (Raise e, b')
                   | Ret after \<Rightarrow>
                       (let rb = dict_get after (JStr agent) (new_buffer (JStr agent));
                            w = watermark rb
                        in (Ret (if seq < w then SeqEmitted w (w - w_before)
                                 else if map_of (buffer rb) seq \<noteq> None
                                 then SeqBuffered w (sort (map fst (buffer rb)))
                                 else SeqOther w), b')))))"

datatype drain_result = DrainNoBuffer | DrainEmpty int | Drained "claim_sequence list" int

definition buffer_drain :: "run_env \<Rightarrow> bus \<Rightarrow> string \<Rightarrow> drain_result res \<times> bus" where
  "buffer_drain env b agent =
     (case get_reorder_buffers b of
        Raise e \<Rightarrow> (Raise e, b)
      | Ret buffers \<Rightarrow>
          (case map_of buffers (JStr agent) of
             None \<Rightarrow> (Ret DrainNoBuffer, b)
           | Some rb \<Rightarrow>
               if buffer rb = [] then (Ret (DrainEmpty (watermark rb)), b)
               else (case drain rb of (emitted, rb') \<Rightarrow>
                 (case emit env 0 b ''heartbeat''
                     [(''kind'', JStr ''buffer_drained''), (''agent_id'', JStr agent),
                      (''emitted_count'', JInt (int (length emitted))),
                      (''new_watermark'', JInt (watermark rb'))] None of
                    (Raise e, b') \<Rightarrow> (Raise e, b')
                  | (Ret _, b') \<Rightarrow> (Ret (Drained emitted (watermark rb')), b')))))"

section \<open>The buffer invariant\<close>

text \<open>Buffered numbers lie above the watermark and index the claims that carry them.\<close>

definition rb_ok :: "reorder_buffer \<Rightarrow> bool" where
  "rb_ok b \<longleftrightarrow> dict_ok (buffer b) \<and>
     (\<forall>k c. map_of (buffer b) k = Some c \<longrightarrow> watermark b < k \<and> claim_num c = k)"

definition indexed :: "(int, claim_sequence) dict \<Rightarrow> bool" where
  "indexed buf \<longleftrightarrow> dict_ok buf \<and> (\<forall>k c. map_of buf k = Some c \<longrightarrow> claim_num c = k)"

lemma indexed_delete [simp]: "indexed buf \<Longrightarrow> indexed (AList.delete w buf)"
  by (auto simp: indexed_def map_of_delete)

text \<open>
  What the loop does: it removes exactly the contiguous block of numbers from its start and
  returns their claims in order.
\<close>

lemma pop_run_spec:
  assumes "indexed buf" and "pop_run buf w = (out, buf', w')"
  shows "w \<le> w' \<and> map claim_num out = [w .. w' - 1] \<and> indexed buf' \<and>
         (\<forall>k. map_of buf' k = (if w \<le> k \<and> k < w' then None else map_of buf k)) \<and>
         map_of buf' w' = None \<and> (\<forall>k. w \<le> k \<and> k < w' \<longrightarrow> map_of buf k \<noteq> None)"
  using assms
proof (induction buf w arbitrary: out buf' w' rule: pop_run.induct)
  case (1 buf w)
  show ?case
  proof (cases "map_of buf w")
    case None
    with "1.prems" show ?thesis by (auto simp: pop_run.simps [of buf w])
  next
    case (Some c)
    obtain out1 b1 w1 where rec: "pop_run (AList.delete w buf) (w + 1) = (out1, b1, w1)"
      by (cases "pop_run (AList.delete w buf) (w + 1)")
    with Some "1.prems" have eqs: "out = c # out1" "buf' = b1" "w' = w1"
      by (auto simp: pop_run.simps [of buf w])
    have num: "claim_num c = w" using "1.prems"(1) Some by (simp add: indexed_def)
    note ih = "1.IH" [OF Some indexed_delete [OF "1.prems"(1)] rec]
    then have "w < w1" by simp
    moreover have "map claim_num out = [w .. w1 - 1]"
      using ih num eqs \<open>w < w1\<close> by (simp add: upto_rec1)
    moreover have "\<forall>k. w \<le> k \<and> k < w1 \<longrightarrow> map_of buf k \<noteq> None"
    proof (intro allI impI)
      fix k assume "w \<le> k \<and> k < w1"
      with ih Some show "map_of buf k \<noteq> None"
        by (cases "k = w") (auto simp: map_of_delete)
    qed
    ultimately show ?thesis
      using ih eqs Some by (auto simp: map_of_delete)
  qed
qed

lemma rb_ok_new [inv_intros]: "rb_ok (new_buffer a)"
  by (simp add: rb_ok_def new_buffer_def)

lemma rb_okD:
  "rb_ok b \<Longrightarrow> map_of (buffer b) k = Some c \<Longrightarrow> watermark b < k"
  "rb_ok b \<Longrightarrow> map_of (buffer b) k = Some c \<Longrightarrow> claim_num c = k"
  by (simp_all add: rb_ok_def)

lemma rb_ok_indexed: "rb_ok b \<Longrightarrow> indexed (buffer b)"
  by (simp add: rb_ok_def indexed_def)

lemma add_claim_spec:
  assumes "rb_ok b" and "add_claim c b = (out, b')"
  shows "rb_ok b'" and "watermark b \<le> watermark b'"
    and "map claim_num out = [watermark b .. watermark b' - 1]"
proof -
  have "rb_ok b' \<and> watermark b \<le> watermark b' \<and>
        map claim_num out = [watermark b .. watermark b' - 1]"
  proof (cases "claim_num c = watermark b")
    case True
    obtain o1 b1 w1 where run: "pop_run (buffer b) (watermark b + 1) = (o1, b1, w1)"
      by (cases "pop_run (buffer b) (watermark b + 1)")
    note sp = pop_run_spec [OF rb_ok_indexed [OF assms(1)] run]
    from True run assms(2) have eqs: "out = c # o1" "b' = b\<lparr>buffer := b1, watermark := w1\<rparr>"
      by (auto simp: add_claim_def)
    have "\<And>k c'. map_of b1 k = Some c' \<Longrightarrow> w1 < k \<and> claim_num c' = k"
    proof -
      fix k c' assume k: "map_of b1 k = Some c'"
      with sp have nk: "\<not> (watermark b + 1 \<le> k \<and> k < w1)" "map_of (buffer b) k = Some c'"
        by (auto split: if_splits)
      with assms(1) have "watermark b < k" "claim_num c' = k" by (auto simp: rb_ok_def)
      moreover have "k \<noteq> w1" using sp k by auto
      ultimately show "w1 < k \<and> claim_num c' = k" using nk by auto
    qed
    with sp eqs True show ?thesis by (auto simp: rb_ok_def indexed_def upto_rec1)
  next
    case False
    with assms show ?thesis
      by (auto simp: add_claim_def rb_ok_def map_of_update split: if_splits)
  qed
  then show "rb_ok b'" "watermark b \<le> watermark b'"
    "map claim_num out = [watermark b .. watermark b' - 1]" by auto
qed

lemma rb_ok_add_claim [inv_intros]: "rb_ok b \<Longrightarrow> rb_ok (snd (add_claim c b))"
  using add_claim_spec(1) [of b c] by (cases "add_claim c b") simp

section \<open>Runs of arrivals\<close>

fun run_claims :: "claim_sequence list \<Rightarrow> reorder_buffer \<Rightarrow> claim_sequence list \<times> reorder_buffer" where
  "run_claims [] b = ([], b)"
| "run_claims (c # cs) b =
     (case add_claim c b of (out, b1) \<Rightarrow>
        (case run_claims cs b1 of (out', b2) \<Rightarrow> (out @ out', b2)))"

lemma run_claims_spec:
  assumes "rb_ok b" and "run_claims cs b = (out, b')"
  shows "rb_ok b' \<and> watermark b \<le> watermark b' \<and>
         map claim_num out = [watermark b .. watermark b' - 1]"
  using assms
proof (induction cs arbitrary: b out b')
  case Nil
  then show ?case by simp
next
  case (Cons c cs)
  obtain o1 b1 where a: "add_claim c b = (o1, b1)" by (cases "add_claim c b")
  obtain o2 b2 where r: "run_claims cs b1 = (o2, b2)" by (cases "run_claims cs b1")
  from Cons.prems a r have eqs: "out = o1 @ o2" "b' = b2" by auto
  note s1 = add_claim_spec [OF Cons.prems(1) a]
  note s2 = Cons.IH [OF s1(1) r]
  have "[watermark b .. watermark b1 - 1] @ [watermark b1 .. watermark b2 - 1] =
        [watermark b .. watermark b2 - 1]"
    using s1(2) s2 eqs upto_split1 [of "watermark b" "watermark b1" "watermark b2 - 1"]
    by (cases "watermark b1 \<le> watermark b2 - 1") auto
  with s1 s2 eqs show ?case by auto
qed

text \<open>
  The arrivals abstractly: the watermark is the least number from its start that has not
  arrived, and the buffer holds the arrived numbers above it.
\<close>

definition mirrors :: "int set \<Rightarrow> reorder_buffer \<Rightarrow> bool" where
  "mirrors A b \<longleftrightarrow> {0 ..< watermark b} \<subseteq> A \<and> watermark b \<notin> A \<and>
     (\<forall>k. map_of (buffer b) k \<noteq> None \<longleftrightarrow> watermark b < k \<and> k \<in> A)"

lemma mirrors_new: "mirrors {} (new_buffer a)"
  by (simp add: mirrors_def new_buffer_def)

lemma add_claim_mirrors:
  assumes ok: "rb_ok b" and m: "mirrors A b" and nn: "0 \<le> watermark b"
    and r: "add_claim c b = (out, b')"
  shows "mirrors (insert (claim_num c) A) b'"
proof (cases "claim_num c = watermark b")
  case True
  obtain o1 b1 w1 where run: "pop_run (buffer b) (watermark b + 1) = (o1, b1, w1)"
    by (cases "pop_run (buffer b) (watermark b + 1)")
  note sp = pop_run_spec [OF rb_ok_indexed [OF ok] run]
  from True run r have eqs: "b' = b\<lparr>buffer := b1, watermark := w1\<rparr>"
    by (auto simp: add_claim_def)
  have above: "\<And>k. watermark b < k \<Longrightarrow> k < w1 \<Longrightarrow> k \<in> A"
    using sp m by (auto simp: mirrors_def)
  have "map_of (buffer b) w1 = None" using sp by auto
  moreover have "watermark b < w1" using sp by linarith
  ultimately have "w1 \<notin> A" using m unfolding mirrors_def by blast
  moreover have "{0 ..< w1} \<subseteq> insert (watermark b) A"
    using above m by (auto simp: mirrors_def) force
  moreover have "\<forall>k. map_of b1 k \<noteq> None \<longleftrightarrow> w1 < k \<and> k \<in> insert (watermark b) A"
  proof
    fix k
    show "map_of b1 k \<noteq> None \<longleftrightarrow> w1 < k \<and> k \<in> insert (watermark b) A"
    proof (cases "watermark b + 1 \<le> k \<and> k < w1")
      case True
      with sp show ?thesis by auto
    next
      case False
      with sp have "map_of b1 k = map_of (buffer b) k" by auto
      with m sp False \<open>w1 \<notin> A\<close> show ?thesis
        by (auto simp: mirrors_def)
    qed
  qed
  ultimately show ?thesis using True sp eqs by (auto simp: mirrors_def)
next
  case False
  with r m nn show ?thesis
    by (auto simp: add_claim_def mirrors_def map_of_update split: if_splits)
qed

lemma run_claims_mirrors:
  "rb_ok b \<Longrightarrow> mirrors A b \<Longrightarrow> 0 \<le> watermark b \<Longrightarrow> run_claims cs b = (out, b') \<Longrightarrow>
   mirrors (A \<union> claim_num ` set cs) b'"
proof (induction cs arbitrary: b out A b')
  case Nil
  then show ?case by simp
next
  case (Cons c cs)
  obtain o1 b1 where a: "add_claim c b = (o1, b1)" by (cases "add_claim c b")
  obtain o2 b2 where r: "run_claims cs b1 = (o2, b2)" by (cases "run_claims cs b1")
  note s1 = add_claim_spec [OF Cons.prems(1) a]
  have m1: "mirrors (insert (claim_num c) A) b1"
    using add_claim_mirrors [OF Cons.prems(1,2,3) a] .
  have "0 \<le> watermark b1" using s1(2) Cons.prems(3) by simp
  from Cons.IH [OF s1(1) m1 this r] Cons.prems(4) a r show ?case by simp
qed

section \<open>Draining\<close>

lemma drain_nonempty:
  assumes "rb_ok b" and "buffer b \<noteq> []" and "drain b = (out, b')"
  shows "map claim_num out = sort (map fst (buffer b))"
    and "watermark b' = last (sort (map fst (buffer b))) + 1"
    and "buffer b' = []"
proof -
  have "map (claim_num \<circ> (\<lambda>k. the (map_of (buffer b) k))) (sort (map fst (buffer b)))
        = map (\<lambda>k. k) (sort (map fst (buffer b)))"
  proof (rule map_cong [OF refl])
    fix k assume "k \<in> set (sort (map fst (buffer b)))"
    then obtain c where "map_of (buffer b) k = Some c"
      by (auto dest: weak_map_of_SomeI)
    with assms(1) show "(claim_num \<circ> (\<lambda>k. the (map_of (buffer b) k))) k = k"
      by (auto simp: rb_ok_def)
  qed
  with assms(2,3) show "map claim_num out = sort (map fst (buffer b))"
    by (auto simp: drain_def Let_def)
  show "watermark b' = last (sort (map fst (buffer b))) + 1" "buffer b' = []"
    using assms(2,3) by (auto simp: drain_def Let_def)
qed

lemma sorted_last_max: "sorted xs \<Longrightarrow> x \<in> set xs \<Longrightarrow> x \<le> last xs" for x :: int
  by (induction xs) (auto simp: last_ConsR)

section \<open>Properties\<close>

text \<open>C24: whatever the order in which numbered claims arrive, a fresh reorder buffer releases
  exactly the claims numbered 0, 1, ..., w - 1, in that order and each once, where the final
  watermark w is the least number that has not arrived; every other arrived number at or above
  w is held in the buffer.\<close>

theorem reorder_releases_in_order:
  assumes "run_claims cs (new_buffer a) = (out, b)"
  shows "map claim_num out = [0 .. watermark b - 1] \<and>
         {0 ..< watermark b} \<subseteq> claim_num ` set cs \<and>
         watermark b \<notin> claim_num ` set cs \<and>
         (\<forall>k. map_of (buffer b) k \<noteq> None \<longleftrightarrow> watermark b < k \<and> k \<in> claim_num ` set cs)"
proof -
  have w0: "watermark (new_buffer a) = 0" by (simp add: new_buffer_def)
  have m: "mirrors ({} \<union> claim_num ` set cs) b"
    using run_claims_mirrors [OF rb_ok_new mirrors_new _ assms] w0 by simp
  have "map claim_num out = [0 .. watermark b - 1]"
    using run_claims_spec [OF rb_ok_new assms] w0 by simp
  with m show ?thesis by (simp add: mirrors_def)
qed

definition sample_claim :: "int \<Rightarrow> string \<Rightarrow> claim_sequence" where
  "sample_claim n t = \<lparr>cs_agent_id = JStr ''a1'', claim_num = n, cs_task = JStr t,
     cs_timestamp = JFloat 0, cs_notes = JStr [], cs_worktree = JStr []\<rparr>"

theorem reorder_releases_in_order_witness:
  "\<exists>out b. run_claims [sample_claim 2 ''c'', sample_claim 0 ''a'', sample_claim 1 ''b'']
       (new_buffer (JStr ''a1'')) = (out, b) \<and> map claim_num out = [0 .. 2] \<and> watermark b = 3"
proof -
  obtain out b where r: "run_claims [sample_claim 2 ''c'', sample_claim 0 ''a'', sample_claim 1 ''b'']
       (new_buffer (JStr ''a1'')) = (out, b)" by fastforce
  have w: "watermark b = 3"
    using r by (auto simp: new_buffer_def sample_claim_def add_claim_def pop_run.simps)
  from reorder_releases_in_order [OF r] w have "map claim_num out = [0 .. 2]" by simp
  with r w show ?thesis by blast
qed

text \<open>a forced drain of a well-formed buffer releases every held claim in strictly
  increasing order, empties the buffer, and moves the watermark above all of them without
  ever moving it back; the drained buffer is well formed again.\<close>

theorem drain_releases_all_sorted:
  assumes "rb_ok b" and "drain b = (out, b')"
  shows "buffer b' = [] \<and> sorted_wrt (<) (map claim_num out) \<and>
         set (map claim_num out) = fst ` set (buffer b) \<and>
         (\<forall>c \<in> set out. claim_num c < watermark b') \<and> watermark b \<le> watermark b' \<and> rb_ok b'"
proof (cases "buffer b = []")
  case True
  with assms show ?thesis by (simp add: drain_def)
next
  case False
  note d = drain_nonempty [OF assms(1) False assms(2)]
  let ?ks = "sort (map fst (buffer b))"
  have "sorted_wrt (<) ?ks" using assms(1) by (simp add: rb_ok_def strict_sorted_iff)
  moreover have nums: "set (map claim_num out) = fst ` set (buffer b)" using d(1) by simp
  moreover have below: "k \<le> last ?ks" if "k \<in> fst ` set (buffer b)" for k
    using that by (intro sorted_last_max) auto
  have "\<forall>c \<in> set out. claim_num c < watermark b'"
  proof
    fix c assume "c \<in> set out"
    with nums have "claim_num c \<in> fst ` set (buffer b)" by (metis image_eqI set_map)
    with below d(2) show "claim_num c < watermark b'" by fastforce
  qed
  moreover have "watermark b \<le> watermark b'"
  proof -
    obtain k where k: "k \<in> fst ` set (buffer b)" using False by (cases "buffer b") auto
    then obtain c where kc: "map_of (buffer b) k = Some c" by (auto dest: weak_map_of_SomeI)
    from rb_okD(1) [OF assms(1) kc] below [OF k] d(2) show ?thesis by linarith
  qed
  ultimately show ?thesis using d by (simp add: rb_ok_def)
qed

theorem drain_releases_all_sorted_witness:
  "rb_ok (snd (add_claim (sample_claim 4 ''x'') (new_buffer (JStr ''a1'')))) \<and>
   watermark (snd (drain (snd (add_claim (sample_claim 4 ''x'') (new_buffer (JStr ''a1'')))))) = 5 \<and>
   buffer (snd (drain (snd (add_claim (sample_claim 4 ''x'') (new_buffer (JStr ''a1'')))))) = []"
proof -
  let ?b = "snd (add_claim (sample_claim 4 ''x'') (new_buffer (JStr ''a1'')))"
  have ok: "rb_ok ?b" by (intro inv_intros)
  have "buffer (snd (drain ?b)) = []"
    using drain_releases_all_sorted [OF ok, of "fst (drain ?b)" "snd (drain ?b)"] by simp
  moreover have "watermark (snd (drain ?b)) = 5"
    by (simp add: new_buffer_def sample_claim_def add_claim_def drain_def)
  ultimately show ?thesis using ok by simp
qed

text \<open>a drain marker whose watermark equals the number of a claim that was buffered after
  the drain was computed strands that claim: the marker raises the watermark to w but keeps the
  entry at w (only entries strictly below are dropped), so the claim is never released; when a
  claim numbered w is sent again, the new one is released and the old one stays in the buffer
  below the watermark.\<close>

theorem drain_marker_strands_claim:
  assumes "rb_ok b" and "map_of (buffer b) w = Some c" and "claim_num c' = w"
  shows "watermark (apply_drained w b) = w \<and>
         map_of (buffer (apply_drained w b)) w = Some c \<and>
         \<not> rb_ok (apply_drained w b) \<and>
         hd (fst (add_claim c' (apply_drained w b))) = c' \<and>
         w < watermark (snd (add_claim c' (apply_drained w b))) \<and>
         map_of (buffer (snd (add_claim c' (apply_drained w b)))) w = Some c"
proof -
  let ?b = "apply_drained w b"
  have lt: "watermark b < w" using assms by (auto simp: rb_ok_def)
  then have w: "watermark ?b = w" by (simp add: apply_drained_def Let_def)
  have keep: "map_of (buffer ?b) w = Some c"
    using lt assms(2) by (simp add: apply_drained_def Let_def map_of_filter_keys)
  have "indexed (buffer ?b)"
    using assms(1) by (auto simp: apply_drained_def Let_def indexed_def rb_ok_def
        map_of_filter_keys distinct_map_filter split: if_splits)
  moreover obtain o1 b1 w1 where run: "pop_run (buffer ?b) (w + 1) = (o1, b1, w1)"
    by (cases "pop_run (buffer ?b) (w + 1)")
  ultimately have sp: "w + 1 \<le> w1" "map_of b1 w = map_of (buffer ?b) w"
    using pop_run_spec by fastforce+
  have "add_claim c' ?b = (c' # o1, ?b\<lparr>buffer := b1, watermark := w1\<rparr>)"
    using w run assms(3) by (simp add: add_claim_def)
  moreover have "\<not> rb_ok ?b" using w keep rb_okD(1) [of ?b w c] by auto
  ultimately show ?thesis using w keep sp by simp
qed

theorem drain_marker_strands_claim_witness:
  "let b4 = snd (add_claim (sample_claim 4 ''x'') (new_buffer (JStr ''a1'')));
       b45 = snd (add_claim (sample_claim 5 ''y'') b4);
       marker = watermark (snd (drain b4))
   in marker = 5 \<and> map_of (buffer (apply_drained marker b45)) 5 = Some (sample_claim 5 ''y'') \<and>
      watermark (apply_drained marker b45) = 5"
proof -
  let ?b4 = "snd (add_claim (sample_claim 4 ''x'') (new_buffer (JStr ''a1'')))"
  let ?b = "snd (add_claim (sample_claim 5 ''y'') ?b4)"
  have ok: "rb_ok ?b" by (intro inv_intros)
  have k: "map_of (buffer ?b) 5 = Some (sample_claim 5 ''y'')"
    by (simp add: new_buffer_def sample_claim_def add_claim_def)
  have m: "watermark (snd (drain ?b4)) = 5"
    by (simp add: new_buffer_def sample_claim_def add_claim_def drain_def)
  have "claim_num (sample_claim 5 ''z'') = 5" by (simp add: sample_claim_def)
  from drain_marker_strands_claim [OF ok k this] m show ?thesis by (simp add: Let_def)
qed

text \<open>C31: a sequenced claim survives its trip through the log: decoding the stored form of
  what \<open>to_payload\<close> produced gives back the same claim with its number intact and only its
  texts redacted.\<close>

theorem claim_payload_roundtrip:
  "claim_from_payload (durable (claim_to_payload c)) =
   Ret \<lparr>cs_agent_id = redact_value (cs_agent_id c), claim_num = claim_num c,
        cs_task = redact_value (cs_task c), cs_timestamp = redact_value (cs_timestamp c),
        cs_notes = redact_value (cs_notes c), cs_worktree = redact_value (cs_worktree c)\<rparr>"
  by (simp add: claim_from_payload_def claim_to_payload_def require_def dict_get_def dict_simps
      CREDENTIAL_KEYS_def)

end
