(* ===== verification/TaskQueue.thy ===== *)
theory TaskQueue
  imports GossipBus
begin

text \<open>
  \<open>orchestrator/coordination/task_queue.py\<close> with the enums of
  \<open>orchestrator/coordination/types.py\<close>: tasks are enqueued, claimed, completed, failed and
  re-queued as events of the log, while the \<open>task_claims\<close> table is the atomic exclusion gate.
  Every operation that reads snapshots first and writes in a transaction later takes two
  states, the one it read (\<open>b0\<close>) and the one it writes (\<open>b\<close>), so that interleavings with
  other agents are part of the model.
\<close>

section \<open>Enums\<close>

datatype task_priority = CRITICAL | HIGH | NORMAL | LOW

fun priority_name :: "task_priority \<Rightarrow> string" where
  "priority_name CRITICAL = ''CRITICAL''"
| "priority_name HIGH = ''HIGH''"
| "priority_name NORMAL = ''NORMAL''"
| "priority_name LOW = ''LOW''"

fun priority_value :: "task_priority \<Rightarrow> int" where
  "priority_value CRITICAL = 1"
| "priority_value HIGH = 2"
| "priority_value NORMAL = 3"
| "priority_value LOW = 4"

definition priority_from_string :: "string \<Rightarrow> task_priority res" where
  "priority_from_string s =
     (let normalized = map to_upper (py_strip s) in
      case find (\<lambda>p. priority_name p = normalized) [CRITICAL, HIGH, NORMAL, LOW] of
        Some p \<Rightarrow> Ret p
      | None \<Rightarrow> Raise ValueError)"

datatype queued_task_state = QUEUED | CLAIMED | COMPLETED | FAILED

fun state_value :: "queued_task_state \<Rightarrow> string" where
  "state_value QUEUED = ''queued''"
| "state_value CLAIMED = ''claimed''"
| "state_value COMPLETED = ''completed''"
| "state_value FAILED = ''failed''"

datatype claim_result = WON | CLAIM_LOST_RACE | CLAIM_CONTENTION
datatype release_result = RELEASED | RELEASE_LOST_RACE | RELEASE_CONTENTION

text \<open>The messages of \<open>_error\<close>, one constructor per message; \<open>QNone\<close> is success.\<close>

datatype queue_error =
    EmptySourceRef | BadBaseSha | EmptyRequiredAgent
  | TaskNotFound
  | AlreadyClaimed json | AlreadyCompleted | WasAbandoned
  | EnvAgentMismatch string | ReservedFor json
  | AmbiguousDependencies "json list" | UnmetDependencies "json list"
  | RaceLost | DatabaseBusy
  | NotClaimed json | NotClaimant json

datatype queue_result = QFalse queue_error | QTaskId string | QNone

section \<open>Enqueuing\<close>

definition is_hex :: "char \<Rightarrow> bool" where
  "is_hex c = (is_digit c \<or> (65 \<le> code c \<and> code c \<le> 70) \<or> (97 \<le> code c \<and> code c \<le> 102))"

text \<open>\<open>^[0-9a-fA-F]{7,40}$\<close>: the dollar also matches before a final newline.\<close>

definition sha_ok :: "string \<Rightarrow> bool" where
  "sha_ok s =
     (let body = (\<lambda>t. list_all is_hex t \<and> 7 \<le> length t \<and> length t \<le> 40) in
      body s \<or> (s \<noteq> [] \<and> last s = CHR 0x0A \<and> body (butlast s)))"

definition validate_queue_add_args ::
  "string option \<Rightarrow> string option \<Rightarrow> string option \<Rightarrow> queue_error option" where
  "validate_queue_add_args source_ref expected_base_sha required_agent_id =
     (let given = (\<lambda>P v. case v of None \<Rightarrow> False | Some s \<Rightarrow> P s) in
      if given (\<lambda>s. py_strip s = []) source_ref then Some EmptySourceRef
      else if given (\<lambda>s. \<not> sha_ok s) expected_base_sha then Some BadBaseSha
      else if given (\<lambda>s. py_strip s = []) required_agent_id then Some EmptyRequiredAgent
      else None)"

definition depends_on_list :: "string option \<Rightarrow> json list" where
  "depends_on_list depends_on =
     (case depends_on of
        None \<Rightarrow> []
      | Some s \<Rightarrow> if s = [] then [] else map (\<lambda>t. JStr (py_strip t)) (split_on (CHR '','') s))"

definition enqueue_payload ::
  "string \<Rightarrow> string \<Rightarrow> string \<Rightarrow> task_priority \<Rightarrow> string \<Rightarrow> string option \<Rightarrow> string option
   \<Rightarrow> string option \<Rightarrow> string option \<Rightarrow> payload" where
  "enqueue_payload task_id task_name phase prio notes depends_on source_ref sha required =
     [(''kind'', JStr ''task_enqueue''), (''task_id'', JStr task_id), (''task_name'', JStr task_name),
      (''phase'', JStr phase), (''priority'', JStr (priority_name prio)),
      (''priority_level'', JInt (priority_value prio)), (''status'', JStr (state_value QUEUED)),
      (''assigned_agent'', JNull), (''retry_count'', JInt 0), (''max_retries'', JInt 3),
      (''depends_on'', JList (depends_on_list depends_on)), (''notes'', JStr notes)]
     @ (case source_ref of None \<Rightarrow> [] | Some s \<Rightarrow> [(''source_ref'', JStr (py_strip s))])
     @ (case sha of None \<Rightarrow> [] | Some s \<Rightarrow> [(''expected_base_sha'', JStr s)])
     @ (case required of None \<Rightarrow> [] | Some s \<Rightarrow> [(''required_agent_id'', JStr (py_strip s))])"

definition new_task_id :: "run_env \<Rightarrow> string \<Rightarrow> string \<Rightarrow> string" where
  "new_task_id env phase task_name = phase @ ''-'' @ task_name @ ''-'' @ take 8 (uuid4 env 0)"

text \<open>\<open>_queue_add_impl\<close>: draw 0 is the task id's suffix, draw 1 the event's identity.\<close>

definition queue_add_impl ::
  "run_env \<Rightarrow> bus \<Rightarrow> string \<Rightarrow> string \<Rightarrow> string \<Rightarrow> string \<Rightarrow> string option \<Rightarrow> string option
   \<Rightarrow> string option \<Rightarrow> string option \<Rightarrow> string res \<times> bus" where
  "queue_add_impl env b task_name phase priority notes depends_on source_ref sha required =
     (let task_id = new_task_id env phase task_name in
      case priority_from_string priority of
        Raise e \<Rightarrow> (Raise e, b)
      | Ret prio \<Rightarrow>
          (Ret task_id,
           snd (insert_and_schedule env 1 b ''heartbeat''
             (enqueue_payload task_id task_name phase prio notes depends_on source_ref sha required)
             None)))"

definition queue_add ::
  "run_env \<Rightarrow> bus \<Rightarrow> string \<Rightarrow> string \<Rightarrow> string \<Rightarrow> string \<Rightarrow> string option \<Rightarrow> string option
   \<Rightarrow> string option \<Rightarrow> string option \<Rightarrow> queue_result res \<times> bus" where
  "queue_add env b task_name phase priority notes depends_on source_ref sha required =
     (case validate_queue_add_args source_ref sha required of
        Some e \<Rightarrow> (Ret (QFalse e), b)
      | None \<Rightarrow>
          (case queue_add_impl env b task_name phase priority notes depends_on source_ref sha
                  required of
             (Raise e, b') \<Rightarrow> (Raise e, b')
           | (Ret task_id, b') \<Rightarrow> (Ret (QTaskId task_id), b')))"

section \<open>Snapshots\<close>

definition TASK_EVENT_KINDS :: "string list" where
  "TASK_EVENT_KINDS =
     [''task_enqueue'', ''task_claim'', ''task_complete'', ''task_failed'', ''task_abandoned'']"

definition fetch_task_events :: "bus \<Rightarrow> string option \<Rightarrow> gossip_row list" where
  "fetch_task_events b task_id =
     select_asc (\<lambda>r. heartbeat_row TASK_EVENT_KINDS r \<and>
       (case task_id of None \<Rightarrow> True | Some t \<Rightarrow> jget (row_payload r) ''task_id'' = JStr t)) b"

definition task_snapshot :: "bus \<Rightarrow> string \<Rightarrow> payload option" where
  "task_snapshot b task_id =
     (let snapshot = fold (\<lambda>r snap.
            let p = row_payload r in
            if jget p ''task_id'' = JStr task_id \<and> kind_in TASK_EVENT_KINDS p
            then dict_update snap p else snap) (fetch_task_events b (Some task_id)) []
      in if snapshot = [] then None else Some snapshot)"

type_synonym snapshots = "(json, payload) dict"

definition fold_task_event :: "gossip_row \<Rightarrow> snapshots \<Rightarrow> snapshots" where
  "fold_task_event r snaps =
     (let p = row_payload r; task_id = jget p ''task_id'' in
      if \<not> truthy task_id \<or> \<not> kind_in TASK_EVENT_KINDS p then snaps
      else AList.update task_id (dict_update (dict_get snaps task_id []) p) snaps)"

definition latest_task_snapshots :: "bus \<Rightarrow> snapshots" where
  "latest_task_snapshots b = fold fold_task_event (fetch_task_events b None) []"

section \<open>The atomic gate\<close>

definition LOCK_RETRIES :: nat where
  "LOCK_RETRIES = 3"

definition presence_pulse_payload :: "run_env \<Rightarrow> string \<Rightarrow> payload" where
  "presence_pulse_payload env agent =
     [(''kind'', JStr ''agent_pulse''), (''agent_id'', JStr agent),
      (''worktree'', JStr (worktree_label env)), (''timestamp'', JFloat (now env))]"

text \<open>
  One transaction: \<open>BEGIN IMMEDIATE\<close>, the insert into \<open>task_claims\<close>, the event, the commit.
  The insert fails on the primary key when the task is held.
\<close>

definition claim_transaction ::
  "run_env \<Rightarrow> bus \<Rightarrow> string \<Rightarrow> string \<Rightarrow> payload \<Rightarrow> claim_result \<times> bus" where
  "claim_transaction env b task_id agent p =
     (if map_of (task_claims b) task_id \<noteq> None then (CLAIM_LOST_RACE, b)
      else (WON, snd (insert_and_schedule env 0
                   (b\<lparr>task_claims := AList.update task_id (agent, now env) (task_claims b)\<rparr>)
                   ''heartbeat'' p None)))"

fun claim_attempts ::
  "run_env \<Rightarrow> bus \<Rightarrow> string \<Rightarrow> string \<Rightarrow> payload \<Rightarrow> nat list \<Rightarrow> claim_result res \<times> bus" where
  "claim_attempts env b task_id agent p [] = (Ret CLAIM_CONTENTION, b)"
| "claim_attempts env b task_id agent p (n # ns) =
     (case lock_attempt env n of
        Acquired \<Rightarrow> (case claim_transaction env b task_id agent p of (r, b') \<Rightarrow> (Ret r, b'))
      | Locked \<Rightarrow> if n + 1 < LOCK_RETRIES then claim_attempts env b task_id agent p ns
                  else (Ret CLAIM_CONTENTION, b)
      | Broken \<Rightarrow> (Raise GossipBusError, b))"

definition default_claim_payload :: "run_env \<Rightarrow> string \<Rightarrow> string \<Rightarrow> payload" where
  "default_claim_payload env task_id agent =
     [(''kind'', JStr ''task_claim''), (''task_id'', JStr task_id), (''assigned_agent'', JStr agent),
      (''status'', JStr (state_value CLAIMED)), (''worktree'', JStr (worktree_label env))]"

definition try_atomic_claim ::
  "run_env \<Rightarrow> bus \<Rightarrow> string \<Rightarrow> string \<Rightarrow> payload option \<Rightarrow> claim_result res \<times> bus" where
  "try_atomic_claim env b task_id agent claim_payload =
     claim_attempts env b task_id agent
       (case claim_payload of
          None \<Rightarrow> default_claim_payload env task_id agent
        | Some p \<Rightarrow> if p = [] then default_claim_payload env task_id agent else p)
       [0 ..< LOCK_RETRIES]"

definition release_transaction ::
  "run_env \<Rightarrow> nat \<Rightarrow> bus \<Rightarrow> string \<Rightarrow> string \<Rightarrow> payload \<Rightarrow> string option \<Rightarrow> release_result \<times> bus" where
  "release_transaction env draw b task_id ev_type p expected_agent_id =
     (let b' = b\<lparr>task_claims := AList.delete task_id (task_claims b)\<rparr>;
          done = (RELEASED, snd (insert_and_schedule env draw b' ev_type p None))
      in case expected_agent_id of
           Some a \<Rightarrow> (case map_of (task_claims b) task_id of
                        Some (holder, _) \<Rightarrow> if holder = a then done else (RELEASE_LOST_RACE, b)
                      | None \<Rightarrow> (RELEASE_LOST_RACE, b))
         | None \<Rightarrow> done)"

fun release_attempts ::
  "run_env \<Rightarrow> nat \<Rightarrow> bus \<Rightarrow> string \<Rightarrow> string \<Rightarrow> payload \<Rightarrow> string option \<Rightarrow> nat list
   \<Rightarrow> release_result res \<times> bus" where
  "release_attempts env draw b task_id ev_type p expected [] = (Ret RELEASE_CONTENTION, b)"
| "release_attempts env draw b task_id ev_type p expected (n # ns) =
     (case lock_attempt env n of
        Acquired \<Rightarrow> (case release_transaction env draw b task_id ev_type p expected of
                       (r, b') \<Rightarrow> (Ret r, b'))
      | Locked \<Rightarrow> if n + 1 < LOCK_RETRIES
                  then release_attempts env draw b task_id ev_type p expected ns
                  else (Ret RELEASE_CONTENTION, b)
      | Broken \<Rightarrow> (Raise GossipBusError, b))"

definition release_claim_with_event ::
  "run_env \<Rightarrow> nat \<Rightarrow> bus \<Rightarrow> string \<Rightarrow> string \<Rightarrow> payload \<Rightarrow> string option
   \<Rightarrow> release_result res \<times> bus" where
  "release_claim_with_event env draw b task_id ev_type p expected_agent_id =
     release_attempts env draw b task_id ev_type p expected_agent_id [0 ..< LOCK_RETRIES]"

section \<open>Claiming\<close>

definition by_task_name :: "snapshots \<Rightarrow> (json, payload list) dict" where
  "by_task_name snaps =
     fold (\<lambda>(t, state) d.
       let name = jget state ''task_name'' in
       if truthy name then AList.update name (dict_get d name [] @ [state]) d else d) snaps []"

datatype dependency_verdict = DepMet | DepUnmet | DepAmbiguous

definition dependency_verdict_of :: "snapshots \<Rightarrow> json \<Rightarrow> dependency_verdict" where
  "dependency_verdict_of snaps dependency =
     (case map_of snaps dependency of
        Some direct \<Rightarrow>
          if jget direct ''status'' \<noteq> JStr (state_value COMPLETED) then DepUnmet else DepMet
      | None \<Rightarrow>
          (case map_of (by_task_name snaps) dependency of
             None \<Rightarrow> DepUnmet
           | Some matches \<Rightarrow>
               (case matches of
                  [] \<Rightarrow> DepUnmet
                | [m] \<Rightarrow> if jget m ''status'' \<noteq> JStr (state_value COMPLETED) then DepUnmet else DepMet
                | _ \<Rightarrow> DepAmbiguous)))"

definition ambiguous_of :: "snapshots \<Rightarrow> json list \<Rightarrow> json list" where
  "ambiguous_of snaps deps = filter (\<lambda>d. dependency_verdict_of snaps d = DepAmbiguous) deps"

definition unmet_of :: "snapshots \<Rightarrow> json list \<Rightarrow> json list" where
  "unmet_of snaps deps = filter (\<lambda>d. dependency_verdict_of snaps d = DepUnmet) deps"

text \<open>
  Everything \<open>queue_claim\<close> checks before the transaction, on the snapshots it read:
  \<open>None\<close> when the claim may be attempted.
\<close>

definition queue_claim_check ::
  "run_env \<Rightarrow> snapshots \<Rightarrow> string \<Rightarrow> string \<Rightarrow> queue_error option res" where
  "queue_claim_check env snaps task_id agent =
     (case map_of snaps (JStr task_id) of
        None \<Rightarrow> Ret (Some TaskNotFound)
      | Some task_state \<Rightarrow>
          (let status = jget task_state ''status'';
               required = jget task_state ''required_agent_id'' in
           if task_state = [] then Ret (Some TaskNotFound)
           else if status = JStr (state_value CLAIMED)
           then Ret (Some (AlreadyClaimed (jget task_state ''assigned_agent'')))
           else if status = JStr (state_value COMPLETED) then Ret (Some AlreadyCompleted)
           else if status = JStr ''abandoned'' then Ret (Some WasAbandoned)
           else if required \<noteq> JNull \<and> (case pt_agent_id env of None \<Rightarrow> False | Some e \<Rightarrow> e \<noteq> agent)
           then Ret (Some (EnvAgentMismatch (the (pt_agent_id env))))
           else if required \<noteq> JNull \<and> required \<noteq> JStr agent then Ret (Some (ReservedFor required))
           else res_bind (py_iter (dict_get task_state ''depends_on'' (JList []))) (\<lambda>deps.
             if ambiguous_of snaps deps \<noteq> []
             then Ret (Some (AmbiguousDependencies (ambiguous_of snaps deps)))
             else if unmet_of snaps deps \<noteq> []
             then Ret (Some (UnmetDependencies (unmet_of snaps deps)))
             else Ret None)))"

definition claim_payload_of :: "run_env \<Rightarrow> string \<Rightarrow> string \<Rightarrow> payload" where
  "claim_payload_of env task_id agent =
     [(''kind'', JStr ''task_claim''), (''task_id'', JStr task_id), (''agent_id'', JStr agent),
      (''assigned_agent'', JStr agent), (''status'', JStr (state_value CLAIMED)),
      (''worktree'', JStr (worktree_label env))]"

text \<open>The presence pulse that follows a successful operation (draw 1); its failure propagates.\<close>

definition pulse_after :: "run_env \<Rightarrow> bus \<Rightarrow> string \<Rightarrow> queue_result res \<times> bus" where
  "pulse_after env b agent =
     (case emit env 1 b ''heartbeat'' (presence_pulse_payload env agent) None of
        (Raise e, b') \<Rightarrow> (Raise e, b')
      | (Ret _, b') \<Rightarrow> (Ret QNone, b'))"

definition queue_claim ::
  "run_env \<Rightarrow> bus \<Rightarrow> bus \<Rightarrow> string \<Rightarrow> string \<Rightarrow> queue_result res \<times> bus" where
  "queue_claim env b0 b task_id agent =
     (case queue_claim_check env (latest_task_snapshots b0) task_id agent of
        Raise e \<Rightarrow> (Raise e, b)
      | Ret (Some err) \<Rightarrow> (Ret (QFalse err), b)
      | Ret None \<Rightarrow>
          (case try_atomic_claim env b task_id agent (Some (claim_payload_of env task_id agent)) of
             (Raise e, b') \<Rightarrow> (Raise e, b')
           | (Ret CLAIM_LOST_RACE, b') \<Rightarrow> (Ret (QFalse RaceLost), b')
           | (Ret CLAIM_CONTENTION, b') \<Rightarrow> (Ret (QFalse DatabaseBusy), b')
           | (Ret WON, b') \<Rightarrow> pulse_after env b' agent))"

section \<open>Completing and failing\<close>

text \<open>The status and claimant checks that \<open>queue_complete\<close> and \<open>queue_fail\<close> share.\<close>

definition owned_check :: "snapshots \<Rightarrow> string \<Rightarrow> string \<Rightarrow> queue_error option" where
  "owned_check snaps task_id agent =
     (case map_of snaps (JStr task_id) of
        None \<Rightarrow> Some TaskNotFound
      | Some task_state \<Rightarrow>
          (let status = jget task_state ''status'' in
           if task_state = [] then Some TaskNotFound
           else if status \<noteq> JStr (state_value CLAIMED)
           then (if status = JStr (state_value COMPLETED) then Some AlreadyCompleted
                 else if status = JStr ''abandoned'' then Some WasAbandoned
                 else Some (NotClaimed status))
           else if jget task_state ''assigned_agent'' \<noteq> JStr agent
           then Some (NotClaimant (jget task_state ''assigned_agent''))
           else None))"

definition release_then_pulse ::
  "run_env \<Rightarrow> bus \<Rightarrow> string \<Rightarrow> string \<Rightarrow> payload \<Rightarrow> queue_result res \<times> bus" where
  "release_then_pulse env b task_id agent p =
     (case release_claim_with_event env 0 b task_id ''heartbeat'' p (Some agent) of
        (Raise e, b') \<Rightarrow> (Raise e, b')
      | (Ret RELEASE_LOST_RACE, b') \<Rightarrow> (Ret (QFalse RaceLost), b')
      | (Ret RELEASE_CONTENTION, b') \<Rightarrow> (Ret (QFalse DatabaseBusy), b')
      | (Ret RELEASED, b') \<Rightarrow> pulse_after env b' agent)"

definition complete_payload :: "string \<Rightarrow> string \<Rightarrow> string \<Rightarrow> payload" where
  "complete_payload task_id agent notes =
     [(''kind'', JStr ''task_complete''), (''task_id'', JStr task_id), (''agent_id'', JStr agent),
      (''status'', JStr (state_value COMPLETED)), (''notes'', JStr notes)]"

definition queue_complete ::
  "run_env \<Rightarrow> bus \<Rightarrow> bus \<Rightarrow> string \<Rightarrow> string \<Rightarrow> string \<Rightarrow> queue_result res \<times> bus" where
  "queue_complete env b0 b task_id agent notes =
     (case owned_check (latest_task_snapshots b0) task_id agent of
        Some err \<Rightarrow> (Ret (QFalse err), b)
      | None \<Rightarrow> release_then_pulse env b task_id agent (complete_payload task_id agent notes))"

definition failed_payload :: "string \<Rightarrow> string \<Rightarrow> int \<Rightarrow> int \<Rightarrow> string \<Rightarrow> payload" where
  "failed_payload task_id agent retry_count max_retries note_text =
     [(''kind'', JStr ''task_failed''), (''task_id'', JStr task_id), (''agent_id'', JStr agent),
      (''retry_count'', JInt retry_count), (''max_retries'', JInt max_retries),
      (''status'', JStr (state_value QUEUED)), (''assigned_agent'', JNull),
      (''notes'', JStr note_text)]"

definition abandoned_payload :: "string \<Rightarrow> string \<Rightarrow> int \<Rightarrow> int \<Rightarrow> string \<Rightarrow> payload" where
  "abandoned_payload task_id agent retry_count max_retries note_text =
     [(''kind'', JStr ''task_abandoned''), (''task_id'', JStr task_id), (''agent_id'', JStr agent),
      (''retry_count'', JInt retry_count), (''max_retries'', JInt max_retries),
      (''status'', JStr ''abandoned''), (''assigned_agent'', JNull),
      (''notes'', JStr note_text)]"

text \<open>\<open>note_of\<close> renders the f-string with the two counters.\<close>

definition queue_fail ::
  "run_env \<Rightarrow> (bool \<Rightarrow> int \<Rightarrow> int \<Rightarrow> string \<Rightarrow> string) \<Rightarrow> bus \<Rightarrow> bus \<Rightarrow> string \<Rightarrow> string \<Rightarrow> string
   \<Rightarrow> queue_result res \<times> bus" where
  "queue_fail env note_of b0 b task_id agent notes =
     (let snaps = latest_task_snapshots b0 in
      case owned_check snaps task_id agent of
        Some err \<Rightarrow> (Ret (QFalse err), b)
      | None \<Rightarrow>
          (let task_state = dict_get snaps (JStr task_id) [] in
           case res_bind (py_int (dict_get task_state ''retry_count'' (JInt 0))) (\<lambda>rc.
                res_bind (py_int (dict_get task_state ''max_retries'' (JInt 3))) (\<lambda>mx.
                  Ret (rc + 1, mx))) of
             Raise e \<Rightarrow> (Raise e, b)
           | Ret (retry_count, max_retries) \<Rightarrow>
               release_then_pulse env b task_id agent
                 (if retry_count \<le> max_retries
                  then failed_payload task_id agent retry_count max_retries
                         (note_of True retry_count max_retries notes)
                  else abandoned_payload task_id agent retry_count max_retries
                         (note_of False retry_count max_retries notes))))"

section \<open>Stale-claim cleanup\<close>

definition requeue_payload :: "string \<Rightarrow> int \<Rightarrow> int \<Rightarrow> string \<Rightarrow> payload" where
  "requeue_payload task_id retry_count max_retries note_text =
     [(''kind'', JStr ''task_failed''), (''task_id'', JStr task_id),
      (''retry_count'', JInt retry_count), (''max_retries'', JInt max_retries),
      (''status'', JStr (state_value QUEUED)), (''assigned_agent'', JNull),
      (''notes'', JStr note_text)]"

definition auto_release_note :: "string \<Rightarrow> string" where
  "auto_release_note agent = ''Auto-released: agent '' @ agent @ '' dead; task returned to queue''"

fun cleanup_rows ::
  "run_env \<Rightarrow> snapshots \<Rightarrow> nat \<Rightarrow> (string \<times> string) list \<Rightarrow> bus \<Rightarrow> string list res \<times> bus" where
  "cleanup_rows env snaps i [] b = (Ret [], b)"
| "cleanup_rows env snaps i ((task_id, agent) # rows) b =
     (let task_state = dict_get snaps (JStr task_id) [] in
      case res_bind (py_int (dict_get task_state ''retry_count'' (JInt 0))) (\<lambda>rc.
           res_bind (py_int (dict_get task_state ''max_retries'' (JInt 3))) (\<lambda>mx. Ret (rc, mx))) of
        Raise e \<Rightarrow> (Raise e, b)
      | Ret (rc, mx) \<Rightarrow>
          (case release_claim_with_event env i b task_id ''heartbeat''
                  (requeue_payload task_id rc mx (auto_release_note agent)) (Some agent) of
             (Raise e, b') \<Rightarrow> (Raise e, b')
           | (Ret r, b') \<Rightarrow>
               (case cleanup_rows env snaps (Suc i) rows b' of
                  (Raise e, b'') \<Rightarrow> (Raise e, b'')
                | (Ret released, b'') \<Rightarrow>
                    (Ret (if r = RELEASED then task_id # released else released), b''))))"

text \<open>\<open>b0\<close> is the state in which the rows and the snapshots are read.\<close>

definition cleanup_stale_queue_claims ::
  "run_env \<Rightarrow> bus \<Rightarrow> bus \<Rightarrow> string list \<Rightarrow> string list res \<times> bus" where
  "cleanup_stale_queue_claims env b0 b dead_agent_ids =
     (if dead_agent_ids = [] then (Ret [], b)
      else cleanup_rows env (latest_task_snapshots b0) 0
             (map (\<lambda>(t, a, _). (t, a)) (filter (\<lambda>(t, a, _). a \<in> set dead_agent_ids) (task_claims b0)))
             b)"

section \<open>Listing\<close>

definition passes :: "string option \<Rightarrow> json \<Rightarrow> bool" where
  "passes flt v = (case flt of None \<Rightarrow> True | Some f \<Rightarrow> f = [] \<or> v = JStr f)"

definition matches_filters ::
  "string option \<Rightarrow> string option \<Rightarrow> string option \<Rightarrow> payload \<Rightarrow> bool" where
  "matches_filters phase_filter priority_filter agent_filter state =
     (passes phase_filter (jget state ''phase'') \<and>
      passes (map_option (map to_upper) priority_filter) (jget state ''priority'') \<and>
      passes agent_filter (jget state ''assigned_agent''))"

text \<open>The groups \<open>queue_list\<close> prints: queued, claimed, completed, failed or abandoned.\<close>

definition queue_list ::
  "bus \<Rightarrow> string option \<Rightarrow> string option \<Rightarrow> string option
   \<Rightarrow> snapshots \<times> snapshots \<times> snapshots \<times> snapshots" where
  "queue_list b phase_filter priority_filter agent_filter =
     (let shown = filter (\<lambda>(t, s). matches_filters phase_filter priority_filter agent_filter s)
                    (latest_task_snapshots b);
          having = (\<lambda>vs. filter (\<lambda>(t, s). jget s ''status'' \<in> set vs) shown)
      in (having [JStr (state_value QUEUED)], having [JStr (state_value CLAIMED)],
          having [JStr (state_value COMPLETED)],
          having [JStr (state_value FAILED), JStr ''abandoned'']))"

definition queue_status :: "bus \<Rightarrow> string option \<Rightarrow> (json, (json \<times> payload) list) dict" where
  "queue_status b agent_filter =
     fold (\<lambda>(t, state) work.
        if jget state ''status'' = JStr (state_value CLAIMED) then
          (let agent = dict_get state ''assigned_agent'' (JStr ''?'') in
           if passes agent_filter agent
           then AList.update agent (dict_get work agent [] @ [(t, state)]) work else work)
        else work) (latest_task_snapshots b) []"

end
