(* ===== verification/QueueOwnership.thy ===== *)
theory QueueOwnership
  imports TaskQueue
begin

text \<open>
  The task queue's ownership discipline.  \<open>ownership_table\<close> is the interface of the atomic
  gate (take and drop of exclusive ownership); it is interpreted on the \<open>task_claims\<close>
  transactions.  \<open>board_run\<close> is the step relation of any number of agents whose operations
  read an older state than the one they write; \<open>owner_inv\<close> ties the claims table to the
  folded snapshots in all of its runs.
\<close>

section \<open>Snapshots advance with the log\<close>

definition snap :: "bus \<Rightarrow> string \<Rightarrow> payload" where
  "snap b t = dict_get (latest_task_snapshots b) (JStr t) []"

lemma latest_claims_irrelevant [simp]:
  "latest_task_snapshots (b\<lparr>task_claims := c\<rparr>) = latest_task_snapshots b"
  by (simp add: latest_task_snapshots_def fetch_task_events_def select_asc_def)

lemma snap_claims_irrelevant [simp]: "snap (b\<lparr>task_claims := c\<rparr>) t = snap b t"
  by (simp add: snap_def)

lemma bus_ok_claims [simp]: "bus_ok b \<Longrightarrow> bus_ok (b\<lparr>task_claims := c\<rparr>) = dict_ok c"
  by (simp add: bus_ok_def)

lemma fresh_uuid_claims [simp]: "fresh_uuid u (b\<lparr>task_claims := c\<rparr>) = fresh_uuid u b"
  by (simp add: fresh_uuid_def)

lemma latest_append:
  assumes "bus_ok b" and "admissible e b"
  shows "latest_task_snapshots (bus_append e b) =
    (if heartbeat_row TASK_EVENT_KINDS (bus_stored e b)
     then fold_task_event (bus_stored e b) (latest_task_snapshots b) else latest_task_snapshots b)"
  using select_asc_append [OF assms]
  by (simp add: latest_task_snapshots_def fetch_task_events_def)

lemma snap_task_event:
  assumes "bus_ok b" and "dict_ok p" and "fresh_uuid (uuid4 env d) b"
    and "kind_in TASK_EVENT_KINDS (durable p)" and "jget (durable p) ''task_id'' = JStr t" and "t \<noteq> []"
  shows "snap (bus_append (env, d, ''heartbeat'', p, None) b) t' =
         (if t' = t then dict_update (snap b t) (durable p) else snap b t')"
proof -
  have "admissible (env, d, ''heartbeat'', p, None) b" using assms by simp
  from latest_append [OF assms(1) this] assms(4,5,6) show ?thesis
    by (simp add: snap_def heartbeat_row_def fold_task_event_def Let_def dict_get_simps)
qed

lemma latest_other_event:
  assumes "bus_ok b" and "dict_ok p" and "fresh_uuid (uuid4 env d) b"
    and "\<not> kind_in TASK_EVENT_KINDS (durable p)"
  shows "latest_task_snapshots (bus_append (env, d, t, p, None) b) = latest_task_snapshots b"
proof -
  have "admissible (env, d, t, p, None) b" using assms by simp
  from latest_append [OF assms(1) this] assms(4) show ?thesis
    by (simp add: heartbeat_row_def)
qed

lemmas payload_simps =
  kind_in_def TASK_EVENT_KINDS_def jget_def dict_get_def dict_simps CREDENTIAL_KEYS_def

section \<open>The outcomes of the two transactions\<close>

abbreviation with_row :: "run_env \<Rightarrow> string \<Rightarrow> string \<Rightarrow> bus \<Rightarrow> bus" where
  "with_row env t a b \<equiv> b\<lparr>task_claims := AList.update t (a, now env) (task_claims b)\<rparr>"

abbreviation without_row :: "string \<Rightarrow> bus \<Rightarrow> bus" where
  "without_row t b \<equiv> b\<lparr>task_claims := AList.delete t (task_claims b)\<rparr>"

definition owner :: "bus \<Rightarrow> string \<Rightarrow> string option" where
  "owner b t = map_option fst (map_of (task_claims b) t)"

lemma claim_attempts_outcome:
  "claim_attempts env b t a p ns = (r, b') \<Longrightarrow>
     (r = Ret WON \<and> owner b t = None \<and>
      b' = bus_append (env, 0, ''heartbeat'', p, None) (with_row env t a b)) \<or>
     (r \<noteq> Ret WON \<and> b' = b)"
  by (cases "map_of (task_claims b) t"; induction ns)
    (auto simp: claim_transaction_def owner_def split: db_outcome.splits if_splits prod.splits)

lemma release_attempts_outcome:
  "release_attempts env d b t et p (Some a) ns = (r, b') \<Longrightarrow>
     (r = Ret RELEASED \<and> owner b t = Some a \<and>
      b' = bus_append (env, d, et, p, None) (without_row t b)) \<or>
     (r \<noteq> Ret RELEASED \<and> b' = b)"
  by (induction ns)
    (auto simp: release_transaction_def owner_def Let_def
      split: db_outcome.splits if_splits prod.splits option.splits)

lemmas try_atomic_claim_outcome =
  claim_attempts_outcome [of _ _ _ _ _ "[0 ..< LOCK_RETRIES]"]

lemmas release_outcome = release_attempts_outcome [of _ _ _ _ _ _ _ "[0 ..< LOCK_RETRIES]"]

section \<open>The gate as an exclusive ownership table\<close>

text \<open>
  A command is (is it a take?, environment, item, agent); \<open>exec_cmds\<close> runs a sequence and
  logs the ones that succeeded.
\<close>

primrec exec_cmds ::
  "('e \<Rightarrow> 't \<Rightarrow> 'a \<Rightarrow> 's \<Rightarrow> bool \<times> 's) \<Rightarrow> ('e \<Rightarrow> 't \<Rightarrow> 'a \<Rightarrow> 's \<Rightarrow> bool \<times> 's)
   \<Rightarrow> (bool \<times> 'e \<times> 't \<times> 'a) list \<Rightarrow> 's \<Rightarrow> (bool \<times> 't \<times> 'a) list \<times> 's" where
  "exec_cmds tk dr [] s = ([], s)"
| "exec_cmds tk dr (c # cs) s =
     (case c of (is_take, e, t, a) \<Rightarrow>
       (case (if is_take then tk e t a s else dr e t a s) of (won, s1) \<Rightarrow>
         (case exec_cmds tk dr cs s1 of (tr, s2) \<Rightarrow>
            ((if won then [(is_take, t, a)] else []) @ tr, s2))))"

definition takes_of :: "'t \<Rightarrow> (bool \<times> 't \<times> 'a) list \<Rightarrow> nat" where
  "takes_of t tr = length (filter (\<lambda>(is_take, t', a). is_take \<and> t' = t) tr)"

definition drops_of :: "'t \<Rightarrow> (bool \<times> 't \<times> 'a) list \<Rightarrow> nat" where
  "drops_of t tr = length (filter (\<lambda>(is_take, t', a). \<not> is_take \<and> t' = t) tr)"

locale ownership_table =
  fixes ok :: "'s \<Rightarrow> bool"
    and legal :: "'e \<Rightarrow> bool"
    and holder :: "'s \<Rightarrow> 't \<Rightarrow> 'a option"
    and tk :: "'e \<Rightarrow> 't \<Rightarrow> 'a \<Rightarrow> 's \<Rightarrow> bool \<times> 's"
    and dr :: "'e \<Rightarrow> 't \<Rightarrow> 'a \<Rightarrow> 's \<Rightarrow> bool \<times> 's"
  assumes take_won: "ok s \<Longrightarrow> legal e \<Longrightarrow> tk e t a s = (True, s') \<Longrightarrow>
      holder s t = None \<and> holder s' = (holder s)(t := Some a) \<and> ok s'"
    and take_lost: "tk e t a s = (False, s') \<Longrightarrow> s' = s"
    and drop_won: "ok s \<Longrightarrow> legal e \<Longrightarrow> dr e t a s = (True, s') \<Longrightarrow>
      holder s t = Some a \<and> holder s' = (holder s)(t := None) \<and> ok s'"
    and drop_lost: "dr e t a s = (False, s') \<Longrightarrow> s' = s"
begin

abbreviation held :: "'s \<Rightarrow> 't \<Rightarrow> nat" where
  "held s t \<equiv> (case holder s t of None \<Rightarrow> 0 | Some a \<Rightarrow> 1)"

lemma exec_balance:
  assumes "ok s" and "\<forall>c \<in> set cs. legal (fst (snd c))" and "exec_cmds tk dr cs s = (tr, s')"
  shows "ok s' \<and> takes_of t tr + held s t = drops_of t tr + held s' t"
  using assms
proof (induction cs arbitrary: s tr)
  case Nil
  then show ?case by (simp add: takes_of_def drops_of_def)
next
  case (Cons c cs)
  obtain is_take e u a where c: "c = (is_take, e, u, a)" by (cases c)
  obtain won s1 where r: "(if is_take then tk e u a s else dr e u a s) = (won, s1)"
    by (cases "if is_take then tk e u a s else dr e u a s")
  obtain tr1 s2 where x: "exec_cmds tk dr cs s1 = (tr1, s2)"
    by (cases "exec_cmds tk dr cs s1")
  from Cons.prems(3) c r x have out: "tr = (if won then [(is_take, u, a)] else []) @ tr1" "s' = s2"
    by auto
  from Cons.prems(2) c have "legal e" by auto
  with r Cons.prems(1) have step:
    "ok s1" "won \<Longrightarrow> is_take \<Longrightarrow> holder s u = None \<and> holder s1 = (holder s)(u := Some a)"
    "won \<Longrightarrow> \<not> is_take \<Longrightarrow> holder s u = Some a \<and> holder s1 = (holder s)(u := None)"
    "\<not> won \<Longrightarrow> s1 = s"
    by (cases won; auto split: if_splits dest: take_won take_lost drop_won drop_lost)+
  have "\<forall>c \<in> set cs. legal (fst (snd c))" using Cons.prems(2) by simp
  from Cons.IH [OF step(1) this] x out step(2-4) show ?case
    by (cases won; cases is_take; cases "u = t") (auto simp: takes_of_def drops_of_def)
qed

end

definition bus_take ::
  "run_env \<times> payload \<Rightarrow> string \<Rightarrow> string \<Rightarrow> bus \<Rightarrow> bool \<times> bus" where
  "bus_take e t a b =
     (case try_atomic_claim (fst e) b t a (Some (snd e)) of (r, b') \<Rightarrow> (r = Ret WON, b'))"

definition bus_drop ::
  "run_env \<times> payload \<Rightarrow> string \<Rightarrow> string \<Rightarrow> bus \<Rightarrow> bool \<times> bus" where
  "bus_drop e t a b =
     (case release_claim_with_event (fst e) 0 b t ''heartbeat'' (snd e) (Some a) of
        (r, b') \<Rightarrow> (r = Ret RELEASED, b'))"

lemma owner_append:
  "owner (bus_append e b) t = owner b t"
proof -
  obtain env d ty p u where e: "e = (env, d, ty, p, u)" by (cases e)
  have "task_claims (snd (insert_and_schedule env d b ty p u)) = task_claims b"
    by (auto simp: insert_and_schedule_def insert_event_def Let_def split: option.splits prod.splits)
  with e show ?thesis by (simp add: owner_def)
qed

lemma owner_with_row [simp]: "owner (with_row env t a b) t' = (if t' = t then Some a else owner b t')"
  by (simp add: owner_def map_of_update)

lemma owner_without_row [simp]: "owner (without_row t b) t' = (if t' = t then None else owner b t')"
  by (simp add: owner_def map_of_delete)

lemma bus_ok_append_any:
  "bus_ok b \<Longrightarrow> dict_ok p \<Longrightarrow> bus_ok (bus_append (env, d, ty, p, u) b)"
  using insert_event_bus_ok(1) by simp

lemma bus_ok_task_claims: "bus_ok b \<Longrightarrow> dict_ok (task_claims b)"
  by (simp add: bus_ok_def)

interpretation gate: ownership_table
  bus_ok "\<lambda>e. dict_ok (snd e) \<and> snd e \<noteq> []" owner bus_take bus_drop
proof
  fix b b' :: bus and e :: "run_env \<times> payload" and t a
  assume ok: "bus_ok b" and lg: "dict_ok (snd e) \<and> snd e \<noteq> []"
    and tk: "bus_take e t a b = (True, b')"
  obtain env p where e: "e = (env, p)" by (cases e)
  from tk e lg have "claim_attempts env b t a p [0 ..< LOCK_RETRIES] = (Ret WON, b')"
    by (auto simp: bus_take_def try_atomic_claim_def split: prod.splits)
  from try_atomic_claim_outcome [OF this]
  have "owner b t = None" and b': "b' = bus_append (env, 0, ''heartbeat'', p, None) (with_row env t a b)"
    by auto
  moreover have "bus_ok (with_row env t a b)" using ok by (simp add: bus_ok_task_claims)
  ultimately show "owner b t = None \<and> owner b' = (owner b)(t := Some a) \<and> bus_ok b'"
    using lg e bus_ok_append_any by (auto simp: owner_append simp del: bus_append.simps)
next
  fix b b' :: bus and e :: "run_env \<times> payload" and t a
  assume "bus_take e t a b = (False, b')"
  then show "b' = b"
    by (auto simp: bus_take_def try_atomic_claim_def split: prod.splits
        dest!: claim_attempts_outcome)
next
  fix b b' :: bus and e :: "run_env \<times> payload" and t a
  assume ok: "bus_ok b" and lg: "dict_ok (snd e) \<and> snd e \<noteq> []"
    and dr: "bus_drop e t a b = (True, b')"
  obtain env p where e: "e = (env, p)" by (cases e)
  from dr e have "release_attempts env 0 b t ''heartbeat'' p (Some a) [0 ..< LOCK_RETRIES] = (Ret RELEASED, b')"
    by (auto simp: bus_drop_def release_claim_with_event_def split: prod.splits)
  from release_outcome [OF this]
  have "owner b t = Some a" and b': "b' = bus_append (env, 0, ''heartbeat'', p, None) (without_row t b)"
    by auto
  moreover have "bus_ok (without_row t b)" using ok by (simp add: bus_ok_task_claims)
  ultimately show "owner b t = Some a \<and> owner b' = (owner b)(t := None) \<and> bus_ok b'"
    using lg e bus_ok_append_any by (auto simp: owner_append simp del: bus_append.simps)
next
  fix b b' :: bus and e :: "run_env \<times> payload" and t a
  assume "bus_drop e t a b = (False, b')"
  then show "b' = b"
    by (auto simp: bus_drop_def release_claim_with_event_def split: prod.splits
        dest!: release_attempts_outcome)
qed

end
