(* ===== verification/QueueRuns.thy ===== *)
theory QueueRuns
  imports QueueOwnership
begin

text \<open>
  Runs of the task board.  \<open>board_run\<close> is the step relation of any number of agents: every
  operation decides on some earlier state of the history and writes the current one.
  \<open>owner_inv\<close> ties the \<open>task_claims\<close> table to the folded snapshots in all runs.  The
  section on operations gives the behaviour of each branch of claim, complete, fail and
  clean-up.
\<close>

section \<open>What an operation writes\<close>

text \<open>A task id that survives redaction: the snapshot is then filed under the id itself.\<close>

definition id_ok :: "string \<Rightarrow> bool" where
  "id_ok t = (t \<noteq> [] \<and> redact_text t = t)"

definition task_status :: "bus \<Rightarrow> string \<Rightarrow> json" where
  "task_status b t = jget (snap b t) ''status''"

definition task_agent :: "bus \<Rightarrow> string \<Rightarrow> json" where
  "task_agent b t = jget (snap b t) ''assigned_agent''"

text \<open>The payloads of the board's own events carry a task kind and the task's id.\<close>

definition task_event :: "string \<Rightarrow> payload \<Rightarrow> bool" where
  "task_event t p = (dict_ok p \<and> jget p ''task_id'' = JStr t \<and>
     (\<exists>k \<in> set TASK_EVENT_KINDS. map_of p ''kind'' = Some (JStr k)))"

lemma task_event_durable:
  assumes "task_event t p" and "id_ok t"
  shows "kind_in TASK_EVENT_KINDS (durable p)" and "jget (durable p) ''task_id'' = JStr t"
  using assms durable_str [of p "''task_id''"] durable_str [of p "''kind''"]
  by (auto simp: task_event_def id_ok_def kind_in_def jget_JStr TASK_EVENT_KINDS_def
      CREDENTIAL_KEYS_def simp del: map_of_eq_Some_iff)

lemma fresh_after_append:
  assumes "env_ok env b" and "d \<noteq> d'"
  shows "fresh_uuid (uuid4 env d') (bus_append (env, d, ty, p, None) b)"
proof -
  have "fresh_uuid (event_identity (env, d, ty, p, None)) b" using assms(1) by (simp add: env_ok_def)
  from bus_append_fields(1) [OF this] assms show ?thesis
    by (auto simp: fresh_uuid_def env_ok_def dest: injD)
qed

lemma env_ok_claims [simp]: "env_ok env (b\<lparr>task_claims := c\<rparr>) = env_ok env b"
  by (simp add: env_ok_def)

lemma snap_board_event:
  assumes "bus_ok b" and "fresh_uuid (uuid4 env d) b" and "task_event t p" and "id_ok t"
  shows "snap (bus_append (env, d, ''heartbeat'', p, None) b) t' =
         (if t' = t then dict_update (snap b t) (durable p) else snap b t')"
  using assms task_event_durable [OF assms(3,4)]
  by (intro snap_task_event) (auto simp: task_event_def id_ok_def)

lemma board_payload_events:
  "task_event t (claim_payload_of env t a)"
  "task_event t (complete_payload t a n)"
  "task_event t (failed_payload t a r m n)"
  "task_event t (abandoned_payload t a r m n)"
  "task_event t (requeue_payload t r m n)"
  "task_event t (enqueue_payload t nm ph pr n dp sr sh rq)"
  by (simp_all add: task_event_def claim_payload_of_def complete_payload_def failed_payload_def
      abandoned_payload_def requeue_payload_def enqueue_payload_def payload_simps
      split: option.splits)

lemma pulse_not_task_event: "\<not> kind_in TASK_EVENT_KINDS (durable (presence_pulse_payload env a))"
  by (simp add: presence_pulse_payload_def payload_simps)

lemma pulse_keeps:
  assumes "bus_ok b" and "fresh_uuid (uuid4 env 1) b" and "pulse_after env b a = (r, b')"
  shows "snap b' = snap b" and "owner b' = owner b" and "bus_ok b'"
    and "r = (if emit_ok env then Ret QNone else Raise GossipBusError)"
proof -
  let ?p = "presence_pulse_payload env a"
  have p: "dict_ok ?p" "map_of ?p ''_gossip_uuid'' = None"
    by (simp_all add: presence_pulse_payload_def)
  have b': "b' = (if emit_ok env then bus_append (env, 1, ''heartbeat'', ?p, None) b else b)"
    and r: "r = (if emit_ok env then Ret QNone else Raise GossipBusError)"
    using assms(3) p(2) by (auto simp: pulse_after_def emit_simps emit_failed split: if_splits)
  show "snap b' = snap b"
    using latest_other_event [OF assms(1) p(1) assms(2) pulse_not_task_event] b'
    by (auto simp: snap_def fun_eq_iff simp del: bus_append.simps)
  show "owner b' = owner b" using b' by (auto simp: owner_append fun_eq_iff simp del: bus_append.simps)
  show "bus_ok b'" using b' bus_ok_append_any [OF assms(1) p(1)] assms(1)
    by (simp del: bus_append.simps)
  show "r = (if emit_ok env then Ret QNone else Raise GossipBusError)" by (rule r)
qed


section \<open>The branches of the operations\<close>

text \<open>
  What a committed transaction followed by the presence pulse leaves behind: the event is
  folded into the snapshots, the row of the task becomes \<open>h\<close>, nothing else moves.
\<close>

definition committed :: "string \<Rightarrow> payload \<Rightarrow> string option \<Rightarrow> bus \<Rightarrow> bus \<Rightarrow> bool" where
  "committed t p h b b' \<longleftrightarrow>
     bus_ok b' \<and> owner b' = (owner b)(t := h) \<and>
     (id_ok t \<longrightarrow> snap b' = (snap b)(t := dict_update (snap b t) (durable p)))"

lemma committed_ok: "committed t p h b b' \<Longrightarrow> bus_ok b'"
  by (simp add: committed_def)

lemma committed_append:
  assumes "bus_ok b" and "fresh_uuid (uuid4 env d) b" and "task_event t p" and "dict_ok c"
    and "owner (b\<lparr>task_claims := c\<rparr>) = (owner b)(t := h)"
  shows "committed t p h b (bus_append (env, d, ''heartbeat'', p, None) (b\<lparr>task_claims := c\<rparr>))"
proof -
  have ok: "bus_ok (b\<lparr>task_claims := c\<rparr>)" using assms(1,4) by simp
  have "dict_ok p" using assms(3) by (simp add: task_event_def)
  from bus_ok_append_any [OF ok this] snap_board_event [OF ok _ assms(3)] assms(2,5) show ?thesis
    by (auto simp: committed_def owner_append fun_eq_iff simp del: bus_append.simps)
qed

lemma committed_pulse:
  assumes "committed t p h b b1" and "fresh_uuid (uuid4 env 1) b1"
    and "pulse_after env b1 a = (r, b')"
  shows "committed t p h b b'" and "r = (if emit_ok env then Ret QNone else Raise GossipBusError)"
  using pulse_keeps [OF _ assms(2,3)] assms(1) by (auto simp: committed_def)

lemma claim_cases:
  assumes "bus_ok b" and "env_ok env b" and "queue_claim env b0 b t a = (r, b')"
  obtains
    (won) "queue_claim_check env (latest_task_snapshots b0) t a = Ret None" "owner b t = None"
      "committed t (claim_payload_of env t a) (Some a) b b'"
      "r = (if emit_ok env then Ret QNone else Raise GossipBusError)"
  | (lost) "b' = b" "r \<noteq> Ret QNone"
proof (cases "queue_claim_check env (latest_task_snapshots b0) t a")
  case (Raise e)
  with assms(3) show thesis by (auto simp: queue_claim_def intro: lost)
next
  case (Ret verdict)
  show thesis
  proof (cases verdict)
    case (Some err)
    with Ret assms(3) show thesis by (auto simp: queue_claim_def intro: lost)
  next
    case None
    let ?p = "claim_payload_of env t a"
    obtain q b1 where q: "claim_attempts env b t a ?p [0 ..< LOCK_RETRIES] = (q, b1)"
      by (cases "claim_attempts env b t a ?p [0 ..< LOCK_RETRIES]")
    have tr: "try_atomic_claim env b t a (Some ?p) = (q, b1)"
      using q by (simp add: try_atomic_claim_def claim_payload_of_def)
    show thesis
    proof (cases "q = Ret WON")
      case False
      with claim_attempts_outcome [OF q] have "b1 = b" by blast
      with False tr Ret None assms(3) show thesis
        by (auto simp: queue_claim_def intro: lost split: res.splits claim_result.splits)
    next
      case True
      with claim_attempts_outcome [OF q] have free: "owner b t = None"
        and b1: "b1 = bus_append (env, 0, ''heartbeat'', ?p, None) (with_row env t a b)" by auto
      have "committed t ?p (Some a) b b1" unfolding b1
        using assms(1,2) by (intro committed_append env_ok_fresh)
          (auto simp: board_payload_events bus_ok_task_claims fun_eq_iff)
      moreover have "fresh_uuid (uuid4 env 1) b1"
        unfolding b1 by (rule fresh_after_append) (simp_all add: assms(2))
      moreover have "pulse_after env b1 a = (r, b')"
        using assms(3) Ret None tr True by (simp add: queue_claim_def)
      ultimately show thesis using committed_pulse won [OF _ free] Ret None by blast
    qed
  qed
qed

lemma release_cases:
  assumes "bus_ok b" and "env_ok env b" and "task_event t p"
    and "release_then_pulse env b t a p = (r, b')"
  obtains
    (released) "owner b t = Some a" "committed t p None b b'"
      "r = (if emit_ok env then Ret QNone else Raise GossipBusError)"
  | (kept) "b' = b" "r \<noteq> Ret QNone"
proof -
  obtain q b1 where q: "release_attempts env 0 b t ''heartbeat'' p (Some a) [0 ..< LOCK_RETRIES] = (q, b1)"
    by (cases "release_attempts env 0 b t ''heartbeat'' p (Some a) [0 ..< LOCK_RETRIES]")
  have tr: "release_claim_with_event env 0 b t ''heartbeat'' p (Some a) = (q, b1)"
    using q by (simp add: release_claim_with_event_def)
  show thesis
  proof (cases "q = Ret RELEASED")
    case False
    with release_attempts_outcome [OF q] have "b1 = b" by blast
    with False tr assms(4) show thesis
      by (auto simp: release_then_pulse_def intro: kept split: res.splits release_result.splits)
  next
    case True
    with release_attempts_outcome [OF q] have own: "owner b t = Some a"
      and b1: "b1 = bus_append (env, 0, ''heartbeat'', p, None) (without_row t b)" by auto
    have "committed t p None b b1" unfolding b1
      using assms(1-3) by (intro committed_append env_ok_fresh) (auto simp: bus_ok_task_claims fun_eq_iff)
    moreover have "fresh_uuid (uuid4 env 1) b1"
      unfolding b1 by (rule fresh_after_append) (simp_all add: assms(2))
    moreover have "pulse_after env b1 a = (r, b')"
      using assms(4) tr True by (simp add: release_then_pulse_def)
    ultimately show thesis using committed_pulse released [OF own] by blast
  qed
qed

lemma complete_cases:
  assumes "bus_ok b" and "env_ok env b" and "queue_complete env b0 b t a n = (r, b')"
  obtains
    (finished) "owned_check (latest_task_snapshots b0) t a = None" "owner b t = Some a"
      "committed t (complete_payload t a n) None b b'"
      "r = (if emit_ok env then Ret QNone else Raise GossipBusError)"
  | (kept) "b' = b" "r \<noteq> Ret QNone"
proof (cases "owned_check (latest_task_snapshots b0) t a")
  case None
  with assms(3) have "release_then_pulse env b t a (complete_payload t a n) = (r, b')"
    by (simp add: queue_complete_def)
  from release_cases [OF assms(1,2) board_payload_events(2) this] finished [OF None] kept
  show thesis by blast
next
  case (Some e)
  with assms(3) show thesis by (auto simp: queue_complete_def intro: kept)
qed

text \<open>The counters \<open>queue_fail\<close> decides with, read from the snapshot it folded.\<close>

definition retry_counters :: "bus \<Rightarrow> string \<Rightarrow> (int \<times> int) res" where
  "retry_counters b t =
     res_bind (py_int (dict_get (snap b t) ''retry_count'' (JInt 0))) (\<lambda>rc.
     res_bind (py_int (dict_get (snap b t) ''max_retries'' (JInt 3))) (\<lambda>mx. Ret (rc + 1, mx)))"

lemma fail_cases:
  assumes "bus_ok b" and "env_ok env b" and "queue_fail env nt b0 b t a n = (r, b')"
  obtains
    (retry) rc mx where "retry_counters b0 t = Ret (rc, mx)" "rc \<le> mx"
      "owned_check (latest_task_snapshots b0) t a = None" "owner b t = Some a"
      "committed t (failed_payload t a rc mx (nt True rc mx n)) None b b'"
      "r = (if emit_ok env then Ret QNone else Raise GossipBusError)"
  | (abandoned) rc mx where "retry_counters b0 t = Ret (rc, mx)" "mx < rc"
      "owned_check (latest_task_snapshots b0) t a = None" "owner b t = Some a"
      "committed t (abandoned_payload t a rc mx (nt False rc mx n)) None b b'"
      "r = (if emit_ok env then Ret QNone else Raise GossipBusError)"
  | (kept) "b' = b" "r \<noteq> Ret QNone"
proof (cases "owned_check (latest_task_snapshots b0) t a")
  case (Some e)
  with assms(3) show thesis by (auto simp: queue_fail_def Let_def intro: kept)
next
  case None
  show thesis
  proof (cases "retry_counters b0 t")
    case (Raise e)
    with None assms(3) show thesis
      by (auto simp: queue_fail_def Let_def retry_counters_def snap_def intro: kept)
  next
    case (Ret c)
    obtain rc mx where c: "c = (rc, mx)" by (cases c)
    let ?p = "if rc \<le> mx then failed_payload t a rc mx (nt True rc mx n)
              else abandoned_payload t a rc mx (nt False rc mx n)"
    from Ret None assms(3) c have "release_then_pulse env b t a ?p = (r, b')"
      by (simp add: queue_fail_def Let_def retry_counters_def snap_def)
    moreover have "task_event t ?p" by (simp add: board_payload_events)
    ultimately show thesis
      using release_cases [OF assms(1,2), of t ?p a r b'] retry abandoned kept Ret c None
      by (cases "rc \<le> mx") (simp_all, blast+)
  qed
qed


lemma fresh_later:
  assumes "fresh_uuid (uuid4 env d') b" and "inj (uuid4 env)" and "d \<noteq> d'"
  shows "fresh_uuid (uuid4 env d') (bus_append (env, d, ty, p, None) b)"
proof (cases "fresh_uuid (uuid4 env d) b")
  case True
  then have "fresh_uuid (event_identity (env, d, ty, p, None)) b" by simp
  from bus_append_fields(1) [OF this] assms show ?thesis
    by (auto simp: fresh_uuid_def dest: injD)
next
  case False
  then have "\<not> fresh_uuid (event_identity (env, d, ty, p, None)) b" by simp
  from insert_duplicate [OF this, of None] assms(1) show ?thesis
    by (auto simp: insert_and_schedule_def split: prod.splits)
qed

text \<open>
  The clean-up loop, for any property of states that a requeue of an owned task keeps.
\<close>

lemma cleanup_rows_keeps:
  assumes keep: "\<And>b d t a rc mx. \<lbrakk>bus_ok b; Q b; owner b t = Some a; fresh_uuid (uuid4 env d) b\<rbrakk> \<Longrightarrow>
      Q (bus_append (env, d, ''heartbeat'', requeue_payload t rc mx (auto_release_note a), None) (without_row t b))"
    and inj: "inj (uuid4 env)"
  shows "\<lbrakk>bus_ok b; Q b; \<And>d. i \<le> d \<Longrightarrow> fresh_uuid (uuid4 env d) b;
     cleanup_rows env snaps i rows b = (r, b')\<rbrakk> \<Longrightarrow> bus_ok b' \<and> Q b'"
proof (induction rows arbitrary: i b r b')
  case Nil
  then show ?case by simp
next
  case (Cons row rows)
  obtain t a where row: "row = (t, a)" by (cases row)
  define ts where "ts = dict_get snaps (JStr t) []"
  define cnt where "cnt = res_bind (py_int (dict_get ts ''retry_count'' (JInt 0))) (\<lambda>rc.
    res_bind (py_int (dict_get ts ''max_retries'' (JInt 3))) (\<lambda>mx. Ret (rc, mx)))"
  show ?case
  proof (cases cnt)
    case (Raise e)
    with Cons.prems row show ?thesis by (simp add: cnt_def ts_def Let_def)
  next
    case (Ret c)
    obtain rc mx where c: "c = (rc, mx)" by (cases c)
    let ?p = "requeue_payload t rc mx (auto_release_note a)"
    obtain q b1 where q: "release_attempts env i b t ''heartbeat'' ?p (Some a) [0 ..< LOCK_RETRIES] = (q, b1)"
      by (cases "release_attempts env i b t ''heartbeat'' ?p (Some a) [0 ..< LOCK_RETRIES]")
    have b1: "bus_ok b1 \<and> Q b1 \<and> (\<forall>d \<ge> Suc i. fresh_uuid (uuid4 env d) b1)"
    proof (cases "b1 = b")
      case True
      with Cons.prems show ?thesis by simp
    next
      case False
      with release_attempts_outcome [OF q] have own: "owner b t = Some a"
        and b1: "b1 = bus_append (env, i, ''heartbeat'', ?p, None) (without_row t b)" by auto
      have "committed t ?p None b b1" unfolding b1
        using Cons.prems by (intro committed_append)
          (auto simp: board_payload_events bus_ok_task_claims fun_eq_iff)
      moreover have "Q b1" unfolding b1 by (rule keep [OF Cons.prems(1,2) own]) (simp add: Cons.prems(3))
      ultimately have "Q b1" "bus_ok b1" by (auto simp: committed_def)
      moreover have "fresh_uuid (uuid4 env d) b1" if "Suc i \<le> d" for d
        unfolding b1 using Cons.prems(3) inj that by (intro fresh_later) auto
      ultimately show ?thesis by blast
    qed
    obtain r2 b2 where r2: "cleanup_rows env snaps (Suc i) rows b1 = (r2, b2)"
      by (cases "cleanup_rows env snaps (Suc i) rows b1")
    from b1 Cons.IH [OF _ _ _ r2] have "bus_ok b2 \<and> Q b2" by blast
    moreover have "b' = b1 \<or> b' = b2"
      using Cons.prems(4) Ret c q r2 row
      by (auto simp: release_claim_with_event_def cnt_def ts_def Let_def split: res.splits)
    ultimately show ?thesis using b1 by blast
  qed
qed

section \<open>Runs\<close>

text \<open>
  A run is its list of states, newest first.  Every operation reads some state \<open>b0\<close> of the
  history (its snapshot read happens before its transaction) and writes the newest one.
  Task ids survive redaction and a new task's id is not in use.
\<close>

inductive board_run :: "bus list \<Rightarrow> bool" where
  start: "board_run [empty_bus]"
| add: "\<lbrakk>board_run (b # h); env_ok env b;
     queue_add env b nm ph pr n dp sr sh rq = (r, b');
     id_ok (new_task_id env ph nm); snap b (new_task_id env ph nm) = []\<rbrakk>
   \<Longrightarrow> board_run (b' # b # h)"
| claim: "\<lbrakk>board_run (b # h); env_ok env b; b0 \<in> set (b # h); id_ok t;
     queue_claim env b0 b t a = (r, b')\<rbrakk> \<Longrightarrow> board_run (b' # b # h)"
| complete: "\<lbrakk>board_run (b # h); env_ok env b; b0 \<in> set (b # h); id_ok t;
     queue_complete env b0 b t a n = (r, b')\<rbrakk> \<Longrightarrow> board_run (b' # b # h)"
| fail: "\<lbrakk>board_run (b # h); env_ok env b; b0 \<in> set (b # h); id_ok t;
     queue_fail env nt b0 b t a n = (r, b')\<rbrakk> \<Longrightarrow> board_run (b' # b # h)"
| cleanup: "\<lbrakk>board_run (b # h); env_ok env b; b0 \<in> set (b # h);
     cleanup_stale_queue_claims env b0 b dead = (r, b')\<rbrakk> \<Longrightarrow> board_run (b' # b # h)"
| other: "\<lbrakk>board_run (b # h); env_ok env b; dict_ok p; map_of p ''_gossip_uuid'' = None;
     \<not> kind_in TASK_EVENT_KINDS (durable p); emit env 0 b ty p None = (r, b')\<rbrakk>
   \<Longrightarrow> board_run (b' # b # h)"

definition owner_inv :: "bus \<Rightarrow> bool" where
  "owner_inv b \<longleftrightarrow>
     (\<forall>t a. owner b t = Some a \<longrightarrow> id_ok t \<and> task_status b t = JStr ''claimed'' \<and>
        task_agent b t = JStr (redact_text a)) \<and>
     (\<forall>t. id_ok t \<longrightarrow> owner b t = None \<longrightarrow> task_status b t \<noteq> JStr ''claimed'')"

lemma owner_inv_committed:
  assumes inv: "owner_inv b" and com: "committed t p h b b'" and t: "id_ok t"
    and p: "dict_ok p" and h: "case h of
       Some a \<Rightarrow> map_of (durable p) ''status'' = Some (JStr ''claimed'') \<and>
         map_of (durable p) ''assigned_agent'' = Some (JStr (redact_text a))
     | None \<Rightarrow> \<exists>s. map_of (durable p) ''status'' = Some s \<and> s \<noteq> JStr ''claimed''"
  shows "owner_inv b'"
proof -
  from com t have o: "owner b' = (owner b)(t := h)"
    and s: "snap b' = (snap b)(t := dict_update (snap b t) (durable p))"
    by (auto simp: committed_def)
  have view: "task_status b' u = (if u = t then jget (dict_update (snap b t) (durable p)) ''status'' else task_status b u)"
    "task_agent b' u = (if u = t then jget (dict_update (snap b t) (durable p)) ''assigned_agent'' else task_agent b u)"
    for u using s by (auto simp: task_status_def task_agent_def)
  have j: "jget (dict_update (snap b t) (durable p)) k = v" if "map_of (durable p) k = Some v" for k v
    using that p by (simp add: jget_dict_update del: map_of_eq_Some_iff)
  from h inv o t view show ?thesis
    by (cases h) (auto simp: owner_inv_def j simp del: map_of_eq_Some_iff)
qed

lemmas board_payload_defs =
  claim_payload_of_def complete_payload_def failed_payload_def abandoned_payload_def
  requeue_payload_def payload_simps

lemma owner_inv_board_ops:
  assumes "owner_inv b" and "id_ok t"
  shows "committed t (claim_payload_of env t a) (Some a) b b' \<Longrightarrow> owner_inv b'"
    and "committed t (complete_payload t a n) None b b' \<Longrightarrow> owner_inv b'"
    and "committed t (failed_payload t a rc mx n) None b b' \<Longrightarrow> owner_inv b'"
    and "committed t (abandoned_payload t a rc mx n) None b b' \<Longrightarrow> owner_inv b'"
    and "committed t (requeue_payload t rc mx n) None b b' \<Longrightarrow> owner_inv b'"
  using assms
  by (auto elim!: owner_inv_committed simp: board_payload_defs)


lemma add_cases:
  assumes "bus_ok b" and "env_ok env b" and "queue_add env b nm ph pr n dp sr sh rq = (r, b')"
    and "owner b (new_task_id env ph nm) = None"
  obtains
    (added) prio where "priority_from_string pr = Ret prio" "r = Ret (QTaskId (new_task_id env ph nm))"
      "committed (new_task_id env ph nm)
        (enqueue_payload (new_task_id env ph nm) nm ph prio n dp sr sh rq) None b b'"
  | (refused) "b' = b"
proof (cases "validate_queue_add_args sr sh rq")
  case (Some e)
  with assms(3) refused show thesis by (auto simp: queue_add_def)
next
  case None
  show thesis
  proof (cases "priority_from_string pr")
    case (Raise e)
    with None assms(3) refused show thesis by (auto simp: queue_add_def queue_add_impl_def Let_def)
  next
    case (Ret prio)
    let ?t = "new_task_id env ph nm"
    let ?p = "enqueue_payload ?t nm ph prio n dp sr sh rq"
    have "b' = bus_append (env, 1, ''heartbeat'', ?p, None) (b\<lparr>task_claims := task_claims b\<rparr>)"
      and r: "r = Ret (QTaskId ?t)"
      using None Ret assms(3) by (auto simp: queue_add_def queue_add_impl_def Let_def)
    moreover have "committed ?t ?p None b
      (bus_append (env, 1, ''heartbeat'', ?p, None) (b\<lparr>task_claims := task_claims b\<rparr>))"
      using assms(1,2,4) by (intro committed_append env_ok_fresh)
        (auto simp: board_payload_events bus_ok_task_claims fun_eq_iff)
    ultimately show thesis using added Ret by simp
  qed
qed

lemma cleanup_owner_inv:
  assumes "bus_ok b" and "owner_inv b" and "env_ok env b"
    and "cleanup_stale_queue_claims env b0 b dead = (r, b')"
  shows "bus_ok b' \<and> owner_inv b'"
proof (cases "dead = []")
  case True
  with assms show ?thesis by (simp add: cleanup_stale_queue_claims_def)
next
  case False
  have keep: "owner_inv (bus_append (env, d, ''heartbeat'', requeue_payload t rc mx (auto_release_note a), None)
      (without_row t b1))"
    if "bus_ok b1" "owner_inv b1" "owner b1 t = Some a" "fresh_uuid (uuid4 env d) b1" for b1 d t a rc mx
  proof (rule owner_inv_board_ops(5) [OF that(2)])
    show "id_ok t" using that(2,3) by (simp add: owner_inv_def)
    show "committed t (requeue_payload t rc mx (auto_release_note a)) None b1
        (bus_append (env, d, ''heartbeat'', requeue_payload t rc mx (auto_release_note a), None) (without_row t b1))"
      using that by (intro committed_append)
        (auto simp: board_payload_events bus_ok_task_claims fun_eq_iff)
  qed
  have inj: "inj (uuid4 env)" using assms(3) by (simp add: env_ok_def)
  obtain snaps rows where rows: "cleanup_rows env snaps 0 rows b = (r, b')"
    using False assms(4) by (simp add: cleanup_stale_queue_claims_def)
  show ?thesis
    by (rule cleanup_rows_keeps [where Q = owner_inv, OF keep inj assms(1,2) env_ok_fresh [OF assms(3)] rows])
qed

lemma board_run_inv: "board_run hist \<Longrightarrow> bus_ok (hd hist) \<and> owner_inv (hd hist)"
proof (induction rule: board_run.induct)
  case start
  have "latest_task_snapshots empty_bus = []"
    by (simp add: latest_task_snapshots_def fetch_task_events_def select_asc_def empty_bus_def)
  then show ?case
    using bus_ok_empty
    by (auto simp: owner_inv_def owner_def task_status_def snap_def dict_get_def)
      (simp add: empty_bus_def)
next
  case (add b h env nm ph pr n dp sr sh rq r b')
  let ?t = "new_task_id env ph nm"
  from add have inv: "bus_ok b" "owner_inv b" by auto
  have "task_status b ?t = JNull" using add.hyps by (simp add: task_status_def)
  with inv(2) have free: "owner b ?t = None" by (cases "owner b ?t") (auto simp: owner_inv_def)
  show ?case
  proof (cases rule: add_cases [OF inv(1) add.hyps(2,3) free])
    case (1 prio)
    have "owner_inv b'"
    proof (rule owner_inv_committed [OF inv(2) 1(3)])
      show "dict_ok (enqueue_payload ?t nm ph prio n dp sr sh rq)"
        using board_payload_events(6) by (simp add: task_event_def)
    qed (auto simp: add.hyps enqueue_payload_def payload_simps)
    with 1 show ?thesis by (simp add: committed_def)
  qed (simp add: inv)
next
  case (claim b h env b0 t a r b')
  then have inv: "bus_ok b" "owner_inv b" by auto
  show ?case
    by (cases rule: claim_cases [OF inv(1) claim.hyps(2,5)])
      (auto simp: inv committed_ok dest: owner_inv_board_ops(1) [OF inv(2) claim.hyps(4)])
next
  case (complete b h env b0 t a n r b')
  then have inv: "bus_ok b" "owner_inv b" by auto
  show ?case
    by (cases rule: complete_cases [OF inv(1) complete.hyps(2,5)])
      (auto simp: inv committed_ok dest: owner_inv_board_ops(2) [OF inv(2) complete.hyps(4)])
next
  case (fail b h env b0 t nt a n r b')
  then have inv: "bus_ok b" "owner_inv b" by auto
  show ?case
    by (cases rule: fail_cases [OF inv(1) fail.hyps(2,5)])
      (auto simp: inv committed_ok dest: owner_inv_board_ops(3,4) [OF inv(2) fail.hyps(4)])
next
  case (cleanup b h env b0 dead r b')
  then have inv: "bus_ok b" "owner_inv b" by auto
  from cleanup.hyps(2,4) show ?case
    using cleanup_owner_inv [OF inv] by simp
next
  case (other b h env p ty r b')
  then have inv: "bus_ok b" "owner_inv b" by auto
  have b': "b' = (if emit_ok env then bus_append (env, 0, ty, p, None) b else b)"
    using other.hyps by (auto simp: emit_simps emit_failed split: if_splits)
  have "snap b' = snap b"
    using latest_other_event [OF inv(1) other.hyps(3) env_ok_fresh [OF other.hyps(2)] other.hyps(5)] b'
    by (auto simp: snap_def fun_eq_iff simp del: bus_append.simps)
  moreover have "owner b' = owner b" using b' by (auto simp: owner_append fun_eq_iff simp del: bus_append.simps)
  ultimately show ?case
    using inv b' bus_ok_append_any [OF inv(1) other.hyps(3)]
    by (auto simp: owner_inv_def task_status_def task_agent_def simp del: bus_append.simps)
qed


lemma committed_view:
  assumes "committed t p h b b'" and "id_ok t" and "dict_ok p"
  shows "jget (snap b' t) k = (case map_of (durable p) k of Some v \<Rightarrow> v | None \<Rightarrow> jget (snap b t) k)"
    and "u \<noteq> t \<Longrightarrow> snap b' u = snap b u"
    and "owner b' = (owner b)(t := h)"
  using assms by (simp_all add: committed_def jget_dict_update)

lemma claim_attempts_wins:
  assumes "n < LOCK_RETRIES" and "lock_attempt env n = Acquired" and "owner b t = None"
    and "\<And>m. m < n \<Longrightarrow> lock_attempt env m = Locked" and "i \<le> n"
  shows "claim_attempts env b t a p [i ..< LOCK_RETRIES] =
    (Ret WON, bus_append (env, 0, ''heartbeat'', p, None) (with_row env t a b))"
  using assms(5)
proof (induction "n - i" arbitrary: i)
  case 0
  then have "[i ..< LOCK_RETRIES] = n # [Suc n ..< LOCK_RETRIES]" using assms(1) by (simp add: upt_conv_Cons)
  with assms(2,3) show ?case by (simp add: claim_transaction_def owner_def)
next
  case (Suc k)
  then have "[i ..< LOCK_RETRIES] = i # [Suc i ..< LOCK_RETRIES]" "Suc i < LOCK_RETRIES" "i < n"
    using assms(1) by (simp_all add: upt_conv_Cons)
  with Suc assms(4) [of i] show ?case by simp
qed

lemma claim_wins:
  assumes "queue_claim_check env (latest_task_snapshots b0) t a = Ret None" and "owner b t = None"
    and "n < LOCK_RETRIES" and "lock_attempt env n = Acquired"
    and "\<And>m. m < n \<Longrightarrow> lock_attempt env m = Locked" and "bus_ok b" and "env_ok env b"
  obtains b' where "queue_claim env b0 b t a = (if emit_ok env then Ret QNone else Raise GossipBusError, b')"
    and "committed t (claim_payload_of env t a) (Some a) b b'"
proof -
  let ?p = "claim_payload_of env t a"
  let ?b1 = "bus_append (env, 0, ''heartbeat'', ?p, None) (with_row env t a b)"
  have "try_atomic_claim env b t a (Some ?p) = (Ret WON, ?b1)"
    using claim_attempts_wins [OF assms(3,4,2,5), of 0]
    by (simp add: try_atomic_claim_def claim_payload_of_def del: bus_append.simps)
  then have q: "queue_claim env b0 b t a = pulse_after env ?b1 a"
    using assms(1) by (simp add: queue_claim_def del: bus_append.simps)
  obtain r b' where r: "pulse_after env ?b1 a = (r, b')" by (cases "pulse_after env ?b1 a")
  have com: "committed t ?p (Some a) b ?b1"
    using assms(6,7) by (intro committed_append env_ok_fresh)
      (auto simp: board_payload_events bus_ok_task_claims fun_eq_iff)
  have "fresh_uuid (uuid4 env 1) ?b1" by (rule fresh_after_append) (simp_all add: assms(7))
  note pulse = committed_pulse [OF com this r]
  show thesis by (rule that [OF _ pulse(1)]) (simp only: q r pulse(2))
qed

lemma release_wins:
  assumes "owner b t = Some a" and "lock_attempt env 0 = Acquired" and "bus_ok b" and "env_ok env b"
    and "task_event t p"
  obtains b' where "release_then_pulse env b t a p = (if emit_ok env then Ret QNone else Raise GossipBusError, b')"
    and "committed t p None b b'"
proof -
  let ?b1 = "bus_append (env, 0, ''heartbeat'', p, None) (without_row t b)"
  have "[0 ..< LOCK_RETRIES] = 0 # [1 ..< LOCK_RETRIES]" by (simp add: upt_conv_Cons LOCK_RETRIES_def)
  then have "release_claim_with_event env 0 b t ''heartbeat'' p (Some a) = (Ret RELEASED, ?b1)"
    using assms(1,2)
    by (auto simp: release_claim_with_event_def release_transaction_def owner_def Let_def)
  then have q: "release_then_pulse env b t a p = pulse_after env ?b1 a"
    by (simp add: release_then_pulse_def del: bus_append.simps)
  obtain r b' where r: "pulse_after env ?b1 a = (r, b')" by (cases "pulse_after env ?b1 a")
  have com: "committed t p None b ?b1"
    using assms(3-5) by (intro committed_append env_ok_fresh) (auto simp: bus_ok_task_claims fun_eq_iff)
  have "fresh_uuid (uuid4 env 1) ?b1" by (rule fresh_after_append) (simp_all add: assms(4))
  note pulse = committed_pulse [OF com this r]
  show thesis by (rule that [OF _ pulse(1)]) (simp only: q r pulse(2))
qed

lemma owned_check_holder:
  assumes "task_status b t = JStr ''claimed''"
  shows "owned_check (latest_task_snapshots b) t a =
    (if task_agent b t = JStr a then None else Some (NotClaimant (task_agent b t)))"
proof -
  from assms have "snap b t \<noteq> []" by (auto simp: task_status_def)
  then have "map_of (latest_task_snapshots b) (JStr t) = Some (snap b t)"
    by (auto simp: snap_def dict_get_def split: option.splits)
  with assms \<open>snap b t \<noteq> []\<close> show ?thesis
    by (simp add: owned_check_def Let_def task_status_def task_agent_def)
qed

section \<open>Dependencies\<close>

lemma by_task_name_fold:
  "map_of (fold (\<lambda>(t, state) d.
       let name = jget state ''task_name'' in
       if truthy name then AList.update name (dict_get d name [] @ [state]) d else d) snaps d) n =
   (let xs = dict_get d n [] @ filter (\<lambda>s. jget s ''task_name'' = n \<and> truthy n) (map snd snaps)
    in if map_of d n = None \<and> filter (\<lambda>s. jget s ''task_name'' = n \<and> truthy n) (map snd snaps) = []
       then None else Some xs)"
proof (induction snaps arbitrary: d)
  case Nil
  then show ?case by (simp add: dict_get_def split: option.splits)
next
  case (Cons x snaps)
  obtain t s where "x = (t, s)" by (cases x)
  with Cons show ?case by (auto simp: Let_def dict_simps)
qed

lemma by_task_name_spec:
  "map_of (by_task_name snaps) n =
   (let xs = filter (\<lambda>s. jget s ''task_name'' = n \<and> truthy n) (map snd snaps)
    in if xs = [] then None else Some xs)"
  unfolding by_task_name_def by_task_name_fold by (simp add: dict_simps)

definition is_completed :: "payload \<Rightarrow> bool" where
  "is_completed s = (jget s ''status'' = JStr ''completed'')"

lemma dependency_met_iff:
  "dependency_verdict_of snaps d = DepMet \<longleftrightarrow>
     (case map_of snaps d of
        Some s \<Rightarrow> is_completed s
      | None \<Rightarrow> \<exists>s. filter (\<lambda>s. jget s ''task_name'' = d \<and> truthy d) (map snd snaps) = [s] \<and> is_completed s)"
  by (auto simp: dependency_verdict_of_def by_task_name_spec Let_def is_completed_def
      split: option.splits list.splits)

lemma claim_check_passed:
  assumes "queue_claim_check env snaps t a = Ret None"
  obtains s deps where "map_of snaps (JStr t) = Some s"
    "jget s ''status'' \<notin> {JStr ''claimed'', JStr ''completed'', JStr ''abandoned''}"
    "jget s ''required_agent_id'' \<in> {JNull, JStr a}"
    "py_iter (dict_get s ''depends_on'' (JList [])) = Ret deps"
    "\<forall>d \<in> set deps. dependency_verdict_of snaps d = DepMet"
proof -
  obtain s where s: "map_of snaps (JStr t) = Some s"
    using assms by (cases "map_of snaps (JStr t)") (auto simp: queue_claim_check_def)
  obtain deps where d: "py_iter (dict_get s ''depends_on'' (JList [])) = Ret deps"
    and ok: "ambiguous_of snaps deps = []" "unmet_of snaps deps = []"
    using assms s by (cases "py_iter (dict_get s ''depends_on'' (JList []))")
      (auto simp: queue_claim_check_def Let_def split: if_splits)
  have "dependency_verdict_of snaps x = DepMet" if "x \<in> set deps" for x
    using ok that by (cases "dependency_verdict_of snaps x")
      (auto simp: ambiguous_of_def unmet_of_def filter_empty_conv)
  with s d assms show thesis
    by (intro that [OF s _ _ d]) (auto simp: queue_claim_check_def Let_def split: if_splits)
qed

section \<open>Properties\<close>

text \<open>The first state of a run, for the witnesses.\<close>

definition demo_queued :: bus where
  "demo_queued = snd (queue_add (demo_env (CHR ''a'')) empty_bus ''t'' ''P'' ''normal'' [] None
     None None None)"

lemma demo_queued_owner: "owner demo_queued t = None"
proof -
  have "task_claims demo_queued = []" by code_simp
  then show ?thesis by (simp add: owner_def)
qed

lemma demo_queued_uuids: "map event_uuid (gossip demo_queued) = [''ax'']"
  by code_simp

lemma demo_queued_snapshots:
  "latest_task_snapshots demo_queued =
     [(JStr ''P-t-a'', enqueue_payload ''P-t-a'' ''t'' ''P'' NORMAL [] None None None None)]"
  by code_simp

lemma demo_queued_check:
  "queue_claim_check (demo_env c) (latest_task_snapshots demo_queued) ''P-t-a'' ag = Ret None"
  by (simp add: demo_queued_snapshots queue_claim_check_def enqueue_payload_def Let_def jget_def
      dict_get_def depends_on_list_def ambiguous_of_def unmet_of_def)

lemma demo_id_ok [simp]: "id_ok ''P-t-a''"
  by (simp add: id_ok_def)

lemma env_ok_demo_queued: "c \<noteq> CHR ''a'' \<Longrightarrow> env_ok (demo_env c) demo_queued"
  using demo_queued_uuids demo_env_inj
  by (auto simp: env_ok_def fresh_uuid_def simp flip: set_map)

lemma demo_queued_run: "board_run [demo_queued, empty_bus]"
proof (rule board_run.add [OF board_run.start env_ok_empty])
  show "queue_add (demo_env (CHR ''a'')) empty_bus ''t'' ''P'' ''normal'' [] None None None None
      = (fst (queue_add (demo_env (CHR ''a'')) empty_bus ''t'' ''P'' ''normal'' [] None None None None), demo_queued)"
    by (simp add: demo_queued_def)
qed (simp_all add: new_task_id_def snap_def latest_task_snapshots_def fetch_task_events_def
    select_asc_def empty_bus_def dict_get_def)

lemma demo_queued_ok: "bus_ok demo_queued" "owner_inv demo_queued"
  using board_run_inv [OF demo_queued_run] by auto

lemma demo_claim:
  obtains b where "queue_claim (demo_env (CHR ''b'')) demo_queued demo_queued ''P-t-a'' ag = (Ret QNone, b)"
    and "committed ''P-t-a'' (claim_payload_of (demo_env (CHR ''b'')) ''P-t-a'' ag) (Some ag) demo_queued b"
    and "board_run [b, demo_queued, empty_bus]"
proof -
  have e: "env_ok (demo_env (CHR ''b'')) demo_queued" by (simp add: env_ok_demo_queued)
  obtain b where b: "queue_claim (demo_env (CHR ''b'')) demo_queued demo_queued ''P-t-a'' ag = (Ret QNone, b)"
    "committed ''P-t-a'' (claim_payload_of (demo_env (CHR ''b'')) ''P-t-a'' ag) (Some ag) demo_queued b"
    using claim_wins [OF demo_queued_check demo_queued_owner, of 0 "CHR ''b''"] demo_queued_ok e
    by (auto simp: LOCK_RETRIES_def)
  from board_run.claim [OF demo_queued_run e _ _ b(1)] have "board_run [b, demo_queued, empty_bus]" by simp
  with b that show thesis by blast
qed

definition uuids :: "bus \<Rightarrow> string set" where
  "uuids b = event_uuid ` set (gossip b)"

lemma uuids_append: "uuids (bus_append e b) \<subseteq> insert (event_identity e) (uuids b)"
proof (cases "fresh_uuid (event_identity e) b")
  case True
  obtain env d ty p u where "e = (env, d, ty, p, u)" by (cases e)
  with bus_append_fields(1) [OF True] show ?thesis by (auto simp: uuids_def)
next
  case False
  obtain env d ty p u where e: "e = (env, d, ty, p, u)" by (cases e)
  from False e insert_duplicate [of env d ty p u b None] have "bus_append e b = b"
    by (auto simp: insert_and_schedule_def split: prod.splits)
  then show ?thesis by auto
qed

lemma pulse_uuids: "uuids (snd (pulse_after env b a)) \<subseteq> uuids b \<union> range (uuid4 env)"
  using uuids_append [of "(env, 1, ''heartbeat'', presence_pulse_payload env a, None)" b]
  by (cases "emit_ok env") (auto simp: pulse_after_def emit_simps emit_failed
      presence_pulse_payload_def simp del: bus_append.simps)

lemma claim_uuids:
  assumes "queue_claim_check env (latest_task_snapshots b0) t a = Ret None" and "queue_claim env b0 b t a = (r, b')"
  shows "uuids b' \<subseteq> uuids b \<union> range (uuid4 env)"
proof -
  let ?p = "claim_payload_of env t a"
  obtain q b1 where q: "claim_attempts env b t a ?p [0 ..< LOCK_RETRIES] = (q, b1)"
    by (cases "claim_attempts env b t a ?p [0 ..< LOCK_RETRIES]")
  have "uuids b1 \<subseteq> uuids b \<union> range (uuid4 env)"
    using claim_attempts_outcome [OF q] uuids_append [of "(env, 0, ''heartbeat'', ?p, None)" "with_row env t a b"]
    by (auto simp: uuids_def simp del: bus_append.simps)
  moreover note pulse_uuids [of env b1 a]
  moreover have "b' = b1 \<or> b' = snd (pulse_after env b1 a)"
    using assms q by (auto simp: queue_claim_def try_atomic_claim_def claim_payload_of_def
        split: res.splits claim_result.splits)
  ultimately show ?thesis by auto
qed

lemma demo_claimed_env:
  assumes "queue_claim (demo_env (CHR ''b'')) demo_queued demo_queued ''P-t-a'' ag = (r, b)"
    and "c \<notin> {CHR ''a'', CHR ''b''}"
  shows "env_ok (demo_env c) b"
proof -
  have "uuids demo_queued = {''ax''}"
    using demo_queued_uuids by (simp add: uuids_def flip: set_map)
  with claim_uuids [OF demo_queued_check assms(1)] assms(2) demo_env_inj show ?thesis
    by (auto simp: env_ok_def fresh_uuid_def uuids_def)
qed

lemma demo_held:
  obtains b where "board_run [b, demo_queued, empty_bus]" and "bus_ok b" and "owner_inv b"
    and "\<And>c. c \<notin> {CHR ''a'', CHR ''b''} \<Longrightarrow> env_ok (demo_env c) b"
    and "env_ok (demo_env (CHR ''c'')) b"
    and "committed ''P-t-a'' (claim_payload_of (demo_env (CHR ''b'')) ''P-t-a'' ''bot'') (Some ''bot'') demo_queued b"
proof -
  obtain b where b: "queue_claim (demo_env (CHR ''b'')) demo_queued demo_queued ''P-t-a'' ''bot'' = (Ret QNone, b)"
    "committed ''P-t-a'' (claim_payload_of (demo_env (CHR ''b'')) ''P-t-a'' ''bot'') (Some ''bot'') demo_queued b"
    "board_run [b, demo_queued, empty_bus]" by (rule demo_claim)
  have inv: "bus_ok b" "owner_inv b" using board_run_inv [OF b(3)] by auto
  note env = demo_claimed_env [OF b(1)]
  have "env_ok (demo_env (CHR ''c'')) b" by (rule env) simp
  with inv b env show thesis by (intro that)
qed

lemma complete_uuids:
  assumes "queue_complete env b0 b t a n = (r, b')"
  shows "uuids b' \<subseteq> uuids b \<union> range (uuid4 env)"
proof -
  let ?p = "complete_payload t a n"
  obtain q b1 where q: "release_attempts env 0 b t ''heartbeat'' ?p (Some a) [0 ..< LOCK_RETRIES] = (q, b1)"
    by (cases "release_attempts env 0 b t ''heartbeat'' ?p (Some a) [0 ..< LOCK_RETRIES]")
  have "uuids b1 \<subseteq> uuids b \<union> range (uuid4 env)"
    using release_attempts_outcome [OF q] uuids_append [of "(env, 0, ''heartbeat'', ?p, None)" "without_row t b"]
    by (auto simp: uuids_def simp del: bus_append.simps)
  moreover note pulse_uuids [of env b1 a]
  moreover have "b' = b \<or> b' = b1 \<or> b' = snd (pulse_after env b1 a)"
    using assms q by (auto simp: queue_complete_def release_then_pulse_def release_claim_with_event_def
        split: option.splits res.splits release_result.splits)
  ultimately show ?thesis by auto
qed

lemma demo_complete:
  obtains b1 b2 where "board_run [b2, b1, demo_queued, empty_bus]"
    and "bus_ok b1" and "env_ok (demo_env (CHR ''c'')) b1" and "env_ok (demo_env (CHR ''d'')) b2"
    and "queue_complete (demo_env (CHR ''c'')) b1 b1 ''P-t-a'' ''bot'' [] = (Ret QNone, b2)"
    and "committed ''P-t-a'' (complete_payload ''P-t-a'' ''bot'' []) None b1 b2"
proof -
  let ?t = "''P-t-a''" and ?c = "demo_env (CHR ''c'')" and ?p = "complete_payload ''P-t-a'' ''bot'' []"
  obtain b1 where b1: "board_run [b1, demo_queued, empty_bus]" "bus_ok b1" "owner_inv b1"
    "env_ok (demo_env (CHR ''d'')) b1" "env_ok ?c b1"
    "committed ?t (claim_payload_of (demo_env (CHR ''b'')) ?t ''bot'') (Some ''bot'') demo_queued b1"
    by (rule demo_held) auto
  have own: "owner b1 ?t = Some ''bot''" using b1(6) by (simp add: committed_def)
  with b1(3) have st: "task_status b1 ?t = JStr ''claimed''" "task_agent b1 ?t = JStr ''bot''"
    by (auto simp: owner_inv_def)
  obtain b2 where b2: "release_then_pulse ?c b1 ?t ''bot'' ?p = (Ret QNone, b2)" "committed ?t ?p None b1 b2"
    using release_wins [OF own _ b1(2,5) board_payload_events(2)] by auto
  have q: "queue_complete ?c b1 b1 ?t ''bot'' [] = (Ret QNone, b2)"
    using owned_check_holder [OF st(1), of "''bot''"] st(2) b2(1) by (simp add: queue_complete_def)
  have "board_run [b2, b1, demo_queued, empty_bus]" using board_run.complete [OF b1(1,5) _ _ q] by simp
  moreover have "env_ok (demo_env (CHR ''d'')) b2"
    using complete_uuids [OF q] b1(4) by (auto simp: env_ok_def fresh_uuid_def uuids_def)
  ultimately show thesis using that b1 q b2(2) by blast
qed

text \<open>C1: In every run of the board, with any number of agents and with reads that are
  arbitrarily stale, the claims table and the folded snapshots agree: a task is shown as
  claimed exactly when it has a row, and the agent shown is the (redacted) holder.\<close>

theorem board_ownership:
  assumes "board_run (b # h)" and "id_ok t"
  shows "case map_of (task_claims b) t of
           None \<Rightarrow> task_status b t \<noteq> JStr ''claimed''
         | Some (a, claimed_at) \<Rightarrow>
             task_status b t = JStr ''claimed'' \<and> task_agent b t = JStr (redact_text a)"
  using board_run_inv [OF assms(1)] assms(2)
  by (auto simp: owner_inv_def owner_def split: option.splits)

theorem board_ownership_witness:
  "\<exists>b h. board_run (b # h) \<and> owner b ''P-t-a'' = Some ''bot'' \<and>
     task_status b ''P-t-a'' = JStr ''claimed'' \<and> task_agent b ''P-t-a'' = JStr ''bot''"
proof -
  obtain b where b: "committed ''P-t-a'' (claim_payload_of (demo_env (CHR ''b'')) ''P-t-a'' ''bot'') (Some ''bot'') demo_queued b"
    "board_run [b, demo_queued, empty_bus]" by (rule demo_claim)
  from b(1) have o: "owner b ''P-t-a'' = Some ''bot''" by (simp add: committed_def)
  then obtain ts where "map_of (task_claims b) ''P-t-a'' = Some (''bot'', ts)"
    by (auto simp: owner_def)
  with board_ownership [OF b(2) demo_id_ok] o b(2) show ?thesis by auto
qed

text \<open>C13: The atomic gate is exclusive: over any sequence of claim and release transactions,
  successful takes and releases of a task alternate, so a task never has two holders.\<close>

theorem gate_alternates:
  assumes "bus_ok b" and "\<forall>c \<in> set cs. dict_ok (snd (fst (snd c))) \<and> snd (fst (snd c)) \<noteq> []"
    and "exec_cmds bus_take bus_drop cs b = (tr, b')"
  shows "takes_of t tr + (case owner b t of None \<Rightarrow> 0 | Some a \<Rightarrow> 1) =
         drops_of t tr + (case owner b' t of None \<Rightarrow> 0 | Some a \<Rightarrow> 1)"
  using gate.exec_balance [OF assms] by simp

theorem gate_alternates_witness:
  "(let p = [(''kind'', JStr ''task_claim'')];
        cs = [(True, (demo_env (CHR ''a''), p), ''k'', ''bot''), (True, (demo_env (CHR ''b''), p), ''k'', ''cat'')]
    in takes_of ''k'' (fst (exec_cmds bus_take bus_drop cs empty_bus)) =
       drops_of ''k'' (fst (exec_cmds bus_take bus_drop cs empty_bus)) +
       (case owner (snd (exec_cmds bus_take bus_drop cs empty_bus)) ''k'' of None \<Rightarrow> 0 | Some a \<Rightarrow> 1))"
proof -
  have "owner empty_bus ''k'' = None" by (simp add: owner_def empty_bus_def)
  then show ?thesis
    unfolding Let_def
    by (subst gate_alternates [OF bus_ok_empty _ prod.collapse [symmetric], of _ "''k''", symmetric]) simp_all
qed


text \<open>C23: A successful claim respects every gate: in the snapshots the agent read, the task
  was neither claimed, completed nor abandoned, was not reserved for another agent, and each
  dependency was met, by id or as the only task of that name, and completed.\<close>

theorem claim_respects_gates:
  assumes "bus_ok b" and "env_ok env b" and "queue_claim env b0 b t a = (Ret QNone, b')"
  shows "\<exists>s deps. map_of (latest_task_snapshots b0) (JStr t) = Some s \<and>
    jget s ''status'' \<notin> {JStr ''claimed'', JStr ''completed'', JStr ''abandoned''} \<and>
    jget s ''required_agent_id'' \<in> {JNull, JStr a} \<and>
    py_iter (dict_get s ''depends_on'' (JList [])) = Ret deps \<and>
    (\<forall>d \<in> set deps.
       case map_of (latest_task_snapshots b0) d of
         Some s' \<Rightarrow> is_completed s'
       | None \<Rightarrow> \<exists>s'. filter (\<lambda>s. jget s ''task_name'' = d \<and> truthy d)
                          (map snd (latest_task_snapshots b0)) = [s'] \<and> is_completed s')"
  using assms
  by (cases rule: claim_cases [OF assms])
    (auto elim!: claim_check_passed simp: dependency_met_iff)

theorem claim_respects_gates_witness:
  "\<exists>s. map_of (latest_task_snapshots demo_queued) (JStr ''P-t-a'') = Some s \<and>
     jget s ''status'' \<noteq> JStr ''completed''"
proof -
  obtain b where "queue_claim (demo_env (CHR ''b'')) demo_queued demo_queued ''P-t-a'' ''bot'' = (Ret QNone, b)"
    by (rule demo_claim)
  from claim_respects_gates [OF demo_queued_ok(1) env_ok_demo_queued this] show ?thesis by auto
qed

text \<open>A claim whose checks pass, on a task nobody holds, succeeds as soon as one of the
  three lock attempts gets the write lock; the agent becomes the holder and the snapshot
  shows the task as claimed.\<close>

theorem claim_succeeds:
  assumes "bus_ok b" and "env_ok env b" and "id_ok t" and "emit_ok env"
    and "queue_claim_check env (latest_task_snapshots b0) t a = Ret None" and "owner b t = None"
    and "n < LOCK_RETRIES" and "lock_attempt env n = Acquired" and "\<forall>m < n. lock_attempt env m = Locked"
  shows "\<exists>b'. queue_claim env b0 b t a = (Ret QNone, b') \<and> owner b' = (owner b)(t := Some a) \<and>
     task_status b' t = JStr ''claimed'' \<and> task_agent b' t = JStr (redact_text a)"
proof -
  obtain b' where b': "queue_claim env b0 b t a = (Ret QNone, b')"
    "committed t (claim_payload_of env t a) (Some a) b b'"
    using claim_wins [OF assms(5-8) _ assms(1,2)] assms(4,9) by auto
  have "dict_ok (claim_payload_of env t a)" by (simp add: claim_payload_of_def)
  from committed_view [OF b'(2) assms(3) this] b'(1) show ?thesis
    by (auto simp: task_status_def task_agent_def board_payload_defs)
qed

theorem claim_succeeds_witness:
  "\<exists>b. queue_claim (demo_env (CHR ''b'')) demo_queued demo_queued ''P-t-a'' ''bot'' = (Ret QNone, b)"
proof -
  have "env_ok (demo_env (CHR ''b'')) demo_queued" by (simp add: env_ok_demo_queued)
  from claim_succeeds [OF demo_queued_ok(1) this demo_id_ok demo_env_fields(2)
      demo_queued_check demo_queued_owner, of 0] show ?thesis
    by (auto simp: LOCK_RETRIES_def)
qed

text \<open>Claim, complete and fail are all-or-nothing, whatever they return or raise: either
  nothing changed, or the claims row and the event were both written, and only for this task.\<close>

theorem queue_ops_atomic:
  assumes "bus_ok b" and "env_ok env b"
    and "op \<in> {queue_claim env b0 b t a, queue_complete env b0 b t a n, queue_fail env nt b0 b t a n}"
  shows "snd op = b \<or>
    (owner b t \<noteq> owner (snd op) t \<and> (\<forall>u. u \<noteq> t \<longrightarrow> owner (snd op) u = owner b u) \<and>
     (id_ok t \<longrightarrow> (\<exists>p. task_event t p \<and> snap (snd op) = (snap b)(t := dict_update (snap b t) (durable p)))))"
proof -
  have written: "?thesis" if "committed t p h b (snd op)" "h \<noteq> owner b t" "task_event t p" for p h
    using that by (auto simp: committed_def)
  obtain r b' where op: "op = (r, b')" by (cases op)
  from assms(3) op consider "queue_claim env b0 b t a = (r, b')" | "queue_complete env b0 b t a n = (r, b')"
    | "queue_fail env nt b0 b t a n = (r, b')" by auto
  then show ?thesis
  proof cases
    case 1
    then show ?thesis
      by (cases rule: claim_cases [OF assms(1,2) 1])
        (use written board_payload_events(1) op in \<open>auto simp del: fun_upd_apply\<close>)
  next
    case 2
    then show ?thesis
      by (cases rule: complete_cases [OF assms(1,2) 2])
        (use written board_payload_events(2) op in \<open>auto simp del: fun_upd_apply\<close>)
  next
    case 3
    then show ?thesis
      by (cases rule: fail_cases [OF assms(1,2) 3])
        (use written board_payload_events(3,4) op in \<open>auto simp del: fun_upd_apply\<close>)
  qed
qed

theorem queue_ops_atomic_witness:
  "let op = queue_complete (demo_env (CHR ''b'')) demo_queued demo_queued ''P-t-a'' ''bot'' []
   in snd op = demo_queued \<or> owner (snd op) ''P-t-a'' \<noteq> None"
  using queue_ops_atomic [OF demo_queued_ok(1) env_ok_demo_queued, of "CHR ''b''"
      "queue_complete (demo_env (CHR ''b'')) demo_queued demo_queued ''P-t-a'' ''bot'' []" demo_queued
      "''P-t-a''" "''bot''" "[]" undefined]
  by (auto simp: demo_queued_owner Let_def)

text \<open>Only the holder completes a task: on success the agent held the row in the very
  state that was written, the row is gone, the task shows as completed, and nothing else moved.\<close>

theorem only_holder_completes:
  assumes "bus_ok b" and "env_ok env b" and "id_ok t" and "queue_complete env b0 b t a n = (Ret QNone, b')"
  shows "owner b t = Some a \<and> owner b' = (owner b)(t := None) \<and> task_status b' t = JStr ''completed'' \<and>
     (\<forall>u. u \<noteq> t \<longrightarrow> snap b' u = snap b u)"
proof (cases rule: complete_cases [OF assms(1,2,4)])
  case 1
  have "dict_ok (complete_payload t a n)" by (simp add: complete_payload_def)
  from committed_view [OF 1(3) assms(3) this] 1(2) show ?thesis
    by (auto simp: task_status_def board_payload_defs)
qed simp

theorem only_holder_completes_witness:
  "\<exists>b b'. owner b ''P-t-a'' = Some ''bot'' \<and> owner b' ''P-t-a'' = None \<and>
     task_status b' ''P-t-a'' = JStr ''completed''"
proof -
  obtain b b' where "bus_ok b" "env_ok (demo_env (CHR ''c'')) b"
    "queue_complete (demo_env (CHR ''c'')) b b ''P-t-a'' ''bot'' [] = (Ret QNone, b')"
    by (rule demo_complete)
  from only_holder_completes [OF this(1,2) demo_id_ok this(3)] show ?thesis by (metis fun_upd_same)
qed


text \<open>C22: Failing a task counts the attempt: with \<open>rc\<close> the incremented counter and \<open>mx\<close> the
  limit of the snapshot that was read, the task returns to the queue, unassigned, while
  \<open>rc \<le> mx\<close> and is abandoned after that; only the holder can do it.\<close>

theorem fail_counts_retries:
  assumes "bus_ok b" and "env_ok env b" and "id_ok t" and "queue_fail env nt b0 b t a n = (Ret QNone, b')"
  shows "\<exists>rc mx. retry_counters b0 t = Ret (rc, mx) \<and> owner b t = Some a \<and> owner b' = (owner b)(t := None) \<and>
     task_status b' t = JStr (if rc \<le> mx then ''queued'' else ''abandoned'') \<and>
     task_agent b' t = JNull \<and> jget (snap b' t) ''retry_count'' = JInt rc \<and>
     jget (snap b' t) ''max_retries'' = JInt mx"
proof (cases rule: fail_cases [OF assms(1,2,4)])
  case (1 rc mx)
  have "dict_ok (failed_payload t a rc mx (nt True rc mx n))" by (simp add: failed_payload_def)
  from committed_view [OF 1(5) assms(3) this] 1 show ?thesis
    by (auto simp: task_status_def task_agent_def board_payload_defs)
next
  case (2 rc mx)
  have "dict_ok (abandoned_payload t a rc mx (nt False rc mx n))" by (simp add: abandoned_payload_def)
  from committed_view [OF 2(5) assms(3) this] 2 show ?thesis
    by (auto simp: task_status_def task_agent_def board_payload_defs)
qed simp

theorem fail_counts_retries_witness:
  "\<exists>b b'. owner b ''P-t-a'' = Some ''bot'' \<and> task_status b' ''P-t-a'' = JStr ''queued'' \<and>
     jget (snap b' ''P-t-a'') ''retry_count'' = JInt 1"
proof -
  let ?t = "''P-t-a''" and ?e = "demo_env (CHR ''c'')"
  obtain b where b: "bus_ok b" "env_ok ?e b" "owner_inv b"
    "committed ?t (claim_payload_of (demo_env (CHR ''b'')) ?t ''bot'') (Some ''bot'') demo_queued b"
    by (rule demo_held)
  have rc: "retry_counters b ?t = Ret (1, 3)"
    using b(4) demo_queued_snapshots
    by (simp add: retry_counters_def committed_def snap_def dict_get_def board_payload_defs
        map_of_dict_update enqueue_payload_def py_int.simps)
  have own: "owner b ?t = Some ''bot''" using b(4) by (simp add: committed_def)
  with b(3) have st: "task_status b ?t = JStr ''claimed''" "task_agent b ?t = JStr ''bot''"
    by (auto simp: owner_inv_def)
  obtain b' where "release_then_pulse ?e b ?t ''bot'' (failed_payload ?t ''bot'' 1 3 []) = (Ret QNone, b')"
    using release_wins [OF own _ b(1,2) board_payload_events(3) [of _ _ 1 3 "[]"]] by auto
  then have "queue_fail ?e (\<lambda>_ _ _ _. []) b b ?t ''bot'' [] = (Ret QNone, b')"
    using owned_check_holder [OF st(1), of "''bot''"] st(2) rc
    by (simp add: queue_fail_def Let_def retry_counters_def snap_def)
  from fail_counts_retries [OF b(1,2) demo_id_ok this] rc own show ?thesis by auto
qed

text \<open>The claim transaction checks only the claims table, not the status the task has by
  then: an agent whose snapshot read predates the completion of the task by another agent
  claims the completed task again.  Such a run exists.\<close>

theorem completed_task_reclaimed:
  "\<exists>b b' h t env b0 a. board_run (b' # b # h) \<and> b0 \<in> set h \<and>
     queue_claim env b0 b t a = (Ret QNone, b') \<and>
     task_status b t = JStr ''completed'' \<and> task_status b' t = JStr ''claimed''"
proof -
  let ?t = "''P-t-a''" and ?e = "demo_env (CHR ''d'')"
  obtain b1 b where b: "board_run [b, b1, demo_queued, empty_bus]" "env_ok ?e b"
    "committed ?t (complete_payload ?t ''bot'' []) None b1 b"
    by (rule demo_complete)
  have ok: "bus_ok b" using b(3) by (rule committed_ok)
  have free: "owner b ?t = None" using b(3) by (simp add: committed_def)
  obtain b' where b': "queue_claim ?e demo_queued b ?t ''cat'' = (Ret QNone, b')"
    "committed ?t (claim_payload_of ?e ?t ''cat'') (Some ''cat'') b b'"
    using claim_wins [OF demo_queued_check free, of 0] ok b(2) by (auto simp: LOCK_RETRIES_def)
  have "board_run [b', b, b1, demo_queued, empty_bus]"
    using board_run.claim [OF b(1,2) _ demo_id_ok b'(1)] by simp
  moreover have "task_status b ?t = JStr ''completed''"
    using committed_view(1) [OF b(3) demo_id_ok, of "''status''"]
    by (simp add: task_status_def board_payload_defs)
  moreover have "task_status b' ?t = JStr ''claimed''"
    using committed_view(1) [OF b'(2) demo_id_ok, of "''status''"]
    by (simp add: task_status_def board_payload_defs)
  ultimately show ?thesis using b'(1)
    by (intro exI [of _ b] exI [of _ b'] exI [of _ "[b1, demo_queued, empty_bus]"] exI [of _ ?t]
        exI [of _ ?e] exI [of _ demo_queued] exI [of _ "''cat''"]) simp
qed

text \<open>Agent ids are redacted in the log but not in the claims table: a holder whose id
  redaction changes (an e-mail address) can neither complete nor fail its own task.\<close>

theorem redacted_holder_locked_out:
  assumes "board_run (b # h)" and "owner b t = Some a" and "redact_text a \<noteq> a"
  shows "queue_complete env b b t a n = (Ret (QFalse (NotClaimant (JStr (redact_text a)))), b) \<and>
         queue_fail env nt b b t a n = (Ret (QFalse (NotClaimant (JStr (redact_text a)))), b)"
proof -
  have "task_status b t = JStr ''claimed''" "task_agent b t = JStr (redact_text a)"
    using board_run_inv [OF assms(1)] assms(2) by (auto simp: owner_inv_def)
  with owned_check_holder [of b t a] assms(3) show ?thesis
    by (simp add: queue_complete_def queue_fail_def Let_def)
qed

theorem redacted_holder_locked_out_witness:
  "\<exists>b. owner b ''P-t-a'' = Some ''me@x.io'' \<and>
     fst (queue_complete (demo_env (CHR ''c'')) b b ''P-t-a'' ''me@x.io'' []) =
       Ret (QFalse (NotClaimant (JStr (redact_text ''me@x.io''))))"
proof -
  obtain b where b: "committed ''P-t-a'' (claim_payload_of (demo_env (CHR ''b'')) ''P-t-a'' ''me@x.io'')
      (Some ''me@x.io'') demo_queued b" "board_run [b, demo_queued, empty_bus]" by (rule demo_claim)
  have own: "owner b ''P-t-a'' = Some ''me@x.io''" using b(1) by (simp add: committed_def)
  have "redact_text ''me@x.io'' \<noteq> ''me@x.io''" by code_simp
  from redacted_holder_locked_out [OF b(2) own this] own show ?thesis by auto
qed

end
