(* ===== verification/HeartbeatMonitor.thy ===== *)
theory HeartbeatMonitor
  imports QueueRuns
begin

text \<open>
  \<open>orchestrator/heartbeat_monitor.py\<close>, \<open>orchestrator/coordination/claims.py\<close> and
  \<open>orchestrator/coordination/liveness.py\<close>: the legacy claim board (register, claim, release,
  pulse, kill, log) as events of the log, the folds that recover agents and open claims from
  it, and the clean-up of the claims of dead agents.  Rendering to the terminal is left out;
  the operations return the data they print.
\<close>

section \<open>Liveness\<close>

definition LIVENESS_ACTIVE_SEC :: rat where "LIVENESS_ACTIVE_SEC = 60"
definition LIVENESS_IDLE_SEC :: rat where "LIVENESS_IDLE_SEC = 300"
definition LIVENESS_STALLED_SEC :: rat where "LIVENESS_STALLED_SEC = 1800"

datatype liveness = ACTIVE | IDLE | STALLED | DEAD

definition AGENT_LIVENESS_KINDS :: "string list" where
  "AGENT_LIVENESS_KINDS =
     [''agent_register'', ''agent_claim'', ''agent_release'', ''agent_killed'', ''agent_pulse'']"

definition AGENT_CLAIM_KINDS :: "string list" where
  "AGENT_CLAIM_KINDS = [''agent_claim'', ''agent_release'']"

definition fetch_heartbeat_events :: "bus \<Rightarrow> string list \<Rightarrow> string option \<Rightarrow> gossip_row list" where
  "fetch_heartbeat_events b kinds agent_id =
     select_asc (\<lambda>r. heartbeat_row kinds r \<and>
       (case agent_id of None \<Rightarrow> True | Some a \<Rightarrow> jget (row_payload r) ''agent_id'' = JStr a)) b"

definition liveness_status :: "rat \<Rightarrow> rat \<Rightarrow> liveness \<times> int" where
  "liveness_status t_now last_activity_ts =
     (let seconds_since = t_now - last_activity_ts in
      if seconds_since < LIVENESS_ACTIVE_SEC then (ACTIVE, trunc seconds_since)
      else if seconds_since < LIVENESS_IDLE_SEC then (IDLE, trunc seconds_since)
      else if seconds_since < LIVENESS_STALLED_SEC then (STALLED, trunc seconds_since)
      else (DEAD, trunc seconds_since))"

section \<open>Folding agents\<close>

text \<open>
  \<open>last_ts\<close> is the entry of \<open>last_ts_per_agent\<close>, which the loop writes in the same iteration
  as the agent's dictionary; \<open>JNull\<close> stands for \<open>None\<close>.
\<close>

record agent_data =
  work_in_progress :: json
  last_registration :: payload
  registration_ts :: "rat option"
  killed_reason :: json
  current_worktree :: json
  last_ts :: rat

definition new_agent :: agent_data where
  "new_agent = \<lparr>work_in_progress = JNull, last_registration = [], registration_ts = None,
     killed_reason = JNull, current_worktree = JNull, last_ts = 0\<rparr>"

definition apply_heartbeat :: "gossip_row \<Rightarrow> agent_data \<Rightarrow> agent_data" where
  "apply_heartbeat r d0 =
     (let p = row_payload r;
          kind = jget p ''kind'';
          worktree = jget p ''worktree'';
          d1 = d0\<lparr>last_ts := row_ts r\<rparr>;
          d = (if truthy worktree then d1\<lparr>current_worktree := worktree\<rparr> else d1)
      in if kind = JStr ''agent_register''
         then d\<lparr>last_registration := p, registration_ts := Some (row_ts r), killed_reason := JNull\<rparr>
         else if kind = JStr ''agent_claim'' then d\<lparr>work_in_progress := jget p ''task''\<rparr>
         else if kind = JStr ''agent_release''
         then (if work_in_progress d = jget p ''task'' then d\<lparr>work_in_progress := JNull\<rparr> else d)
         else if kind = JStr ''agent_killed''
         then d\<lparr>work_in_progress := JNull, killed_reason := dict_get p ''reason'' (JStr [])\<rparr>
         else if kind = JStr ''agent_pulse'' then d\<lparr>killed_reason := JNull\<rparr>
         else d)"

definition fold_heartbeat ::
  "string option \<Rightarrow> gossip_row \<Rightarrow> (json, agent_data) dict \<Rightarrow> (json, agent_data) dict" where
  "fold_heartbeat agent_id r agents =
     (let agent = jget (row_payload r) ''agent_id'' in
      if \<not> truthy agent then agents
      else if (case agent_id of None \<Rightarrow> False | Some a \<Rightarrow> a \<noteq> [] \<and> agent \<noteq> JStr a) then agents
      else AList.update agent (apply_heartbeat r (dict_get agents agent new_agent)) agents)"

definition agents_of :: "bus \<Rightarrow> string option \<Rightarrow> (json, agent_data) dict" where
  "agents_of b agent_id =
     fold (fold_heartbeat agent_id) (fetch_heartbeat_events b AGENT_LIVENESS_KINDS agent_id) []"

record agent_view =
  view_data :: agent_data
  view_status :: liveness
  last_heartbeat_ts :: rat
  uptime_seconds :: int

definition agent_view_of :: "rat \<Rightarrow> agent_data \<Rightarrow> agent_view" where
  "agent_view_of t_now data =
     \<lparr>view_data = data,
      view_status = (if killed_reason data \<noteq> JNull then DEAD
                     else fst (liveness_status t_now (last_ts data))),
      last_heartbeat_ts = last_ts data,
      uptime_seconds = (case registration_ts data of
          None \<Rightarrow> 0
        | Some reg_ts \<Rightarrow> if reg_ts \<noteq> 0 then trunc (t_now - reg_ts) else 0)\<rparr>"

definition find_agent_heartbeats ::
  "run_env \<Rightarrow> bus \<Rightarrow> string option \<Rightarrow> (json, agent_view) dict" where
  "find_agent_heartbeats env b agent_id =
     map (\<lambda>(a, data). (a, agent_view_of (now env) data)) (agents_of b agent_id)"

section \<open>Open claims\<close>

record open_claim =
  claim_agent :: json
  claim_task_of :: json
  claim_ts :: rat
  claim_worktree :: json
  claim_notes :: json

definition fold_open_claim :: "gossip_row \<Rightarrow> (json, open_claim) dict \<Rightarrow> (json, open_claim) dict" where
  "fold_open_claim r state =
     (let p = row_payload r; task = dict_get p ''task'' (JStr ''?'') in
      if \<not> kind_in AGENT_CLAIM_KINDS p then state
      else if jget p ''kind'' = JStr ''agent_claim''
      then AList.update task
             \<lparr>claim_agent = jget p ''agent_id'', claim_task_of = task, claim_ts = row_ts r,
              claim_worktree = jget p ''worktree'',
              claim_notes = dict_get p ''notes'' (JStr [])\<rparr> state
      else AList.delete task state)"

definition open_claims :: "bus \<Rightarrow> (json, open_claim) dict" where
  "open_claims b = fold fold_open_claim (fetch_heartbeat_events b AGENT_CLAIM_KINDS None) []"

definition find_open_claims :: "bus \<Rightarrow> open_claim list" where
  "find_open_claims b = map snd (open_claims b)"

section \<open>The legacy board\<close>

definition AGENT_REGISTER_KINDS :: "string list" where
  "AGENT_REGISTER_KINDS = [''agent_register'']"

definition known_agent_ids :: "bus \<Rightarrow> json list res" where
  "known_agent_ids b =
     res_map (\<lambda>r. case map_of (row_payload r) ''agent_id'' of
                    None \<Rightarrow> Raise (KeyError ''agent_id'') | Some a \<Rightarrow> Ret a)
       (filter (\<lambda>r. kind_in AGENT_REGISTER_KINDS (row_payload r))
          (fetch_heartbeat_events b AGENT_REGISTER_KINDS None))"

definition emit_unit :: "run_env \<Rightarrow> nat \<Rightarrow> bus \<Rightarrow> payload \<Rightarrow> unit res \<times> bus" where
  "emit_unit env d b p =
     (case emit env d b ''heartbeat'' p None of
        (Raise e, b') \<Rightarrow> (Raise e, b') | (Ret _, b') \<Rightarrow> (Ret (), b'))"

definition register_agent ::
  "run_env \<Rightarrow> bus \<Rightarrow> string \<Rightarrow> string \<Rightarrow> string \<Rightarrow> string \<Rightarrow> unit res \<times> bus" where
  "register_agent env b agent_id agent_type model notes =
     emit_unit env 0 b
       [(''kind'', JStr ''agent_register''), (''agent_id'', JStr agent_id),
        (''agent_type'', JStr agent_type), (''model'', JStr model),
        (''worktree'', JStr (worktree_label env)), (''notes'', JStr notes)]"

definition claim_event :: "run_env \<Rightarrow> string \<Rightarrow> string \<Rightarrow> string \<Rightarrow> payload" where
  "claim_event env agent_id task notes =
     [(''kind'', JStr ''agent_claim''), (''agent_id'', JStr agent_id), (''task'', JStr task),
      (''worktree'', JStr (worktree_label env)), (''notes'', JStr notes)]"

text \<open>The result says whether the advisory warning was printed.\<close>

definition claim_task ::
  "run_env \<Rightarrow> bus \<Rightarrow> string \<Rightarrow> string \<Rightarrow> string \<Rightarrow> bool res \<times> bus" where
  "claim_task env b agent_id task notes =
     (case known_agent_ids b of
        Raise e \<Rightarrow> (Raise e, b)
      | Ret known \<Rightarrow>
          (case emit_unit env 0 b (claim_event env agent_id task notes) of
             (Raise e, b') \<Rightarrow> (Raise e, b')
           | (Ret _, b') \<Rightarrow> (Ret (JStr agent_id \<notin> set known), b')))"

definition release_event :: "run_env \<Rightarrow> string \<Rightarrow> string \<Rightarrow> payload" where
  "release_event env agent_id task =
     [(''kind'', JStr ''agent_release''), (''agent_id'', JStr agent_id), (''task'', JStr task),
      (''worktree'', JStr (worktree_label env))]"

definition release_task :: "run_env \<Rightarrow> bus \<Rightarrow> string \<Rightarrow> string \<Rightarrow> unit res \<times> bus" where
  "release_task env b agent_id task = emit_unit env 0 b (release_event env agent_id task)"

record agent_listing =
  list_type :: json
  list_model :: json
  list_worktree :: json
  list_notes :: json
  list_ts :: rat

fun fold_listing ::
  "gossip_row list \<Rightarrow> (json, agent_listing) dict \<Rightarrow> (json, agent_listing) dict res" where
  "fold_listing [] latest = Ret latest"
| "fold_listing (r # rs) latest =
     (let p = row_payload r in
      if \<not> kind_in AGENT_REGISTER_KINDS p then fold_listing rs latest
      else case map_of p ''agent_id'' of
             None \<Rightarrow> Raise (KeyError ''agent_id'')
           | Some a \<Rightarrow> fold_listing rs
               (AList.update a
                  \<lparr>list_type = dict_get p ''agent_type'' (JStr ''?''),
                   list_model = dict_get p ''model'' (JStr ''?''),
                   list_worktree = dict_get p ''worktree'' (JStr ''?''),
                   list_notes = dict_get p ''notes'' (JStr []), list_ts = row_ts r\<rparr> latest))"

definition list_agents :: "bus \<Rightarrow> (json, agent_listing) dict res" where
  "list_agents b = fold_listing (fetch_heartbeat_events b AGENT_REGISTER_KINDS None) []"

definition list_claims :: "bus \<Rightarrow> string option \<Rightarrow> open_claim list" where
  "list_claims b task_filter = filter (\<lambda>c. passes task_filter (claim_task_of c)) (find_open_claims b)"

text \<open>\<open>log_message\<close> without the refresh of the board snapshot file.\<close>

definition log_message :: "run_env \<Rightarrow> bus \<Rightarrow> string \<Rightarrow> string \<Rightarrow> unit res \<times> bus" where
  "log_message env b agent_id message =
     emit_unit env 0 b
       [(''kind'', JStr ''agent_note''), (''agent_id'', JStr agent_id), (''message'', JStr message)]"

definition heartbeat_pulse :: "run_env \<Rightarrow> bus \<Rightarrow> string \<Rightarrow> unit res \<times> bus" where
  "heartbeat_pulse env b agent_id = emit_unit env 0 b (presence_pulse_payload env agent_id)"

definition kill_event :: "run_env \<Rightarrow> string \<Rightarrow> string \<Rightarrow> payload" where
  "kill_event env agent_id reason =
     [(''kind'', JStr ''agent_killed''), (''agent_id'', JStr agent_id),
      (''worktree'', JStr (worktree_label env)), (''reason'', JStr reason),
      (''timestamp'', JFloat (now env))]"

definition heartbeat_kill :: "run_env \<Rightarrow> bus \<Rightarrow> string \<Rightarrow> string \<Rightarrow> unit res \<times> bus" where
  "heartbeat_kill env b agent_id reason = emit_unit env 0 b (kill_event env agent_id reason)"

definition heartbeat_dashboard :: "run_env \<Rightarrow> bus \<Rightarrow> (liveness, nat) dict \<times> nat" where
  "heartbeat_dashboard env b =
     (fold (\<lambda>(a, v) counts. AList.update (view_status v) (dict_get counts (view_status v) 0 + 1) counts)
        (find_agent_heartbeats env b None) [],
      length (find_open_claims b))"

definition timeline_label :: "string \<Rightarrow> string" where
  "timeline_label kind =
     (if kind = ''agent_register'' then ''REGISTERED''
      else if kind = ''agent_claim'' then ''CLAIMED''
      else if kind = ''agent_release'' then ''RELEASED'' else kind)"

definition heartbeat_timeline :: "run_env \<Rightarrow> bus \<Rightarrow> string \<Rightarrow> int \<Rightarrow> gossip_row list" where
  "heartbeat_timeline env b agent_id hours =
     filter (\<lambda>r. \<not> (row_ts r < now env - of_int hours * 3600) \<and>
        jget (row_payload r) ''agent_id'' = JStr agent_id)
       (rev (tail b 1000 (Some ''heartbeat'')))"

section \<open>Clean-up\<close>

definition auto_release_event :: "open_claim \<Rightarrow> payload" where
  "auto_release_event c =
     [(''kind'', JStr ''agent_release''), (''agent_id'', claim_agent c), (''task'', claim_task_of c),
      (''worktree'', claim_worktree c), (''auto_released'', JBool True),
      (''reason'', JStr ''agent dead for 30+ min'')]"

fun release_stale :: "run_env \<Rightarrow> nat \<Rightarrow> open_claim list \<Rightarrow> bus \<Rightarrow> json list res \<times> bus" where
  "release_stale env d [] b = (Ret [], b)"
| "release_stale env d (c # cs) b =
     (case emit_unit env d b (auto_release_event c) of
        (Raise e, b') \<Rightarrow> (Raise e, b')
      | (Ret _, b') \<Rightarrow>
          (case release_stale env (Suc d) cs b' of
             (Raise e, b'') \<Rightarrow> (Raise e, b'')
           | (Ret ts, b'') \<Rightarrow> (Ret (claim_task_of c # ts), b'')))"

definition dead_agents :: "run_env \<Rightarrow> bus \<Rightarrow> json list" where
  "dead_agents env b =
     map fst (filter (\<lambda>(a, v). view_status v = DEAD) (find_agent_heartbeats env b None))"

definition stale_claims :: "run_env \<Rightarrow> bus \<Rightarrow> open_claim list" where
  "stale_claims env b = filter (\<lambda>c. claim_agent c \<in> set (dead_agents env b)) (find_open_claims b)"

fun str_of :: "json \<Rightarrow> string option" where
  "str_of (JStr s) = Some s"
| "str_of _ = None"

text \<open>
  \<open>cleanup_stale_claims\<close>; \<open>max_age_seconds\<close> is a parameter the body never reads.  The queue
  clean-up draws its event identities after those of the releases, and its \<open>WHERE\<close> clause
  compares with text ids only.
\<close>

definition cleanup_stale_claims :: "run_env \<Rightarrow> int \<Rightarrow> bus \<Rightarrow> json list res \<times> bus" where
  "cleanup_stale_claims env max_age_seconds b =
     (let stale = stale_claims env b;
          dead = List.map_filter str_of (dead_agents env b) in
      case release_stale env 0 stale b of
        (Raise e, b') \<Rightarrow> (Raise e, b')
      | (Ret released, b') \<Rightarrow>
          (case cleanup_stale_queue_claims (env\<lparr>uuid4 := \<lambda>d. uuid4 env (d + length stale)\<rparr>) b' b' dead of
             (Raise e, b'') \<Rightarrow> (Raise e, b'')
           | (Ret requeued, b'') \<Rightarrow> (Ret (released @ map JStr requeued), b'')))"


section \<open>The folds advance with the log\<close>

lemma fetch_append:
  assumes "bus_ok b" and "admissible e b"
  shows "fetch_heartbeat_events (bus_append e b) kinds None =
    fetch_heartbeat_events b kinds None @ (if heartbeat_row kinds (bus_stored e b) then [bus_stored e b] else [])"
  using select_asc_append [OF assms] by (simp add: fetch_heartbeat_events_def)

lemma agents_append:
  assumes "bus_ok b" and "admissible e b"
  shows "agents_of (bus_append e b) None =
    (if heartbeat_row AGENT_LIVENESS_KINDS (bus_stored e b)
     then fold_heartbeat None (bus_stored e b) (agents_of b None) else agents_of b None)"
  by (simp add: agents_of_def fetch_append [OF assms])

lemma open_claims_append:
  assumes "bus_ok b" and "admissible e b"
  shows "open_claims (bus_append e b) =
    (if heartbeat_row AGENT_CLAIM_KINDS (bus_stored e b)
     then fold_open_claim (bus_stored e b) (open_claims b) else open_claims b)"
  by (simp add: open_claims_def fetch_append [OF assms])

lemma folds_claims_irrelevant [simp]:
  "agents_of (b\<lparr>task_claims := c\<rparr>) f = agents_of b f"
  "open_claims (b\<lparr>task_claims := c\<rparr>) = open_claims b"
  by (simp_all add: agents_of_def open_claims_def fetch_heartbeat_events_def select_asc_def)

lemma fold_keeps:
  assumes "\<And>r d. I d \<Longrightarrow> I (f r d)" and "I d"
  shows "I (fold f rs d)"
  using assms(2) by (induction rs arbitrary: d) (simp_all add: assms(1))

lemma dict_ok_agents: "dict_ok (agents_of b f)"
  unfolding agents_of_def by (rule fold_keeps) (simp_all add: fold_heartbeat_def Let_def)

lemma agents_truthy: "map_of (agents_of b f) a = Some d \<Longrightarrow> truthy a"
proof -
  have "\<forall>x y. map_of (agents_of b f) x = Some y \<longrightarrow> truthy x"
    unfolding agents_of_def
    by (rule fold_keeps) (auto simp: fold_heartbeat_def Let_def map_of_update split: if_splits
        simp del: map_of_eq_Some_iff)
  then show "map_of (agents_of b f) a = Some d \<Longrightarrow> truthy a" by blast
qed

lemma open_claims_keys:
  "dict_ok (open_claims b) \<and> (\<forall>t c. map_of (open_claims b) t = Some c \<longrightarrow> claim_task_of c = t)"
  unfolding open_claims_def
  by (rule fold_keeps)
    (auto simp: fold_open_claim_def Let_def map_of_update map_of_delete split: if_splits
      simp del: map_of_eq_Some_iff)

lemma find_open_claims_iff: "c \<in> set (find_open_claims b) \<longleftrightarrow> map_of (open_claims b) (claim_task_of c) = Some c"
  using open_claims_keys [of b] by (force simp: find_open_claims_def dest: map_of_SomeD)

lemma heartbeats_lookup:
  "map_of (find_agent_heartbeats env b f) a = map_option (agent_view_of (now env)) (map_of (agents_of b f) a)"
  unfolding find_agent_heartbeats_def by (rule map_of_map_values)

lemma dead_agents_iff:
  "a \<in> set (dead_agents env b) \<longleftrightarrow>
     (\<exists>v. map_of (find_agent_heartbeats env b None) a = Some v \<and> view_status v = DEAD)"
proof -
  have "dict_ok (find_agent_heartbeats env b None)"
    unfolding find_agent_heartbeats_def fst_map_values by (rule dict_ok_agents)
  then show ?thesis by (force simp: dead_agents_def)
qed

lemma emit_unit_ok:
  assumes "emit_ok env" and "map_of p ''_gossip_uuid'' = None"
  shows "emit_unit env d b p = (Ret (), bus_append (env, d, ''heartbeat'', p, None) b)"
  using emit_simps [OF assms] by (simp add: emit_unit_def)

lemma emit_unit_failed: "\<not> emit_ok env \<Longrightarrow> emit_unit env d b p = (Raise GossipBusError, b)"
  by (simp add: emit_unit_def emit_failed)

lemmas hb_simps = heartbeat_row_def kind_in_def jget_def dict_get_def dict_simps CREDENTIAL_KEYS_def
  AGENT_LIVENESS_KINDS_def AGENT_CLAIM_KINDS_def


section \<open>The effect of the clean-up\<close>

text \<open>An id or task that a second redaction leaves alone.\<close>

definition stable :: "json \<Rightarrow> bool" where
  "stable j = (redact_value j = j)"

lemma auto_release_stored:
  assumes "stable (claim_agent c)" and "stable (claim_task_of c)" and "truthy (claim_agent c)"
    and "r = bus_stored (env, d, ''heartbeat'', auto_release_event c, None) b"
  shows "heartbeat_row AGENT_LIVENESS_KINDS r" and "heartbeat_row AGENT_CLAIM_KINDS r"
    and "fold_open_claim r oc = AList.delete (claim_task_of c) oc"
    and "fold_heartbeat None r ag =
           AList.update (claim_agent c) (apply_heartbeat r (dict_get ag (claim_agent c) new_agent)) ag"
    and "last_ts (apply_heartbeat r x) = now env"
    and "killed_reason (apply_heartbeat r x) = killed_reason x"
  using assms
  by (simp_all add: auto_release_event_def stable_def fold_open_claim_def fold_heartbeat_def
      apply_heartbeat_def Let_def hb_simps)

definition stale_ok :: "open_claim \<Rightarrow> bool" where
  "stale_ok c = (stable (claim_agent c) \<and> stable (claim_task_of c) \<and> truthy (claim_agent c))"

lemma auto_release_admissible:
  "fresh_uuid (uuid4 env d) b \<Longrightarrow> admissible (env, d, ''heartbeat'', auto_release_event c, None) b"
  by (simp add: auto_release_event_def)

lemma release_stale_effect:
  assumes "emit_ok env" and "inj (uuid4 env)"
  shows "\<lbrakk>bus_ok b; \<And>d. i \<le> d \<Longrightarrow> fresh_uuid (uuid4 env d) b; \<forall>c \<in> set cs. stale_ok c\<rbrakk> \<Longrightarrow>
    \<exists>b'. release_stale env i cs b = (Ret (map claim_task_of cs), b') \<and> bus_ok b' \<and>
      (\<forall>d \<ge> i + length cs. fresh_uuid (uuid4 env d) b') \<and> task_claims b' = task_claims b \<and>
      (\<forall>t. map_of (open_claims b') t =
         (if t \<in> claim_task_of ` set cs then None else map_of (open_claims b) t)) \<and>
      (\<forall>a. if a \<in> claim_agent ` set cs
           then \<exists>d. map_of (agents_of b' None) a = Some d \<and> last_ts d = now env \<and>
                  killed_reason d = killed_reason (dict_get (agents_of b None) a new_agent)
           else map_of (agents_of b' None) a = map_of (agents_of b None) a)"
proof (induction cs arbitrary: i b)
  case Nil
  then show ?case by simp
next
  case (Cons c cs)
  let ?e = "(env, i, ''heartbeat'', auto_release_event c, None)"
  let ?b1 = "bus_append ?e b"
  have fr: "fresh_uuid (uuid4 env i) b" by (simp add: Cons.prems(2))
  then have adm: "admissible ?e b" by (rule auto_release_admissible)
  have ok1: "bus_ok ?b1" by (rule bus_ok_append [OF Cons.prems(1) adm])
  have fr1: "fresh_uuid (uuid4 env d) ?b1" if "Suc i \<le> d" for d
    using Cons.prems(2) assms(2) that by (intro fresh_later) auto
  have c: "stable (claim_agent c)" "stable (claim_task_of c)" "truthy (claim_agent c)"
    using Cons.prems(3) by (auto simp: stale_ok_def)
  note st = auto_release_stored [OF c refl]
  have oc: "map_of (open_claims ?b1) t = (if t = claim_task_of c then None else map_of (open_claims b) t)" for t
    using open_claims_append [OF Cons.prems(1) adm] st(2,3) by (simp add: map_of_delete del: bus_append.simps bus_stored.simps)
  have ag: "\<exists>d. map_of (agents_of ?b1 None) (claim_agent c) = Some d \<and> last_ts d = now env \<and>
      killed_reason d = killed_reason (dict_get (agents_of b None) (claim_agent c) new_agent)"
    "a \<noteq> claim_agent c \<Longrightarrow> map_of (agents_of ?b1 None) a = map_of (agents_of b None) a" for a
    using agents_append [OF Cons.prems(1) adm] st(1,4,5,6)
    by (simp_all add: map_of_update del: bus_append.simps bus_stored.simps)
  have tc: "task_claims ?b1 = task_claims b" using fr by (intro bus_append_fields(3)) simp
  have rest: "\<forall>c \<in> set cs. stale_ok c" using Cons.prems(3) by simp
  obtain b' where b': "release_stale env (Suc i) cs ?b1 = (Ret (map claim_task_of cs), b')" "bus_ok b'"
      "\<forall>d \<ge> Suc i + length cs. fresh_uuid (uuid4 env d) b'" "task_claims b' = task_claims ?b1"
      "\<And>t. map_of (open_claims b') t = (if t \<in> claim_task_of ` set cs then None else map_of (open_claims ?b1) t)"
      "\<And>a. if a \<in> claim_agent ` set cs
           then \<exists>d. map_of (agents_of b' None) a = Some d \<and> last_ts d = now env \<and>
                  killed_reason d = killed_reason (dict_get (agents_of ?b1 None) a new_agent)
           else map_of (agents_of b' None) a = map_of (agents_of ?b1 None) a"
    using Cons.IH [OF ok1 fr1 rest] by blast
  have "emit_unit env i b (auto_release_event c) = (Ret (), ?b1)"
    by (rule emit_unit_ok [OF assms(1)]) (simp add: auto_release_event_def)
  with b'(1) have "release_stale env i (c # cs) b = (Ret (map claim_task_of (c # cs)), b')"
    by (simp del: bus_append.simps)
  moreover have "if a \<in> claim_agent ` set (c # cs)
      then \<exists>d. map_of (agents_of b' None) a = Some d \<and> last_ts d = now env \<and>
             killed_reason d = killed_reason (dict_get (agents_of b None) a new_agent)
      else map_of (agents_of b' None) a = map_of (agents_of b None) a" for a
    using b'(6) [of a] ag by (cases "a = claim_agent c"; cases "a \<in> claim_agent ` set cs")
      (auto simp: dict_get_def simp del: bus_append.simps)
  ultimately show ?case using b'(2-5) tc oc by (intro exI [of _ b']) (auto simp del: bus_append.simps)
qed


lemma requeue_not_agent_event:
  "\<not> heartbeat_row AGENT_LIVENESS_KINDS (bus_stored (env, d, ty, requeue_payload t rc mx n, None) b)"
  "\<not> heartbeat_row AGENT_CLAIM_KINDS (bus_stored (env, d, ty, requeue_payload t rc mx n, None) b)"
  by (simp_all add: requeue_payload_def hb_simps)

lemma queue_cleanup_keeps_agents:
  assumes "bus_ok b" and "inj (uuid4 env)" and "\<And>d. fresh_uuid (uuid4 env d) b"
    and "cleanup_stale_queue_claims env b0 b dead = (r, b')"
  shows "agents_of b' None = agents_of b None \<and> open_claims b' = open_claims b"
proof (cases "dead = []")
  case True
  with assms show ?thesis by (simp add: cleanup_stale_queue_claims_def)
next
  case False
  define Q where "Q x \<longleftrightarrow> agents_of x None = agents_of b None \<and> open_claims x = open_claims b" for x
  have keep: "Q (bus_append (env, d, ''heartbeat'', requeue_payload t rc mx (auto_release_note a), None) (without_row t b1))"
    if "bus_ok b1" "Q b1" "owner b1 t = Some a" "fresh_uuid (uuid4 env d) b1" for b1 d t a rc mx
  proof -
    let ?e = "(env, d, ''heartbeat'', requeue_payload t rc mx (auto_release_note a), None :: string option)"
    have "bus_ok (without_row t b1)" using that(1) by (simp add: bus_ok_task_claims)
    moreover have "admissible ?e (without_row t b1)" using that(4) by (simp add: requeue_payload_def)
    ultimately show ?thesis
      using that(2) requeue_not_agent_event
      by (simp add: Q_def agents_append open_claims_append del: bus_append.simps bus_stored.simps)
  qed
  obtain snaps rows where rows: "cleanup_rows env snaps 0 rows b = (r, b')"
    using False assms(4) by (simp add: cleanup_stale_queue_claims_def)
  have "Q b" by (simp add: Q_def)
  have "bus_ok b' \<and> Q b'"
    by (rule cleanup_rows_keeps [where Q = Q, OF keep assms(2,1) \<open>Q b\<close> assms(3) rows])
  then show ?thesis unfolding Q_def by blast
qed

lemma stale_claims_ok:
  assumes "\<forall>c \<in> set (stale_claims env b). stable (claim_agent c) \<and> stable (claim_task_of c)"
    and "c \<in> set (stale_claims env b)"
  shows "stale_ok c"
  using assms agents_truthy [of b None "claim_agent c"]
  by (auto simp: stale_ok_def stale_claims_def dead_agents_iff heartbeats_lookup simp del: map_of_eq_Some_iff)

lemma cleanup_effect:
  assumes "bus_ok b" and "env_ok env b" and "emit_ok env"
    and "\<forall>c \<in> set (stale_claims env b). stable (claim_agent c) \<and> stable (claim_task_of c)"
    and "cleanup_stale_claims env m b = (r, b')"
  obtains b1 where "agents_of b' None = agents_of b1 None" and "open_claims b' = open_claims b1"
    and "\<And>t. map_of (open_claims b1) t =
         (if t \<in> claim_task_of ` set (stale_claims env b) then None else map_of (open_claims b) t)"
    and "\<And>a. if a \<in> claim_agent ` set (stale_claims env b)
           then \<exists>d. map_of (agents_of b1 None) a = Some d \<and> last_ts d = now env \<and>
                  killed_reason d = killed_reason (dict_get (agents_of b None) a new_agent)
           else map_of (agents_of b1 None) a = map_of (agents_of b None) a"
proof -
  let ?st = "stale_claims env b"
  let ?env = "env\<lparr>uuid4 := \<lambda>d. uuid4 env (d + length ?st)\<rparr>"
  have inj: "inj (uuid4 env)" and fr: "\<And>d. fresh_uuid (uuid4 env d) b" using assms(2) by (auto simp: env_ok_def)
  have "\<forall>c \<in> set ?st. stale_ok c" using stale_claims_ok [OF assms(4)] by blast
  from release_stale_effect [OF assms(3) inj assms(1) fr this, of 0]
  obtain b1 where b1: "release_stale env 0 ?st b = (Ret (map claim_task_of ?st), b1)" "bus_ok b1"
    "\<forall>d \<ge> length ?st. fresh_uuid (uuid4 env d) b1"
    "\<And>t. map_of (open_claims b1) t = (if t \<in> claim_task_of ` set ?st then None else map_of (open_claims b) t)"
    "\<And>a. if a \<in> claim_agent ` set ?st
           then \<exists>d. map_of (agents_of b1 None) a = Some d \<and> last_ts d = now env \<and>
                  killed_reason d = killed_reason (dict_get (agents_of b None) a new_agent)
           else map_of (agents_of b1 None) a = map_of (agents_of b None) a"
    by auto
  obtain r2 b2 where r2: "cleanup_stale_queue_claims ?env b1 b1 (List.map_filter str_of (dead_agents env b)) = (r2, b2)"
    by (cases "cleanup_stale_queue_claims ?env b1 b1 (List.map_filter str_of (dead_agents env b))")
  have "b' = b2" using assms(5) b1(1) r2 by (auto simp: cleanup_stale_claims_def Let_def split: res.splits)
  moreover have "inj (uuid4 ?env)" using inj by (auto intro!: injI dest!: injD)
  moreover have "fresh_uuid (uuid4 ?env d) b1" for d using b1(3) by simp
  ultimately have "agents_of b' None = agents_of b1 None \<and> open_claims b' = open_claims b1"
    using queue_cleanup_keeps_agents [OF b1(2) _ _ r2] by blast
  with b1(4,5) that show thesis by blast
qed


section \<open>Properties\<close>

definition late_env :: run_env where
  "late_env = (demo_env (CHR ''b''))\<lparr>now := 10000\<rparr>"

definition demo_legacy :: bus where
  "demo_legacy = snd (claim_task (demo_env (CHR ''a'')) empty_bus ''bot'' ''job'' [])"

definition demo_open :: open_claim where
  "demo_open = \<lparr>claim_agent = JStr ''bot'', claim_task_of = JStr ''job'', claim_ts = 5,
     claim_worktree = JStr ''wt'', claim_notes = JStr []\<rparr>"

lemma demo_legacy_append:
  "demo_legacy = bus_append (demo_env (CHR ''a''), 0, ''heartbeat'',
     claim_event (demo_env (CHR ''a'')) ''bot'' ''job'' [], None) empty_bus"
proof -
  have "known_agent_ids empty_bus = Ret []" by code_simp
  moreover have "map_of (claim_event (demo_env (CHR ''a'')) ''bot'' ''job'' []) ''_gossip_uuid'' = None"
    by (simp add: claim_event_def)
  ultimately show ?thesis
    by (simp add: demo_legacy_def claim_task_def emit_unit_ok del: bus_append.simps)
qed

lemma demo_legacy_ok: "bus_ok demo_legacy"
  unfolding demo_legacy_append
  by (rule bus_ok_append_any) (simp_all add: bus_ok_empty claim_event_def)

lemma demo_legacy_env: "env_ok late_env demo_legacy"
proof -
  have "map event_uuid (gossip demo_legacy) = [''a'']" by code_simp
  then have "event_uuid ` set (gossip demo_legacy) = {''a''}" by (simp flip: set_map)
  then show ?thesis using demo_env_inj [of "CHR ''b''"]
    by (auto simp: env_ok_def fresh_uuid_def late_env_def)
qed

lemma demo_stale: "stale_claims late_env demo_legacy = [demo_open]"
  by code_simp

lemma demo_stale_stable:
  "\<forall>c \<in> set (stale_claims late_env demo_legacy). stable (claim_agent c) \<and> stable (claim_task_of c)"
  by (simp add: demo_stale demo_open_def stable_def)

lemma late_env_emits: "emit_ok late_env"
  by (simp add: late_env_def)

text \<open>The clean-up releases exactly the open claims of the agents that are dead when it
  starts: none of them stays open and no other claim is touched.\<close>

theorem cleanup_releases_dead_claims:
  assumes "bus_ok b" and "env_ok env b" and "emit_ok env"
    and "\<forall>c \<in> set (stale_claims env b). stable (claim_agent c) \<and> stable (claim_task_of c)"
    and "cleanup_stale_claims env m b = (r, b')"
  shows "set (find_open_claims b') = {c \<in> set (find_open_claims b). claim_agent c \<notin> set (dead_agents env b)}"
proof -
  obtain b1 where b1: "open_claims b' = open_claims b1"
    "\<And>t. map_of (open_claims b1) t =
         (if t \<in> claim_task_of ` set (stale_claims env b) then None else map_of (open_claims b) t)"
    using cleanup_effect [OF assms] by metis
  have stale: "claim_task_of c \<in> claim_task_of ` set (stale_claims env b) \<longleftrightarrow> claim_agent c \<in> set (dead_agents env b)"
    if "c \<in> set (find_open_claims b)" for c
    using that by (force simp: stale_claims_def find_open_claims_iff simp del: map_of_eq_Some_iff)
  have lookup: "map_of (open_claims b') (claim_task_of c) =
      (if claim_task_of c \<in> claim_task_of ` set (stale_claims env b) then None
       else map_of (open_claims b) (claim_task_of c))" for c
    using b1 by simp
  have "c \<in> set (find_open_claims b') \<longleftrightarrow>
      c \<in> set (find_open_claims b) \<and> claim_agent c \<notin> set (dead_agents env b)" for c
    unfolding find_open_claims_iff [of c b'] lookup [of c]
    using stale [of c] find_open_claims_iff [of c b] by (auto simp del: map_of_eq_Some_iff)
  then show ?thesis by blast
qed

theorem cleanup_releases_dead_claims_witness:
  "demo_open \<in> set (find_open_claims demo_legacy) \<and>
   demo_open \<notin> set (find_open_claims (snd (cleanup_stale_claims late_env 1800 demo_legacy)))"
proof -
  have "demo_open \<in> set (stale_claims late_env demo_legacy)" by (simp add: demo_stale)
  then have "demo_open \<in> set (find_open_claims demo_legacy)" "claim_agent demo_open \<in> set (dead_agents late_env demo_legacy)"
    by (auto simp: stale_claims_def)
  with cleanup_releases_dead_claims [OF demo_legacy_ok demo_legacy_env late_env_emits demo_stale_stable
      prod.collapse [symmetric], of 1800] show ?thesis by auto
qed

text \<open>C38: The clean-up's own \<open>agent_release\<close> event carries the dead agent's id and the current
  time, so it counts as that agent's activity: right after the clean-up an agent that was dead
  from silence is reported ACTIVE.\<close>

theorem cleanup_revives_dead_agent:
  assumes "bus_ok b" and "env_ok env b" and "emit_ok env"
    and "\<forall>c \<in> set (stale_claims env b). stable (claim_agent c) \<and> stable (claim_task_of c)"
    and "cleanup_stale_claims env m b = (r, b')"
    and "c \<in> set (stale_claims env b)" and "map_of (agents_of b None) (claim_agent c) = Some d"
    and "killed_reason d = JNull"
  shows "claim_agent c \<in> set (dead_agents env b) \<and>
    (\<exists>v. map_of (find_agent_heartbeats env b' None) (claim_agent c) = Some v \<and> view_status v = ACTIVE)"
proof -
  obtain b1 where b1: "agents_of b' None = agents_of b1 None"
    "\<And>a. if a \<in> claim_agent ` set (stale_claims env b)
           then \<exists>d. map_of (agents_of b1 None) a = Some d \<and> last_ts d = now env \<and>
                  killed_reason d = killed_reason (dict_get (agents_of b None) a new_agent)
           else map_of (agents_of b1 None) a = map_of (agents_of b None) a"
    using cleanup_effect [OF assms(1-5)] by metis
  have "claim_agent c \<in> claim_agent ` set (stale_claims env b)" using assms(6) by (rule imageI)
  with b1(2) [of "claim_agent c"] obtain d' where d': "map_of (agents_of b1 None) (claim_agent c) = Some d'"
    "last_ts d' = now env" "killed_reason d' = JNull"
    using assms(7,8) by (auto simp: dict_get_def simp del: map_of_eq_Some_iff)
  have "map_of (find_agent_heartbeats env b' None) (claim_agent c) = Some (agent_view_of (now env) d')"
    unfolding heartbeats_lookup b1(1) d'(1) by simp
  moreover have "view_status (agent_view_of (now env) d') = ACTIVE"
    using d'(2,3) by (simp add: agent_view_of_def liveness_status_def LIVENESS_ACTIVE_SEC_def)
  ultimately show ?thesis using assms(6) by (auto simp: stale_claims_def)
qed

theorem cleanup_revives_dead_agent_witness:
  "JStr ''bot'' \<in> set (dead_agents late_env demo_legacy) \<and>
   (\<exists>v. map_of (find_agent_heartbeats late_env (snd (cleanup_stale_claims late_env 1800 demo_legacy)) None)
      (JStr ''bot'') = Some v \<and> view_status v = ACTIVE)"
proof -
  have m: "map_option killed_reason (map_of (agents_of demo_legacy None) (JStr ''bot'')) = Some JNull" by code_simp
  then obtain d where d: "map_of (agents_of demo_legacy None) (JStr ''bot'') = Some d" "killed_reason d = JNull"
    by (auto simp del: map_of_eq_Some_iff)
  have mem: "demo_open \<in> set (stale_claims late_env demo_legacy)" by (simp add: demo_stale)
  have ag: "claim_agent demo_open = JStr ''bot''" by (simp add: demo_open_def)
  from cleanup_revives_dead_agent [OF demo_legacy_ok demo_legacy_env late_env_emits demo_stale_stable
      prod.collapse [symmetric] mem, of d 1800, unfolded ag] d show ?thesis by simp
qed


lemma stored_view:
  assumes "bus_ok b" and "env_ok env b" and "dict_ok p" and "id_ok a"
    and "jget p ''agent_id'' = JStr a" and "kind_in AGENT_LIVENESS_KINDS (durable p)"
    and r_def: "r = bus_stored (env, d, ''heartbeat'', p, None) b"
  shows "map_of (find_agent_heartbeats env' (bus_append (env, d, ''heartbeat'', p, None) b) None) (JStr a) =
     Some (agent_view_of (now env') (apply_heartbeat r (dict_get (agents_of b None) (JStr a) new_agent)))"
proof -
  have adm: "admissible (env, d, ''heartbeat'', p, None) b" using assms(2,3) by (simp add: env_ok_fresh)
  have "jget (durable p) ''agent_id'' = JStr a"
    using assms(4,5) durable_str [of p "''agent_id''" a]
    by (simp add: jget_JStr id_ok_def CREDENTIAL_KEYS_def)
  then have "fold_heartbeat None r x = AList.update (JStr a) (apply_heartbeat r (dict_get x (JStr a) new_agent)) x" for x
    using assms(4) by (simp add: r_def fold_heartbeat_def Let_def id_ok_def)
  moreover have "heartbeat_row AGENT_LIVENESS_KINDS r" using assms(6) by (simp add: r_def heartbeat_row_def)
  ultimately show ?thesis
    using agents_append [OF assms(1) adm]
    by (simp add: heartbeats_lookup map_of_update r_def del: bus_append.simps bus_stored.simps)
qed

text \<open>A killed agent is reported dead however recent its events, and a later pulse or
  registration makes it count by the age of that event again.\<close>

theorem kill_and_recover:
  assumes "bus_ok b" and "env_ok env b" and "emit_ok env" and "id_ok a"
  shows "map_option view_status
           (map_of (find_agent_heartbeats env' (snd (heartbeat_kill env b a why)) None) (JStr a)) = Some DEAD \<and>
         map_option view_status
           (map_of (find_agent_heartbeats env' (snd (heartbeat_pulse env b a)) None) (JStr a)) =
           Some (fst (liveness_status (now env') (now env))) \<and>
         map_option view_status
           (map_of (find_agent_heartbeats env' (snd (register_agent env b a ty model notes)) None) (JStr a)) =
           Some (fst (liveness_status (now env') (now env)))"
proof -
  let ?reg = "[(''kind'', JStr ''agent_register''), (''agent_id'', JStr a), (''agent_type'', JStr ty),
    (''model'', JStr model), (''worktree'', JStr (worktree_label env)), (''notes'', JStr notes)]"
  have kinds: "kind_in AGENT_LIVENESS_KINDS (durable (kill_event env a why))"
    "kind_in AGENT_LIVENESS_KINDS (durable (presence_pulse_payload env a))"
    "kind_in AGENT_LIVENESS_KINDS (durable ?reg)"
    by (simp_all add: kill_event_def presence_pulse_payload_def hb_simps)
  have ids: "jget (kill_event env a why) ''agent_id'' = JStr a" "jget (presence_pulse_payload env a) ''agent_id'' = JStr a"
    "jget ?reg ''agent_id'' = JStr a" "dict_ok (kill_event env a why)" "dict_ok (presence_pulse_payload env a)" "dict_ok ?reg"
    by (simp_all add: kill_event_def presence_pulse_payload_def jget_def dict_get_def)
  note view = stored_view [OF assms(1,2) ids(4) assms(4) ids(1) kinds(1) refl, of env' 0]
    stored_view [OF assms(1,2) ids(5) assms(4) ids(2) kinds(2) refl, of env' 0]
    stored_view [OF assms(1,2) ids(6) assms(4) ids(3) kinds(3) refl, of env' 0]
  have ops: "snd (heartbeat_kill env b a why) = bus_append (env, 0, ''heartbeat'', kill_event env a why, None) b"
    "snd (heartbeat_pulse env b a) = bus_append (env, 0, ''heartbeat'', presence_pulse_payload env a, None) b"
    "snd (register_agent env b a ty model notes) = bus_append (env, 0, ''heartbeat'', ?reg, None) b"
    using assms(3)
    by (simp_all add: heartbeat_kill_def heartbeat_pulse_def register_agent_def emit_unit_ok kill_event_def
        presence_pulse_payload_def del: bus_append.simps)
  show ?thesis unfolding ops view
    by (simp add: agent_view_of_def apply_heartbeat_def Let_def hb_simps kill_event_def presence_pulse_payload_def)
qed

theorem kill_and_recover_witness:
  "map_option view_status
     (map_of (find_agent_heartbeats (demo_env (CHR ''c'')) (snd (heartbeat_kill late_env demo_legacy ''bot'' ''stuck'')) None)
       (JStr ''bot'')) = Some DEAD"
  using kill_and_recover [OF demo_legacy_ok demo_legacy_env late_env_emits, of "''bot''"]
  by (simp add: id_ok_def)

text \<open>C14: The open claims behave as a map from task to latest claim: a claim sets its task's
  entry whoever held it, a release removes it, and nothing else changes.\<close>

theorem claims_refine_map:
  assumes "bus_ok b" and "env_ok env b"
  shows "(claim_task env b a t n = (Ret w, b1) \<longrightarrow>
           (\<exists>c. map_of (open_claims b1) = (map_of (open_claims b))(JStr (redact_text t) \<mapsto> c) \<and>
              claim_agent c = JStr (redact_text a) \<and> claim_task_of c = JStr (redact_text t) \<and>
              claim_ts c = now env)) \<and>
         (release_task env b a t = (Ret (), b2) \<longrightarrow>
            map_of (open_claims b2) = (map_of (open_claims b))(JStr (redact_text t) := None))"
proof (intro conjI impI)
  assume c: "claim_task env b a t n = (Ret w, b1)"
  then have "emit_ok env"
    by (rule_tac ccontr) (auto simp: claim_task_def emit_unit_failed split: res.splits)
  have g: "map_of (claim_event env a t n) ''_gossip_uuid'' = None" by (simp add: claim_event_def)
  from c emit_unit_ok [OF \<open>emit_ok env\<close> g] have b1: "b1 = bus_append (env, 0, ''heartbeat'', claim_event env a t n, None) b"
    by (auto simp: claim_task_def split: res.splits)
  have adm: "admissible (env, 0, ''heartbeat'', claim_event env a t n, None) b"
    using assms(2) by (simp add: env_ok_fresh claim_event_def)
  show "\<exists>c. map_of (open_claims b1) = (map_of (open_claims b))(JStr (redact_text t) \<mapsto> c) \<and>
              claim_agent c = JStr (redact_text a) \<and> claim_task_of c = JStr (redact_text t) \<and> claim_ts c = now env"
    unfolding b1 open_claims_append [OF assms(1) adm]
    by (auto simp: claim_event_def fold_open_claim_def Let_def hb_simps fun_eq_iff)
next
  assume r: "release_task env b a t = (Ret (), b2)"
  then have "emit_ok env"
    by (rule_tac ccontr) (auto simp: release_task_def emit_unit_failed)
  have g: "map_of (release_event env a t) ''_gossip_uuid'' = None" by (simp add: release_event_def)
  from r emit_unit_ok [OF \<open>emit_ok env\<close> g] have b2: "b2 = bus_append (env, 0, ''heartbeat'', release_event env a t, None) b"
    by (auto simp: release_task_def)
  have adm: "admissible (env, 0, ''heartbeat'', release_event env a t, None) b"
    using assms(2) by (simp add: env_ok_fresh release_event_def)
  show "map_of (open_claims b2) = (map_of (open_claims b))(JStr (redact_text t) := None)"
    unfolding b2 open_claims_append [OF assms(1) adm]
    by (auto simp: release_event_def fold_open_claim_def Let_def hb_simps fun_eq_iff)
qed

theorem claims_refine_map_witness:
  "map_of (open_claims (snd (release_task late_env demo_legacy ''cat'' ''job''))) (JStr ''job'') = None"
proof -
  have "release_task late_env demo_legacy ''cat'' ''job'' =
      (Ret (), snd (release_task late_env demo_legacy ''cat'' ''job''))"
    by (simp add: release_task_def emit_unit_ok late_env_emits release_event_def)
  with claims_refine_map [OF demo_legacy_ok demo_legacy_env] show ?thesis by fastforce
qed

end
