(* ===== verification/Phases.thy ===== *)
theory Phases
  imports GossipBus "HOL-Library.Product_Lexorder" "HOL-Library.List_Lexorder" "HOL-Library.Char_ord"
begin

text \<open>
  \<open>orchestrator/coordination/phases.py\<close> with \<open>PhaseState\<close> of
  \<open>orchestrator/coordination/types.py\<close>: the phase workflow as events of the log, and the
  critical path over the dependency graph.  The fields have their declared types; a payload
  with another JSON type in a field, which \<open>to_payload\<close> never writes, is a \<open>TypeError\<close>.
\<close>

section \<open>Phase state\<close>

datatype phase_status = NOT_STARTED | IN_PROGRESS | BLOCKED | COMPLETE

fun phase_status_value :: "phase_status \<Rightarrow> string" where
  "phase_status_value NOT_STARTED = ''not_started''"
| "phase_status_value IN_PROGRESS = ''in_progress''"
| "phase_status_value BLOCKED = ''blocked''"
| "phase_status_value COMPLETE = ''complete''"

definition phase_status_of :: "json \<Rightarrow> phase_status res" where
  "phase_status_of j =
     (case find (\<lambda>s. j = JStr (phase_status_value s)) [NOT_STARTED, IN_PROGRESS, BLOCKED, COMPLETE] of
        Some s \<Rightarrow> Ret s | None \<Rightarrow> Raise ValueError)"

record phase_state =
  phase_name :: string
  phase_status :: phase_status
  assigned_to :: "string list"
  total_tests :: int
  tests_passing :: int
  blockers :: "string list"
  depends_on :: "string list"
  started_at :: "rat option"
  completed_at :: "rat option"
  phase_notes :: string
  estimated_duration_hours :: rat

definition new_phase :: "string \<Rightarrow> phase_state" where
  "new_phase name =
     \<lparr>phase_name = name, phase_status = NOT_STARTED, assigned_to = [], total_tests = 0,
      tests_passing = 0, blockers = [], depends_on = [], started_at = None, completed_at = None,
      phase_notes = [], estimated_duration_hours = 0\<rparr>"

definition phase_to_payload :: "phase_state \<Rightarrow> payload" where
  "phase_to_payload ph =
     [(''kind'', JStr ''phase_event''), (''phase_name'', JStr (phase_name ph)),
      (''status'', JStr (phase_status_value (phase_status ph))),
      (''assigned_to'', jstrs (assigned_to ph)), (''total_tests'', JInt (total_tests ph)),
      (''tests_passing'', JInt (tests_passing ph)), (''blockers'', jstrs (blockers ph)),
      (''depends_on'', jstrs (depends_on ph)), (''started_at'', jopt JFloat (started_at ph)),
      (''completed_at'', jopt JFloat (completed_at ph)), (''notes'', JStr (phase_notes ph)),
      (''estimated_duration_hours'', JFloat (estimated_duration_hours ph))]"

definition phase_from_payload :: "payload \<Rightarrow> phase_state res" where
  "phase_from_payload p =
     (case (map_of p ''phase_name'', map_of p ''status'') of
        (None, _) \<Rightarrow> Raise (KeyError ''phase_name'')
      | (_, None) \<Rightarrow> Raise (KeyError ''status'')
      | (Some nm, Some st) \<Rightarrow>
          res_bind (as_str nm) (\<lambda>name.
          res_bind (phase_status_of st) (\<lambda>status.
          res_bind (as_strs (dict_get p ''assigned_to'' (JList []))) (\<lambda>assigned.
          res_bind (as_integer (dict_get p ''total_tests'' (JInt 0))) (\<lambda>total.
          res_bind (as_integer (dict_get p ''tests_passing'' (JInt 0))) (\<lambda>passing.
          res_bind (as_strs (dict_get p ''blockers'' (JList []))) (\<lambda>blocks.
          res_bind (as_strs (dict_get p ''depends_on'' (JList []))) (\<lambda>deps.
          res_bind (as_time (jget p ''started_at'')) (\<lambda>started.
          res_bind (as_time (jget p ''completed_at'')) (\<lambda>completed.
          res_bind (as_str (dict_get p ''notes'' (JStr []))) (\<lambda>notes.
          res_bind (as_float (dict_get p ''estimated_duration_hours'' (JFloat 0))) (\<lambda>est.
            Ret \<lparr>phase_name = name, phase_status = status, assigned_to = assigned,
                 total_tests = total, tests_passing = passing, blockers = blocks,
                 depends_on = deps, started_at = started, completed_at = completed,
                 phase_notes = notes, estimated_duration_hours = est\<rparr>))))))))))))"

section \<open>Reading phases\<close>

definition fetch_phase_events :: "bus \<Rightarrow> string option \<Rightarrow> gossip_row list" where
  "fetch_phase_events b name =
     select_asc (\<lambda>r. heartbeat_row [''phase_event''] r \<and>
       (case name of None \<Rightarrow> True | Some n \<Rightarrow> jget (row_payload r) ''phase_name'' = JStr n)) b"

fun fold_phases :: "gossip_row list \<Rightarrow> (json, phase_state) dict \<Rightarrow> (json, phase_state) dict res" where
  "fold_phases [] latest = Ret latest"
| "fold_phases (r # rs) latest =
     (let p = row_payload r; name = jget p ''phase_name'' in
      if truthy name
      then res_bind (phase_from_payload p) (\<lambda>ph. fold_phases rs (AList.update name ph latest))
      else fold_phases rs latest)"

definition latest_phase_states :: "bus \<Rightarrow> (json, phase_state) dict res" where
  "latest_phase_states b = fold_phases (fetch_phase_events b None) []"

definition get_latest_phase_state :: "bus \<Rightarrow> string \<Rightarrow> phase_state option res" where
  "get_latest_phase_state b name =
     (let snapshot = fold (\<lambda>r _. row_payload r) (fetch_phase_events b (Some name)) []
      in if snapshot = [] then Ret None
         else res_bind (phase_from_payload snapshot) (\<lambda>ph. Ret (Some ph)))"

section \<open>Operations\<close>

text \<open>
  Every operation folds the log first (\<open>b0\<close>) and appends its event later (\<open>b\<close>), with no lock
  in between: the two states differ when another agent writes meanwhile.
\<close>

datatype phase_result =
    PhaseDone | AlreadyComplete | CannotRestart | PhaseNotFound | HasBlockers "string list"

definition emit_phase :: "run_env \<Rightarrow> bus \<Rightarrow> phase_state \<Rightarrow> phase_result res \<times> bus" where
  "emit_phase env b ph =
     (case emit env 0 b ''heartbeat'' (phase_to_payload ph) None of
        (Raise e, b') \<Rightarrow> (Raise e, b') | (Ret _, b') \<Rightarrow> (Ret PhaseDone, b'))"

text \<open>\<open>if agent_id and agent_id not in phase.assigned_to: append\<close>.\<close>

definition assign_agent :: "string option \<Rightarrow> phase_state \<Rightarrow> phase_state" where
  "assign_agent agent ph =
     (case agent of
        None \<Rightarrow> ph
      | Some a \<Rightarrow> if a = [] \<or> a \<in> set (assigned_to ph) then ph
                  else ph\<lparr>assigned_to := assigned_to ph @ [a]\<rparr>)"

definition phase_start ::
  "run_env \<Rightarrow> bus \<Rightarrow> bus \<Rightarrow> string \<Rightarrow> string list option \<Rightarrow> string option \<Rightarrow> phase_result res \<times> bus" where
  "phase_start env b0 b name deps agent =
     (case get_latest_phase_state b0 name of
        Raise e \<Rightarrow> (Raise e, b)
      | Ret existing \<Rightarrow>
          if (case existing of None \<Rightarrow> False | Some ph \<Rightarrow> phase_status ph = COMPLETE)
          then (Ret CannotRestart, b)
          else
            (let ph = (case existing of None \<Rightarrow> new_phase name | Some ph \<Rightarrow> ph);
                 ph = ph\<lparr>phase_status := IN_PROGRESS, started_at := Some (now env)\<rparr>;
                 ph = (case deps of None \<Rightarrow> ph | Some ds \<Rightarrow> if ds = [] then ph else ph\<lparr>depends_on := ds\<rparr>)
             in emit_phase env b (assign_agent agent ph)))"

text \<open>The common opening of the other operations: fetch the phase or report it missing.\<close>

definition with_phase ::
  "bus \<Rightarrow> bus \<Rightarrow> string \<Rightarrow> (phase_state \<Rightarrow> phase_result res \<times> bus) \<Rightarrow> phase_result res \<times> bus" where
  "with_phase b0 b name f =
     (case get_latest_phase_state b0 name of
        Raise e \<Rightarrow> (Raise e, b)
      | Ret None \<Rightarrow> (Ret PhaseNotFound, b)
      | Ret (Some ph) \<Rightarrow> f ph)"

definition phase_update ::
  "run_env \<Rightarrow> bus \<Rightarrow> bus \<Rightarrow> string \<Rightarrow> int option \<Rightarrow> int option \<Rightarrow> string option \<Rightarrow> phase_result res \<times> bus" where
  "phase_update env b0 b name passing of_total agent =
     with_phase b0 b name (\<lambda>ph.
       let ph = (case passing of None \<Rightarrow> ph | Some n \<Rightarrow> ph\<lparr>tests_passing := n\<rparr>);
           ph = (case of_total of None \<Rightarrow> ph | Some n \<Rightarrow> ph\<lparr>total_tests := n\<rparr>)
       in emit_phase env b (assign_agent agent ph))"

definition phase_complete :: "run_env \<Rightarrow> bus \<Rightarrow> bus \<Rightarrow> string \<Rightarrow> phase_result res \<times> bus" where
  "phase_complete env b0 b name =
     with_phase b0 b name (\<lambda>ph.
       if phase_status ph = COMPLETE then (Ret AlreadyComplete, b)
       else if blockers ph \<noteq> [] then (Ret (HasBlockers (blockers ph)), b)
       else emit_phase env b (ph\<lparr>phase_status := COMPLETE, completed_at := Some (now env)\<rparr>))"

definition phase_block :: "run_env \<Rightarrow> bus \<Rightarrow> bus \<Rightarrow> string \<Rightarrow> string \<Rightarrow> phase_result res \<times> bus" where
  "phase_block env b0 b name reason =
     with_phase b0 b name (\<lambda>ph.
       let ph = ph\<lparr>phase_status := BLOCKED\<rparr> in
       emit_phase env b
         (if reason \<in> set (blockers ph) then ph else ph\<lparr>blockers := blockers ph @ [reason]\<rparr>))"

definition phase_unblock :: "run_env \<Rightarrow> bus \<Rightarrow> bus \<Rightarrow> string \<Rightarrow> string \<Rightarrow> phase_result res \<times> bus" where
  "phase_unblock env b0 b name reason =
     with_phase b0 b name (\<lambda>ph.
       let ph = (if reason \<in> set (blockers ph) then ph\<lparr>blockers := remove1 reason (blockers ph)\<rparr> else ph)
       in emit_phase env b (ph\<lparr>phase_status := if blockers ph = [] then IN_PROGRESS else BLOCKED\<rparr>))"

section \<open>Listing\<close>

definition phase_sort_key :: "string \<Rightarrow> nat \<times> int list \<times> string" where
  "phase_sort_key name =
     (let other = (1, [], name) in
      case split_on (CHR ''-'') name of
        p0 # p1 # _ \<Rightarrow>
          if p0 = ''Phase''
          then (case those (map parse_int (split_on (CHR ''.'') p1)) of
                  Some components \<Rightarrow> (0, components, name) | None \<Rightarrow> other)
          else other
      | _ \<Rightarrow> other)"

definition phase_list :: "bus \<Rightarrow> (string \<times> phase_state) list res" where
  "phase_list b =
     res_bind (latest_phase_states b) (\<lambda>phases.
       Ret (sort_key (\<lambda>(n, ph). phase_sort_key n) (map (\<lambda>(j, ph). (phase_name ph, ph)) phases)))"

definition detect_blockers :: "phase_state \<Rightarrow> (string, phase_state) dict \<Rightarrow> string list" where
  "detect_blockers ph all_phases =
     filter (\<lambda>dep. case map_of all_phases dep of
                     None \<Rightarrow> True | Some d \<Rightarrow> phase_status d \<noteq> COMPLETE) (depends_on ph)"

section \<open>Critical path\<close>

type_synonym phase_map = "(string, phase_state) dict"

definition node_hours :: "phase_state \<Rightarrow> rat" where
  "node_hours ph =
     (case (completed_at ph, started_at ph) of
        (Some c, Some s) \<Rightarrow> if c \<noteq> 0 \<and> s \<noteq> 0 then (c - s) / 3600 else estimated_duration_hours ph
      | _ \<Rightarrow> estimated_duration_hours ph)"

definition dependents :: "phase_map \<Rightarrow> string \<Rightarrow> string list" where
  "dependents phases node = map fst (filter (\<lambda>(n, ph). node \<in> set (depends_on ph)) phases)"

text \<open>The loop that keeps the longest of the chains of the dependents.\<close>

definition better_chain ::
  "string \<Rightarrow> rat \<Rightarrow> string list \<times> rat \<Rightarrow> string list \<times> rat \<Rightarrow> string list \<times> rat" where
  "better_chain node current s best =
     (if snd s + current > snd best then (node # fst s, snd s + current) else best)"

function longest_chain :: "phase_map \<Rightarrow> string \<Rightarrow> string list \<Rightarrow> string list \<times> rat" where
  "longest_chain phases node visited =
     (if node \<in> set visited then ([], 0)
      else case map_of phases node of
        None \<Rightarrow> ([], 0)
      | Some ph \<Rightarrow>
          (let current = node_hours ph;
               subs = map (\<lambda>d. longest_chain phases d (node # visited)) (dependents phases node);
               best = fold (better_chain node current) subs ([], 0)
           in if fst best = [] then ([node], current) else best))"
  by pat_completeness auto
termination
proof (relation "measure (\<lambda>(phases, node, visited). card (fst ` set phases - set visited))")
  fix phases :: phase_map and node visited ph d
  assume "node \<notin> set visited" and "map_of phases node = Some ph"
  then have "node \<in> fst ` set phases - set visited" by (force dest: map_of_SomeD)
  then have "fst ` set phases - set (node # visited) \<subset> fst ` set phases - set visited" by auto
  then show "((phases, d, node # visited), phases, node, visited)
      \<in> measure (\<lambda>(phases, node, visited). card (fst ` set phases - set visited))"
    by (simp add: psubset_card_mono)
qed simp

text \<open>
  \<open>workflow_critical_path\<close>: \<open>roots\<close> is the order in which the set of root phases is
  iterated; \<open>None\<close> when there is no root.
\<close>

definition root_phases :: "phase_map \<Rightarrow> string set" where
  "root_phases phases = {n. \<exists>ph. map_of phases n = Some ph \<and> depends_on ph = []}"

definition critical_path :: "phase_map \<Rightarrow> string list \<Rightarrow> (string list \<times> rat) option" where
  "critical_path phases roots =
     (if roots = [] then None
      else Some (fold (\<lambda>root best. let c = longest_chain phases root [] in
                   if snd c > snd best then c else best) roots ([], 0)))"


section \<open>Round trip and the log\<close>

lemma phase_status_of_value [simp]: "phase_status_of (JStr (phase_status_value s)) = Ret s"
  by (cases s) (simp_all add: phase_status_of_def)

text \<open>A phase none of whose strings is changed by redaction.\<close>

definition phase_clean :: "phase_state \<Rightarrow> bool" where
  "phase_clean ph \<longleftrightarrow> redact_text (phase_name ph) = phase_name ph \<and>
     (\<forall>s \<in> set (assigned_to ph) \<union> set (blockers ph) \<union> set (depends_on ph). redact_text s = s) \<and>
     redact_text (phase_notes ph) = phase_notes ph"

lemma redact_items_strs: "(\<forall>s \<in> set xs. redact_text s = s) \<Longrightarrow> redact_items (map JStr xs) = map JStr xs"
  by (induction xs) auto

lemma redact_value_opt [simp]: "redact_value (jopt JFloat t) = jopt JFloat t"
  by (cases t) simp_all

lemma phase_status_value_clean [simp]: "redact_text (phase_status_value s) = phase_status_value s"
  by (cases s) simp_all

lemma durable_phase: "phase_clean ph \<Longrightarrow> durable (phase_to_payload ph) = phase_to_payload ph"
  by (simp add: phase_clean_def durable_def phase_to_payload_def CREDENTIAL_KEYS_def jstrs_def
      redact_items_strs)

lemma phase_roundtrip_aux: "phase_from_payload (phase_to_payload ph) = Ret ph"
  by (simp add: phase_from_payload_def phase_to_payload_def dict_get_def jget_def)

lemma phase_event_appended:
  assumes "bus_ok b" and "env_ok env b" and "phase_clean ph"
  defines "b' \<equiv> bus_append (env, 0, ''heartbeat'', phase_to_payload ph, None) b"
  shows "get_latest_phase_state b' (phase_name ph) = Ret (Some ph)"
    and "n \<noteq> phase_name ph \<Longrightarrow> get_latest_phase_state b' n = get_latest_phase_state b n"
proof -
  let ?e = "(env, 0, ''heartbeat'', phase_to_payload ph, None :: string option)"
  have adm: "admissible ?e b" using assms(2) by (simp add: env_ok_fresh phase_to_payload_def)
  have row: "row_payload (bus_stored ?e b) = phase_to_payload ph" "event_type (bus_stored ?e b) = ''heartbeat''"
    using durable_phase [OF assms(3)] by simp_all
  have kind: "heartbeat_row [''phase_event''] (bus_stored ?e b)"
    "jget (phase_to_payload ph) ''phase_name'' = JStr (phase_name ph)" "phase_to_payload ph \<noteq> []"
    unfolding heartbeat_row_def row by (simp_all add: kind_in_def jget_def dict_get_def phase_to_payload_def)
  have fetch: "fetch_phase_events b' (Some n) = fetch_phase_events b (Some n) @
      (if n = phase_name ph then [bus_stored ?e b] else [])" for n
    unfolding b'_def fetch_phase_events_def select_asc_append [OF assms(1) adm]
    using kind row by (auto simp del: bus_stored.simps)
  show "get_latest_phase_state b' (phase_name ph) = Ret (Some ph)"
    using row kind(3) by (simp add: get_latest_phase_state_def Let_def fetch phase_roundtrip_aux del: bus_stored.simps)
  show "n \<noteq> phase_name ph \<Longrightarrow> get_latest_phase_state b' n = get_latest_phase_state b n"
    by (simp add: get_latest_phase_state_def Let_def fetch)
qed

lemma emit_phase_cases:
  assumes "emit_phase env b ph = (r, b')"
  obtains (written) "r = Ret PhaseDone" "b' = bus_append (env, 0, ''heartbeat'', phase_to_payload ph, None) b"
  | (failed) "r = Raise GossipBusError" "b' = b"
proof (cases "emit_ok env")
  case True
  have "map_of (phase_to_payload ph) ''_gossip_uuid'' = None" by (simp add: phase_to_payload_def)
  from emit_simps [OF True this] assms written show thesis by (auto simp: emit_phase_def)
next
  case False
  with assms failed show thesis by (auto simp: emit_phase_def emit_failed)
qed

lemma get_latest_name:
  assumes "bus_ok b" and "get_latest_phase_state b n = Ret (Some ph)"
  shows "phase_name ph = n"
proof -
  let ?rows = "fetch_phase_events b (Some n)"
  have snap: "fold (\<lambda>r _. row_payload r) ?rows [] \<noteq> []"
    "phase_from_payload (fold (\<lambda>r _. row_payload r) ?rows []) = Ret ph"
    using assms(2) by (auto simp: get_latest_phase_state_def Let_def res_bind_eq_Ret split: if_splits)
  then have "?rows \<noteq> []" by auto
  then obtain rs r where rs: "?rows = rs @ [r]" by (metis rev_exhaust)
  have "r \<in> set ?rows" by (simp add: rs)
  then have "jget (row_payload r) ''phase_name'' = JStr n"
    by (simp add: fetch_phase_events_def select_asc_def)
  with snap(2) rs show ?thesis
    by (auto simp: phase_from_payload_def jget_JStr res_bind_eq_Ret simp del: map_of_eq_Some_iff split: option.splits)
qed


section \<open>Chains\<close>

definition hours_of :: "phase_map \<Rightarrow> string \<Rightarrow> rat" where
  "hours_of phases n = (case map_of phases n of None \<Rightarrow> 0 | Some ph \<Rightarrow> node_hours ph)"

definition chain_hours :: "phase_map \<Rightarrow> string list \<Rightarrow> rat" where
  "chain_hours phases path = sum_list (map (hours_of phases) path)"

text \<open>A simple dependency chain: each phase depends on the one before it.\<close>

definition simple_chain :: "phase_map \<Rightarrow> string list \<Rightarrow> bool" where
  "simple_chain phases path \<longleftrightarrow>
     distinct path \<and> set path \<subseteq> fst ` set phases \<and> successively (\<lambda>x y. y \<in> set (dependents phases x)) path"

lemma fold_better_cases:
  "fold (better_chain n c) subs best = best \<or>
   (\<exists>s \<in> set subs. fold (better_chain n c) subs best = (n # fst s, snd s + c))"
  by (induction subs arbitrary: best) (auto simp: better_chain_def split: if_splits)

lemma fold_better_mono: "snd best \<le> snd (fold (better_chain n c) subs best)"
proof (induction subs arbitrary: best)
  case (Cons x subs)
  have "snd best \<le> snd (better_chain n c x best)" by (auto simp: better_chain_def)
  also have "\<dots> \<le> snd (fold (better_chain n c) subs (better_chain n c x best))" by (rule Cons.IH)
  finally show ?case by simp
qed simp

lemma fold_better_ge: "s \<in> set subs \<Longrightarrow> snd s + c \<le> snd (fold (better_chain n c) subs best)"
proof (induction subs arbitrary: best)
  case (Cons x subs)
  show ?case
  proof (cases "s = x")
    case True
    have "snd x + c \<le> snd (better_chain n c x best)" by (auto simp: better_chain_def)
    also have "\<dots> \<le> snd (fold (better_chain n c) subs (better_chain n c x best))" by (rule fold_better_mono)
    finally show ?thesis using True by simp
  qed (use Cons in simp)
qed simp

lemma dependents_dom: "d \<in> set (dependents phases n) \<Longrightarrow> d \<in> fst ` set phases"
  by (auto simp: dependents_def)

lemma longest_chain_valid:
  "node \<notin> set visited \<Longrightarrow> node \<in> fst ` set phases \<Longrightarrow>
   (case longest_chain phases node visited of (path, h) \<Rightarrow>
      path \<noteq> [] \<and> hd path = node \<and> simple_chain phases path \<and> set path \<inter> set visited = {} \<and>
      h = chain_hours phases path)"
proof (induction phases node visited rule: longest_chain.induct)
  case (1 phases node visited)
  obtain ph where ph: "map_of phases node = Some ph"
    using "1.prems"(2) by (metis domD dom_map_of_conv_image_fst)
  let ?sub = "\<lambda>d. longest_chain phases d (node # visited)"
  let ?best = "fold (better_chain node (node_hours ph)) (map ?sub (dependents phases node)) ([], 0)"
  have eq: "longest_chain phases node visited = (if fst ?best = [] then ([node], node_hours ph) else ?best)"
    using "1.prems"(1) ph by (subst longest_chain.simps) (simp add: Let_def del: longest_chain.simps)
  have single: "simple_chain phases [node]" "chain_hours phases [node] = node_hours ph"
    using "1.prems"(2) ph by (auto simp: simple_chain_def chain_hours_def hours_of_def)
  show ?case
  proof (cases "fst ?best = []")
    case True
    with eq single "1.prems"(1) show ?thesis by (simp del: longest_chain.simps)
  next
    case False
    then obtain d where d: "d \<in> set (dependents phases node)" "?best = (node # fst (?sub d), snd (?sub d) + node_hours ph)"
      using fold_better_cases [of node "node_hours ph" "map ?sub (dependents phases node)" "([], 0)"] by auto
    show ?thesis
    proof (cases "d \<in> set (node # visited)")
      case True
      then have "?sub d = ([], 0)" by (subst longest_chain.simps) simp
      with d(2) eq single "1.prems"(1) show ?thesis by (simp del: longest_chain.simps)
    next
      case out: False
      obtain sp sh where sub: "?sub d = (sp, sh)" by (cases "?sub d")
      from "1.IH" [OF "1.prems"(1) ph refl d(1) out dependents_dom [OF d(1)]] sub
      have sp: "sp \<noteq> []" "hd sp = d" "simple_chain phases sp" "set sp \<inter> set (node # visited) = {}"
        "sh = chain_hours phases sp"
        by (simp_all del: longest_chain.simps)
      have "simple_chain phases (node # sp)"
        using sp d(1) "1.prems"(2) by (auto simp: simple_chain_def successively_Cons)
      with sp d(2) sub eq False single(2) "1.prems"(1) show ?thesis
        by (auto simp: chain_hours_def simp del: longest_chain.simps)
    qed
  qed
qed

lemma longest_chain_optimal:
  assumes nonneg: "\<And>n. 0 \<le> hours_of phases n"
  shows "simple_chain phases (node # rest) \<Longrightarrow> set (node # rest) \<inter> set visited = {} \<Longrightarrow>
    chain_hours phases (node # rest) \<le> snd (longest_chain phases node visited)"
proof (induction rest arbitrary: node visited)
  case Nil
  then obtain ph where ph: "map_of phases node = Some ph"
    by (auto simp: simple_chain_def) (metis domD dom_map_of_conv_image_fst image_eqI fst_conv)
  have v: "case longest_chain phases node visited of (path, h) \<Rightarrow>
      path \<noteq> [] \<and> hd path = node \<and> h = chain_hours phases path"
    using longest_chain_valid [of node visited phases] Nil by (auto simp: simple_chain_def split: prod.splits)
  obtain path h where lc: "longest_chain phases node visited = (path, h)" by (cases "longest_chain phases node visited")
  with v obtain ps where "path = node # ps" "h = chain_hours phases (node # ps)" by (cases path) auto
  moreover have "0 \<le> sum_list (map (hours_of phases) ps)" by (rule sum_list_nonneg) (auto simp: nonneg)
  ultimately show ?case using lc by (simp add: chain_hours_def del: longest_chain.simps)
next
  case (Cons d rest)
  from Cons.prems(1) have "node \<in> fst ` set phases" and dep: "d \<in> set (dependents phases node)"
    and tail: "simple_chain phases (d # rest)"
    by (auto simp: simple_chain_def successively_Cons)
  then obtain ph where ph: "map_of phases node = Some ph" by (metis domD dom_map_of_conv_image_fst)
  let ?sub = "\<lambda>d. longest_chain phases d (node # visited)"
  let ?best = "fold (better_chain node (node_hours ph)) (map ?sub (dependents phases node)) ([], 0)"
  have eq: "longest_chain phases node visited = (if fst ?best = [] then ([node], node_hours ph) else ?best)"
    using Cons.prems(2) ph by (subst longest_chain.simps) (simp add: Let_def del: longest_chain.simps)
  have "set (d # rest) \<inter> set (node # visited) = {}"
    using Cons.prems by (auto simp: simple_chain_def)
  from Cons.IH [OF tail this] have ih: "chain_hours phases (d # rest) \<le> snd (?sub d)" .
  have ge: "snd (?sub d) + node_hours ph \<le> snd ?best" by (rule fold_better_ge) (use dep in simp)
  have cur: "hours_of phases node = node_hours ph" using ph by (simp add: hours_of_def)
  have "snd ?best \<le> snd (longest_chain phases node visited)"
  proof (cases "fst ?best = []")
    case True
    with fold_better_cases [of node "node_hours ph" "map ?sub (dependents phases node)" "([], 0)"]
    have "?best = ([], 0)" by auto
    with eq nonneg [of node] cur show ?thesis by simp
  qed (simp add: eq del: longest_chain.simps)
  with ih ge cur show ?case by (simp add: chain_hours_def del: longest_chain.simps)
qed


section \<open>The workflow as a step relation\<close>

datatype phase_cmd =
    Start string "string list option" "string option"
  | Update string "int option" "int option" "string option"
  | Complete string
  | Block string string
  | Unblock string string

fun run_phase_cmd :: "run_env \<Rightarrow> bus \<Rightarrow> bus \<Rightarrow> phase_cmd \<Rightarrow> phase_result res \<times> bus" where
  "run_phase_cmd env b0 b (Start n ds a) = phase_start env b0 b n ds a"
| "run_phase_cmd env b0 b (Update n p t a) = phase_update env b0 b n p t a"
| "run_phase_cmd env b0 b (Complete n) = phase_complete env b0 b n"
| "run_phase_cmd env b0 b (Block n w) = phase_block env b0 b n w"
| "run_phase_cmd env b0 b (Unblock n w) = phase_unblock env b0 b n w"

text \<open>The strings of a command survive redaction.\<close>

fun cmd_clean :: "phase_cmd \<Rightarrow> bool" where
  "cmd_clean (Start n ds a) =
     (redact_text n = n \<and> (case ds of None \<Rightarrow> True | Some xs \<Rightarrow> list_all (\<lambda>s. redact_text s = s) xs) \<and>
      (case a of None \<Rightarrow> True | Some s \<Rightarrow> redact_text s = s))"
| "cmd_clean (Update n p t a) = (redact_text n = n \<and> (case a of None \<Rightarrow> True | Some s \<Rightarrow> redact_text s = s))"
| "cmd_clean (Complete n) = (redact_text n = n)"
| "cmd_clean (Block n w) = (redact_text n = n \<and> redact_text w = w)"
| "cmd_clean (Unblock n w) = (redact_text n = n \<and> redact_text w = w)"

inductive phase_run :: "bus list \<Rightarrow> bool" where
  start: "phase_run [empty_bus]"
| step: "\<lbrakk>phase_run (b # h); env_ok env b; b0 \<in> set (b # h); cmd_clean cmd;
     run_phase_cmd env b0 b cmd = (r, b')\<rbrakk> \<Longrightarrow> phase_run (b' # b # h)"

definition phase_inv :: "phase_state \<Rightarrow> bool" where
  "phase_inv ph \<longleftrightarrow>
     phase_status ph \<noteq> NOT_STARTED \<and> started_at ph \<noteq> None \<and>
     (phase_status ph = COMPLETE \<longrightarrow> blockers ph = [] \<and> completed_at ph \<noteq> None) \<and>
     (phase_status ph = BLOCKED \<longrightarrow> blockers ph \<noteq> []) \<and>
     distinct (blockers ph) \<and> distinct (assigned_to ph)"

definition phases_good :: "bus \<Rightarrow> bool" where
  "phases_good b \<longleftrightarrow> bus_ok b \<and>
     (\<forall>n ph. get_latest_phase_state b n = Ret (Some ph) \<longrightarrow> phase_inv ph \<and> phase_clean ph)"

lemma phases_goodD:
  "phases_good b \<Longrightarrow> get_latest_phase_state b n = Ret (Some ph) \<Longrightarrow> phase_inv ph \<and> phase_clean ph \<and> phase_name ph = n"
  using get_latest_name by (auto simp: phases_good_def)

lemma assign_agent_good:
  assumes "phase_inv ph" and "phase_clean ph" and "\<And>a. agent = Some a \<Longrightarrow> redact_text a = a"
  shows "phase_inv (assign_agent agent ph) \<and> phase_clean (assign_agent agent ph)"
  using assms by (auto simp: assign_agent_def phase_inv_def phase_clean_def split: option.splits)

lemma emit_phase_good:
  assumes "phases_good b" and "env_ok env b" and "emit_phase env b ph = (r, b')"
    and "phase_inv ph" and "phase_clean ph"
  shows "phases_good b'"
proof (cases rule: emit_phase_cases [OF assms(3)])
  case 1
  have ok: "bus_ok b" using assms(1) by (simp add: phases_good_def)
  have "bus_ok b'" unfolding 1 using assms(2) ok
    by (intro bus_ok_append) (simp_all add: env_ok_fresh phase_to_payload_def)
  moreover have "get_latest_phase_state b' n = (if n = phase_name ph then Ret (Some ph) else get_latest_phase_state b n)" for n
    unfolding 1 using phase_event_appended [OF ok assms(2,5)] by simp
  ultimately show ?thesis using assms(1,4,5) by (auto simp: phases_good_def split: if_splits)
next
  case 2
  with assms(1) show ?thesis by simp
qed

lemma start_good:
  assumes "phases_good b0" and "phases_good b" and "env_ok env b" and "cmd_clean (Start n ds a)"
    and "phase_start env b0 b n ds a = (r, b')"
  shows "phases_good b'"
proof -
  obtain x where x: "get_latest_phase_state b0 n = Ret x \<or> b' = b"
    using assms(5) by (cases "get_latest_phase_state b0 n") (auto simp: phase_start_def)
  define ph where "ph = (case x of None \<Rightarrow> new_phase n | Some ph \<Rightarrow> ph)"
  define ph1 where "ph1 = ph\<lparr>phase_status := IN_PROGRESS, started_at := Some (now env)\<rparr>"
  define ph2 where "ph2 = (case ds of None \<Rightarrow> ph1 | Some d \<Rightarrow> if d = [] then ph1 else ph1\<lparr>depends_on := d\<rparr>)"
  show ?thesis
  proof (cases "b' = b")
    case False
    with x have gx: "get_latest_phase_state b0 n = Ret x" by blast
    have e: "emit_phase env b (assign_agent a ph2) = (r, b')"
      using assms(5) False gx
      by (auto simp: phase_start_def Let_def ph_def ph1_def ph2_def split: if_splits option.splits)
    have "phase_inv ph1 \<and> phase_clean ph1"
      using phases_goodD [OF assms(1), of n] assms(4) gx
      by (cases x) (auto simp: ph1_def ph_def new_phase_def phase_inv_def phase_clean_def)
    then have "phase_inv ph2 \<and> phase_clean ph2"
      using assms(4) by (auto simp: ph2_def phase_inv_def phase_clean_def list_all_iff split: option.splits)
    then have "phase_inv (assign_agent a ph2) \<and> phase_clean (assign_agent a ph2)"
      using assms(4) by (intro assign_agent_good) auto
    with emit_phase_good [OF assms(2,3) e] show ?thesis by blast
  qed (use assms(2) in simp)
qed

lemma with_phase_cases:
  assumes "with_phase b0 b n f = (r, b')"
  obtains "b' = b" | ph where "get_latest_phase_state b0 n = Ret (Some ph)" "f ph = (r, b')"
  using assms by (auto simp: with_phase_def split: res.splits option.splits)

lemma other_ops_good:
  assumes g0: "phases_good b0" and g: "phases_good b" and e: "env_ok env b" and c: "cmd_clean cmd"
    and op: "run_phase_cmd env b0 b cmd = (r, b')"
  shows "phases_good b'"
proof (cases cmd)
  case (Start n ds a)
  with start_good [OF g0 g e] c op show ?thesis by simp
next
  case (Update n p t a)
  let ?f = "\<lambda>ph. (case t of None \<Rightarrow> (case p of None \<Rightarrow> ph | Some m \<Rightarrow> ph\<lparr>tests_passing := m\<rparr>)
    | Some m \<Rightarrow> (case p of None \<Rightarrow> ph | Some m \<Rightarrow> ph\<lparr>tests_passing := m\<rparr>)\<lparr>total_tests := m\<rparr>)"
  have f: "phase_inv ph \<Longrightarrow> phase_inv (?f ph)" "phase_clean ph \<Longrightarrow> phase_clean (?f ph)" for ph
    by (auto simp: phase_inv_def phase_clean_def split: option.splits)
  from op Update consider "b' = b" | ph where "get_latest_phase_state b0 n = Ret (Some ph)"
    "emit_phase env b (assign_agent a (?f ph)) = (r, b')"
    by (auto simp: phase_update_def Let_def elim: with_phase_cases)
  then show ?thesis
  proof cases
    case (2 ph)
    from phases_goodD [OF g0 2(1)] f have "phase_inv (?f ph)" "phase_clean (?f ph)" by auto
    then have "phase_inv (assign_agent a (?f ph)) \<and> phase_clean (assign_agent a (?f ph))"
      by (rule assign_agent_good) (use c Update in auto)
    with emit_phase_good [OF g e 2(2)] show ?thesis by blast
  qed (use g in simp)
next
  case (Complete n)
  with op consider "b' = b" | ph where "get_latest_phase_state b0 n = Ret (Some ph)" "blockers ph = []"
    "emit_phase env b (ph\<lparr>phase_status := COMPLETE, completed_at := Some (now env)\<rparr>) = (r, b')"
    by (auto simp: phase_complete_def elim!: with_phase_cases split: if_splits)
  then show ?thesis
  proof cases
    case (2 ph)
    from phases_goodD [OF g0 2(1)] 2(2) emit_phase_good [OF g e 2(3)] show ?thesis
      by (auto simp: phase_inv_def phase_clean_def)
  qed (use g in simp)
next
  case (Block n w)
  let ?f = "\<lambda>ph. if w \<in> set (blockers ph) then ph\<lparr>phase_status := BLOCKED\<rparr>
    else ph\<lparr>phase_status := BLOCKED, blockers := blockers (ph\<lparr>phase_status := BLOCKED\<rparr>) @ [w]\<rparr>"
  from op Block consider "b' = b" | ph where "get_latest_phase_state b0 n = Ret (Some ph)"
    "emit_phase env b (?f ph) = (r, b')"
    by (auto simp: phase_block_def Let_def elim!: with_phase_cases)
  then show ?thesis
  proof cases
    case (2 ph)
    from phases_goodD [OF g0 2(1)] c Block have "phase_inv (?f ph)" "phase_clean (?f ph)"
      by (auto simp: phase_inv_def phase_clean_def)
    with emit_phase_good [OF g e 2(2)] show ?thesis by blast
  qed (use g in simp)
next
  case (Unblock n w)
  let ?g = "\<lambda>ph. if w \<in> set (blockers ph) then ph\<lparr>blockers := remove1 w (blockers ph)\<rparr> else ph"
  let ?f = "\<lambda>ph. (?g ph)\<lparr>phase_status := if blockers (?g ph) = [] then IN_PROGRESS else BLOCKED\<rparr>"
  from op Unblock consider "b' = b" | ph where "get_latest_phase_state b0 n = Ret (Some ph)"
    "emit_phase env b (?f ph) = (r, b')"
    by (auto simp: phase_unblock_def Let_def elim!: with_phase_cases)
  then show ?thesis
  proof cases
    case (2 ph)
    from phases_goodD [OF g0 2(1)] c Unblock have "phase_inv (?f ph)" "phase_clean (?f ph)"
      using set_remove1_subset [of w "blockers ph"]
      by (auto simp: phase_inv_def phase_clean_def dest: subsetD)
    with emit_phase_good [OF g e 2(2)] show ?thesis by blast
  qed (use g in simp)
qed

lemma phases_good_empty: "phases_good empty_bus"
  by (simp add: phases_good_def bus_ok_empty get_latest_phase_state_def fetch_phase_events_def
      select_asc_def) (simp add: empty_bus_def)

lemma phase_run_good: "phase_run h \<Longrightarrow> \<forall>b \<in> set h. phases_good b"
proof (induction rule: phase_run.induct)
  case (step b h env b0 cmd r b')
  with other_ops_good [of b0 b env cmd r b'] show ?case by auto
qed (simp add: phases_good_empty)


section \<open>Properties\<close>

text \<open>A phase read back from its payload is the phase that was written.\<close>

theorem phase_roundtrip: "phase_from_payload (phase_to_payload ph) = Ret ph"
  by (rule phase_roundtrip_aux)

text \<open>In every run of the workflow, with stale reads, every phase on the board is well
  formed: it has a start time, a complete phase has no blocker and a completion time, a
  blocked phase has a blocker, and neither blockers nor assignees repeat.\<close>

theorem phase_run_invariant:
  assumes "phase_run h" and "b \<in> set h" and "get_latest_phase_state b n = Ret (Some ph)"
  shows "phase_name ph = n \<and> phase_status ph \<noteq> NOT_STARTED \<and> started_at ph \<noteq> None \<and>
    (phase_status ph = COMPLETE \<longrightarrow> blockers ph = [] \<and> completed_at ph \<noteq> None) \<and>
    (phase_status ph = BLOCKED \<longrightarrow> blockers ph \<noteq> []) \<and>
    distinct (blockers ph) \<and> distinct (assigned_to ph)"
  using phase_run_good [OF assms(1)] assms(2) phases_goodD [OF _ assms(3)] by (auto simp: phase_inv_def)

text \<open>A run that starts one phase, for the witnesses.\<close>

definition demo_phase :: phase_state where
  "demo_phase = (new_phase ''Phase-1'')\<lparr>phase_status := IN_PROGRESS, started_at := Some 5\<rparr>"

definition demo_started :: bus where
  "demo_started = snd (phase_start (demo_env (CHR ''a'')) empty_bus empty_bus ''Phase-1'' None None)"

lemma demo_phase_clean: "phase_clean demo_phase"
  by (simp add: demo_phase_def phase_clean_def new_phase_def)

lemma demo_start: "phase_start (demo_env (CHR ''a'')) empty_bus empty_bus ''Phase-1'' None None = (Ret PhaseDone, demo_started)"
  and demo_started_latest: "get_latest_phase_state demo_started ''Phase-1'' = Ret (Some demo_phase)"
proof -
  have none: "get_latest_phase_state empty_bus ''Phase-1'' = Ret None"
    by (simp add: get_latest_phase_state_def fetch_phase_events_def select_asc_def empty_bus_def)
  have "now (demo_env (CHR ''a'')) = 5" by (simp add: demo_env_def)
  with none have st: "phase_start (demo_env (CHR ''a'')) empty_bus empty_bus ''Phase-1'' None None = emit_phase (demo_env (CHR ''a'')) empty_bus demo_phase"
    by (simp add: phase_start_def Let_def demo_phase_def assign_agent_def)
  obtain r b where rb: "emit_phase (demo_env (CHR ''a'')) empty_bus demo_phase = (r, b)" by (cases "emit_phase (demo_env (CHR ''a'')) empty_bus demo_phase")
  have em: "map_of (phase_to_payload demo_phase) ''_gossip_uuid'' = None" by (simp add: phase_to_payload_def)
  then have b: "r = Ret PhaseDone" "b = bus_append (demo_env (CHR ''a''), 0, ''heartbeat'', phase_to_payload demo_phase, None) empty_bus"
    using rb emit_simps [OF demo_env_fields(2) em] by (auto simp: emit_phase_def)
  show "phase_start (demo_env (CHR ''a'')) empty_bus empty_bus ''Phase-1'' None None = (Ret PhaseDone, demo_started)"
    using st rb b(1) by (simp add: demo_started_def)
  have "demo_started = b" using st rb by (simp add: demo_started_def)
  moreover have "phase_name demo_phase = ''Phase-1''" by (simp add: demo_phase_def new_phase_def)
  ultimately show "get_latest_phase_state demo_started ''Phase-1'' = Ret (Some demo_phase)"
    using phase_event_appended(1) [OF bus_ok_empty env_ok_empty [of "CHR ''a''"] demo_phase_clean] b(2) by simp
qed

lemma demo_started_run: "phase_run [demo_started, empty_bus]"
proof (rule phase_run.step [OF phase_run.start env_ok_empty])
  show "run_phase_cmd (demo_env (CHR ''a'')) empty_bus empty_bus (Start ''Phase-1'' None None) = (Ret PhaseDone, demo_started)"
    unfolding run_phase_cmd.simps by (rule demo_start)
qed simp_all

theorem phase_run_invariant_witness:
  "phase_run [demo_started, empty_bus] \<and> phase_name demo_phase = ''Phase-1'' \<and> started_at demo_phase \<noteq> None"
  using phase_run_invariant [OF demo_started_run _ demo_started_latest] demo_started_run by simp


lemma demo_started_ok: "bus_ok demo_started"
  using phase_run_good [OF demo_started_run] by (simp add: phases_good_def)

lemma demo_started_env: "c \<noteq> CHR ''a'' \<Longrightarrow> env_ok (demo_env c) demo_started"
proof -
  have "map event_uuid (gossip demo_started) = [''a'']" by code_simp
  then have "event_uuid ` set (gossip demo_started) = {''a''}" by (simp flip: set_map)
  then show "c \<noteq> CHR ''a'' \<Longrightarrow> env_ok (demo_env c) demo_started"
    using demo_env_inj by (auto simp: env_ok_def fresh_uuid_def)
qed

lemma emit_phase_written:
  assumes "bus_ok b" and "env_ok env b" and "emit_ok env" and "phase_clean ph" and "phase_name ph = n"
  obtains b' where "emit_phase env b ph = (Ret PhaseDone, b')" "get_latest_phase_state b' n = Ret (Some ph)"
    "\<And>m. m \<noteq> n \<Longrightarrow> get_latest_phase_state b' m = get_latest_phase_state b m"
proof -
  have "map_of (phase_to_payload ph) ''_gossip_uuid'' = None" by (simp add: phase_to_payload_def)
  from emit_simps [OF assms(3) this, of 0 b "''heartbeat''" None]
  have "emit_phase env b ph = (Ret PhaseDone, bus_append (env, 0, ''heartbeat'', phase_to_payload ph, None) b)"
    by (simp add: emit_phase_def)
  with phase_event_appended [OF assms(1,2,4)] assms(5) that show thesis by blast
qed

text \<open>C21: Completing a phase: it is refused while a blocker is recorded, is a no-op on a
  complete phase, and otherwise marks this phase, and only it, complete at the current time;
  a complete phase is never restarted by \<open>phase_start\<close>.\<close>

theorem phase_complete_behaviour:
  assumes "bus_ok b" and "env_ok env b" and "emit_ok env" and "phase_clean ph"
    and "get_latest_phase_state b n = Ret (Some ph)"
  shows "if phase_status ph = COMPLETE
         then phase_complete env b b n = (Ret AlreadyComplete, b) \<and> phase_start env b b n ds a = (Ret CannotRestart, b)
         else if blockers ph \<noteq> [] then phase_complete env b b n = (Ret (HasBlockers (blockers ph)), b)
         else \<exists>b'. phase_complete env b b n = (Ret PhaseDone, b') \<and>
           get_latest_phase_state b' n = Ret (Some (ph\<lparr>phase_status := COMPLETE, completed_at := Some (now env)\<rparr>)) \<and>
           (\<forall>m. m \<noteq> n \<longrightarrow> get_latest_phase_state b' m = get_latest_phase_state b m)"
proof -
  let ?ph = "ph\<lparr>phase_status := COMPLETE, completed_at := Some (now env)\<rparr>"
  have "phase_name ?ph = n" using get_latest_name [OF assms(1,5)] by simp
  moreover have "phase_clean ?ph" using assms(4) by (simp add: phase_clean_def)
  ultimately obtain b' where "emit_phase env b ?ph = (Ret PhaseDone, b')" "get_latest_phase_state b' n = Ret (Some ?ph)"
    "\<And>m. m \<noteq> n \<Longrightarrow> get_latest_phase_state b' m = get_latest_phase_state b m"
    using emit_phase_written [OF assms(1,2,3)] by metis
  with assms(5) show ?thesis by (simp add: phase_complete_def with_phase_def phase_start_def)
qed

theorem phase_complete_behaviour_witness:
  "\<exists>b'. phase_complete (demo_env (CHR ''b'')) demo_started demo_started ''Phase-1'' = (Ret PhaseDone, b')"
proof -
  have e: "env_ok (demo_env (CHR ''b'')) demo_started" by (rule demo_started_env) simp
  from phase_complete_behaviour [OF demo_started_ok e demo_env_fields(2) demo_phase_clean demo_started_latest]
  show ?thesis by (auto simp: demo_phase_def new_phase_def)
qed

text \<open>C39: \<open>phase_unblock\<close> does not look at the status: on a complete phase, with any reason, it
  puts the phase back in progress, although \<open>phase_start\<close> refuses to restart it.\<close>

theorem unblock_reopens_complete_phase:
  assumes "bus_ok b" and "env_ok env b" and "emit_ok env" and "phase_clean ph"
    and "get_latest_phase_state b n = Ret (Some ph)" and "phase_status ph = COMPLETE" and "blockers ph = []"
  shows "\<exists>b'. phase_unblock env b b n reason = (Ret PhaseDone, b') \<and>
           get_latest_phase_state b' n = Ret (Some (ph\<lparr>phase_status := IN_PROGRESS\<rparr>))"
proof -
  let ?ph = "ph\<lparr>phase_status := IN_PROGRESS\<rparr>"
  have "phase_name ?ph = n" using get_latest_name [OF assms(1,5)] by simp
  moreover have "phase_clean ?ph" using assms(4) by (simp add: phase_clean_def)
  ultimately obtain b' where "emit_phase env b ?ph = (Ret PhaseDone, b')" "get_latest_phase_state b' n = Ret (Some ?ph)"
    using emit_phase_written [OF assms(1,2,3)] by metis
  with assms(5,7) show ?thesis by (simp add: phase_unblock_def with_phase_def Let_def)
qed

lemma demo_complete_phase:
  obtains b ph where "bus_ok b" "env_ok (demo_env (CHR ''c'')) b" "phase_clean ph"
    "get_latest_phase_state b ''Phase-1'' = Ret (Some ph)" "phase_status ph = COMPLETE" "blockers ph = []"
proof -
  let ?e = "demo_env (CHR ''b'')" and ?ph = "demo_phase\<lparr>phase_status := COMPLETE, completed_at := Some 5\<rparr>"
  have e: "env_ok ?e demo_started" by (rule demo_started_env) simp
  have clean: "phase_clean ?ph" using demo_phase_clean by (simp add: phase_clean_def)
  let ?ev = "(?e, 0, ''heartbeat'', phase_to_payload ?ph, None :: string option)"
  let ?b = "bus_append ?ev demo_started"
  have nm: "phase_name ?ph = ''Phase-1''" by (simp add: demo_phase_def new_phase_def)
  have fr: "fresh_uuid (event_identity ?ev) demo_started" using e by (simp add: env_ok_fresh del: demo_env_fields)
  have "event_uuid ` set (gossip demo_started) = {''a''}"
  proof -
    have "map event_uuid (gossip demo_started) = [''a'']" by code_simp
    then show ?thesis by (simp flip: set_map)
  qed
  then have "env_ok (demo_env (CHR ''c'')) ?b"
    using demo_env_inj bus_append_fields(1) [OF fr] by (auto simp: env_ok_def fresh_uuid_def)
  moreover have "bus_ok ?b" using e demo_started_ok
    by (intro bus_ok_append) (simp_all add: env_ok_fresh phase_to_payload_def del: demo_env_fields)
  moreover have "get_latest_phase_state ?b ''Phase-1'' = Ret (Some ?ph)"
    using phase_event_appended(1) [OF demo_started_ok e clean] nm by simp
  ultimately show thesis using that [of ?b ?ph] clean by (simp add: demo_phase_def new_phase_def)
qed

theorem unblock_reopens_complete_phase_witness:
  "\<exists>b b' ph. get_latest_phase_state b ''Phase-1'' = Ret (Some ph) \<and> phase_status ph = COMPLETE \<and>
     phase_unblock (demo_env (CHR ''c'')) b b ''Phase-1'' [] = (Ret PhaseDone, b')"
proof -
  obtain b ph where b: "bus_ok b" "env_ok (demo_env (CHR ''c'')) b" "phase_clean ph"
    "get_latest_phase_state b ''Phase-1'' = Ret (Some ph)" "phase_status ph = COMPLETE" "blockers ph = []"
    by (rule demo_complete_phase)
  from unblock_reopens_complete_phase [OF b(1,2) demo_env_fields(2) b(3-6)] b(4,5) show ?thesis by blast
qed



definition demo_phases :: phase_map where
  "demo_phases =
     [(''A'', (new_phase ''A'')\<lparr>estimated_duration_hours := 2\<rparr>),
      (''B'', (new_phase ''B'')\<lparr>depends_on := [''A''], estimated_duration_hours := 3\<rparr>)]"

lemma demo_phases_roots: "set [''A''] = root_phases demo_phases"
  by (auto simp: root_phases_def demo_phases_def new_phase_def split: if_splits)


text \<open>With the default estimate of zero hours and no phase finished, the critical path is
  reported as empty however long the dependency chains are.\<close>

theorem critical_path_empty_on_zero_estimates:
  assumes "\<forall>n. hours_of phases n = 0" and "set roots \<subseteq> fst ` set phases" and "roots \<noteq> []"
  shows "critical_path phases roots = Some ([], 0)"
proof -
  have none: "sum_list (map (hours_of phases) xs) = 0" for xs
    using assms(1) by (induction xs) simp_all
  have zero: "snd (longest_chain phases r []) = 0" if "r \<in> fst ` set phases" for r
    using longest_chain_valid [of r "[]" phases] that none
    by (auto simp: chain_hours_def simp del: longest_chain.simps)
  have "fold (\<lambda>root best. let c = longest_chain phases root [] in if snd c > snd best then c else best) rs ([], 0) = ([], 0)"
    if "set rs \<subseteq> fst ` set phases" for rs
    using that zero by (induction rs) (auto simp: Let_def simp del: longest_chain.simps)
  with assms(2,3) show ?thesis by (simp add: critical_path_def del: longest_chain.simps)
qed

theorem critical_path_empty_on_zero_estimates_witness:
  "critical_path [(''A'', new_phase ''A''), (''B'', (new_phase ''B'')\<lparr>depends_on := [''A'']\<rparr>)] [''A''] = Some ([], 0)"
  by (rule critical_path_empty_on_zero_estimates)
    (simp_all add: hours_of_def new_phase_def node_hours_def)

end
