(* ===== verification/Membership.thy ===== *)
theory Membership
  imports Prelude "HOL-Library.List_Lexorder" "HOL-Library.Char_ord"
begin

text \<open>
  \<open>orchestrator/membership.py\<close>, \<open>orchestrator/display_state.py\<close> and
  \<open>orchestrator/peer_record.py\<close>: the peer observation with its construction checks, the
  confidence score, serialisation, the display state and the record that follows a peer.
  The decimal constants of the source are exact rationals, and scores are rationals.
\<close>

section \<open>Enumerations\<close>

datatype direct_status = ReachableNow | Timeout | UnreachableNow | Stale | SuspectNow | UnknownStatus | DegradedLink

fun direct_status_value :: "direct_status \<Rightarrow> string" where
  "direct_status_value ReachableNow = ''REACHABLE''"
| "direct_status_value Timeout = ''TIMEOUT''"
| "direct_status_value UnreachableNow = ''UNREACHABLE''"
| "direct_status_value Stale = ''STALE''"
| "direct_status_value SuspectNow = ''SUSPECT''"
| "direct_status_value UnknownStatus = ''UNKNOWN''"
| "direct_status_value DegradedLink = ''DEGRADED''"

datatype route = Direct | Relay | Discovered | StaticSeed | PassivelyLearned | UnknownRoute

fun route_value :: "route \<Rightarrow> string" where
  "route_value Direct = ''direct''"
| "route_value Relay = ''relay''"
| "route_value Discovered = ''discovered''"
| "route_value StaticSeed = ''static_seed''"
| "route_value PassivelyLearned = ''passively_learned''"
| "route_value UnknownRoute = ''unknown''"

datatype backend_state = MacDual | MacOllamaOnly | WinLmstudio | MacNone | Offline

fun backend_state_value :: "backend_state \<Rightarrow> string" where
  "backend_state_value MacDual = ''MAC_DUAL''"
| "backend_state_value MacOllamaOnly = ''MAC_OLLAMA_ONLY''"
| "backend_state_value WinLmstudio = ''WIN_LMSTUDIO''"
| "backend_state_value MacNone = ''MAC_NONE''"
| "backend_state_value Offline = ''OFFLINE''"

datatype observation_type = Reachable | Unreachable

fun observation_type_value :: "observation_type \<Rightarrow> string" where
  "observation_type_value Reachable = ''REACHABLE''"
| "observation_type_value Unreachable = ''UNREACHABLE''"

definition all_direct :: "direct_status list" where
  "all_direct = [ReachableNow, Timeout, UnreachableNow, Stale, SuspectNow, UnknownStatus, DegradedLink]"

definition all_routes :: "route list" where
  "all_routes = [Direct, Relay, Discovered, StaticSeed, PassivelyLearned, UnknownRoute]"

definition all_backends :: "backend_state list" where
  "all_backends = [MacDual, MacOllamaOnly, WinLmstudio, MacNone, Offline]"

section \<open>Observations\<close>

definition MAX_WITNESS_DEPTH :: nat where "MAX_WITNESS_DEPTH = 2"
definition MAX_CHAIN_DEPTH :: int where "MAX_CHAIN_DEPTH = 2"
definition HEARTBEAT_DEADLINE_S :: rat where "HEARTBEAT_DEADLINE_S = 30"

text \<open>Every field of \<open>PeerObservation\<close> but the recursive witness set.\<close>

record obs_fields =
  peer_id :: string
  epoch :: int
  timestamp :: rat
  observer_id :: string
  observation_type :: observation_type
  direct_status :: direct_status
  endpoint :: string
  endpoint_epoch :: int
  sequence :: int
  observer_provenance :: string
  last_heartbeat_timestamp :: "rat option"
  last_probe_timestamp :: "rat option"
  probe_latency_ms :: "rat option"
  obs_route :: route
  probe_result :: "payload option"
  relay_proof :: "string option"
  proof_score :: rat
  freshness_score :: rat
  witness_agreement :: int
  witness_disagreement :: int
  backend_caps :: "string list"
  backend_state :: "backend_state option"
  backend_state_timestamp :: "rat option"
  ttl_seconds :: int
  tags :: "string set"
  obs_notes :: string
  source_id :: "string option"
  chain_depth :: int

datatype peer_observation = PeerObservation (obs_of: obs_fields) (witness_set: "peer_observation list")

primrec witness_depth :: "peer_observation \<Rightarrow> nat" where
  "witness_depth (PeerObservation f ws) =
     (if ws = [] then 1 else 1 + fold max (map witness_depth ws) 0)"

text \<open>
  The constructor with the checks of \<open>__post_init__\<close>.  Freezing is the identity on the model's
  immutable values.
\<close>

definition validate_bounds :: "obs_fields \<Rightarrow> bool" where
  "validate_bounds f \<longleftrightarrow> 0 \<le> proof_score f \<and> proof_score f \<le> 1 \<and>
     0 \<le> freshness_score f \<and> freshness_score f \<le> 1"

definition make_observation :: "obs_fields \<Rightarrow> peer_observation list \<Rightarrow> peer_observation res" where
  "make_observation f ws =
     (if \<not> validate_bounds f then Raise ValueError
      else if MAX_WITNESS_DEPTH < witness_depth (PeerObservation f ws) then Raise ValueError
      else if MAX_CHAIN_DEPTH < chain_depth f then Raise ValueError
      else Ret (PeerObservation f ws))"

section \<open>Confidence\<close>

definition witness_multiplier :: "obs_fields \<Rightarrow> rat" where
  "witness_multiplier f =
     (if witness_disagreement f > witness_agreement f then 1 / 2
      else if witness_agreement f = 0 then 85 / 100
      else if witness_agreement f = 1 then 95 / 100
      else 1)"

definition raw_confidence :: "obs_fields \<Rightarrow> rat" where
  "raw_confidence f = proof_score f * (40 / 100 + 60 / 100 * freshness_score f) * witness_multiplier f"

definition compute_confidence :: "peer_observation \<Rightarrow> rat" where
  "compute_confidence obs = py_round 2 (max 0 (min 1 (raw_confidence (obs_of obs))))"

definition is_stale :: "rat \<Rightarrow> obs_fields \<Rightarrow> bool" where
  "is_stale t_now f = (if ttl_seconds f < 0 then False else t_now - timestamp f > of_int (ttl_seconds f))"

definition time_to_suspect_ms :: "rat \<Rightarrow> obs_fields \<Rightarrow> rat" where
  "time_to_suspect_ms t_now f =
     (if is_stale t_now f then 0
      else case last_heartbeat_timestamp f of
             None \<Rightarrow> 0
           | Some hb \<Rightarrow> max 0 (hb + HEARTBEAT_DEADLINE_S - t_now) * 1000)"

section \<open>Serialisation\<close>

definition fields_to_dict :: "obs_fields \<Rightarrow> json list \<Rightarrow> payload" where
  "fields_to_dict f ws =
     [(''peer_id'', JStr (peer_id f)), (''epoch'', JInt (epoch f)),
      (''timestamp'', JFloat (timestamp f)), (''observer_id'', JStr (observer_id f)),
      (''sequence'', JInt (sequence f)), (''observer_provenance'', JStr (observer_provenance f)),
      (''observation_type'', JStr (observation_type_value (observation_type f))),
      (''direct_status'', JStr (direct_status_value (direct_status f))),
      (''endpoint'', JStr (endpoint f)), (''endpoint_epoch'', JInt (endpoint_epoch f)),
      (''last_heartbeat_timestamp'', jopt JFloat (last_heartbeat_timestamp f)),
      (''last_probe_timestamp'', jopt JFloat (last_probe_timestamp f)),
      (''probe_latency_ms'', jopt JFloat (probe_latency_ms f)),
      (''route'', JStr (route_value (obs_route f))),
      (''probe_result'', jopt JObj (probe_result f)), (''relay_proof'', jopt JStr (relay_proof f)),
      (''proof_score'', JFloat (proof_score f)), (''freshness_score'', JFloat (freshness_score f)),
      (''witness_agreement'', JInt (witness_agreement f)),
      (''witness_disagreement'', JInt (witness_disagreement f)), (''witness_set'', JList ws),
      (''backend_caps'', jstrs (backend_caps f)),
      (''backend_state'', jopt (\<lambda>s. JStr (backend_state_value s)) (backend_state f)),
      (''backend_state_timestamp'', jopt JFloat (backend_state_timestamp f)),
      (''ttl_seconds'', JInt (ttl_seconds f)), (''tags'', jstrs (sorted_list_of_set (tags f))),
      (''notes'', JStr (obs_notes f)), (''source_id'', jopt JStr (source_id f)),
      (''chain_depth'', JInt (chain_depth f))]"

primrec to_dict :: "peer_observation \<Rightarrow> json" where
  "to_dict (PeerObservation f ws) = JObj (fields_to_dict f (map to_dict ws))"

fun as_opt_str :: "json \<Rightarrow> string option res" where
  "as_opt_str JNull = Ret None"
| "as_opt_str (JStr s) = Ret (Some s)"
| "as_opt_str _ = Raise TypeError"

fun as_opt_obj :: "json \<Rightarrow> payload option res" where
  "as_opt_obj JNull = Ret None"
| "as_opt_obj (JObj d) = Ret (Some d)"
| "as_opt_obj _ = Raise TypeError"

definition need :: "payload \<Rightarrow> string \<Rightarrow> json res" where
  "need d k = (case map_of d k of None \<Rightarrow> Raise (KeyError k) | Some v \<Rightarrow> Ret v)"

definition backend_of :: "json \<Rightarrow> backend_state option res" where
  "backend_of j =
     (if truthy j then res_bind (enum_of backend_state_value all_backends j) (\<lambda>s. Ret (Some s)) else Ret None)"

definition fields_from_dict :: "payload \<Rightarrow> obs_fields res" where
  "fields_from_dict d =
     res_bind (res_bind (need d ''peer_id'') as_str) (\<lambda>pid.
     res_bind (res_bind (need d ''epoch'') as_integer) (\<lambda>ep.
     res_bind (res_bind (need d ''timestamp'') as_float) (\<lambda>ts.
     res_bind (res_bind (need d ''observer_id'') as_str) (\<lambda>ob.
     res_bind (as_integer (dict_get d ''sequence'' (JInt 0))) (\<lambda>sq.
     res_bind (as_str (dict_get d ''observer_provenance'' (JStr []))) (\<lambda>prov.
     res_bind (res_bind (need d ''observation_type'') (enum_of observation_type_value [Reachable, Unreachable])) (\<lambda>ot.
     res_bind (res_bind (need d ''direct_status'') (enum_of direct_status_value all_direct)) (\<lambda>ds.
     res_bind (res_bind (need d ''endpoint'') as_str) (\<lambda>en.
     res_bind (res_bind (need d ''endpoint_epoch'') as_integer) (\<lambda>ee.
     res_bind (as_time (jget d ''last_heartbeat_timestamp'')) (\<lambda>lh.
     res_bind (as_time (jget d ''last_probe_timestamp'')) (\<lambda>lp.
     res_bind (as_time (jget d ''probe_latency_ms'')) (\<lambda>pl.
     res_bind (enum_of route_value all_routes (dict_get d ''route'' (JStr ''unknown''))) (\<lambda>ro.
     res_bind (as_opt_obj (jget d ''probe_result'')) (\<lambda>pr.
     res_bind (as_opt_str (jget d ''relay_proof'')) (\<lambda>rp.
     res_bind (res_bind (need d ''proof_score'') as_float) (\<lambda>ps.
     res_bind (res_bind (need d ''freshness_score'') as_float) (\<lambda>fs.
     res_bind (res_bind (need d ''witness_agreement'') as_integer) (\<lambda>wa.
     res_bind (res_bind (need d ''witness_disagreement'') as_integer) (\<lambda>wd.
     res_bind (as_strs (dict_get d ''backend_caps'' (JList []))) (\<lambda>bc.
     res_bind (backend_of (jget d ''backend_state'')) (\<lambda>bs.
     res_bind (as_time (jget d ''backend_state_timestamp'')) (\<lambda>bt.
     res_bind (as_integer (dict_get d ''ttl_seconds'' (JInt 60))) (\<lambda>ttl.
     res_bind (as_strs (dict_get d ''tags'' (JList []))) (\<lambda>tg.
     res_bind (as_str (dict_get d ''notes'' (JStr []))) (\<lambda>no.
     res_bind (as_opt_str (jget d ''source_id'')) (\<lambda>si.
     res_bind (as_integer (dict_get d ''chain_depth'' (JInt 0))) (\<lambda>cd.
       Ret \<lparr>peer_id = pid, epoch = ep, timestamp = ts, observer_id = ob, observation_type = ot,
            direct_status = ds, endpoint = en, endpoint_epoch = ee, sequence = sq,
            observer_provenance = prov, last_heartbeat_timestamp = lh, last_probe_timestamp = lp,
            probe_latency_ms = pl, obs_route = ro, probe_result = pr, relay_proof = rp,
            proof_score = ps, freshness_score = fs, witness_agreement = wa,
            witness_disagreement = wd, backend_caps = bc, backend_state = bs,
            backend_state_timestamp = bt, ttl_seconds = ttl, tags = set tg, obs_notes = no,
            source_id = si, chain_depth = cd\<rparr>))))))))))))))))))))))))))))"

lemma witness_json_smaller:
  assumes "map_of d k = Some (JList xs)" and "x \<in> set xs"
  shows "size x < size (JObj d)"
proof -
  have "(k, JList xs) \<in> set d" using assms(1) by (rule map_of_SomeD)
  then have "size (JList xs) < size (JObj d)"
    by (induction d) (auto)
  moreover have "size x < size (JList xs)" using assms(2) by (induction xs) auto
  ultimately show ?thesis by simp
qed

function (sequential) from_dict :: "json \<Rightarrow> peer_observation res" where
  "from_dict (JObj d) =
     res_bind (case map_of d ''witness_set'' of
                 None \<Rightarrow> Ret []
               | Some (JList xs) \<Rightarrow> res_map from_dict xs
               | Some j \<Rightarrow> Raise TypeError) (\<lambda>witnesses.
     res_bind (fields_from_dict d) (\<lambda>f. make_observation f witnesses))"
| "from_dict j = Raise TypeError"
  by pat_completeness auto
termination
  by (relation "measure size") (simp, simp only: in_measure witness_json_smaller)

section \<open>Display state and peer records\<close>

datatype display_state = UNKNOWN | SUSPECT | DEGRADED | HEALTHY

definition compute_display_state :: "rat \<Rightarrow> display_state" where
  "compute_display_state confidence =
     (if confidence = 0 then UNKNOWN
      else if confidence < 30 / 100 then SUSPECT
      else if confidence < 70 / 100 then DEGRADED
      else HEALTHY)"

definition compute_display_state_from_peer :: "peer_observation \<Rightarrow> display_state" where
  "compute_display_state_from_peer obs = compute_display_state (compute_confidence obs)"

record state_transition =
  st_peer_id :: string
  old_state :: "display_state option"
  new_state :: display_state
  st_confidence :: rat
  st_timestamp :: rat
  st_observation :: peer_observation

text \<open>Listeners are named by their identity; an event reaches each of them once, whether or not
  the handler raises.\<close>

record peer_record =
  rec_peer_id :: string
  latest_observation :: "peer_observation option"
  last_confidence :: rat
  last_confidence_timestamp :: "rat option"
  rec_display_state :: "display_state option"
  witness_agreement_count :: int
  witness_disagreement_count :: int
  observation_count :: nat
  state_change_listeners :: "nat list"

definition new_record :: "string \<Rightarrow> peer_record" where
  "new_record pid =
     \<lparr>rec_peer_id = pid, latest_observation = None, last_confidence = 0,
      last_confidence_timestamp = None, rec_display_state = None, witness_agreement_count = 0,
      witness_disagreement_count = 0, observation_count = 0, state_change_listeners = []\<rparr>"

definition subscribe_to_state_changes :: "nat \<Rightarrow> peer_record \<Rightarrow> peer_record" where
  "subscribe_to_state_changes h r =
     r\<lparr>state_change_listeners := List.insert h (state_change_listeners r)\<rparr>"

definition unsubscribe_from_state_changes :: "nat \<Rightarrow> peer_record \<Rightarrow> peer_record" where
  "unsubscribe_from_state_changes h r =
     r\<lparr>state_change_listeners := removeAll h (state_change_listeners r)\<rparr>"

definition emit_state_transition :: "peer_record \<Rightarrow> state_transition \<Rightarrow> (nat \<times> state_transition) list" where
  "emit_state_transition r ev = map (\<lambda>h. (h, ev)) (state_change_listeners r)"

definition update_from_observation ::
  "peer_record \<Rightarrow> peer_observation \<Rightarrow> (nat \<times> state_transition) list res \<times> peer_record" where
  "update_from_observation r obs =
     (if peer_id (obs_of obs) \<noteq> rec_peer_id r then (Raise ValueError, r)
      else
        (let confidence = compute_confidence obs;
             r1 = r\<lparr>witness_agreement_count := witness_agreement_count r + witness_agreement (obs_of obs),
                    witness_disagreement_count :=
                      witness_disagreement_count r + witness_disagreement (obs_of obs),
                    last_confidence := confidence,
                    last_confidence_timestamp := Some (timestamp (obs_of obs)),
                    latest_observation := Some obs,
                    observation_count := observation_count r + 1\<rparr>;
             new_display_state = compute_display_state confidence;
             event = \<lparr>st_peer_id = rec_peer_id r, old_state = rec_display_state r,
                      new_state = new_display_state, st_confidence = confidence,
                      st_timestamp = timestamp (obs_of obs), st_observation = obs\<rparr>;
             delivered = (if rec_display_state r \<noteq> Some new_display_state
                          then emit_state_transition r1 event else [])
         in (Ret delivered, r1\<lparr>rec_display_state := Some new_display_state\<rparr>)))"

section \<open>Confidence lemmas\<close>

lemma multiplier_bounds: "1 / 2 \<le> witness_multiplier f" "witness_multiplier f \<le> 1"
  by (auto simp: witness_multiplier_def)

lemma raw_confidence_bounds:
  assumes "validate_bounds f"
  shows "0 \<le> raw_confidence f" and "raw_confidence f \<le> proof_score f"
proof -
  let ?fr = "40 / 100 + 60 / 100 * freshness_score f"
  have b: "0 \<le> proof_score f" "0 \<le> ?fr" "?fr \<le> 1" using assms by (auto simp: validate_bounds_def)
  have m: "0 \<le> witness_multiplier f" "witness_multiplier f \<le> 1" using multiplier_bounds [of f] by auto
  show "0 \<le> raw_confidence f" using b m by (simp add: raw_confidence_def)
  have "?fr * witness_multiplier f \<le> 1 * 1" using b m by (intro mult_mono) auto
  then have "proof_score f * (?fr * witness_multiplier f) \<le> proof_score f * 1"
    using b(1) by (intro mult_left_mono) auto
  then show "raw_confidence f \<le> proof_score f" by (simp add: raw_confidence_def mult.assoc)
qed

lemma compute_confidence_raw:
  assumes "validate_bounds (obs_of obs)"
  shows "compute_confidence obs = py_round 2 (raw_confidence (obs_of obs))"
proof -
  have "raw_confidence (obs_of obs) \<le> 1"
    using raw_confidence_bounds(2) [OF assms] assms by (auto simp: validate_bounds_def)
  with raw_confidence_bounds(1) [OF assms] show ?thesis by (simp add: compute_confidence_def)
qed

lemma raw_confidence_mono:
  assumes "validate_bounds f" and "validate_bounds g" and "proof_score f \<le> proof_score g"
    and "freshness_score f \<le> freshness_score g" and "witness_multiplier f \<le> witness_multiplier g"
  shows "raw_confidence f \<le> raw_confidence g"
  unfolding raw_confidence_def
  using assms multiplier_bounds [of f]
  by (intro mult_mono) (auto simp: validate_bounds_def)

section \<open>Constructible observations\<close>

primrec obs_ok :: "peer_observation \<Rightarrow> bool" where
  "obs_ok (PeerObservation f ws) \<longleftrightarrow>
     validate_bounds f \<and> chain_depth f \<le> MAX_CHAIN_DEPTH \<and>
     witness_depth (PeerObservation f ws) \<le> MAX_WITNESS_DEPTH \<and> list_all (\<lambda>x. x) (map obs_ok ws)"

primrec finite_tags :: "peer_observation \<Rightarrow> bool" where
  "finite_tags (PeerObservation f ws) = (finite (tags f) \<and> list_all (\<lambda>x. x) (map finite_tags ws))"

lemma obs_ok_fields: "obs_ok obs \<Longrightarrow> validate_bounds (obs_of obs)"
  by (cases obs) simp

lemma make_observation_ok:
  "make_observation f ws = Ret obs \<longleftrightarrow>
     obs = PeerObservation f ws \<and> validate_bounds f \<and> chain_depth f \<le> MAX_CHAIN_DEPTH \<and>
     witness_depth (PeerObservation f ws) \<le> MAX_WITNESS_DEPTH"
  by (auto simp: make_observation_def)

lemma res_map_all:
  assumes "res_map f xs = Ret ys" and "\<And>x y. x \<in> set xs \<Longrightarrow> f x = Ret y \<Longrightarrow> P y"
  shows "list_all P ys"
  using assms
proof (induction xs arbitrary: ys)
  case (Cons x xs)
  then obtain y zs where ys: "f x = Ret y" "res_map f xs = Ret zs" "ys = y # zs"
    by (auto simp: res_bind_eq_Ret)
  have "P y" by (rule Cons.prems(2) [OF _ ys(1)]) simp
  moreover have "list_all P zs"
  proof (rule Cons.IH [OF ys(2)])
    fix a v assume "a \<in> set xs" "f a = Ret v"
    then show "P v" by (intro Cons.prems(2) [of a v]) auto
  qed
  ultimately show ?case using ys(3) by simp
qed simp

lemma witness_depth_ge: "w \<in> set ws \<Longrightarrow> witness_depth w \<le> fold max (map witness_depth ws) 0"
  using Max_ge [of "set (0 # map witness_depth ws)" "witness_depth w"]
  by (simp add: Max.set_eq_fold [symmetric] del: Max_ge)

lemma witness_depth_1: "witness_depth w \<le> 1 \<Longrightarrow> witness_set w = []"
proof (rule ccontr)
  assume d: "witness_depth w \<le> 1" and "witness_set w \<noteq> []"
  then obtain f v vs where w: "w = PeerObservation f (v # vs)" by (cases w; cases "witness_set w") auto
  have "1 \<le> witness_depth v" by (cases v) simp
  with witness_depth_ge [of v "v # vs"] d w show False by simp
qed

lemma from_dict_ok: "from_dict j = Ret obs \<Longrightarrow> obs_ok obs"
proof (induction j arbitrary: obs rule: from_dict.induct)
  case (1 d)
  from 1(2) obtain ws f where ws: "(case map_of d ''witness_set'' of None \<Rightarrow> Ret []
      | Some (JList xs) \<Rightarrow> res_map from_dict xs | Some j \<Rightarrow> Raise TypeError) = Ret ws"
    and f: "make_observation f ws = Ret obs"
    by (auto simp: res_bind_eq_Ret)
  have "list_all obs_ok ws"
  proof (cases "map_of d ''witness_set''")
    case None
    with ws show ?thesis by simp
  next
    case (Some j)
    with ws obtain xs where xs: "j = JList xs" "res_map from_dict xs = Ret ws"
      by (cases j) auto
    show ?thesis by (rule res_map_all [OF xs(2)]) (use 1(1) [OF Some xs(1)] in blast)
  qed
  with f show ?case by (auto simp: make_observation_ok list_all_iff)
qed simp_all

lemma enum_roundtrips [simp]:
  "enum_of observation_type_value [Reachable, Unreachable] (JStr (observation_type_value ot)) = Ret ot"
  "enum_of direct_status_value all_direct (JStr (direct_status_value ds)) = Ret ds"
  "enum_of route_value all_routes (JStr (route_value r)) = Ret r"
  "enum_of backend_state_value all_backends (JStr (backend_state_value bs)) = Ret bs"
proof -
  show "enum_of observation_type_value [Reachable, Unreachable] (JStr (observation_type_value ot)) = Ret ot"
    by (cases ot) (simp_all add: enum_of_def)
  show "enum_of direct_status_value all_direct (JStr (direct_status_value ds)) = Ret ds"
    by (cases ds) (simp_all add: enum_of_def all_direct_def)
  show "enum_of route_value all_routes (JStr (route_value r)) = Ret r"
    by (cases r) (simp_all add: enum_of_def all_routes_def)
  show "enum_of backend_state_value all_backends (JStr (backend_state_value bs)) = Ret bs"
    by (cases bs) (simp_all add: enum_of_def all_backends_def)
qed

lemma opt_roundtrips [simp]:
  "as_opt_str (jopt JStr s) = Ret s" "as_opt_obj (jopt JObj d) = Ret d"
  "backend_of (jopt (\<lambda>s. JStr (backend_state_value s)) b) = Ret b"
proof -
  show "as_opt_str (jopt JStr s) = Ret s" by (cases s) simp_all
  show "as_opt_obj (jopt JObj d) = Ret d" by (cases d) simp_all
  have "backend_state_value x \<noteq> []" for x by (cases x) simp_all
  then show "backend_of (jopt (\<lambda>s. JStr (backend_state_value s)) b) = Ret b"
    by (cases b) (simp_all add: backend_of_def)
qed

lemma fields_roundtrip: "finite (tags f) \<Longrightarrow> fields_from_dict (fields_to_dict f ws) = Ret f"
  by (simp add: fields_from_dict_def fields_to_dict_def need_def jget_def dict_get_def)

lemma from_dict_to_dict: "obs_ok obs \<Longrightarrow> finite_tags obs \<Longrightarrow> from_dict (to_dict obs) = Ret obs"
proof (induction obs)
  case (PeerObservation f ws)
  have each: "from_dict (to_dict w) = Ret w" if "w \<in> set ws" for w
    using PeerObservation that by (auto simp: list_all_iff)
  have "res_map from_dict (map to_dict ws) = Ret ws"
    using each by (induction ws) simp_all
  moreover have "map_of (fields_to_dict f xs) ''witness_set'' = Some (JList xs)" for xs
    by (simp add: fields_to_dict_def)
  moreover have "make_observation f ws = Ret (PeerObservation f ws)"
    using PeerObservation.prems(1) by (simp add: make_observation_ok)
  ultimately show ?case
    using PeerObservation.prems(2) by (simp add: fields_roundtrip)
qed

section \<open>Properties\<close>

definition demo_fields :: obs_fields where
  "demo_fields =
     \<lparr>peer_id = ''p'', epoch = 1, timestamp = 100, observer_id = ''o'', observation_type = Reachable,
      direct_status = ReachableNow, endpoint = ''e'', endpoint_epoch = 1, sequence = 0,
      observer_provenance = [], last_heartbeat_timestamp = Some 100, last_probe_timestamp = None,
      probe_latency_ms = None, obs_route = Direct, probe_result = None, relay_proof = None,
      proof_score = 1, freshness_score = 1, witness_agreement = 2, witness_disagreement = 0,
      backend_caps = [''ollama''], backend_state = Some MacDual, backend_state_timestamp = None,
      ttl_seconds = 60, tags = {''t''}, obs_notes = [], source_id = None, chain_depth = 0\<rparr>"

definition demo_obs :: peer_observation where
  "demo_obs = PeerObservation demo_fields [PeerObservation demo_fields []]"

lemma demo_obs_ok: "obs_ok demo_obs" "finite_tags demo_obs"
  by (simp_all add: demo_obs_def demo_fields_def validate_bounds_def MAX_CHAIN_DEPTH_def MAX_WITNESS_DEPTH_def)

text \<open>Confidence lies in [0, 1] and the proof is a hard gate: it never exceeds the rounded
  proof score, so without proof it is zero whatever the freshness and the witnesses.\<close>

theorem confidence_gated_by_proof:
  assumes "obs_ok obs"
  shows "0 \<le> compute_confidence obs \<and> compute_confidence obs \<le> py_round 2 (proof_score (obs_of obs)) \<and>
    compute_confidence obs \<le> 1 \<and> (proof_score (obs_of obs) = 0 \<longrightarrow> compute_confidence obs = 0)"
proof -
  note v = obs_ok_fields [OF assms]
  note b = raw_confidence_bounds [OF v]
  have p: "proof_score (obs_of obs) \<le> 1" using v by (simp add: validate_bounds_def)
  have "py_round 2 0 \<le> compute_confidence obs"
    unfolding compute_confidence_raw [OF v] by (rule py_round_mono [OF b(1)])
  moreover have "compute_confidence obs \<le> py_round 2 (proof_score (obs_of obs))"
    unfolding compute_confidence_raw [OF v] by (rule py_round_mono [OF b(2)])
  moreover have "py_round 2 (proof_score (obs_of obs)) \<le> py_round 2 1" using p by (rule py_round_mono)
  ultimately show ?thesis by auto
qed

theorem confidence_gated_by_proof_witness:
  "0 \<le> compute_confidence demo_obs \<and> compute_confidence demo_obs \<le> 1"
  using confidence_gated_by_proof [OF demo_obs_ok(1)] by simp

text \<open>Confidence is monotone in proof, freshness and the witness multiplier.\<close>

theorem confidence_monotone:
  assumes "obs_ok o1" and "obs_ok o2"
    and "proof_score (obs_of o1) \<le> proof_score (obs_of o2)"
    and "freshness_score (obs_of o1) \<le> freshness_score (obs_of o2)"
    and "witness_multiplier (obs_of o1) \<le> witness_multiplier (obs_of o2)"
  shows "compute_confidence o1 \<le> compute_confidence o2"
  using raw_confidence_mono [OF obs_ok_fields obs_ok_fields] assms
  by (auto simp: compute_confidence_raw obs_ok_fields intro!: py_round_mono)

theorem confidence_monotone_witness:
  "compute_confidence (PeerObservation (demo_fields\<lparr>proof_score := 1 / 2\<rparr>) []) \<le> compute_confidence demo_obs"
  by (rule confidence_monotone)
    (simp_all add: demo_obs_def demo_fields_def validate_bounds_def MAX_CHAIN_DEPTH_def MAX_WITNESS_DEPTH_def
      witness_multiplier_def)

text \<open>A peer is displayed as HEALTHY only on strong proof: the proof score is at least
  0.695, the smallest value that rounds to the threshold, and UNKNOWN means a confidence below
  half a hundredth.\<close>

theorem healthy_needs_proof:
  assumes "obs_ok obs"
  shows "(compute_display_state_from_peer obs = HEALTHY \<longrightarrow> 695 / 1000 \<le> proof_score (obs_of obs)) \<and>
    (compute_display_state_from_peer obs = UNKNOWN \<longrightarrow> raw_confidence (obs_of obs) \<le> 5 / 1000)"
proof -
  note v = obs_ok_fields [OF assms]
  let ?raw = "raw_confidence (obs_of obs)"
  have c: "compute_confidence obs = of_int (round_half_even (?raw * 100)) / 100"
    by (simp add: compute_confidence_raw [OF v] py_round_def)
  have "compute_confidence obs \<le> ?raw + 5 / 1000"
    using round_half_even_upper [of "?raw * 100"] c by simp
  moreover have "?raw - 5 / 1000 \<le> compute_confidence obs"
    using round_half_even_lower [of "?raw * 100"] c by simp
  ultimately show ?thesis
    using raw_confidence_bounds(2) [OF v]
    by (auto simp: compute_display_state_from_peer_def compute_display_state_def split: if_splits)
qed

theorem healthy_needs_proof_witness:
  "compute_display_state_from_peer demo_obs = HEALTHY \<and> 695 / 1000 \<le> proof_score (obs_of demo_obs)"
proof -
  have "compute_display_state_from_peer demo_obs = HEALTHY" by code_simp
  with healthy_needs_proof [OF demo_obs_ok(1)] show ?thesis by blast
qed

text \<open>Serialisation loses nothing: an observation that passed construction, with its whole
  witness tree, is read back unchanged.\<close>

theorem observation_roundtrip:
  assumes "obs_ok obs" and "finite_tags obs"
  shows "from_dict (to_dict obs) = Ret obs"
  using assms by (rule from_dict_to_dict)

theorem observation_roundtrip_witness: "from_dict (to_dict demo_obs) = Ret demo_obs"
  using observation_roundtrip [OF demo_obs_ok] .

text \<open>Whatever JSON arrives, an accepted observation and every witness inside it have
  scores in [0, 1], a chain depth of at most two and a witness tree of depth at most two.\<close>

theorem accepted_observation_is_sound:
  assumes "from_dict j = Ret (PeerObservation f ws)"
  shows "validate_bounds f \<and> chain_depth f \<le> 2 \<and>
    (\<forall>w \<in> set ws. witness_set w = [] \<and> validate_bounds (obs_of w) \<and> chain_depth (obs_of w) \<le> 2)"
proof -
  have ok: "obs_ok (PeerObservation f ws)" by (rule from_dict_ok [OF assms])
  have "witness_set w = []" if "w \<in> set ws" for w
  proof -
    have "1 + witness_depth w \<le> 2"
      using ok witness_depth_ge [OF that] that by (cases ws) (simp_all add: MAX_WITNESS_DEPTH_def)
    then show ?thesis by (intro witness_depth_1) simp
  qed
  moreover have "validate_bounds (obs_of w) \<and> chain_depth (obs_of w) \<le> 2" if "w \<in> set ws" for w
    using ok that by (cases w) (auto simp: list_all_iff MAX_CHAIN_DEPTH_def)
  ultimately show ?thesis using ok by (simp add: MAX_CHAIN_DEPTH_def)
qed

theorem accepted_observation_is_sound_witness: "validate_bounds demo_fields \<and> chain_depth demo_fields \<le> 2"
  using accepted_observation_is_sound [OF from_dict_to_dict [OF demo_obs_ok, unfolded demo_obs_def]] by simp

fun run_updates :: "peer_record \<Rightarrow> peer_observation list \<Rightarrow> state_transition list \<times> peer_record" where
  "run_updates r [] = ([], r)"
| "run_updates r (o1 # os) =
     (case update_from_observation r o1 of
        (Raise e, r') \<Rightarrow> run_updates r' os
      | (Ret evs, r') \<Rightarrow> (case run_updates r' os of (rest, r'') \<Rightarrow> (map snd evs @ rest, r'')))"

fun chained :: "display_state option \<Rightarrow> state_transition list \<Rightarrow> display_state option \<Rightarrow> bool" where
  "chained s [] s' = (s = s')"
| "chained s (ev # evs) s' = (old_state ev = s \<and> Some (new_state ev) \<noteq> s \<and> chained (Some (new_state ev)) evs s')"

lemma update_cases:
  assumes "state_change_listeners r = [l]" and "update_from_observation r obs = (res, r')"
  shows "(res = Raise ValueError \<and> r' = r) \<or>
    (peer_id (obs_of obs) = rec_peer_id r \<and> (\<exists>evs. res = Ret evs \<and> chained (rec_display_state r) (map snd evs) (rec_display_state r')) \<and>
     rec_display_state r' = Some (compute_display_state (last_confidence r')) \<and>
     last_confidence r' = compute_confidence obs \<and> state_change_listeners r' = [l] \<and> rec_peer_id r' = rec_peer_id r)"
  using assms
  by (auto simp: update_from_observation_def Let_def emit_state_transition_def split: if_splits)

lemma chained_append: "chained s xs t \<Longrightarrow> chained t ys u \<Longrightarrow> chained s (xs @ ys) u"
  by (induction xs arbitrary: s) auto

lemma run_updates_chain:
  "state_change_listeners r = [l] \<Longrightarrow>
   rec_display_state r = None \<or> rec_display_state r = Some (compute_display_state (last_confidence r)) \<Longrightarrow>
   run_updates r os = (evs, r') \<Longrightarrow>
   chained (rec_display_state r) evs (rec_display_state r') \<and>
   (rec_display_state r' = None \<or> rec_display_state r' = Some (compute_display_state (last_confidence r')))"
proof (induction os arbitrary: r evs)
  case (Cons o1 os)
  obtain res r1 where u: "update_from_observation r o1 = (res, r1)" by (cases "update_from_observation r o1")
  obtain rest r2 where rest: "run_updates r1 os = (rest, r2)" by (cases "run_updates r1 os")
  from update_cases [OF Cons.prems(1) u] show ?case
  proof
    assume "res = Raise ValueError \<and> r1 = r"
    with Cons u show ?thesis by simp
  next
    assume a: "peer_id (obs_of o1) = rec_peer_id r \<and> (\<exists>evs. res = Ret evs \<and> chained (rec_display_state r) (map snd evs) (rec_display_state r1)) \<and>
     rec_display_state r1 = Some (compute_display_state (last_confidence r1)) \<and>
     last_confidence r1 = compute_confidence o1 \<and> state_change_listeners r1 = [l] \<and> rec_peer_id r1 = rec_peer_id r"
    then obtain es where es: "res = Ret es" "chained (rec_display_state r) (map snd es) (rec_display_state r1)" by blast
    from a Cons.IH [of r1 rest] rest Cons.prems(3) u es(1)
    have "chained (rec_display_state r1) rest (rec_display_state r')" "evs = map snd es @ rest" "r2 = r'"
      "rec_display_state r' = None \<or> rec_display_state r' = Some (compute_display_state (last_confidence r'))"
      by auto
    with chained_append [OF es(2)] show ?thesis by blast
  qed
qed auto

text \<open>A peer record follows its observations: over any sequence of accepted observations the
  display state is that of the last confidence, an event is delivered to a listener exactly when
  the state changes, and the delivered events chain, each starting where the previous ended.\<close>

theorem record_follows_observations:
  assumes "run_updates (subscribe_to_state_changes l (new_record p)) os = (evs, r)"
  shows "chained None evs (rec_display_state r) \<and>
    (rec_display_state r = None \<or> rec_display_state r = Some (compute_display_state (last_confidence r)))"
  using run_updates_chain [OF _ _ assms, of l] by (simp add: subscribe_to_state_changes_def new_record_def)

theorem record_follows_observations_witness:
  "chained None (fst (run_updates (subscribe_to_state_changes 7 (new_record ''p'')) [demo_obs]))
     (rec_display_state (snd (run_updates (subscribe_to_state_changes 7 (new_record ''p'')) [demo_obs])))"
  using record_follows_observations [OF prod.collapse [symmetric]] by blast

text \<open>The remaining time to suspicion is never negative, is zero once the observation is
  stale, and is at most the heartbeat deadline after a heartbeat that is not in the future.\<close>

theorem time_to_suspect_bounds:
  "0 \<le> time_to_suspect_ms t f \<and> (is_stale t f \<longrightarrow> time_to_suspect_ms t f = 0) \<and>
   (\<forall>hb. last_heartbeat_timestamp f = Some hb \<longrightarrow> hb \<le> t \<longrightarrow> time_to_suspect_ms t f \<le> 30000)"
  by (auto simp: time_to_suspect_ms_def HEARTBEAT_DEADLINE_S_def max_def split: option.splits)

theorem time_to_suspect_bounds_witness: "time_to_suspect_ms 110 demo_fields \<le> 30000"
  using time_to_suspect_bounds [of 110 demo_fields] by (simp add: demo_fields_def)

text \<open>The witness counts are not validated: an observation with a negative agreement count,
  not outnumbered by its disagreement count, gets the multiplier of a full consensus.\<close>

theorem negative_agreement_counts_as_consensus:
  assumes "witness_agreement f < 0" and "witness_disagreement f \<le> witness_agreement f" and "validate_bounds f"
    and "chain_depth f \<le> MAX_CHAIN_DEPTH"
  shows "make_observation f [] = Ret (PeerObservation f []) \<and> witness_multiplier f = 1"
  using assms by (simp add: make_observation_ok witness_multiplier_def MAX_WITNESS_DEPTH_def)

theorem negative_agreement_counts_as_consensus_witness:
  "witness_multiplier (demo_fields\<lparr>witness_agreement := -1, witness_disagreement := -1\<rparr>) = 1"
  using negative_agreement_counts_as_consensus [of "demo_fields\<lparr>witness_agreement := -1, witness_disagreement := -1\<rparr>"]
  by (simp add: demo_fields_def validate_bounds_def MAX_CHAIN_DEPTH_def)

end
