(* ===== verification/PeerGates.thy ===== *)
theory PeerGates
  imports Membership "HOL-Library.Word" "HOL-Library.Log_Nat"
begin

text \<open>
  The gates an observation passes: \<open>orchestrator/monotonic_gate.py\<close>,
  \<open>orchestrator/provenance.py\<close>, \<open>orchestrator/witness_quorum.py\<close>,
  \<open>orchestrator/equivocation.py\<close>, \<open>orchestrator/reputation.py\<close> and
  \<open>orchestrator/distance_bucket.py\<close>.  The SHA-256 key of a peer id and the parser and printer
  of \<open>ipaddress\<close> are parameters.
\<close>

unbundle bit_operations_syntax

section \<open>Monotonic gate\<close>

definition is_observation_newer :: "obs_fields \<Rightarrow> obs_fields \<Rightarrow> bool" where
  "is_observation_newer current new =
     (if epoch new > epoch current then True
      else if epoch new < epoch current then False
      else if sequence new > sequence current then True
      else if sequence new < sequence current then False
      else timestamp new > timestamp current + 30)"

section \<open>Provenance buckets and quorum\<close>

datatype ip_network = IPv4Network "32 word" | IPv6Network "128 word"

record ip_lib =
  ip_parse :: "string \<Rightarrow> ip_network option"
  ip_show :: "ip_network \<Rightarrow> nat \<Rightarrow> string"

definition provenance_bucket :: "ip_lib \<Rightarrow> string \<Rightarrow> string" where
  "provenance_bucket ip provenance =
     (if provenance = [] then provenance
      else case ip_parse ip provenance of
             None \<Rightarrow> provenance
           | Some (IPv4Network a) \<Rightarrow> ip_show ip (IPv4Network (push_bit 8 (drop_bit 8 a))) 24
           | Some (IPv6Network a) \<Rightarrow> ip_show ip (IPv6Network (push_bit 64 (drop_bit 64 a))) 64)"

definition validate_witness_quorum :: "ip_lib \<Rightarrow> peer_observation \<Rightarrow> bool" where
  "validate_witness_quorum ip obs =
     (let ws = witness_set obs in
      if length ws < 2 then False
      else if card (set (map (\<lambda>w. observer_id (obs_of w)) ws)) < 2 then False
      else if card (set (map (\<lambda>w. provenance_bucket ip (observer_provenance (obs_of w))) ws)) < 2 then False
      else True)"

section \<open>Equivocation\<close>

definition MAX_OBSERVATIONS_PER_KEY :: nat where
  "MAX_OBSERVATIONS_PER_KEY = 50"

type_synonym equivocation_entry = "string \<times> observation_type \<times> rat \<times> string"
type_synonym equivocation_log = "(string \<times> int, equivocation_entry list) dict"

record equivocation_evidence =
  ev_peer_id :: string
  ev_epoch :: int
  ev_observer_id :: string
  ev_prior_observer_id :: string
  ev_provenance :: string
  ev_pair :: "observation_type \<times> observation_type"
  ev_timestamps :: "rat \<times> rat"
  ev_detected_at :: rat

definition record_observation ::
  "rat \<Rightarrow> obs_fields \<Rightarrow> equivocation_log \<Rightarrow> equivocation_evidence list \<times> equivocation_log" where
  "record_observation detected_at f l =
     (let key = (peer_id f, epoch f);
          bucket0 = dict_get l key [];
          bucket = (if MAX_OBSERVATIONS_PER_KEY \<le> length bucket0 then tl bucket0 else bucket0);
          evidences = map (\<lambda>(po, pt, pts, pp).
              \<lparr>ev_peer_id = peer_id f, ev_epoch = epoch f, ev_observer_id = observer_id f,
               ev_prior_observer_id = po, ev_provenance = observer_provenance f,
               ev_pair = (observation_type f, pt), ev_timestamps = (timestamp f, pts),
               ev_detected_at = detected_at\<rparr>)
            (filter (\<lambda>(po, pt, pts, pp). po = observer_id f \<and> pp = observer_provenance f \<and>
                pt \<noteq> observation_type f) bucket)
      in (evidences,
          AList.update key
            (bucket @ [(observer_id f, observation_type f, timestamp f, observer_provenance f)]) l))"

section \<open>Reputation\<close>

record reputation_ledger =
  neutral_default :: rat
  scores :: "(string, rat) dict"

definition record_outcome :: "string \<Rightarrow> bool \<Rightarrow> rat \<Rightarrow> reputation_ledger \<Rightarrow> reputation_ledger" where
  "record_outcome observer correct weight l =
     (let score = dict_get (scores l) observer 0
      in l\<lparr>scores := AList.update observer
                      (if correct then score + weight else score - 5 * weight) (scores l)\<rparr>)"

definition record_equivocation :: "string \<Rightarrow> reputation_ledger \<Rightarrow> reputation_ledger" where
  "record_equivocation observer l = record_outcome observer False 5 l"

definition reputation_weight :: "reputation_ledger \<Rightarrow> string \<Rightarrow> rat" where
  "reputation_weight l observer =
     (case map_of (scores l) observer of None \<Rightarrow> neutral_default l | Some s \<Rightarrow> max 0 (s / 10))"

definition is_untrusted :: "reputation_ledger \<Rightarrow> string \<Rightarrow> rat \<Rightarrow> bool" where
  "is_untrusted l observer threshold = (reputation_weight l observer \<le> threshold)"

section \<open>Distance buckets\<close>

type_synonym peer_key = "string \<Rightarrow> 256 word"

definition xor_distance :: "peer_key \<Rightarrow> string \<Rightarrow> string \<Rightarrow> 256 word" where
  "xor_distance key id_a id_b = key id_a XOR key id_b"

definition bit_length :: "256 word \<Rightarrow> nat" where
  "bit_length w = nat (bitlen (uint w))"

record k_bucket_table =
  kb_local_id :: string
  kb_k :: nat
  kb_buckets :: "(nat, (string \<times> rat) list) dict"

definition bucket_for :: "peer_key \<Rightarrow> k_bucket_table \<Rightarrow> string \<Rightarrow> nat" where
  "bucket_for key t pid = bit_length (xor_distance key pid (kb_local_id t))"

definition kb_update :: "peer_key \<Rightarrow> string \<Rightarrow> rat \<Rightarrow> k_bucket_table \<Rightarrow> k_bucket_table" where
  "kb_update key pid ts t =
     (let i = bucket_for key t pid;
          bucket = filter (\<lambda>e. fst e \<noteq> pid) (dict_get (kb_buckets t) i []) @ [(pid, ts)];
          bucket' = (if kb_k t < length bucket then drop (length bucket - kb_k t) bucket else bucket)
      in t\<lparr>kb_buckets := AList.update i bucket' (kb_buckets t)\<rparr>)"

definition peers_in_bucket :: "k_bucket_table \<Rightarrow> nat \<Rightarrow> string list" where
  "peers_in_bucket t i = map fst (dict_get (kb_buckets t) i [])"

definition is_correlated :: "peer_key \<Rightarrow> string \<Rightarrow> string \<Rightarrow> nat \<Rightarrow> bool" where
  "is_correlated key a b proximity_bits = (bit_length (xor_distance key a b) \<le> proximity_bits)"

definition kb_len :: "k_bucket_table \<Rightarrow> nat" where
  "kb_len t = sum_list (map (\<lambda>(i, b). length b) (kb_buckets t))"

section \<open>Lemmas\<close>

lemma newer_asym: "is_observation_newer a b \<Longrightarrow> \<not> is_observation_newer b a"
  by (auto simp: is_observation_newer_def split: if_splits)

lemma newer_trans: "is_observation_newer a b \<Longrightarrow> is_observation_newer b c \<Longrightarrow> is_observation_newer a c"
  by (auto simp: is_observation_newer_def split: if_splits)

lemma bit_length_le_iff: "bit_length w \<le> n \<longleftrightarrow> uint w < 2 ^ n"
proof -
  have "bit_length w \<le> n \<longleftrightarrow> bitlen (uint w) \<le> int n" by (simp add: bit_length_def nat_le_iff)
  also have "\<dots> \<longleftrightarrow> uint w < 2 ^ n" using bitlen_le_iff_power [of "uint w" n] by simp
  finally show ?thesis .
qed

lemma bit_length_le_256: "bit_length w \<le> 256"
  using uint_lt2p [of w] by (simp add: bit_length_le_iff)

lemma xor_distance_chain: "xor_distance key a b XOR xor_distance key b c = xor_distance key a c"
  by (simp add: xor_distance_def bit_eq_iff bit_xor_iff) blast

lemma xor_eq_swap: "(x :: 256 word) XOR y = z \<longleftrightarrow> x = y XOR z"
proof
  assume "x XOR y = z"
  then have "y XOR z = y XOR (x XOR y)" by simp
  then show "x = y XOR z" by (simp add: xor.left_commute)
next
  assume "x = y XOR z"
  then have "x XOR y = (y XOR z) XOR y" by simp
  then show "x XOR y = z" by (simp add: xor.commute xor.left_commute)
qed

lemma bit_length_xor: "bit_length (u XOR v) \<le> max (bit_length u) (bit_length v)"
proof -
  let ?n = "max (bit_length u) (bit_length v)"
  have "uint u < 2 ^ ?n" "uint v < 2 ^ ?n"
    using bit_length_le_iff [of u ?n] bit_length_le_iff [of v ?n] by auto
  then have "take_bit ?n (uint u) = uint u" "take_bit ?n (uint v) = uint v"
    by (auto simp: take_bit_int_eq_self_iff)
  then have "take_bit ?n (uint (u XOR v)) = uint (u XOR v)"
    by (simp add: unsigned_xor_eq take_bit_xor)
  then have "uint (u XOR v) < 2 ^ ?n" by (simp add: take_bit_int_eq_self_iff)
  then show ?thesis by (simp add: bit_length_le_iff)
qed


lemma card_ge_2_iff: "finite A \<Longrightarrow> \<not> card A < 2 \<longleftrightarrow> (\<exists>x \<in> A. \<exists>y \<in> A. x \<noteq> y)"
  using card_le_Suc0_iff_eq [of A] by (auto simp: not_less numeral_2_eq_2 not_less_eq_eq)

text \<open>Two coordinates that each take two values are both distinguished by one pair.\<close>

lemma pair_differs_in_both:
  assumes "\<exists>x \<in> S. \<exists>y \<in> S. f x \<noteq> f y" and "\<exists>x \<in> S. \<exists>y \<in> S. g x \<noteq> g y"
  shows "\<exists>x \<in> S. \<exists>y \<in> S. f x \<noteq> f y \<and> g x \<noteq> g y"
  using assms by metis

definition equivocation_ok :: "equivocation_log \<Rightarrow> bool" where
  "equivocation_ok l \<longleftrightarrow> (\<forall>k b. map_of l k = Some b \<longrightarrow> length b \<le> MAX_OBSERVATIONS_PER_KEY)"

definition kb_ok :: "k_bucket_table \<Rightarrow> bool" where
  "kb_ok t \<longleftrightarrow> (\<forall>i b. map_of (kb_buckets t) i = Some b \<longrightarrow> length b \<le> kb_k t \<and> distinct (map fst b))"

lemma equivocation_ok_record:
  assumes "equivocation_ok l"
  shows "equivocation_ok (snd (record_observation t f l))"
proof -
  let ?b = "dict_get l (peer_id f, epoch f) []"
  have "length ?b \<le> MAX_OBSERVATIONS_PER_KEY"
    using assms by (auto simp: equivocation_ok_def dict_get_def split: option.splits simp del: map_of_eq_Some_iff)
  then have "length (if MAX_OBSERVATIONS_PER_KEY \<le> length ?b then tl ?b else ?b) < MAX_OBSERVATIONS_PER_KEY"
    by (auto simp: MAX_OBSERVATIONS_PER_KEY_def)
  with assms show ?thesis
    by (auto simp: equivocation_ok_def record_observation_def Let_def map_of_update simp del: map_of_eq_Some_iff)
qed

lemma kb_ok_update:
  assumes "kb_ok t"
  shows "kb_ok (kb_update key pid ts t)"
proof -
  let ?old = "dict_get (kb_buckets t) (bucket_for key t pid) []"
  let ?b = "filter (\<lambda>e. fst e \<noteq> pid) ?old @ [(pid, ts)]"
  have "distinct (map fst ?old)"
    using assms by (auto simp: kb_ok_def dict_get_def split: option.splits simp del: map_of_eq_Some_iff)
  then have "distinct (map fst ?b)" by (auto simp: distinct_map_filter)
  moreover define B where "B = ?b"
  ultimately have d: "distinct (map fst (drop n B))" for n by (metis distinct_drop drop_map)
  have upd: "kb_update key pid ts t = t\<lparr>kb_buckets := AList.update (bucket_for key t pid)
      (if kb_k t < length B then drop (length B - kb_k t) B else B) (kb_buckets t)\<rparr>"
    by (simp add: kb_update_def Let_def B_def)
  from assms d [of 0] d [of "length B - kb_k t"] show ?thesis
    unfolding upd by (auto simp: kb_ok_def map_of_update simp del: map_of_eq_Some_iff)
qed

section \<open>Properties\<close>

text \<open>A parser that knows no addresses, and a witness about peer p, for the witnesses.\<close>

definition no_ip :: ip_lib where
  "no_ip = \<lparr>ip_parse = (\<lambda>_. None), ip_show = (\<lambda>_ _. [])\<rparr>"

definition seen_by :: "string \<Rightarrow> string \<Rightarrow> peer_observation" where
  "seen_by obs prov = PeerObservation (demo_fields\<lparr>observer_id := obs, observer_provenance := prov\<rparr>) []"

text \<open>The monotonic gate is a strict partial order, so no sequence of accepted observations
  returns to an earlier one.\<close>

theorem monotonic_gate_strict_order:
  "\<not> is_observation_newer a a \<and>
   (is_observation_newer a b \<longrightarrow> \<not> is_observation_newer b a) \<and>
   (is_observation_newer a b \<longrightarrow> is_observation_newer b c \<longrightarrow> is_observation_newer a c)"
  using newer_asym newer_trans by blast

theorem monotonic_gate_strict_order_witness:
  "is_observation_newer demo_fields (demo_fields\<lparr>epoch := 2\<rparr>) \<and>
   \<not> is_observation_newer (demo_fields\<lparr>epoch := 2\<rparr>) demo_fields"
proof -
  have "is_observation_newer demo_fields (demo_fields\<lparr>epoch := 2\<rparr>)"
    by (simp add: is_observation_newer_def demo_fields_def)
  with monotonic_gate_strict_order [of demo_fields "demo_fields\<lparr>epoch := 2\<rparr>"] show ?thesis by blast
qed

text \<open>A quorum exists exactly when two of the witnesses differ both in observer and in
  provenance bucket: identities of one subnet, or one observer under several origins, never
  make a quorum by themselves.\<close>

theorem quorum_iff_independent_pair:
  "validate_witness_quorum ip obs \<longleftrightarrow>
   (\<exists>w1 \<in> set (witness_set obs). \<exists>w2 \<in> set (witness_set obs).
      observer_id (obs_of w1) \<noteq> observer_id (obs_of w2) \<and>
      provenance_bucket ip (observer_provenance (obs_of w1)) \<noteq>
      provenance_bucket ip (observer_provenance (obs_of w2)))"
proof -
  let ?ws = "witness_set obs"
  let ?o = "\<lambda>w. observer_id (obs_of w)" and ?p = "\<lambda>w. provenance_bucket ip (observer_provenance (obs_of w))"
  have two: "\<not> card (set (map h ?ws)) < 2 \<longleftrightarrow> (\<exists>x \<in> set ?ws. \<exists>y \<in> set ?ws. h x \<noteq> h y)" for h :: "peer_observation \<Rightarrow> string"
    by (subst card_ge_2_iff) auto
  have len: "\<not> length ?ws < 2" if "\<exists>x \<in> set ?ws. \<exists>y \<in> set ?ws. ?o x \<noteq> ?o y"
  proof
    assume "length ?ws < 2"
    then have "?ws = [] \<or> (\<exists>w. ?ws = [w])" by (cases ?ws; cases "tl ?ws") auto
    with that show False by auto
  qed
  have "validate_witness_quorum ip obs \<longleftrightarrow> (\<exists>x \<in> set ?ws. \<exists>y \<in> set ?ws. ?o x \<noteq> ?o y) \<and> (\<exists>x \<in> set ?ws. \<exists>y \<in> set ?ws. ?p x \<noteq> ?p y)"
    using len two [of ?o] two [of ?p] by (auto simp: validate_witness_quorum_def Let_def)
  with pair_differs_in_both [of "set ?ws" ?o ?p] show ?thesis by blast
qed

text \<open>Two IPv4 origins in one /24 share a bucket, whatever their strings.\<close>

theorem same_subnet_same_bucket:
  assumes "ip_parse ip p = Some (IPv4Network a)" and "ip_parse ip q = Some (IPv4Network b)"
    and "drop_bit 8 a = drop_bit 8 b" and "p \<noteq> []" and "q \<noteq> []"
  shows "provenance_bucket ip p = provenance_bucket ip q"
  using assms by (simp add: provenance_bucket_def)

theorem same_subnet_same_bucket_witness:
  "(let ip = \<lparr>ip_parse = (\<lambda>s. if s = ''10.0.0.1'' then Some (IPv4Network 0x0A000001)
                else if s = ''10.0.0.77'' then Some (IPv4Network 0x0A00004D) else None),
              ip_show = (\<lambda>n k. ''10.0.0.0/24'')\<rparr>
    in provenance_bucket ip ''10.0.0.1'' = provenance_bucket ip ''10.0.0.77'')"
  unfolding Let_def
  by (rule same_subnet_same_bucket [where a = "0x0A000001" and b = "0x0A00004D"]) simp_all

text \<open>The equivocation log keeps at most fifty entries per peer and epoch; what it reports
  are contradictions of one observer about this peer and epoch, and a kept entry of the same
  observer and provenance with the other verdict is never missed.\<close>

theorem equivocation_detection:
  assumes "equivocation_ok l" and "record_observation t f l = (evs, l')"
  shows "equivocation_ok l' \<and>
    (\<forall>ev \<in> set evs. ev_observer_id ev = ev_prior_observer_id ev \<and> fst (ev_pair ev) \<noteq> snd (ev_pair ev) \<and>
       ev_peer_id ev = peer_id f \<and> ev_epoch ev = epoch f) \<and>
    (\<forall>ts verdict. length (dict_get l (peer_id f, epoch f) []) < MAX_OBSERVATIONS_PER_KEY \<longrightarrow>
       (observer_id f, verdict, ts, observer_provenance f) \<in> set (dict_get l (peer_id f, epoch f) []) \<longrightarrow>
       verdict \<noteq> observation_type f \<longrightarrow> evs \<noteq> [])"
proof -
  have evs: "evs = fst (record_observation t f l)" "l' = snd (record_observation t f l)" using assms(2) by simp_all
  have "\<forall>ev \<in> set evs. ev_observer_id ev = ev_prior_observer_id ev \<and> fst (ev_pair ev) \<noteq> snd (ev_pair ev) \<and>
       ev_peer_id ev = peer_id f \<and> ev_epoch ev = epoch f"
    unfolding evs by (auto simp: record_observation_def Let_def split: if_splits)
  moreover have "evs \<noteq> []"
    if "length (dict_get l (peer_id f, epoch f) []) < MAX_OBSERVATIONS_PER_KEY"
      "(observer_id f, verdict, ts, observer_provenance f) \<in> set (dict_get l (peer_id f, epoch f) [])"
      "verdict \<noteq> observation_type f" for ts verdict
    using that unfolding evs by (auto simp: record_observation_def Let_def filter_empty_conv)
  ultimately show ?thesis using equivocation_ok_record [OF assms(1)] evs by blast
qed

theorem equivocation_detection_witness:
  "fst (record_observation 9 (demo_fields\<lparr>observation_type := Unreachable\<rparr>)
     (snd (record_observation 8 demo_fields []))) \<noteq> []"
proof -
  let ?l = "snd (record_observation 8 demo_fields [])" and ?f = "demo_fields\<lparr>observation_type := Unreachable\<rparr>"
  have b: "dict_get ?l (peer_id ?f, epoch ?f) [] = [(''o'', Reachable, 100, [])]"
    by (simp add: record_observation_def demo_fields_def dict_get_def MAX_OBSERVATIONS_PER_KEY_def)
  have "equivocation_ok ?l" by (rule equivocation_ok_record) (simp add: equivocation_ok_def)
  from equivocation_detection [OF this prod.collapse [symmetric], of 9 ?f] b show ?thesis
    by (auto simp: demo_fields_def MAX_OBSERVATIONS_PER_KEY_def)
qed

text \<open>A scored witness's weight is never negative, an equivocation costs two and a half
  weight points, and a single confirmed correct report lowers a new witness from the neutral
  default of one to a tenth.\<close>

theorem reputation_of_first_report:
  assumes "map_of (scores l) w = None" and "neutral_default l = 1"
  shows "reputation_weight l w = 1 \<and> reputation_weight (record_outcome w True 1 l) w = 1 / 10 \<and>
    reputation_weight (record_equivocation w l) w = 0"
  using assms by (simp add: reputation_weight_def record_outcome_def record_equivocation_def Let_def
      map_of_update dict_get_def)

theorem reputation_of_first_report_witness:
  "reputation_weight (record_outcome ''w'' True 1 \<lparr>neutral_default = 1, scores = []\<rparr>) ''w'' = 1 / 10"
  using reputation_of_first_report [of "\<lparr>neutral_default = 1, scores = []\<rparr>" "''w''"] by simp

text \<open>The XOR distance is not an ultrametric: whenever two hops have distances one and two,
  the direct distance is three, more than both; only bit lengths satisfy the inequality.\<close>

theorem xor_distance_not_ultrametric:
  assumes "xor_distance key a b = 1" and "xor_distance key b c = 2"
  shows "xor_distance key a c = 3 \<and> max (xor_distance key a b) (xor_distance key b c) < xor_distance key a c \<and>
    bit_length (xor_distance key a c) \<le> max (bit_length (xor_distance key a b)) (bit_length (xor_distance key b c))"
proof -
  have "xor_distance key a c = 1 XOR 2" using xor_distance_chain [of key a b c] assms by simp
  then have "xor_distance key a c = 3" by simp
  with assms bit_length_xor [of "xor_distance key a b" "xor_distance key b c"] xor_distance_chain [of key a b c]
  show ?thesis by simp
qed

theorem xor_distance_not_ultrametric_witness:
  "xor_distance (\<lambda>s. if s = ''a'' then 1 else if s = ''b'' then 0 else 2) ''a'' ''c'' = 3"
  using xor_distance_not_ultrametric [of "\<lambda>s. if s = ''a'' then 1 else if s = ''b'' then 0 else 2" "''a''" "''b''" "''c''"]
  by (simp add: xor_distance_def)

text \<open>C32: A k-bucket holds at most \<open>k\<close> distinct peers, newest last, and bucket one holds the
  peers that differ from the local key in its least significant bit only.\<close>

theorem kbucket_bounded:
  assumes "kb_ok t" and "0 < kb_k t"
  shows "kb_ok (kb_update key pid ts t) \<and>
    last (peers_in_bucket (kb_update key pid ts t) (bucket_for key t pid)) = pid \<and>
    (bucket_for key t pid = 1 \<longleftrightarrow> key pid = key (kb_local_id t) XOR 1)"
proof -
  let ?b = "filter (\<lambda>e. fst e \<noteq> pid) (dict_get (kb_buckets t) (bucket_for key t pid) []) @ [(pid, ts)]"
  have "last (map fst (drop n ?b)) = pid" if "n < length ?b" for n
    using that by (simp add: last_map last_drop)
  then have lst: "last (peers_in_bucket (kb_update key pid ts t) (bucket_for key t pid)) = pid"
    using assms(2) by (auto simp: peers_in_bucket_def kb_update_def Let_def dict_get_simps)
  have "bucket_for key t pid = 1 \<longleftrightarrow> bit_length (xor_distance key pid (kb_local_id t)) \<le> 1 \<and>
      \<not> bit_length (xor_distance key pid (kb_local_id t)) \<le> 0"
    by (auto simp: bucket_for_def)
  also have "\<dots> \<longleftrightarrow> uint (xor_distance key pid (kb_local_id t)) = 1"
    unfolding bit_length_le_iff using uint_ge_0 [of "xor_distance key pid (kb_local_id t)"] by auto
  also have "\<dots> \<longleftrightarrow> xor_distance key pid (kb_local_id t) = 1" by (metis uint_1 word_uint_eqI)
  also have "\<dots> \<longleftrightarrow> key pid = key (kb_local_id t) XOR 1"
    unfolding xor_distance_def by (rule xor_eq_swap)
  finally show ?thesis using lst kb_ok_update [OF assms(1)] by blast
qed


theorem kbucket_bounded_witness:
  "last (peers_in_bucket (kb_update (\<lambda>s. of_nat (length s)) ''pp'' 5 \<lparr>kb_local_id = ''l'', kb_k = 2, kb_buckets = []\<rparr>)
     (bucket_for (\<lambda>s. of_nat (length s)) \<lparr>kb_local_id = ''l'', kb_k = 2, kb_buckets = []\<rparr> ''pp'')) = ''pp''"
  using kbucket_bounded [of "\<lparr>kb_local_id = ''l'', kb_k = 2, kb_buckets = []\<rparr>"] by (simp add: kb_ok_def)

end
