(* ===== verification/AuditLog.thy ===== *)
theory AuditLog
  imports Membership
begin

text \<open>
  \<open>orchestrator/audit_log.py\<close>: the append-only hash chain with durable rows.  The digest
  (SHA-256 over the previous hash and the canonical JSON of the entry), the signer and the
  signature verifier are parameters; both signer and verifier see the entry with an empty
  signature.  A persisted line is blank, not JSON, or a JSON object.
\<close>

section \<open>Entries\<close>

record audit_content =
  ae_sequence_number :: int
  ae_timestamp :: rat
  ae_peer_id :: string
  ae_old_status :: string
  ae_new_status :: string
  ae_witnesses :: "string list"
  ae_previous_hash :: string
  ae_signature :: string

record audit_entry =
  ae_content :: audit_content
  ae_hash :: string

record crypto =
  digest :: "string \<Rightarrow> audit_content \<Rightarrow> string"
  signer :: "(audit_content \<Rightarrow> string) option"
  verifier :: "(audit_content \<Rightarrow> string \<Rightarrow> bool) option"

definition compute_hash :: "crypto \<Rightarrow> audit_content \<Rightarrow> string" where
  "compute_hash cr c = digest cr (ae_previous_hash c) c"

definition make_entry :: "crypto \<Rightarrow> audit_content \<Rightarrow> audit_entry" where
  "make_entry cr c = \<lparr>ae_content = c, ae_hash = compute_hash cr c\<rparr>"

definition unsigned_content :: "audit_content \<Rightarrow> audit_content" where
  "unsigned_content c = c\<lparr>ae_signature := []\<rparr>"

definition signature_ok :: "crypto \<Rightarrow> audit_content \<Rightarrow> bool" where
  "signature_ok cr c =
     (case verifier cr of
        None \<Rightarrow> True
      | Some v \<Rightarrow> ae_signature c = [] \<or> v (unsigned_content c) (ae_signature c))"

section \<open>Verification\<close>

fun verify_from :: "crypto \<Rightarrow> int \<Rightarrow> string \<Rightarrow> audit_entry list \<Rightarrow> unit res" where
  "verify_from cr expected previous_hash [] = Ret ()"
| "verify_from cr expected previous_hash (e # es) =
     (let c = ae_content e in
      if ae_sequence_number c \<noteq> expected then Raise ChainIntegrityError
      else if ae_previous_hash c \<noteq> previous_hash then Raise ChainIntegrityError
      else if compute_hash cr c \<noteq> ae_hash e then Raise ChainIntegrityError
      else if \<not> signature_ok cr c then Raise ChainIntegrityError
      else verify_from cr (expected + 1) (ae_hash e) es)"

definition verify_chain :: "crypto \<Rightarrow> audit_entry list \<Rightarrow> unit res" where
  "verify_chain cr es = verify_from cr 0 [] es"

section \<open>Durable rows\<close>

datatype line = Blank | Garbage | Line payload

definition entry_payload :: "audit_entry \<Rightarrow> payload" where
  "entry_payload e =
     (let c = ae_content e in
      [(''sequence_number'', JInt (ae_sequence_number c)), (''timestamp'', JFloat (ae_timestamp c)),
       (''peer_id'', JStr (ae_peer_id c)), (''old_status'', JStr (ae_old_status c)),
       (''new_status'', JStr (ae_new_status c)), (''witnesses'', jstrs (ae_witnesses c)),
       (''previous_hash'', JStr (ae_previous_hash c)), (''signature'', JStr (ae_signature c)),
       (''hash'', JStr (ae_hash e))])"

definition parse_row :: "payload \<Rightarrow> (audit_content \<times> string) res" where
  "parse_row d =
     res_bind (res_bind (need d ''hash'') as_str) (\<lambda>h.
     res_bind (res_bind (need d ''sequence_number'') as_integer) (\<lambda>sq.
     res_bind (res_bind (need d ''timestamp'') as_float) (\<lambda>ts.
     res_bind (res_bind (need d ''peer_id'') as_str) (\<lambda>pid.
     res_bind (res_bind (need d ''old_status'') as_str) (\<lambda>old.
     res_bind (res_bind (need d ''new_status'') as_str) (\<lambda>new.
     res_bind (res_bind (need d ''witnesses'') as_strs) (\<lambda>ws.
     res_bind (res_bind (need d ''previous_hash'') as_str) (\<lambda>prev.
     res_bind (res_bind (need d ''signature'') as_str) (\<lambda>sg.
       Ret (\<lparr>ae_sequence_number = sq, ae_timestamp = ts, ae_peer_id = pid, ae_old_status = old,
             ae_new_status = new, ae_witnesses = ws, ae_previous_hash = prev,
             ae_signature = sg\<rparr>, h))))))))))"

fun replay_persisted :: "crypto \<Rightarrow> line list \<Rightarrow> audit_entry list res" where
  "replay_persisted cr [] = Ret []"
| "replay_persisted cr (Blank # ls) = replay_persisted cr ls"
| "replay_persisted cr (Garbage # ls) = Raise ValueError"
| "replay_persisted cr (Line d # ls) =
     (case parse_row d of
        Raise e \<Rightarrow> Raise ChainIntegrityError
      | Ret (c, persisted_hash) \<Rightarrow>
          if compute_hash cr c \<noteq> persisted_hash then Raise ChainIntegrityError
          else if \<not> signature_ok cr c then Raise ChainIntegrityError
          else res_bind (replay_persisted cr ls) (\<lambda>es. Ret (make_entry cr c # es)))"

text \<open>The log: the chain in memory and, with a persist path, the lines on disk.\<close>

record audit_log =
  entries :: "audit_entry list"
  disk :: "line list option"

definition open_log :: "crypto \<Rightarrow> line list option \<Rightarrow> audit_log res" where
  "open_log cr d =
     (case d of
        None \<Rightarrow> Ret \<lparr>entries = [], disk = None\<rparr>
      | Some ls \<Rightarrow>
          res_bind (replay_persisted cr ls) (\<lambda>es.
          res_bind (verify_chain cr es) (\<lambda>_. Ret \<lparr>entries = es, disk = Some ls\<rparr>)))"

text \<open>\<open>append\<close>: \<open>write_ok\<close> says whether the durable write succeeds; the clock is \<open>t\<close>.\<close>

definition next_content ::
  "crypto \<Rightarrow> rat \<Rightarrow> audit_entry list \<Rightarrow> string \<Rightarrow> string \<Rightarrow> string \<Rightarrow> string list \<Rightarrow> audit_content" where
  "next_content cr t es pid old new ws =
     (let provisional =
        \<lparr>ae_sequence_number = int (length es), ae_timestamp = t, ae_peer_id = pid,
         ae_old_status = old, ae_new_status = new, ae_witnesses = ws,
         ae_previous_hash = (if es = [] then [] else ae_hash (last es)), ae_signature = []\<rparr>
      in provisional\<lparr>ae_signature := (case signer cr of None \<Rightarrow> [] | Some s \<Rightarrow> s provisional)\<rparr>)"

definition audit_append ::
  "crypto \<Rightarrow> bool \<Rightarrow> rat \<Rightarrow> audit_log \<Rightarrow> string \<Rightarrow> string \<Rightarrow> string \<Rightarrow> string list
   \<Rightarrow> audit_entry res \<times> audit_log" where
  "audit_append cr write_ok t l pid old new ws =
     (case verify_chain cr (entries l) of
        Raise e \<Rightarrow> (Raise e, l)
      | Ret _ \<Rightarrow>
          (let entry = make_entry cr (next_content cr t (entries l) pid old new ws) in
           case disk l of
             None \<Rightarrow> (Ret entry, l\<lparr>entries := entries l @ [entry]\<rparr>)
           | Some ls \<Rightarrow>
               if \<not> write_ok then (Raise OtherError, l)
               else (Ret entry,
                     l\<lparr>entries := entries l @ [entry], disk := Some (ls @ [Line (entry_payload entry)])\<rparr>)))"

section \<open>Lemmas\<close>

fun chain_ok :: "crypto \<Rightarrow> int \<Rightarrow> string \<Rightarrow> audit_entry list \<Rightarrow> bool" where
  "chain_ok cr n prev [] = True"
| "chain_ok cr n prev (e # es) =
     (ae_sequence_number (ae_content e) = n \<and> ae_previous_hash (ae_content e) = prev \<and>
      e = make_entry cr (ae_content e) \<and> signature_ok cr (ae_content e) \<and>
      chain_ok cr (n + 1) (ae_hash e) es)"

lemma verify_from_iff: "verify_from cr n prev es = Ret () \<longleftrightarrow> chain_ok cr n prev es"
proof (induction es arbitrary: n prev)
  case (Cons e es)
  have "e = make_entry cr (ae_content e) \<longleftrightarrow> compute_hash cr (ae_content e) = ae_hash e"
    by (cases e) (auto simp: make_entry_def)
  with Cons show ?case by (auto simp: Let_def)
qed simp

lemma verify_chain_iff: "verify_chain cr es = Ret () \<longleftrightarrow> chain_ok cr 0 [] es"
  by (simp add: verify_chain_def verify_from_iff)

lemmas verify_chain_ok = verify_chain_iff [THEN iffD2]

definition tip :: "string \<Rightarrow> audit_entry list \<Rightarrow> string" where
  "tip prev es = (if es = [] then prev else ae_hash (last es))"

lemma chain_ok_append:
  "chain_ok cr n prev (es @ fs) \<longleftrightarrow> chain_ok cr n prev es \<and> chain_ok cr (n + int (length es)) (tip prev es) fs"
  by (induction es arbitrary: n prev) (auto simp: tip_def algebra_simps)

text \<open>The verifier accepts what the signer signs.\<close>

definition signer_verified :: "crypto \<Rightarrow> bool" where
  "signer_verified cr =
     (case (signer cr, verifier cr) of
        (Some s, Some v) \<Rightarrow> (\<forall>c. v c (s c))
      | _ \<Rightarrow> True)"

lemma next_content_signature: "signer_verified cr \<Longrightarrow> signature_ok cr (next_content cr t es pid old new ws)"
  by (auto simp: signer_verified_def signature_ok_def next_content_def Let_def unsigned_content_def
      split: option.splits)

lemma chain_ok_next:
  assumes "signer_verified cr" and "chain_ok cr 0 [] es"
  shows "chain_ok cr 0 [] (es @ [make_entry cr (next_content cr t es pid old new ws)])"
  using assms next_content_signature [OF assms(1)]
  by (simp add: chain_ok_append make_entry_def) (simp add: next_content_def Let_def tip_def)

lemma parse_entry_payload: "parse_row (entry_payload e) = Ret (ae_content e, ae_hash e)"
  by (simp add: parse_row_def entry_payload_def need_def Let_def)

definition rows_of :: "audit_entry list \<Rightarrow> line list" where
  "rows_of es = map (\<lambda>e. Line (entry_payload e)) es"

lemma replay_rows: "chain_ok cr n prev es \<Longrightarrow> replay_persisted cr (rows_of es) = Ret es"
proof (induction es arbitrary: n prev)
  case (Cons e es)
  then have "replay_persisted cr (rows_of es) = Ret es" "e = make_entry cr (ae_content e)" "signature_ok cr (ae_content e)"
    by auto
  moreover have "compute_hash cr (ae_content e) = ae_hash e"
    using Cons.prems by (metis audit_entry.select_convs(2) chain_ok.simps(2) make_entry_def)
  ultimately show ?case by (simp add: rows_of_def parse_entry_payload)
qed (simp add: rows_of_def)

lemma replay_append:
  "replay_persisted cr (ls @ ms) =
     res_bind (replay_persisted cr ls) (\<lambda>es. res_bind (replay_persisted cr ms) (\<lambda>fs. Ret (es @ fs)))"
proof (induction ls)
  case Nil
  then show ?case by (cases "replay_persisted cr ms") simp_all
next
  case (Cons l ls)
  then show ?case
    by (cases l; cases "replay_persisted cr ls"; cases "replay_persisted cr ms") (auto split: res.splits)
qed

text \<open>The log invariant: a valid chain whose rows are what the disk holds.\<close>

definition log_ok :: "crypto \<Rightarrow> audit_log \<Rightarrow> bool" where
  "log_ok cr l \<longleftrightarrow> chain_ok cr 0 [] (entries l) \<and> (case disk l of None \<Rightarrow> True | Some ls \<Rightarrow> ls = rows_of (entries l))"

text \<open>
  What a client of an append-only log relies on: an append keeps the log's invariant, a
  successful one adds its entry at the end and a failing one leaves the history alone.
\<close>

locale append_only =
  fixes ok :: "'l \<Rightarrow> bool"
    and view :: "'l \<Rightarrow> 'e list"
    and append :: "'q \<Rightarrow> 'l \<Rightarrow> 'e res \<times> 'l"
  assumes append_ok: "ok l \<Longrightarrow> ok (snd (append q l))"
    and append_Ret: "ok l \<Longrightarrow> fst (append q l) = Ret e \<Longrightarrow> view (snd (append q l)) = view l @ [e]"
    and append_Raise: "ok l \<Longrightarrow> fst (append q l) = Raise x \<Longrightarrow> snd (append q l) = l"
begin

lemma append_grows: "ok l \<Longrightarrow> \<exists>suffix. view (snd (append q l)) = view l @ suffix"
  using append_Ret [of l q] append_Raise [of l q] by (cases "fst (append q l)") auto

lemma run_ok: "ok l \<Longrightarrow> ok (fold (\<lambda>q l. snd (append q l)) qs l)"
  by (induction qs arbitrary: l) (auto simp: append_ok)

lemma run_grows: "ok l \<Longrightarrow> \<exists>suffix. view (fold (\<lambda>q l. snd (append q l)) qs l) = view l @ suffix"
proof (induction qs arbitrary: l)
  case (Cons q qs)
  from append_grows [OF Cons.prems, of q] Cons.IH [OF append_ok [OF Cons.prems, of q]] show ?case by auto
qed simp

end

type_synonym append_request = "bool \<times> rat \<times> string \<times> string \<times> string \<times> string list"

fun append_request :: "crypto \<Rightarrow> append_request \<Rightarrow> audit_log \<Rightarrow> audit_entry res \<times> audit_log" where
  "append_request cr (w, t, pid, old, new, ws) l = audit_append cr w t l pid old new ws"

lemma log_ok_append:
  assumes "signer_verified cr" and "log_ok cr l" and "audit_append cr w t l pid old new ws = (r, l')"
  shows "log_ok cr l' \<and> (\<forall>e. r = Ret e \<longrightarrow> entries l' = entries l @ [e]) \<and> (\<forall>x. r = Raise x \<longrightarrow> l' = l)"
proof -
  have v: "verify_chain cr (entries l) = Ret ()" using assms(2) by (simp add: log_ok_def verify_chain_iff)
  show ?thesis
    using assms v chain_ok_next [OF assms(1)]
    by (auto simp: audit_append_def Let_def log_ok_def rows_of_def split: option.splits if_splits)
qed

lemma audit_append_entry:
  "audit_append cr w t l pid old new ws = (Ret e, l') \<Longrightarrow>
   ae_peer_id (ae_content e) = pid \<and> ae_old_status (ae_content e) = old \<and>
   ae_new_status (ae_content e) = new \<and> ae_witnesses (ae_content e) = ws"
  by (auto simp: audit_append_def make_entry_def next_content_def Let_def split: res.splits option.splits if_splits)

interpretation chain: append_only "\<lambda>l. signer_verified cr \<and> log_ok cr l" entries "append_request cr"
proof unfold_locales
  fix q :: append_request and l
  assume "signer_verified cr \<and> log_ok cr l"
  with log_ok_append [of cr l] have *: "log_ok cr (snd (append_request cr q l)) \<and>
      (\<forall>e. fst (append_request cr q l) = Ret e \<longrightarrow> entries (snd (append_request cr q l)) = entries l @ [e]) \<and>
      (\<forall>x. fst (append_request cr q l) = Raise x \<longrightarrow> snd (append_request cr q l) = l)"
    by (cases q) (metis append_request.simps prod.collapse)
  show "signer_verified cr \<and> log_ok cr (snd (append_request cr q l))"
    using * \<open>signer_verified cr \<and> log_ok cr l\<close> by blast
  show "entries (snd (append_request cr q l)) = entries l @ [e]" if "fst (append_request cr q l) = Ret e" for e
    using * that by blast
  show "snd (append_request cr q l) = l" if "fst (append_request cr q l) = Raise x" for x
    using * that by blast
qed

section \<open>Properties\<close>

definition append_all :: "crypto \<Rightarrow> audit_log \<Rightarrow> append_request list \<Rightarrow> audit_log" where
  "append_all cr l rs = fold (\<lambda>q l. snd (append_request cr q l)) rs l"

lemma append_all_ok:
  assumes "signer_verified cr" and "log_ok cr l"
  shows "log_ok cr (append_all cr l rs) \<and> (\<exists>suffix. entries (append_all cr l rs) = entries l @ suffix)"
  using assms chain.run_ok [of cr l rs] chain.run_grows [of cr l rs] by (simp add: append_all_def)

lemma append_all_disk: "disk l \<noteq> None \<Longrightarrow> disk (append_all cr l rs) \<noteq> None"
proof (induction rs arbitrary: l)
  case (Cons q rs)
  obtain w t pid old new ws where q: "q = (w, t, pid, old, new, ws)" by (cases q)
  have "disk (snd (append_request cr q l)) \<noteq> None"
    using Cons.prems unfolding q by (auto simp: audit_append_def Let_def split: res.splits)
  from Cons.IH [OF this] show ?case by (simp add: append_all_def)
qed (simp add: append_all_def)

definition demo_crypto :: crypto where
  "demo_crypto = \<lparr>digest = (\<lambda>p c. p @ ae_new_status c), signer = None, verifier = None\<rparr>"

definition demo_log :: audit_log where
  "demo_log = append_all demo_crypto \<lparr>entries = [], disk = Some []\<rparr>
     [(True, 1, ''p'', ''UNKNOWN'', ''ok'', []), (True, 2, ''p'', ''ok'', ''bad'', [])]"

lemma demo_crypto_signer: "signer_verified demo_crypto"
  by (simp add: signer_verified_def demo_crypto_def)

lemma demo_log_ok: "log_ok demo_crypto demo_log"
proof -
  have "log_ok demo_crypto \<lparr>entries = [], disk = Some []\<rparr>" by (simp add: log_ok_def rows_of_def)
  from append_all_ok [OF demo_crypto_signer this] show ?thesis unfolding demo_log_def by blast
qed

lemma demo_log_disk: "disk demo_log \<noteq> None"
proof -
  have "map_option length (disk demo_log) = Some 2" by code_simp
  then show ?thesis by auto
qed

lemma log_ok_open:
  assumes "log_ok cr l"
  shows "open_log cr (disk l) = Ret (case disk l of None \<Rightarrow> \<lparr>entries = [], disk = None\<rparr> | Some ls \<Rightarrow> l)"
proof (cases "disk l")
  case (Some ls)
  with assms have "chain_ok cr 0 [] (entries l)" "ls = rows_of (entries l)" by (auto simp: log_ok_def)
  with Some show ?thesis by (simp add: open_log_def replay_rows verify_chain_ok)
qed (simp add: open_log_def)



text \<open>A row whose content was edited while its stored hash was kept is detected when the log
  is opened, the last row included, as long as the edited content does not collide.\<close>

theorem edited_row_detected:
  assumes "log_ok cr l" and "disk l = Some ls" and "i < length ls" and "e = entries l ! i"
    and "c' \<noteq> ae_content e" and "compute_hash cr c' = compute_hash cr (ae_content e) \<longrightarrow> c' = ae_content e"
  shows "open_log cr (Some (ls[i := Line (entry_payload (e\<lparr>ae_content := c'\<rparr>))])) = Raise ChainIntegrityError"
proof -
  let ?es = "entries l"
  have ok: "chain_ok cr 0 [] ?es" and ls: "ls = rows_of ?es" using assms(1,2) by (auto simp: log_ok_def)
  have i: "i < length ?es" using assms(3) ls by (simp add: rows_of_def)
  have split: "?es = take i ?es @ e # drop (Suc i) ?es" using i assms(4) by (simp add: id_take_nth_drop)
  have "chain_ok cr 0 [] (take i ?es)" using ok split chain_ok_append [of cr 0 "[]" "take i ?es"] by metis
  then have pre: "replay_persisted cr (rows_of (take i ?es)) = Ret (take i ?es)" by (rule replay_rows)
  have "chain_ok cr (0 + int (length (take i ?es))) (tip [] (take i ?es)) (e # drop (Suc i) ?es)"
    using ok split chain_ok_append [of cr 0 "[]" "take i ?es" "e # drop (Suc i) ?es"] by metis
  then have h: "ae_hash e = compute_hash cr (ae_content e)"
    by (metis audit_entry.select_convs(2) chain_ok.simps(2) make_entry_def)
  have "ls[i := Line (entry_payload (e\<lparr>ae_content := c'\<rparr>))] =
      rows_of (take i ?es) @ Line (entry_payload (e\<lparr>ae_content := c'\<rparr>)) # rows_of (drop (Suc i) ?es)"
    using i ls by (simp add: rows_of_def upd_conv_take_nth_drop take_map drop_map)
  moreover have "compute_hash cr c' \<noteq> ae_hash e" using assms(5,6) h by auto
  ultimately show ?thesis
    by (simp add: open_log_def replay_append pre parse_entry_payload)
qed

theorem edited_row_detected_witness:
  "open_log demo_crypto (Some ((rows_of (entries demo_log))[1 := Line (entry_payload
      ((entries demo_log ! 1)\<lparr>ae_content := (ae_content (entries demo_log ! 1))\<lparr>ae_new_status := ''fine''\<rparr>\<rparr>))]))
   = Raise ChainIntegrityError"
proof -
  have n: "length (entries demo_log) = 2" by code_simp
  have d: "disk demo_log = Some (rows_of (entries demo_log))"
    using demo_log_ok demo_log_disk by (auto simp: log_ok_def split: option.splits)
  have st: "ae_new_status (ae_content (entries demo_log ! 1)) = ''bad''" by code_simp
  show ?thesis
  proof (rule edited_row_detected [OF demo_log_ok d])
    show "1 < length (rows_of (entries demo_log))" using n by (simp add: rows_of_def)
    show "(ae_content (entries demo_log ! 1))\<lparr>ae_new_status := ''fine''\<rparr> \<noteq> ae_content (entries demo_log ! 1)"
    proof
      assume "(ae_content (entries demo_log ! 1))\<lparr>ae_new_status := ''fine''\<rparr> = ae_content (entries demo_log ! 1)"
      from arg_cong [OF this, where f = ae_new_status] st show False by simp
    qed
    show "compute_hash demo_crypto ((ae_content (entries demo_log ! 1))\<lparr>ae_new_status := ''fine''\<rparr>) =
        compute_hash demo_crypto (ae_content (entries demo_log ! 1)) \<longrightarrow>
        (ae_content (entries demo_log ! 1))\<lparr>ae_new_status := ''fine''\<rparr> = ae_content (entries demo_log ! 1)"
      using st by (simp add: compute_hash_def demo_crypto_def)
  qed simp
qed

text \<open>Dropping the newest rows is not detected: every prefix of an intact file opens as a
  valid, shorter log.\<close>

theorem truncated_log_accepted:
  assumes "log_ok cr l" and "disk l = Some ls"
  shows "open_log cr (Some (take n ls)) = Ret \<lparr>entries = take n (entries l), disk = Some (take n ls)\<rparr>"
proof -
  have ok: "chain_ok cr 0 [] (take n (entries l) @ drop n (entries l))" and ls: "ls = rows_of (entries l)"
    using assms by (auto simp: log_ok_def)
  from ok have "chain_ok cr 0 [] (take n (entries l))" by (simp only: chain_ok_append)
  moreover have "take n ls = rows_of (take n (entries l))" using ls by (simp add: rows_of_def take_map)
  ultimately show ?thesis by (simp add: open_log_def replay_rows verify_chain_ok)
qed

theorem truncated_log_accepted_witness:
  "open_log demo_crypto (Some (take 1 (rows_of (entries demo_log)))) =
     Ret \<lparr>entries = take 1 (entries demo_log), disk = Some (take 1 (rows_of (entries demo_log)))\<rparr>"
proof -
  have "log_ok demo_crypto \<lparr>entries = entries demo_log, disk = Some (rows_of (entries demo_log))\<rparr>"
    using demo_log_ok by (auto simp: log_ok_def)
  from truncated_log_accepted [OF this] show ?thesis by simp
qed

end
