(* ===== verification/StateTransition.thy ===== *)
theory StateTransition
  imports PeerGates AuditLog
begin

text \<open>
  \<open>orchestrator/state_transition_manager.py\<close>: the decision pipeline over the gates, with its
  replay cache, watermarks, per-peer reorder buffers and audit log.  Exceptions of the audit
  log propagate with the state changes made before them.  The per-peer lock serialises
  \<open>evaluate_observation\<close>, whose body has no suspension point, so one call is one step.
\<close>

section \<open>State\<close>

datatype decision_type =
  Approved | Equivocation | InsufficientQuorum | StaleDecision | Duplicate | SybilFlagged | Buffered

fun decision_value :: "decision_type \<Rightarrow> string" where
  "decision_value Approved = ''approved''"
| "decision_value Equivocation = ''equivocation''"
| "decision_value InsufficientQuorum = ''insufficient_quorum''"
| "decision_value StaleDecision = ''stale''"
| "decision_value Duplicate = ''duplicate''"
| "decision_value SybilFlagged = ''sybil_flagged''"
| "decision_value Buffered = ''buffered''"

datatype sybil_signal = Strong | Weak | NoSignal

datatype reason =
    DuplicateObservation | OutOfOrder | TtlExpired | TtlExpiredWaiting | ConflictBuffered
  | RetryBuffered | BufferFull | BufferedAhead | BufferedExpired
  | Contradictions nat | QuorumMissing | WeightTooLow rat

record quorum_vote =
  qv_passes :: bool
  qv_witness_count :: nat
  qv_unique_observers :: nat
  qv_unique_buckets :: nat
  qv_witness_ids :: "string list"
  qv_witness_buckets :: "string list"

record weighted_quorum =
  wq_passes :: bool
  wq_score :: rat
  wq_threshold :: rat
  wq_by_observer :: "(string, rat) dict"

record sybil_correlation =
  sc_signal :: sybil_signal
  sc_pairs :: "(string \<times> string) list"
  sc_bucket_index :: nat
  sc_overlap :: nat

record st_result =
  accepted :: bool
  decision :: decision_type
  res_peer_id :: string
  res_epoch :: int
  res_observer_id :: string
  rejection :: "reason option"
  evidences :: "equivocation_evidence list"
  vote :: "quorum_vote option"
  weighted :: "weighted_quorum option"
  sybil :: "sybil_correlation option"
  audited :: "audit_entry option"
  watermark_advanced :: bool

record stm_config =
  local_id :: string
  weighted_quorum_threshold :: rat
  sybil_proximity_bits :: nat
  max_cache_size :: nat
  reorder_buffer_max :: nat

text \<open>The clock, the key derivation, \<open>ipaddress\<close>, the signer, and whether the durable write of
  the n-th audit entry succeeds.\<close>

record stm_env =
  t_now :: rat
  peer_keys :: peer_key
  ip_library :: ip_lib
  crypt :: crypto
  write_succeeds :: "nat \<Rightarrow> bool"

type_synonym buffered = "(int \<times> int, peer_observation \<times> string) dict"

record stm =
  equiv_log :: equivocation_log
  k_bucket :: k_bucket_table
  audit :: audit_log
  reputation :: reputation_ledger
  last_applied :: "(string, int \<times> int) dict"
  seen :: "(string, unit) dict"
  reorder_bufs :: "(string, buffered) dict"

definition touch_cache :: "nat \<Rightarrow> 'k \<Rightarrow> 'v \<Rightarrow> ('k, 'v) dict \<Rightarrow> ('k, 'v) dict" where
  "touch_cache limit k v c =
     (let c' = AList.delete k c @ [(k, v)] in if limit < length c' then tl c' else c')"

definition dedup_key :: "obs_fields \<Rightarrow> string" where
  "dedup_key f =
     peer_id f @ '':'' @ show_int (epoch f) @ '':'' @ show_int (sequence f) @ '':'' @ observer_id f"

section \<open>Gates\<close>

definition build_quorum_vote :: "ip_lib \<Rightarrow> peer_observation \<Rightarrow> bool \<Rightarrow> quorum_vote" where
  "build_quorum_vote ip obs passes =
     (let ids = map (\<lambda>w. observer_id (obs_of w)) (witness_set obs);
          buckets = map (\<lambda>w. provenance_bucket ip (observer_provenance (obs_of w))) (witness_set obs)
      in \<lparr>qv_passes = passes, qv_witness_count = length (witness_set obs),
          qv_unique_observers = card (set ids), qv_unique_buckets = card (set buckets),
          qv_witness_ids = ids, qv_witness_buckets = buckets\<rparr>)"

definition weight_votes ::
  "stm_config \<Rightarrow> reputation_ledger \<Rightarrow> peer_observation \<Rightarrow> quorum_vote \<Rightarrow> weighted_quorum" where
  "weight_votes cfg rep obs qv =
     (let by_bucket = fold (\<lambda>(w, bucket) d.
              AList.update bucket
                (max (dict_get d bucket 0) (reputation_weight rep (observer_id (obs_of w)))) d)
            (zip (witness_set obs) (qv_witness_buckets qv)) [];
          total_weight = sum_list (map snd by_bucket);
          by_observer = fold (\<lambda>w d. AList.update (observer_id (obs_of w))
              (reputation_weight rep (observer_id (obs_of w))) d) (witness_set obs) []
      in \<lparr>wq_passes = (total_weight \<ge> weighted_quorum_threshold cfg), wq_score = total_weight,
          wq_threshold = weighted_quorum_threshold cfg, wq_by_observer = by_observer\<rparr>)"

text \<open>The pairs \<open>(i, j)\<close> with \<open>i < j\<close> of a list, in the order of the nested loops.\<close>

fun later_pairs :: "'a list \<Rightarrow> ('a \<times> 'a) list" where
  "later_pairs [] = []"
| "later_pairs (x # xs) = map (\<lambda>y. (x, y)) xs @ later_pairs xs"

definition check_sybil_correlation ::
  "stm_config \<Rightarrow> peer_key \<Rightarrow> k_bucket_table \<Rightarrow> peer_observation \<Rightarrow> sybil_correlation" where
  "check_sybil_correlation cfg key kb obs =
     (let pid = peer_id (obs_of obs);
          witness_ids = map (\<lambda>w. peer_id (obs_of w)) (witness_set obs);
          bits = sybil_proximity_bits cfg;
          near_peer = map (\<lambda>w. (pid, w)) (filter (\<lambda>w. is_correlated key pid w bits) witness_ids);
          near_each_other = filter (\<lambda>(a, b). is_correlated key a b bits) (later_pairs witness_ids);
          pairs = near_peer @ near_each_other;
          index = bucket_for key kb pid;
          overlap = filter (\<lambda>p. p \<in> set witness_ids) (peers_in_bucket kb index)
      in \<lparr>sc_signal = (if 2 \<le> length pairs \<or> 2 \<le> length overlap then Strong
                       else if pairs \<noteq> [] \<or> overlap \<noteq> [] then Weak else NoSignal),
          sc_pairs = pairs, sc_bucket_index = index, sc_overlap = length overlap\<rparr>)"

section \<open>Decisions\<close>

definition base_result :: "peer_observation \<Rightarrow> bool \<Rightarrow> decision_type \<Rightarrow> reason option \<Rightarrow> st_result" where
  "base_result obs acc dec why =
     \<lparr>accepted = acc, decision = dec, res_peer_id = peer_id (obs_of obs),
      res_epoch = epoch (obs_of obs), res_observer_id = observer_id (obs_of obs), rejection = why,
      evidences = [], vote = None, weighted = None, sybil = None, audited = None,
      watermark_advanced = False\<rparr>"

text \<open>\<open>self._audit_log.append\<close> on the manager's state.\<close>

definition audit_commit ::
  "stm_env \<Rightarrow> stm \<Rightarrow> string \<Rightarrow> string \<Rightarrow> string \<Rightarrow> string list \<Rightarrow> audit_entry res \<times> stm" where
  "audit_commit env s pid old new ws =
     (case audit_append (crypt env) (write_succeeds env (length (entries (audit s)))) (t_now env)
             (audit s) pid old new ws of
        (r, l) \<Rightarrow> (r, s\<lparr>audit := l\<rparr>))"

definition reject ::
  "stm_env \<Rightarrow> stm \<Rightarrow> peer_observation \<Rightarrow> string \<Rightarrow> st_result \<Rightarrow> st_result res \<times> stm" where
  "reject env s obs old_status result =
     (case audit_commit env s (peer_id (obs_of obs)) old_status (decision_value (decision result)) [] of
        (Raise e, s') \<Rightarrow> (Raise e, s')
      | (Ret entry, s') \<Rightarrow> (Ret (result\<lparr>audited := Some entry\<rparr>), s'))"

definition apply_observation ::
  "stm_env \<Rightarrow> stm_config \<Rightarrow> stm \<Rightarrow> peer_observation \<Rightarrow> string \<Rightarrow> st_result res \<times> stm" where
  "apply_observation env cfg s obs old_status =
     (case record_observation (t_now env) (obs_of obs) (equiv_log s) of (evs, el) \<Rightarrow>
       (let s1 = s\<lparr>equiv_log := el\<rparr> in
        if evs \<noteq> []
        then reject env (s1\<lparr>reputation := record_equivocation (observer_id (obs_of obs)) (reputation s1)\<rparr>)
               obs old_status
               ((base_result obs False Equivocation (Some (Contradictions (length evs))))\<lparr>evidences := evs\<rparr>)
        else
          (let passes = validate_witness_quorum (ip_library env) obs;
               qv = build_quorum_vote (ip_library env) obs passes in
           if \<not> passes
           then reject env s1 obs old_status
                  ((base_result obs False InsufficientQuorum (Some QuorumMissing))\<lparr>vote := Some qv\<rparr>)
           else
             (let wq = weight_votes cfg (reputation s1) obs qv in
              if \<not> wq_passes wq
              then reject env s1 obs old_status
                     ((base_result obs False InsufficientQuorum (Some (WeightTooLow (wq_score wq))))
                        \<lparr>vote := Some qv, weighted := Some wq\<rparr>)
              else
                (let sc = check_sybil_correlation cfg (peer_keys env) (k_bucket s1) obs;
                     dec = (if sc_signal sc \<in> {Strong, Weak} then SybilFlagged else Approved) in
                 case audit_commit env s1 (peer_id (obs_of obs)) old_status
                        (observation_type_value (observation_type (obs_of obs)))
                        (map fst (wq_by_observer wq)) of
                   (Raise e, s2) \<Rightarrow> (Raise e, s2)
                 | (Ret entry, s2) \<Rightarrow>
                     (Ret ((base_result obs True dec None)
                             \<lparr>vote := Some qv, weighted := Some wq, sybil := Some sc, audited := Some entry\<rparr>),
                      s2\<lparr>seen := touch_cache (max_cache_size cfg) (dedup_key (obs_of obs)) () (seen s2),
                         last_applied := touch_cache (max_cache_size cfg) (peer_id (obs_of obs))
                           (epoch (obs_of obs), sequence (obs_of obs)) (last_applied s2),
                         k_bucket := kb_update (peer_keys env) (peer_id (obs_of obs))
                           (timestamp (obs_of obs)) (k_bucket s2)\<rparr>))))))"

definition buffer_observation ::
  "stm_env \<Rightarrow> stm_config \<Rightarrow> stm \<Rightarrow> peer_observation \<Rightarrow> string \<Rightarrow> st_result res \<times> stm" where
  "buffer_observation env cfg s obs old_status =
     (if is_stale (t_now env) (obs_of obs)
      then reject env s obs old_status (base_result obs False StaleDecision (Some TtlExpiredWaiting))
      else
        (let pid = peer_id (obs_of obs);
             buffer = dict_get (reorder_bufs s) pid [];
             key = (epoch (obs_of obs), sequence (obs_of obs)) in
         case map_of buffer key of
           Some (existing, _) \<Rightarrow>
             if to_dict existing \<noteq> to_dict obs
             then reject env s obs old_status (base_result obs False Duplicate (Some ConflictBuffered))
             else (Ret (base_result obs False Buffered (Some RetryBuffered)), s)
         | None \<Rightarrow>
             if reorder_buffer_max cfg \<le> length buffer
             then reject env s obs old_status (base_result obs False StaleDecision (Some BufferFull))
             else (Ret (base_result obs False Buffered (Some BufferedAhead)),
                   s\<lparr>reorder_bufs := touch_cache (max_cache_size cfg) pid
                       (buffer @ [(key, (obs, old_status))]) (reorder_bufs s)\<rparr>)))"

text \<open>
  The flush loop.  \<open>buf\<close> is the peer's buffer, popped in place; \<open>put_buffer\<close> is the state that
  holds it, \<open>drop_if_empty\<close> the loop's epilogue.
\<close>

definition put_buffer :: "string \<Rightarrow> buffered \<Rightarrow> stm \<Rightarrow> stm" where
  "put_buffer pid buf s = s\<lparr>reorder_bufs := AList.update pid buf (reorder_bufs s)\<rparr>"

definition drop_if_empty :: "string \<Rightarrow> buffered \<Rightarrow> stm \<Rightarrow> stm" where
  "drop_if_empty pid buf s =
     (if buf = [] then s\<lparr>reorder_bufs := AList.delete pid (reorder_bufs s)\<rparr> else put_buffer pid buf s)"

function flush_loop ::
  "stm_env \<Rightarrow> stm_config \<Rightarrow> string \<Rightarrow> buffered \<Rightarrow> stm \<Rightarrow> st_result list \<Rightarrow> st_result list res \<times> stm" where
  "flush_loop env cfg pid buf s flushed =
     (case map_of (last_applied s) pid of
        None \<Rightarrow> (Ret flushed, drop_if_empty pid buf s)
      | Some (last_epoch, last_seq) \<Rightarrow>
          (case map_of buf (last_epoch, last_seq + 1) of
             None \<Rightarrow> (Ret flushed, drop_if_empty pid buf s)
           | Some (bobs, bold) \<Rightarrow>
               (let buf' = AList.delete (last_epoch, last_seq + 1) buf;
                    mark = (epoch (obs_of bobs), sequence (obs_of bobs));
                    dk = dedup_key (obs_of bobs) in
                if is_stale (t_now env) (obs_of bobs)
                then (case reject env s bobs bold (base_result bobs False StaleDecision (Some BufferedExpired)) of
                        (Raise e, s') \<Rightarrow> (Raise e, put_buffer pid buf' s')
                      | (Ret r, s') \<Rightarrow> (Ret (flushed @ [r]), drop_if_empty pid buf' s'))
                else if map_of (seen s) dk \<noteq> None
                then flush_loop env cfg pid buf'
                       (s\<lparr>last_applied := touch_cache (max_cache_size cfg) pid mark (last_applied s)\<rparr>) flushed
                else (case apply_observation env cfg s bobs bold of
                        (Raise e, s') \<Rightarrow>
                          (Raise e, put_buffer pid (((last_epoch, last_seq + 1), (bobs, bold)) # buf') s')
                      | (Ret r, s') \<Rightarrow>
                          if map_of (last_applied s') pid = map_of (last_applied s) pid
                          then flush_loop env cfg pid buf'
                                 (s'\<lparr>seen := touch_cache (max_cache_size cfg) dk () (seen s'),
                                     last_applied := touch_cache (max_cache_size cfg) pid mark (last_applied s')\<rparr>)
                                 (flushed @ [r\<lparr>watermark_advanced := True\<rparr>])
                          else flush_loop env cfg pid buf' s' (flushed @ [r])))))"
  by pat_completeness auto
termination
proof (relation "measure (\<lambda>(env, cfg, pid, buf, s, flushed). length buf)")
qed (auto dest!: map_of_SomeD intro!: length_delete_less simp: image_iff simp del: map_of_eq_Some_iff, force+)

definition flush_reorder_buffer ::
  "stm_env \<Rightarrow> stm_config \<Rightarrow> string \<Rightarrow> stm \<Rightarrow> st_result list res \<times> stm" where
  "flush_reorder_buffer env cfg pid s =
     (case map_of (reorder_bufs s) pid of
        None \<Rightarrow> (Ret [], s)
      | Some buf \<Rightarrow> if buf = [] then (Ret [], s) else flush_loop env cfg pid buf s [])"

definition evaluate_observation ::
  "stm_env \<Rightarrow> stm_config \<Rightarrow> stm \<Rightarrow> peer_observation \<Rightarrow> string
   \<Rightarrow> (st_result \<times> st_result list) res \<times> stm" where
  "evaluate_observation env cfg s obs old_status =
     (let f = obs_of obs;
          single = (\<lambda>(r, s'). (res_bind r (\<lambda>x. Ret (x, [])), s')) in
      if map_of (seen s) (dedup_key f) \<noteq> None
      then single (reject env s obs old_status (base_result obs False Duplicate (Some DuplicateObservation)))
      else if (case map_of (last_applied s) (peer_id f) of
                 None \<Rightarrow> False
               | Some (le, ls) \<Rightarrow> epoch f < le \<or> (epoch f = le \<and> sequence f \<le> ls))
      then single (reject env s obs old_status (base_result obs False StaleDecision (Some OutOfOrder)))
      else if (case map_of (last_applied s) (peer_id f) of
                 None \<Rightarrow> False | Some (le, ls) \<Rightarrow> epoch f = le \<and> sequence f > ls + 1)
      then single (buffer_observation env cfg s obs old_status)
      else if is_stale (t_now env) f
      then single (reject env s obs old_status (base_result obs False StaleDecision (Some TtlExpired)))
      else (case apply_observation env cfg s obs old_status of
              (Raise e, s1) \<Rightarrow> (Raise e, s1)
            | (Ret r, s1) \<Rightarrow>
                (case flush_reorder_buffer env cfg (peer_id f) s1 of
                   (Raise e, s2) \<Rightarrow> (Raise e, s2)
                 | (Ret flushed, s2) \<Rightarrow> (Ret (r, flushed), s2))))"

section \<open>The bounded caches\<close>

text \<open>
  What the manager relies on from its least-recently-used caches: they never exceed their bound,
  what was just put is there, and any other key is either as before or evicted.
\<close>

definition fits :: "nat \<Rightarrow> ('k, 'v) dict \<Rightarrow> bool" where
  "fits limit c \<longleftrightarrow> dict_ok c \<and> length c \<le> limit"

locale lru_cache =
  fixes limit :: nat
    and put :: "'k \<Rightarrow> 'v \<Rightarrow> ('k, 'v) dict \<Rightarrow> ('k, 'v) dict"
  assumes put_dict: "dict_ok c \<Longrightarrow> dict_ok (put k v c)"
    and put_bound: "dict_ok c \<Longrightarrow> length c \<le> limit \<Longrightarrow> length (put k v c) \<le> limit"
    and put_same: "0 < limit \<Longrightarrow> dict_ok c \<Longrightarrow> map_of (put k v c) k = Some v"
    and put_other: "dict_ok c \<Longrightarrow> k' \<noteq> k \<Longrightarrow> map_of (put k v c) k' = None \<or> map_of (put k v c) k' = map_of c k'"
begin

lemma fits_put: "fits limit c \<Longrightarrow> fits limit (put k v c)"
  by (simp add: fits_def put_dict put_bound)

lemma fits_puts: "fits limit c \<Longrightarrow> fits limit (fold (\<lambda>(k, v). put k v) kvs c)"
  by (induction kvs arbitrary: c) (auto simp: fits_put)

lemma put_value: "fits limit c \<Longrightarrow> map_of (put k v c) k' = Some w \<Longrightarrow> 0 < limit \<Longrightarrow>
   w = v \<and> k' = k \<or> map_of c k' = Some w"
  using put_same [of c k v] put_other [of c k' k v] by (cases "k' = k") (auto simp: fits_def)

end

lemma map_of_tl: "dict_ok c \<Longrightarrow> map_of (tl c) k = None \<or> map_of (tl c) k = map_of c k"
  by (cases c) (auto simp: map_of_eq_None_iff)

lemma delete_snoc_dict_ok: "dict_ok c \<Longrightarrow> dict_ok (AList.delete k c @ [(k, v)])"
  by (simp add: AList.delete_eq distinct_map_filter) auto

lemma map_of_delete_snoc:
  "map_of (AList.delete k c @ [(k, v)]) k' = (if k' = k then Some v else map_of c k')"
  by (simp add: map_add_def map_of_delete split: option.splits)

lemma length_delete_snoc:
  "dict_ok c \<Longrightarrow> length (AList.delete k c @ [(k, v)]) \<le> Suc (length c)"
  by (simp add: AList.delete_eq)

lemma touch_same:
  assumes "0 < n"
  shows "map_of (touch_cache n k v c) k = Some v"
proof (cases "n < length (AList.delete k c @ [(k, v)])")
  case True
  with assms have "AList.delete k c \<noteq> []" by auto
  then have t: "touch_cache n k v c = tl (AList.delete k c) @ [(k, v)]"
    using True by (simp add: touch_cache_def)
  have "k \<notin> fst ` set (tl (AList.delete k c))" using \<open>AList.delete k c \<noteq> []\<close> by (auto simp: AList.delete_eq dest: list.set_sel(2))
  then have "map_of (tl (AList.delete k c)) k = None" by (simp add: map_of_eq_None_iff)
  with t show ?thesis by (simp add: map_add_def)
next
  case False
  then show ?thesis by (simp add: touch_cache_def map_add_def map_of_delete)
qed

interpretation lru: lru_cache n "touch_cache n"
proof unfold_locales
  fix c :: "('a, 'b) dict" and k k' v
  show "dict_ok (touch_cache n k v c)" if "dict_ok c"
    using delete_snoc_dict_ok [OF that, of k v] by (auto simp: touch_cache_def Let_def map_tl distinct_tl)
  show "length (touch_cache n k v c) \<le> n" if "dict_ok c" "length c \<le> n"
    using length_delete_snoc [OF that(1), of k v] that(2) by (auto simp: touch_cache_def Let_def)
  show "map_of (touch_cache n k v c) k = Some v" if "0 < n" using that by (rule touch_same)
  show "map_of (touch_cache n k v c) k' = None \<or> map_of (touch_cache n k v c) k' = map_of c k'"
    if "dict_ok c" "k' \<noteq> k"
    using map_of_tl [OF delete_snoc_dict_ok [OF that(1), of k v], of k'] map_of_delete_snoc [of k c v k'] that
    by (auto simp: touch_cache_def Let_def)
qed

lemma touch_value:
  assumes "fits n c" and "map_of (touch_cache n k v c) k' = Some w"
  shows "k' = k \<and> w = v \<or> map_of c k' = Some w"
proof -
  let ?c = "AList.delete k c @ [(k, v)]"
  have "dict_ok ?c" using assms(1) by (simp add: fits_def delete_snoc_dict_ok del: map_append)
  with assms(2) map_of_tl [of ?c k'] have "map_of ?c k' = Some w"
    unfolding touch_cache_def Let_def by (auto split: if_splits simp del: map_of_eq_Some_iff map_of_append)
  then show ?thesis unfolding map_of_delete_snoc by (auto split: if_splits)
qed

section \<open>Shapes of the decisions\<close>

lemma commit_cases:
  assumes "audit_commit env s pid old new ws = (r, s')"
    and "signer_verified (crypt env)" and "log_ok (crypt env) (audit s)"
  obtains (failed) e where "r = Raise e" and "s' = s"
  | (logged) entry l where "r = Ret entry" and "s' = s\<lparr>audit := l\<rparr>"
      and "log_ok (crypt env) l" and "entries l = entries (audit s) @ [entry]"
      and "ae_new_status (ae_content entry) = new" and "ae_peer_id (ae_content entry) = pid"
      and "ae_old_status (ae_content entry) = old"
proof -
  obtain r1 l where a: "audit_append (crypt env) (write_succeeds env (length (entries (audit s)))) (t_now env)
      (audit s) pid old new ws = (r1, l)" by fastforce
  with assms(1) have rs: "r = r1" "s' = s\<lparr>audit := l\<rparr>" by (simp_all add: audit_commit_def)
  from log_ok_append [OF assms(2,3) a] a rs audit_append_entry show thesis
    by (cases r1) (auto intro: that)
qed

lemma reject_cases:
  assumes "reject env s obs old result = (r, s')"
    and "signer_verified (crypt env)" and "log_ok (crypt env) (audit s)"
  obtains (failed) e where "r = Raise e" and "s' = s"
  | (logged) entry l where "r = Ret (result\<lparr>audited := Some entry\<rparr>)" and "s' = s\<lparr>audit := l\<rparr>"
      and "log_ok (crypt env) l" and "entries l = entries (audit s) @ [entry]"
      and "ae_new_status (ae_content entry) = decision_value (decision result)"
      and "ae_peer_id (ae_content entry) = peer_id (obs_of obs)"
proof -
  obtain r1 s1 where c: "audit_commit env s (peer_id (obs_of obs)) old (decision_value (decision result)) [] = (r1, s1)"
    by fastforce
  from c assms(2,3) show thesis
  proof (cases rule: commit_cases)
    case (failed e)
    with c assms(1) show thesis by (intro that(1)) (auto simp: reject_def)
  next
    case (logged entry l)
    with c assms(1) show thesis by (intro that(2) [of entry l]) (auto simp: reject_def)
  qed
qed

text \<open>The outcomes of \<open>_apply_observation\<close>: an exception, a logged rejection, or a commit.\<close>

lemma apply_cases:
  assumes "apply_observation env cfg s obs old = (r, s')"
    and "signer_verified (crypt env)" and "log_ok (crypt env) (audit s)"
  obtains (failed) e rep where "r = Raise e"
      and "s' = s\<lparr>equiv_log := snd (record_observation (t_now env) (obs_of obs) (equiv_log s)), reputation := rep\<rparr>"
  | (rejected) x entry l rep where "r = Ret x" and "\<not> accepted x"
      and "s' = s\<lparr>equiv_log := snd (record_observation (t_now env) (obs_of obs) (equiv_log s)), reputation := rep, audit := l\<rparr>"
      and "log_ok (crypt env) l" and "entries l = entries (audit s) @ [entry]"
      and "audited x = Some entry" and "ae_new_status (ae_content entry) = decision_value (decision x)"
      and "decision x \<in> {Equivocation, InsufficientQuorum}"
  | (committed) x entry l qv wq sc where "r = Ret x" and "accepted x"
      and "s' = s\<lparr>equiv_log := snd (record_observation (t_now env) (obs_of obs) (equiv_log s)), audit := l,
                  seen := touch_cache (max_cache_size cfg) (dedup_key (obs_of obs)) () (seen s),
                  last_applied := touch_cache (max_cache_size cfg) (peer_id (obs_of obs))
                           (epoch (obs_of obs), sequence (obs_of obs)) (last_applied s),
                  k_bucket := kb_update (peer_keys env) (peer_id (obs_of obs)) (timestamp (obs_of obs)) (k_bucket s)\<rparr>"
      and "log_ok (crypt env) l" and "entries l = entries (audit s) @ [entry]"
      and "fst (record_observation (t_now env) (obs_of obs) (equiv_log s)) = []"
      and "validate_witness_quorum (ip_library env) obs"
      and "qv = build_quorum_vote (ip_library env) obs True"
      and "wq = weight_votes cfg (reputation s) obs qv" and "wq_passes wq"
      and "sc = check_sybil_correlation cfg (peer_keys env) (k_bucket s) obs"
      and "x = (base_result obs True (if sc_signal sc \<in> {Strong, Weak} then SybilFlagged else Approved) None)
             \<lparr>vote := Some qv, weighted := Some wq, sybil := Some sc, audited := Some entry\<rparr>"
      and "ae_new_status (ae_content entry) = observation_type_value (observation_type (obs_of obs))"
      and "ae_peer_id (ae_content entry) = peer_id (obs_of obs)"
proof -
  note out_failed = that(1) and out_rejected = that(2) and out_committed = that(3)
  obtain evs el where ro: "record_observation (t_now env) (obs_of obs) (equiv_log s) = (evs, el)" by fastforce
  define s1 where "s1 = s\<lparr>equiv_log := el\<rparr>"
  define qv where "qv = build_quorum_vote (ip_library env) obs True"
  define wq where "wq = weight_votes cfg (reputation s1) obs qv"
  define sc where "sc = check_sybil_correlation cfg (peer_keys env) (k_bucket s1) obs"
  have ok1: "log_ok (crypt env) (audit (s1\<lparr>reputation := rep\<rparr>))" for rep using assms(3) by (simp add: s1_def)
  have rej: thesis
    if "reject env (s1\<lparr>reputation := rep\<rparr>) obs old res = (r, s')" "\<not> accepted res"
      "decision res \<in> {Equivocation, InsufficientQuorum}" for rep res
    using that(1) assms(2) ok1
  proof (cases rule: reject_cases)
    case (failed e)
    with ro show thesis by (intro out_failed [of e rep]) (simp_all add: s1_def)
  next
    case (logged entry l)
    with ro that(2,3) show thesis by (intro out_rejected [where x = "res\<lparr>audited := Some entry\<rparr>" and rep = rep and l = l and entry = entry]) (auto simp: s1_def)
  qed
  consider (equiv) "evs \<noteq> []" | (quorum) "evs = []" "\<not> validate_witness_quorum (ip_library env) obs"
    | (weight) "evs = []" "validate_witness_quorum (ip_library env) obs" "\<not> wq_passes wq"
    | (commit) "evs = []" "validate_witness_quorum (ip_library env) obs" "wq_passes wq" by blast
  then show thesis
  proof cases
    case equiv
    with assms(1) ro show thesis by (intro rej) (auto simp: apply_observation_def s1_def base_result_def)
  next
    case quorum
    with assms(1) ro show thesis
      by (intro rej [of "reputation s"]) (auto simp: apply_observation_def s1_def base_result_def)
  next
    case weight
    with assms(1) ro show thesis
      by (intro rej [of "reputation s"]) (auto simp: apply_observation_def s1_def base_result_def Let_def wq_def qv_def)
  next
    case commit
    obtain r2 s2 where c: "audit_commit env s1 (peer_id (obs_of obs)) old
        (observation_type_value (observation_type (obs_of obs))) (map fst (wq_by_observer wq)) = (r2, s2)" by fastforce
    have "log_ok (crypt env) (audit s1)" using assms(3) by (simp add: s1_def)
    with c assms(2) show thesis
    proof (cases rule: commit_cases)
      case (failed e)
      with commit assms(1) ro c show thesis
        by (intro out_failed [of e "reputation s"]) (auto simp: apply_observation_def Let_def wq_def qv_def s1_def)
    next
      case (logged entry l)
      with commit assms(1) ro c show thesis
        by (intro out_committed [where l = l and entry = entry and qv = qv and wq = wq and sc = sc])
          (auto simp: apply_observation_def Let_def wq_def qv_def sc_def s1_def base_result_def)
    qed
  qed
qed


section \<open>Invariant\<close>

definition buffer_ok :: "stm_config \<Rightarrow> string \<Rightarrow> buffered \<Rightarrow> bool" where
  "buffer_ok cfg pid buf \<longleftrightarrow> dict_ok buf \<and> length buf \<le> reorder_buffer_max cfg \<and>
     (\<forall>k bobs old. map_of buf k = Some (bobs, old) \<longrightarrow>
        peer_id (obs_of bobs) = pid \<and> k = (epoch (obs_of bobs), sequence (obs_of bobs)))"

definition stm_ok :: "crypto \<Rightarrow> stm_config \<Rightarrow> stm \<Rightarrow> bool" where
  "stm_ok cr cfg s \<longleftrightarrow> signer_verified cr \<and> log_ok cr (audit s) \<and> equivocation_ok (equiv_log s) \<and>
     kb_ok (k_bucket s) \<and> fits (max_cache_size cfg) (last_applied s) \<and> fits (max_cache_size cfg) (seen s) \<and>
     fits (max_cache_size cfg) (reorder_bufs s) \<and>
     (\<forall>pid buf. map_of (reorder_bufs s) pid = Some buf \<longrightarrow> buffer_ok cfg pid buf)"

lemmas stm_ok_parts = stm_ok_def equivocation_ok_record kb_ok_update lru.fits_put

lemma stm_okD:
  assumes "stm_ok cr cfg s"
  shows "signer_verified cr" "log_ok cr (audit s)" "fits (max_cache_size cfg) (last_applied s)"
    "fits (max_cache_size cfg) (seen s)" "fits (max_cache_size cfg) (reorder_bufs s)"
    "map_of (reorder_bufs s) pid = Some buf \<Longrightarrow> buffer_ok cfg pid buf"
  using assms by (simp_all add: stm_ok_def)

lemma reject_ok:
  assumes "reject env s obs old result = (r, s')" and "stm_ok (crypt env) cfg s"
  shows "stm_ok (crypt env) cfg s' \<and> reorder_bufs s' = reorder_bufs s \<and> last_applied s' = last_applied s \<and>
    (\<exists>suffix. entries (audit s') = entries (audit s) @ suffix)"
  using assms(1) stm_okD(1,2) [OF assms(2)]
  by (cases rule: reject_cases) (use assms(2) in \<open>auto simp: stm_ok_def\<close>)

lemma apply_ok:
  assumes "apply_observation env cfg s obs old = (r, s')" and "stm_ok (crypt env) cfg s"
  shows "stm_ok (crypt env) cfg s' \<and> reorder_bufs s' = reorder_bufs s \<and>
    (\<exists>suffix. entries (audit s') = entries (audit s) @ suffix)"
  using assms(1) stm_okD(1,2) [OF assms(2)]
proof (cases rule: apply_cases)
  case (failed e rep)
  with assms(2) show ?thesis by (auto simp: stm_ok_parts)
next
  case (rejected x entry l rep)
  with assms(2) show ?thesis by (auto simp: stm_ok_parts)
next
  case (committed x entry l qv wq sc)
  with assms(2) show ?thesis by (auto simp: stm_ok_parts)
qed

lemma apply_watermark:
  assumes "apply_observation env cfg s obs old = (r, s')" and "stm_ok (crypt env) cfg s"
  shows "last_applied s' =
    (if \<exists>x. r = Ret x \<and> accepted x
     then touch_cache (max_cache_size cfg) (peer_id (obs_of obs)) (epoch (obs_of obs), sequence (obs_of obs)) (last_applied s)
     else last_applied s)"
  using assms(1) stm_okD(1,2) [OF assms(2)] by (cases rule: apply_cases) auto

lemma watermark_limit:
  assumes "stm_ok cr cfg s" and "map_of (last_applied s) pid = Some m"
  shows "0 < max_cache_size cfg"
proof -
  have "last_applied s \<noteq> []" using assms(2) by auto
  with stm_okD(3) [OF assms(1)] show ?thesis by (cases "max_cache_size cfg") (auto simp: fits_def)
qed

lemma put_buffer_ok:
  assumes "stm_ok cr cfg s" and "buffer_ok cfg pid buf" and "map_of (reorder_bufs s) pid \<noteq> None"
  shows "stm_ok cr cfg (put_buffer pid buf s)"
  using assms by (auto simp: stm_ok_def put_buffer_def fits_def length_update map_of_update
      simp del: map_of_eq_Some_iff)

lemma drop_if_empty_ok:
  assumes "stm_ok cr cfg s" and "buffer_ok cfg pid buf" and "map_of (reorder_bufs s) pid \<noteq> None"
  shows "stm_ok cr cfg (drop_if_empty pid buf s)"
proof (cases "buf = []")
  case True
  have "length (AList.delete pid (reorder_bufs s)) \<le> length (reorder_bufs s)" by (simp add: length_delete_le)
  with True assms(1) show ?thesis
    by (auto simp: stm_ok_def drop_if_empty_def fits_def map_of_delete simp del: map_of_eq_Some_iff)
qed (use put_buffer_ok [OF assms] in \<open>simp add: drop_if_empty_def\<close>)

lemma drop_if_empty_view:
  "dict_get (reorder_bufs (drop_if_empty pid buf s)) pid [] = buf"
  by (simp add: drop_if_empty_def put_buffer_def dict_get_def map_of_update map_of_delete)

lemma buffer_ok_delete: "buffer_ok cfg pid buf \<Longrightarrow> buffer_ok cfg pid (AList.delete k buf)"
  using length_delete_le [of k buf] by (auto simp: buffer_ok_def map_of_delete simp del: map_of_eq_Some_iff split: if_splits)

lemma buffer_ok_restore:
  assumes "buffer_ok cfg pid buf" and "map_of buf k = Some v"
  shows "buffer_ok cfg pid ((k, v) # AList.delete k buf)"
proof -
  have "k \<in> fst ` set buf" using assms(2) by (force dest: map_of_SomeD simp del: map_of_eq_Some_iff)
  then have "length (AList.delete k buf) < length buf" by (rule length_delete_less)
  moreover have "k \<notin> fst ` set (AList.delete k buf)" by (auto simp: AList.delete_eq)
  moreover have "map_of ((k, v) # AList.delete k buf) = map_of buf"
    using assms(2) by (auto simp: map_of_delete fun_eq_iff simp del: map_of_eq_Some_iff)
  ultimately show ?thesis
    using assms(1) unfolding buffer_ok_def by (simp del: map_of.simps map_of_eq_Some_iff)
qed

lemma buffer_ok_snoc:
  assumes "buffer_ok cfg pid buf" and "map_of buf k = None" and "length buf < reorder_buffer_max cfg"
    and "peer_id (obs_of bobs) = pid" and "k = (epoch (obs_of bobs), sequence (obs_of bobs))"
  shows "buffer_ok cfg pid (buf @ [(k, (bobs, old))])"
proof -
  have "map_of (buf @ [(k, (bobs, old))]) k' = (if k' = k then Some (bobs, old) else map_of buf k')" for k'
    using assms(2) by (simp add: map_add_def split: option.splits)
  then show ?thesis
    using assms unfolding buffer_ok_def map_of_eq_None_iff by (auto simp del: map_of_append map_of_eq_Some_iff)
qed

declare flush_loop.simps [simp del]

text \<open>One turn of the flush loop on the entry at the watermark.\<close>

lemma buffer_entry:
  assumes "buffer_ok cfg pid buf" and "map_of buf (e, q) = Some (bobs, old)"
  shows "peer_id (obs_of bobs) = pid" "epoch (obs_of bobs) = e" "sequence (obs_of bobs) = q"
  using assms unfolding buffer_ok_def by (auto simp del: map_of_eq_Some_iff)

lemma mark_ok:
  "stm_ok cr cfg s \<Longrightarrow> stm_ok cr cfg (s\<lparr>last_applied := touch_cache (max_cache_size cfg) pid m (last_applied s)\<rparr>)"
  by (simp add: stm_ok_parts)

lemma mark_seen_ok:
  "stm_ok cr cfg s \<Longrightarrow> stm_ok cr cfg (s\<lparr>seen := touch_cache (max_cache_size cfg) k () (seen s),
     last_applied := touch_cache (max_cache_size cfg) pid m (last_applied s)\<rparr>)"
  by (simp add: stm_ok_parts)

text \<open>
  What a decision vouches for, over the audit entries \<open>es\<close>: an accepted one passed every gate and
  is logged under the observed reachability; a rejected one is logged under its decision, and only
  a buffered one is not logged yet.
\<close>

definition decision_sound :: "stm_config \<Rightarrow> audit_entry list \<Rightarrow> st_result \<Rightarrow> bool" where
  "decision_sound cfg es x \<longleftrightarrow>
     (if accepted x
      then decision x \<in> {Approved, SybilFlagged} \<and> evidences x = [] \<and>
        (\<exists>qv. vote x = Some qv \<and> 2 \<le> qv_unique_observers qv \<and> 2 \<le> qv_unique_buckets qv) \<and>
        (\<exists>wq. weighted x = Some wq \<and> weighted_quorum_threshold cfg \<le> wq_score wq) \<and>
        (\<exists>en \<in> set es. audited x = Some en \<and> ae_peer_id (ae_content en) = res_peer_id x \<and>
           ae_new_status (ae_content en) \<in> {''REACHABLE'', ''UNREACHABLE''})
      else decision x \<notin> {Approved, SybilFlagged} \<and>
        (decision x \<noteq> Buffered \<longrightarrow>
           (\<exists>en \<in> set es. audited x = Some en \<and> ae_new_status (ae_content en) = decision_value (decision x))))"

lemma decision_sound_mono: "decision_sound cfg es x \<Longrightarrow> decision_sound cfg (es @ fs) x"
  unfolding decision_sound_def by auto

lemma decision_sound_flag [simp]: "decision_sound cfg es (x\<lparr>watermark_advanced := b\<rparr>) = decision_sound cfg es x"
  by (simp add: decision_sound_def)

lemma apply_sound:
  assumes "apply_observation env cfg s obs old = (Ret x, s')" and "stm_ok (crypt env) cfg s"
  shows "decision_sound cfg (entries (audit s')) x"
  using assms(1) stm_okD(1,2) [OF assms(2)]
proof (cases rule: apply_cases)
  case (rejected y entry l rep)
  then show ?thesis by (auto simp: decision_sound_def)
next
  case (committed y entry l qv wq sc)
  then have "weighted_quorum_threshold cfg \<le> wq_score wq" by (simp add: weight_votes_def Let_def)
  moreover have "2 \<le> qv_unique_observers qv \<and> 2 \<le> qv_unique_buckets qv"
    using committed by (auto simp: build_quorum_vote_def validate_witness_quorum_def Let_def not_less split: if_splits)
  moreover have "ae_new_status (ae_content entry) \<in> {''REACHABLE'', ''UNREACHABLE''}"
    using committed by (cases "observation_type (obs_of obs)") auto
  ultimately show ?thesis using committed by (auto simp: decision_sound_def base_result_def)
qed simp

lemma reject_sound:
  assumes "reject env s obs old res = (Ret x, s')" and "stm_ok (crypt env) cfg s"
    and "\<not> accepted res" and "decision res \<notin> {Approved, SybilFlagged}"
  shows "decision_sound cfg (entries (audit s')) x"
  using assms(1) stm_okD(1,2) [OF assms(2)]
  by (cases rule: reject_cases) (use assms(3,4) in \<open>auto simp: decision_sound_def\<close>)

lemma flush_found:
  assumes "map_of (last_applied s) pid = Some (e, q)" and "map_of buf (e, q + 1) = Some (bobs, bold)"
    and "epoch (obs_of bobs) = e" and "sequence (obs_of bobs) = q + 1"
  shows "flush_loop env cfg pid buf s flushed =
    (let buf' = AList.delete (e, q + 1) buf; dk = dedup_key (obs_of bobs) in
     if is_stale (t_now env) (obs_of bobs)
     then (case reject env s bobs bold (base_result bobs False StaleDecision (Some BufferedExpired)) of
             (Raise e, s') \<Rightarrow> (Raise e, put_buffer pid buf' s')
           | (Ret r, s') \<Rightarrow> (Ret (flushed @ [r]), drop_if_empty pid buf' s'))
     else if map_of (seen s) dk \<noteq> None
     then flush_loop env cfg pid buf'
            (s\<lparr>last_applied := touch_cache (max_cache_size cfg) pid (e, q + 1) (last_applied s)\<rparr>) flushed
     else (case apply_observation env cfg s bobs bold of
             (Raise x, s') \<Rightarrow> (Raise x, put_buffer pid (((e, q + 1), (bobs, bold)) # buf') s')
           | (Ret r, s') \<Rightarrow>
               if map_of (last_applied s') pid = map_of (last_applied s) pid
               then flush_loop env cfg pid buf'
                      (s'\<lparr>seen := touch_cache (max_cache_size cfg) dk () (seen s'),
                          last_applied := touch_cache (max_cache_size cfg) pid (e, q + 1) (last_applied s')\<rparr>)
                      (flushed @ [r\<lparr>watermark_advanced := True\<rparr>])
               else flush_loop env cfg pid buf' s' (flushed @ [r])))"
  by (subst flush_loop.simps) (simp only: assms option.case prod.case Let_def)

text \<open>
  The turns of the flush loop: stop at a gap, drop an expired entry, keep an entry whose
  processing raised, or consume the next entry and go on in a state \<open>t\<close>.
\<close>

lemma flush_cases:
  assumes "flush_loop env cfg pid buf s flushed = (r, s')"
    and "stm_ok (crypt env) cfg s" and "buffer_ok cfg pid buf"
  obtains (gap) "r = Ret flushed" and "s' = drop_if_empty pid buf s"
      and "\<And>e q. map_of (last_applied s) pid = Some (e, q) \<Longrightarrow> map_of buf (e, q + 1) = None"
  | (expired) e q t x where "map_of (last_applied s) pid = Some (e, q)" and "map_of buf (e, q + 1) \<noteq> None"
      and "stm_ok (crypt env) cfg t" and "reorder_bufs t = reorder_bufs s" and "last_applied t = last_applied s"
      and "\<exists>suffix. entries (audit t) = entries (audit s) @ suffix"
      and "r = Ret (flushed @ [x])" and "decision_sound cfg (entries (audit t)) x"
      and "s' = drop_if_empty pid (AList.delete (e, q + 1) buf) t"
  | (raised) e t buf' where "r = Raise e" and "stm_ok (crypt env) cfg t" and "reorder_bufs t = reorder_bufs s"
      and "\<exists>suffix. entries (audit t) = entries (audit s) @ suffix" and "last_applied t = last_applied s"
      and "buffer_ok cfg pid buf'" and "s' = put_buffer pid buf' t"
  | (turn) e q t fl where "map_of (last_applied s) pid = Some (e, q)" and "map_of buf (e, q + 1) \<noteq> None"
      and "flush_loop env cfg pid (AList.delete (e, q + 1) buf) t fl = (r, s')"
      and "stm_ok (crypt env) cfg t" and "reorder_bufs t = reorder_bufs s"
      and "\<exists>suffix. entries (audit t) = entries (audit s) @ suffix"
      and "last_applied t = touch_cache (max_cache_size cfg) pid (e, q + 1) (last_applied s)"
      and "fl = flushed \<or> (\<exists>x. fl = flushed @ [x] \<and> decision_sound cfg (entries (audit t)) x)"
proof (cases "\<exists>e q bobs bold. map_of (last_applied s) pid = Some (e, q) \<and> map_of buf (e, q + 1) = Some (bobs, bold)")
  case False
  then have "r = Ret flushed" "s' = drop_if_empty pid buf s"
    using assms(1) by (auto simp: flush_loop.simps [of env] split: option.splits prod.splits simp del: map_of_eq_Some_iff)
  with False show thesis by (intro gap) (auto simp del: map_of_eq_Some_iff not_None_eq simp: not_Some_eq [symmetric])
next
  case True
  then obtain e q bobs bold where w: "map_of (last_applied s) pid = Some (e, q)"
    and b: "map_of buf (e, q + 1) = Some (bobs, bold)" by blast
  note ent = buffer_entry [OF assms(3) b]
  have ne: "map_of buf (e, q + 1) \<noteq> None" using b by simp
  note limit = watermark_limit [OF assms(2) w]
  let ?n = "max_cache_size cfg" and ?dk = "dedup_key (obs_of bobs)"
  note unfolded = trans [OF sym [OF flush_found [OF w b ent(2,3)]] assms(1), unfolded Let_def]
  show thesis
  proof (cases "is_stale (t_now env) (obs_of bobs)")
    case stale: True
    obtain r0 t where rj: "reject env s bobs bold (base_result bobs False StaleDecision (Some BufferedExpired)) = (r0, t)"
      by fastforce
    show thesis
    proof (cases r0)
      case (Raise x)
      with unfolded stale rj reject_ok [OF rj assms(2)] buffer_ok_delete [OF assms(3)] show thesis
        by (intro raised [of x t "AList.delete (e, q + 1) buf"]) auto
    next
      case (Ret x)
      with unfolded stale rj w ne reject_ok [OF rj assms(2)] show thesis
        by (intro expired [of e q t x]) (auto intro!: reject_sound [OF _ assms(2)] simp: base_result_def)
    qed
  next
    case fresh: False
    show thesis
    proof (cases "map_of (seen s) ?dk = None")
      case False
      with unfolded fresh w ne assms(2) show thesis
        by (intro turn [of e q "s\<lparr>last_applied := touch_cache ?n pid (e, q + 1) (last_applied s)\<rparr>" flushed]) (auto intro: mark_ok simp: touch_same simp del: map_of_eq_Some_iff)
    next
      case unseen: True
      obtain r0 t where ap: "apply_observation env cfg s bobs bold = (r0, t)" by fastforce
      note aok = apply_ok [OF ap assms(2)]
      show thesis
      proof (cases r0)
        case (Raise x)
        with unfolded fresh unseen ap aok apply_watermark [OF ap assms(2)] buffer_ok_restore [OF assms(3) b] show thesis
          by (intro raised [of x t]) auto
      next
        case (Ret x)
        note wm = apply_watermark [OF ap assms(2), unfolded Ret ent] and snd = apply_sound [OF ap [unfolded Ret] assms(2)]
        show thesis
        proof (cases "map_of (last_applied t) pid = map_of (last_applied s) pid")
          case same: True
          with wm w limit have "last_applied t = last_applied s"
            by (auto simp: touch_same split: if_splits simp del: map_of_eq_Some_iff)
          with same unfolded fresh unseen ap Ret w ne aok snd mark_seen_ok [where cr = "crypt env" and s = t and k = ?dk and pid = pid and m = "(e, q + 1)"] show thesis
            by (intro turn [of e q "t\<lparr>seen := touch_cache ?n ?dk () (seen t), last_applied := touch_cache ?n pid (e, q + 1) (last_applied t)\<rparr>"
                "flushed @ [x\<lparr>watermark_advanced := True\<rparr>]"])
              (auto simp del: map_of_eq_Some_iff)
        next
          case moved: False
          with wm have "last_applied t = touch_cache ?n pid (e, q + 1) (last_applied s)" by (auto split: if_splits)
          with unfolded fresh unseen ap Ret w ne aok snd moved show thesis
            by (intro turn [of e q t "flushed @ [x]"]) (auto simp del: map_of_eq_Some_iff)
        qed
      qed
    qed
  qed
qed


lemma flush_loop_ok:
  assumes "flush_loop env cfg pid buf s flushed = (r, s')" and "stm_ok (crypt env) cfg s"
    and "buffer_ok cfg pid buf" and "map_of (reorder_bufs s) pid \<noteq> None"
  shows "stm_ok (crypt env) cfg s' \<and> (\<exists>suffix. entries (audit s') = entries (audit s) @ suffix)"
  using assms
proof (induction "length buf" arbitrary: buf s flushed rule: less_induct)
  case less
  show ?case
    using less.prems(1-3)
  proof (cases rule: flush_cases)
    case gap
    with drop_if_empty_ok [OF less.prems(2-4)] show ?thesis by (auto simp: drop_if_empty_def put_buffer_def)
  next
    case (expired e q t x)
    then have "stm_ok (crypt env) cfg s'"
      using less.prems by (auto intro!: drop_if_empty_ok buffer_ok_delete)
    with expired show ?thesis by (auto simp: drop_if_empty_def put_buffer_def)
  next
    case (raised e t buf')
    then have "stm_ok (crypt env) cfg s'" using less.prems by (auto intro!: put_buffer_ok)
    with raised show ?thesis by (auto simp: put_buffer_def)
  next
    case (turn e q t fl)
    have "length (AList.delete (e, q + 1) buf) < length buf"
      by (rule length_delete_less) (use turn(2) in \<open>auto simp: map_of_eq_None_iff\<close>)
    from less.hyps [OF this turn(3,4)] turn less.prems(3,4) buffer_ok_delete show ?thesis by fastforce
  qed
qed

lemma flush_loop_sound:
  assumes "flush_loop env cfg pid buf s flushed = (Ret out, s')" and "stm_ok (crypt env) cfg s"
    and "buffer_ok cfg pid buf" and "map_of (reorder_bufs s) pid \<noteq> None"
    and "\<forall>x \<in> set flushed. decision_sound cfg (entries (audit s)) x"
  shows "\<forall>x \<in> set out. decision_sound cfg (entries (audit s')) x"
  using assms
proof (induction "length buf" arbitrary: buf s flushed rule: less_induct)
  case less
  show ?case
    using less.prems(1-3)
  proof (cases rule: flush_cases)
    case gap
    with less.prems show ?thesis by (auto simp: drop_if_empty_def put_buffer_def)
  next
    case (expired e q t x)
    with less.prems(5) show ?thesis by (auto simp: drop_if_empty_def put_buffer_def decision_sound_mono)
  next
    case (turn e q t fl)
    have "length (AList.delete (e, q + 1) buf) < length buf"
      by (rule length_delete_less) (use turn(2) in \<open>auto simp: map_of_eq_None_iff\<close>)
    moreover have "\<forall>x \<in> set fl. decision_sound cfg (entries (audit t)) x"
      using turn(6,8) less.prems(5) by (auto simp: decision_sound_mono)
    ultimately show ?thesis
      using less.hyps [OF _ turn(3,4)] turn(5) less.prems(3,4) buffer_ok_delete by metis
  qed simp
qed

text \<open>
  A flush that returns drains exactly a run of consecutive sequence numbers: the watermark ends
  \<open>k\<close> further in the same epoch, all \<open>k\<close> numbers were buffered, the next one is not buffered any
  more, and every other entry of the buffer is kept.
\<close>

definition drained :: "buffered \<Rightarrow> int \<Rightarrow> int \<Rightarrow> nat \<Rightarrow> buffered \<Rightarrow> bool" where
  "drained buf e q k buf' \<longleftrightarrow>
     (\<forall>i \<in> {1..int k}. map_of buf (e, q + i) \<noteq> None) \<and> map_of buf' (e, q + int k + 1) = None \<and>
     (\<forall>key. (\<forall>i \<in> {1..int k + 1}. key \<noteq> (e, q + i)) \<longrightarrow> map_of buf' key = map_of buf key)"

lemma drained_step:
  assumes "drained (AList.delete (e, q + 1) buf) e (q + 1) k buf'" and "map_of buf (e, q + 1) \<noteq> None"
  shows "drained buf e q (Suc k) buf'"
proof -
  have "map_of buf (e, q + i) \<noteq> None" if "i \<in> {1..int (Suc k)}" for i
  proof (cases "i = 1")
    case False
    with that have "i - 1 \<in> {1..int k}" by auto
    with assms(1) have "map_of (AList.delete (e, q + 1) buf) (e, q + 1 + (i - 1)) \<noteq> None"
      unfolding drained_def by blast
    then show ?thesis by (simp add: map_of_delete split: if_splits)
  qed (use assms(2) in simp)
  moreover have "map_of buf' key = map_of buf key" if "\<forall>i \<in> {1..int (Suc k) + 1}. key \<noteq> (e, q + i)" for key
  proof -
    have "\<forall>i \<in> {1..int k + 1}. key \<noteq> (e, q + 1 + i)"
    proof
      fix i assume "i \<in> {1..int k + 1}"
      then have "i + 1 \<in> {1..int (Suc k) + 1}" by auto
      with that have "key \<noteq> (e, q + (i + 1))" by blast
      then show "key \<noteq> (e, q + 1 + i)" by (simp add: algebra_simps)
    qed
    moreover have "key \<noteq> (e, q + 1)" using that by auto
    ultimately have "map_of buf' key = map_of (AList.delete (e, q + 1) buf) key"
      using assms(1) unfolding drained_def by blast
    with \<open>key \<noteq> (e, q + 1)\<close> show ?thesis by (simp add: map_of_delete)
  qed
  moreover have "map_of buf' (e, q + int (Suc k) + 1) = None"
    using assms(1) by (simp add: drained_def algebra_simps)
  ultimately show ?thesis unfolding drained_def by blast
qed

lemma flush_loop_contiguous:
  assumes "flush_loop env cfg pid buf s flushed = (Ret out, s')" and "stm_ok (crypt env) cfg s"
    and "buffer_ok cfg pid buf" and "map_of (last_applied s) pid = Some (e, q)" and "0 < max_cache_size cfg"
  shows "\<exists>k. map_of (last_applied s') pid = Some (e, q + int k) \<and>
    drained buf e q k (dict_get (reorder_bufs s') pid [])"
  using assms
proof (induction "length buf" arbitrary: buf s flushed q rule: less_induct)
  case less
  note view = drop_if_empty_view
  show ?case
    using less.prems(1-3)
  proof (cases rule: flush_cases)
    case gap
    with less.prems(4) show ?thesis
      by (intro exI [of _ 0]) (auto simp: drained_def view, auto simp: drop_if_empty_def put_buffer_def)
  next
    case (expired e' q' t x)
    with less.prems(4) show ?thesis
      by (intro exI [of _ 0]) (auto simp: drained_def view map_of_delete, auto simp: drop_if_empty_def put_buffer_def)
  next
    case (turn e' q' t fl)
    then have eq: "e' = e" "q' = q" using less.prems(4) by auto
    have "length (AList.delete (e, q + 1) buf) < length buf"
      by (rule length_delete_less) (use turn(2) eq in \<open>auto simp: map_of_eq_None_iff\<close>)
    from less.hyps [OF this turn(3) [unfolded eq] turn(4) buffer_ok_delete [OF less.prems(3)]]
    obtain k where "map_of (last_applied s') pid = Some (e, q + 1 + int k)"
      "drained (AList.delete (e, q + 1) buf) e (q + 1) k (dict_get (reorder_bufs s') pid [])"
      using turn(7) eq less.prems(5) by (auto simp: touch_same)
    with drained_step [of e q buf k] turn(2) eq show ?thesis by (intro exI [of _ "Suc k"]) (auto simp: algebra_simps)
  qed simp
qed


section \<open>Evaluation\<close>

lemma reject_base:
  assumes "reject env s obs old (base_result obs False d why) = (r, s')" and "stm_ok (crypt env) cfg s"
    and "d \<notin> {Approved, SybilFlagged}"
  shows "stm_ok (crypt env) cfg s' \<and> last_applied s' = last_applied s \<and> reorder_bufs s' = reorder_bufs s \<and>
    (\<exists>suffix. entries (audit s') = entries (audit s) @ suffix) \<and>
    (\<forall>x. r = Ret x \<longrightarrow> \<not> accepted x \<and> decision x = d \<and> rejection x = why \<and> decision_sound cfg (entries (audit s')) x)"
proof -
  have "\<not> accepted x \<and> decision x = d \<and> rejection x = why" if "r = Ret x" for x
    using assms(1) that by (auto simp: reject_def base_result_def split: prod.splits res.splits)
  moreover have "decision_sound cfg (entries (audit s')) x" if "r = Ret x" for x
    by (rule reject_sound [OF assms(1) [unfolded that] assms(2)]) (use assms(3) in \<open>simp_all add: base_result_def\<close>)
  ultimately show ?thesis using reject_ok [OF assms(1,2)] by blast
qed

lemma buffer_observation_ok:
  assumes "buffer_observation env cfg s obs old = (r, s')" and "stm_ok (crypt env) cfg s"
  shows "stm_ok (crypt env) cfg s' \<and> last_applied s' = last_applied s \<and>
    (\<exists>suffix. entries (audit s') = entries (audit s) @ suffix) \<and>
    (\<forall>x. r = Ret x \<longrightarrow> \<not> accepted x \<and> decision_sound cfg (entries (audit s')) x)"
proof -
  let ?pid = "peer_id (obs_of obs)" and ?key = "(epoch (obs_of obs), sequence (obs_of obs))"
  let ?buf = "dict_get (reorder_bufs s) ?pid []"
  have bok: "buffer_ok cfg ?pid ?buf"
    by (cases "map_of (reorder_bufs s) ?pid")
      (simp_all add: dict_get_def stm_okD(6) [OF assms(2)] buffer_ok_def [of cfg _ "[]"] del: map_of_eq_Some_iff)
  have rej: ?thesis if "reject env s obs old (base_result obs False d why) = (r, s')" "d \<notin> {Approved, SybilFlagged}" for d why
    using reject_base [OF that(1) assms(2) that(2)] by blast
  have kept: ?thesis if "r = Ret (base_result obs False Buffered why)" "s' = s" for why
    using that assms(2) by (auto simp: base_result_def decision_sound_def)
  show ?thesis
  proof (cases "\<not> is_stale (t_now env) (obs_of obs) \<and> map_of ?buf ?key = None \<and> length ?buf < reorder_buffer_max cfg")
    case True
    then have r: "r = Ret (base_result obs False Buffered (Some BufferedAhead))"
      and s': "s' = s\<lparr>reorder_bufs := touch_cache (max_cache_size cfg) ?pid (?buf @ [(?key, (obs, old))]) (reorder_bufs s)\<rparr>"
      using assms(1) by (auto simp: buffer_observation_def Let_def)
    have new: "buffer_ok cfg ?pid (?buf @ [(?key, (obs, old))])"
      using bok True by (intro buffer_ok_snoc) auto
    have "buffer_ok cfg pid b"
      if "map_of (touch_cache (max_cache_size cfg) ?pid (?buf @ [(?key, (obs, old))]) (reorder_bufs s)) pid = Some b" for pid b
      using touch_value [OF stm_okD(5) [OF assms(2)] that] new stm_okD(6) [OF assms(2)] by blast
    with assms(2) have "stm_ok (crypt env) cfg s'" unfolding s' by (simp add: stm_ok_parts)
    with r s' show ?thesis by (auto simp: base_result_def decision_sound_def)
  next
    case False
    then have "(\<exists>d \<in> {StaleDecision, Duplicate}. \<exists>why. reject env s obs old (base_result obs False d why) = (r, s')) \<or>
        (\<exists>why. r = Ret (base_result obs False Buffered why) \<and> s' = s)"
    proof (cases "is_stale (t_now env) (obs_of obs)")
      case True
      with assms(1) show ?thesis unfolding buffer_observation_def by auto
    next
      case fresh: False
      show ?thesis
      proof (cases "map_of ?buf ?key")
        case None
        with fresh False assms(1) show ?thesis unfolding buffer_observation_def Let_def by (auto simp: not_less)
      next
        case (Some v)
        obtain bobs bold where "v = (bobs, bold)" by (cases v)
        with fresh Some assms(1) show ?thesis
          unfolding buffer_observation_def Let_def by (auto split: if_splits simp del: map_of_eq_Some_iff)
      qed
    qed
    then show ?thesis using rej kept by blast
  qed
qed


text \<open>The paths of \<open>_evaluate_locked\<close>.\<close>

lemma evaluate_cases:
  assumes "evaluate_observation env cfg s obs old = (r, s')"
  obtains (rejected) d why r0 where "reject env s obs old (base_result obs False d why) = (r0, s')"
      and "r = res_bind r0 (\<lambda>x. Ret (x, []))"
      and "(d, why) = (Duplicate, Some DuplicateObservation) \<and> map_of (seen s) (dedup_key (obs_of obs)) \<noteq> None \<or>
           (d, why) = (StaleDecision, Some OutOfOrder) \<or>
           (d, why) = (StaleDecision, Some TtlExpired) \<and> is_stale (t_now env) (obs_of obs)"
  | (ahead) r0 e q where "buffer_observation env cfg s obs old = (r0, s')" and "r = res_bind r0 (\<lambda>x. Ret (x, []))"
      and "map_of (last_applied s) (peer_id (obs_of obs)) = Some (e, q)" and "epoch (obs_of obs) = e"
      and "q + 1 < sequence (obs_of obs)"
  | (failed) e where "apply_observation env cfg s obs old = (Raise e, s')" and "r = Raise e"
      and "\<And>e q. map_of (last_applied s) (peer_id (obs_of obs)) = Some (e, q) \<Longrightarrow>
             e < epoch (obs_of obs) \<or> e = epoch (obs_of obs) \<and> sequence (obs_of obs) = q + 1"
  | (applied) x t r0 where "apply_observation env cfg s obs old = (Ret x, t)"
      and "flush_reorder_buffer env cfg (peer_id (obs_of obs)) t = (r0, s')"
      and "r = res_bind r0 (\<lambda>fl. Ret (x, fl))"
      and "\<And>e q. map_of (last_applied s) (peer_id (obs_of obs)) = Some (e, q) \<Longrightarrow>
             e < epoch (obs_of obs) \<or> e = epoch (obs_of obs) \<and> sequence (obs_of obs) = q + 1"
proof -
  note defs = evaluate_observation_def Let_def
  let ?f = "obs_of obs"
  consider (dup) "map_of (seen s) (dedup_key ?f) \<noteq> None"
    | (old) "map_of (seen s) (dedup_key ?f) = None" "case map_of (last_applied s) (peer_id ?f) of
                 None \<Rightarrow> False | Some (le, ls) \<Rightarrow> epoch ?f < le \<or> (epoch ?f = le \<and> sequence ?f \<le> ls)"
    | (gap) "map_of (seen s) (dedup_key ?f) = None" "\<not> (case map_of (last_applied s) (peer_id ?f) of
                 None \<Rightarrow> False | Some (le, ls) \<Rightarrow> epoch ?f < le \<or> (epoch ?f = le \<and> sequence ?f \<le> ls))"
        "case map_of (last_applied s) (peer_id ?f) of
                 None \<Rightarrow> False | Some (le, ls) \<Rightarrow> epoch ?f = le \<and> sequence ?f > ls + 1"
    | (go) "map_of (seen s) (dedup_key ?f) = None" "\<not> (case map_of (last_applied s) (peer_id ?f) of
                 None \<Rightarrow> False | Some (le, ls) \<Rightarrow> epoch ?f < le \<or> (epoch ?f = le \<and> sequence ?f \<le> ls))"
        "\<not> (case map_of (last_applied s) (peer_id ?f) of
                 None \<Rightarrow> False | Some (le, ls) \<Rightarrow> epoch ?f = le \<and> sequence ?f > ls + 1)" by blast
  then show thesis
  proof cases
    case dup
    with assms show thesis
      by (intro rejected [of Duplicate "Some DuplicateObservation"
          "fst (reject env s obs old (base_result obs False Duplicate (Some DuplicateObservation)))"])
        (auto simp: defs split: prod.splits)
  next
    case old
    with assms show thesis
      by (intro rejected [of StaleDecision "Some OutOfOrder"
          "fst (reject env s obs old (base_result obs False StaleDecision (Some OutOfOrder)))"])
        (auto simp: defs split: prod.splits)
  next
    case gap
    then obtain e q where w: "map_of (last_applied s) (peer_id ?f) = Some (e, q)" "epoch ?f = e" "q + 1 < sequence ?f"
      by (auto split: option.splits simp del: map_of_eq_Some_iff)
    with gap assms show thesis
      by (intro ahead [of "fst (buffer_observation env cfg s obs old)" e q]) (auto simp: defs split: prod.splits simp del: map_of_eq_Some_iff)
  next
    case go
    show thesis
    proof (cases "is_stale (t_now env) ?f")
      case True
      with go assms show thesis
        by (intro rejected [of StaleDecision "Some TtlExpired"
            "fst (reject env s obs old (base_result obs False StaleDecision (Some TtlExpired)))"])
          (auto simp: defs split: prod.splits)
    next
      case False
      obtain r1 t where ap: "apply_observation env cfg s obs old = (r1, t)" by fastforce
      show thesis
      proof (cases r1)
        case (Raise e)
        with go False ap assms show thesis by (intro failed [of e]) (force simp: defs)+
      next
        case (Ret x)
        obtain r2 t2 where fl: "flush_reorder_buffer env cfg (peer_id ?f) t = (r2, t2)" by fastforce
        with go False ap Ret assms show thesis
          by (intro applied [of x t r2]) (cases r2; force simp: defs)+
      qed
    qed
  qed
qed


lemma flush_reorder_ok:
  assumes "flush_reorder_buffer env cfg pid s = (r, s')" and "stm_ok (crypt env) cfg s"
  shows "stm_ok (crypt env) cfg s' \<and> (\<exists>suffix. entries (audit s') = entries (audit s) @ suffix) \<and>
    (\<forall>out. r = Ret out \<longrightarrow> (\<forall>x \<in> set out. decision_sound cfg (entries (audit s')) x))"
proof (cases "map_of (reorder_bufs s) pid")
  case None
  with assms show ?thesis by (auto simp: flush_reorder_buffer_def)
next
  case (Some buf)
  note bok = stm_okD(6) [OF assms(2) Some]
  show ?thesis
  proof (cases "buf = []")
    case False
    with Some assms(1) have l: "flush_loop env cfg pid buf s [] = (r, s')" by (simp add: flush_reorder_buffer_def)
    from flush_loop_ok [OF l assms(2) bok] flush_loop_sound [OF _ assms(2) bok] l Some show ?thesis by fastforce
  qed (use Some assms in \<open>auto simp: flush_reorder_buffer_def\<close>)
qed

lemma flush_reorder_contiguous:
  assumes "flush_reorder_buffer env cfg pid s = (Ret out, s')" and "stm_ok (crypt env) cfg s"
    and "map_of (last_applied s) pid = Some (e, q)" and "0 < max_cache_size cfg"
  shows "\<exists>k. map_of (last_applied s') pid = Some (e, q + int k) \<and>
    drained (dict_get (reorder_bufs s) pid []) e q k (dict_get (reorder_bufs s') pid [])"
proof (cases "dict_get (reorder_bufs s) pid [] = []")
  case True
  with assms(1) have "s' = s" by (auto simp: flush_reorder_buffer_def dict_get_def split: option.splits if_splits)
  with True assms(3) show ?thesis by (intro exI [of _ 0]) (simp add: drained_def)
next
  case False
  then obtain buf where b: "map_of (reorder_bufs s) pid = Some buf" "buf \<noteq> []" "dict_get (reorder_bufs s) pid [] = buf"
    by (auto simp: dict_get_def split: option.splits)
  with assms(1) have "flush_loop env cfg pid buf s [] = (Ret out, s')" by (simp add: flush_reorder_buffer_def)
  from flush_loop_contiguous [OF this assms(2) stm_okD(6) [OF assms(2) b(1)] assms(3,4)] b(3) show ?thesis by simp
qed

lemma evaluate_ok:
  assumes "evaluate_observation env cfg s obs old = (r, s')" and "stm_ok (crypt env) cfg s"
  shows "stm_ok (crypt env) cfg s' \<and> (\<exists>suffix. entries (audit s') = entries (audit s) @ suffix) \<and>
    (\<forall>x fl. r = Ret (x, fl) \<longrightarrow> (\<forall>y \<in> set (x # fl). decision_sound cfg (entries (audit s')) y))"
  using assms(1)
proof (cases rule: evaluate_cases)
  case (rejected d why r0)
  then have "d \<notin> {Approved, SybilFlagged}" by auto
  from reject_base [OF rejected(1) assms(2) this] rejected(2) show ?thesis by (cases r0) auto
next
  case (ahead r0 e q)
  from buffer_observation_ok [OF ahead(1) assms(2)] ahead(2) show ?thesis by (cases r0) auto
next
  case (failed e)
  from apply_ok [OF failed(1) assms(2)] failed(2) show ?thesis by auto
next
  case (applied x t r0)
  from apply_ok [OF applied(1) assms(2)] have t: "stm_ok (crypt env) cfg t"
    "\<exists>suffix. entries (audit t) = entries (audit s) @ suffix" by auto
  from flush_reorder_ok [OF applied(2) t(1)] t(2)
  have ok: "stm_ok (crypt env) cfg s'" and mid: "\<exists>suffix. entries (audit s') = entries (audit t) @ suffix"
    and grow: "\<exists>suffix. entries (audit s') = entries (audit s) @ suffix" by auto
  from mid apply_sound [OF applied(1) assms(2)] have "decision_sound cfg (entries (audit s')) x"
    using decision_sound_mono by auto
  with ok grow flush_reorder_ok [OF applied(2) t(1)] applied(3) show ?thesis by (cases r0) auto
qed

text \<open>A call moves the watermark of its own peer forward only; others stay or are evicted.\<close>

definition advanced :: "string \<Rightarrow> (string, int \<times> int) dict \<Rightarrow> (string, int \<times> int) dict \<Rightarrow> bool" where
  "advanced pid a b \<longleftrightarrow>
     (\<forall>p. p \<noteq> pid \<longrightarrow> map_of b p = None \<or> map_of b p = map_of a p) \<and>
     (\<forall>e q. map_of a pid = Some (e, q) \<longrightarrow> (\<exists>e' q'. map_of b pid = Some (e', q') \<and> (e < e' \<or> e = e' \<and> q \<le> q')))"

lemma advanced_refl [simp]: "advanced pid a a"
  by (simp add: advanced_def)

lemma advanced_trans:
  assumes "advanced pid a b" and "advanced pid b c"
  shows "advanced pid a c"
proof -
  have "\<exists>e2 q2. map_of c pid = Some (e2, q2) \<and> (e < e2 \<or> e = e2 \<and> q \<le> q2)" if m: "map_of a pid = Some (e, q)" for e q
  proof -
    from assms(1) m obtain e1 q1 where 1: "map_of b pid = Some (e1, q1)" "e < e1 \<or> e = e1 \<and> q \<le> q1"
      unfolding advanced_def by blast
    from assms(2) 1(1) obtain e2 q2 where "map_of c pid = Some (e2, q2)" "e1 < e2 \<or> e1 = e2 \<and> q1 \<le> q2"
      unfolding advanced_def by blast
    with 1(2) show ?thesis by auto
  qed
  moreover have "map_of c p = None \<or> map_of c p = map_of a p" if "p \<noteq> pid" for p
    using assms that unfolding advanced_def by metis
  ultimately show ?thesis unfolding advanced_def by blast
qed

lemma advanced_touch:
  assumes "fits n a" and "\<And>e q. map_of a pid = Some (e, q) \<Longrightarrow> e < e' \<or> e = e' \<and> q \<le> q'"
  shows "advanced pid a (touch_cache n pid (e', q') a)"
proof -
  have "0 < n" if "map_of a pid = Some m" for m
    using that assms(1) by (cases n) (auto simp: fits_def)
  then show ?thesis
    using assms(2) lru.put_other [of a _ pid n "(e', q')"] assms(1)
    by (auto simp: advanced_def fits_def touch_same simp del: map_of_eq_Some_iff)
qed

lemma flush_loop_advanced:
  assumes "flush_loop env cfg pid buf s flushed = (r, s')" and "stm_ok (crypt env) cfg s" and "buffer_ok cfg pid buf"
  shows "advanced pid (last_applied s) (last_applied s')"
  using assms
proof (induction "length buf" arbitrary: buf s flushed rule: less_induct)
  case less
  show ?case
    using less.prems
  proof (cases rule: flush_cases)
    case (turn e q t fl)
    have "length (AList.delete (e, q + 1) buf) < length buf"
      by (rule length_delete_less) (use turn(2) in \<open>auto simp: map_of_eq_None_iff\<close>)
    from less.hyps [OF this turn(3,4) buffer_ok_delete [OF less.prems(3)]]
    have "advanced pid (last_applied t) (last_applied s')" .
    moreover have "advanced pid (last_applied s) (last_applied t)"
      unfolding turn(7) by (rule advanced_touch [OF stm_okD(3) [OF less.prems(2)]]) (use turn(1) in auto)
    ultimately show ?thesis using advanced_trans by blast
  qed (auto simp: drop_if_empty_def put_buffer_def)
qed

lemma evaluate_advanced:
  assumes "evaluate_observation env cfg s obs old = (r, s')" and "stm_ok (crypt env) cfg s"
  shows "advanced (peer_id (obs_of obs)) (last_applied s) (last_applied s')"
  using assms(1)
proof (cases rule: evaluate_cases)
  case (rejected d why r0)
  then have "d \<notin> {Approved, SybilFlagged}" by auto
  from reject_base [OF rejected(1) assms(2) this] show ?thesis by simp
next
  case (ahead r0 e q)
  from buffer_observation_ok [OF ahead(1) assms(2)] show ?thesis by simp
next
  case (failed e)
  from apply_watermark [OF failed(1) assms(2)] show ?thesis by simp
next
  case (applied x t r0)
  have "advanced (peer_id (obs_of obs)) (last_applied s) (last_applied t)"
    unfolding apply_watermark [OF applied(1) assms(2)]
    using applied(4) by (auto intro!: advanced_touch stm_okD(3) [OF assms(2)])
  moreover have "advanced (peer_id (obs_of obs)) (last_applied t) (last_applied s')"
  proof (cases "map_of (reorder_bufs t) (peer_id (obs_of obs))")
    case (Some buf)
    have "stm_ok (crypt env) cfg t" using apply_ok [OF applied(1) assms(2)] by blast
    from flush_loop_advanced [OF _ this stm_okD(6) [OF this Some]] applied(2) Some show ?thesis
      by (auto simp: flush_reorder_buffer_def split: if_splits)
  qed (use applied(2) in \<open>auto simp: flush_reorder_buffer_def\<close>)
  ultimately show ?thesis by (rule advanced_trans)
qed

lemma accepted_run:
  assumes "stm_ok (crypt env) cfg s" and "0 < max_cache_size cfg"
    and "evaluate_observation env cfg s obs old = (Ret (x, fl), s')" and "accepted x"
  shows "\<exists>k. map_of (last_applied s') (peer_id (obs_of obs)) = Some (epoch (obs_of obs), sequence (obs_of obs) + int k) \<and>
    drained (dict_get (reorder_bufs s) (peer_id (obs_of obs)) []) (epoch (obs_of obs)) (sequence (obs_of obs)) k
      (dict_get (reorder_bufs s') (peer_id (obs_of obs)) [])"
  using assms(3)
proof (cases rule: evaluate_cases)
  case (rejected d why r0)
  then have "d \<notin> {Approved, SybilFlagged}" by auto
  from reject_base [OF rejected(1) assms(1) this] rejected(2) assms(4) show ?thesis by (cases r0) auto
next
  case (ahead r0 e q)
  from buffer_observation_ok [OF ahead(1) assms(1)] ahead(2) assms(4) show ?thesis by (cases r0) auto
next
  case (applied y t r0)
  then have y: "y = x" "r0 = Ret fl" by (cases r0; simp)+
  have t: "stm_ok (crypt env) cfg t" "reorder_bufs t = reorder_bufs s" using apply_ok [OF applied(1) assms(1)] by auto
  have "map_of (last_applied t) (peer_id (obs_of obs)) = Some (epoch (obs_of obs), sequence (obs_of obs))"
    using apply_watermark [OF applied(1) assms(1)] y(1) assms(2,4) by (simp add: touch_same)
  from flush_reorder_contiguous [OF applied(2) [unfolded y(2)] t(1) this assms(2)] t(2) show ?thesis by simp
qed simp

section \<open>Properties\<close>

type_synonym stm_call = "stm_env \<times> peer_observation \<times> string"

definition evaluate_all :: "stm_config \<Rightarrow> stm_call list \<Rightarrow> stm \<Rightarrow> stm" where
  "evaluate_all cfg calls s = fold (\<lambda>(env, obs, old) s. snd (evaluate_observation env cfg s obs old)) calls s"

text \<open>A manager with nothing recorded, over an opened audit log.\<close>

definition new_manager :: "audit_log \<Rightarrow> string \<Rightarrow> nat \<Rightarrow> rat \<Rightarrow> stm" where
  "new_manager l me k neutral =
     \<lparr>equiv_log = [], k_bucket = \<lparr>kb_local_id = me, kb_k = k, kb_buckets = []\<rparr>, audit = l,
      reputation = \<lparr>neutral_default = neutral, scores = []\<rparr>, last_applied = [], seen = [], reorder_bufs = []\<rparr>"

lemma new_manager_ok:
  "signer_verified cr \<Longrightarrow> log_ok cr l \<Longrightarrow> stm_ok cr cfg (new_manager l me k neutral)"
  by (simp add: stm_ok_def new_manager_def equivocation_ok_def kb_ok_def fits_def)

lemma evaluate_all_ok:
  assumes "stm_ok cr cfg s" and "\<forall>(env, obs, old) \<in> set calls. crypt env = cr"
  shows "stm_ok cr cfg (evaluate_all cfg calls s) \<and>
    (\<exists>suffix. entries (audit (evaluate_all cfg calls s)) = entries (audit s) @ suffix)"
  using assms
proof (induction calls arbitrary: s)
  case (Cons c calls)
  obtain env obs old where c: "c = (env, obs, old)" by (cases c)
  obtain r s1 where e: "evaluate_observation env cfg s obs old = (r, s1)" by fastforce
  from evaluate_ok [OF e] c Cons.prems have "stm_ok cr cfg s1"
    "\<exists>suffix. entries (audit s1) = entries (audit s) @ suffix" by auto
  with Cons.IH [of s1] Cons.prems(2) c e show ?case by (auto simp: evaluate_all_def)
qed (simp add: evaluate_all_def)

definition demo_cfg :: stm_config where
  "demo_cfg = \<lparr>local_id = ''me'', weighted_quorum_threshold = 2, sybil_proximity_bits = 4,
     max_cache_size = 100, reorder_buffer_max = 10\<rparr>"

definition demo_stm_env :: stm_env where
  "demo_stm_env = \<lparr>t_now = 101, peer_keys = (\<lambda>_. 0), ip_library = no_ip, crypt = demo_crypto,
     write_succeeds = (\<lambda>_. True)\<rparr>"

text \<open>An observation of peer p with two independent witnesses.\<close>

definition demo_report :: "int \<Rightarrow> peer_observation" where
  "demo_report sq = PeerObservation (demo_fields\<lparr>sequence := sq\<rparr>) [seen_by ''w1'' ''net1'', seen_by ''w2'' ''net2'']"

definition demo_manager :: stm where
  "demo_manager = new_manager demo_log ''me'' 20 1"

lemma demo_manager_ok: "stm_ok (crypt demo_stm_env) demo_cfg demo_manager"
  by (simp add: demo_manager_def demo_stm_env_def new_manager_ok demo_crypto_signer demo_log_ok)

text \<open>C12: Over any sequence of calls, whatever they return and whichever durable writes fail, the
  audit chain stays valid and only grows, the watermark, replay and reorder caches stay within
  their bounds, and so do every peer's reorder buffer and the equivocation log.\<close>

theorem manager_invariant:
  assumes "stm_ok cr cfg s" and "\<forall>(env, obs, old) \<in> set calls. crypt env = cr"
    and "s' = evaluate_all cfg calls s"
  shows "verify_chain cr (entries (audit s')) = Ret () \<and>
    (\<exists>suffix. entries (audit s') = entries (audit s) @ suffix) \<and>
    length (last_applied s') \<le> max_cache_size cfg \<and> length (seen s') \<le> max_cache_size cfg \<and>
    length (reorder_bufs s') \<le> max_cache_size cfg \<and>
    (\<forall>pid buf. map_of (reorder_bufs s') pid = Some buf \<longrightarrow> length buf \<le> reorder_buffer_max cfg) \<and>
    equivocation_ok (equiv_log s')"
proof -
  have ok: "stm_ok cr cfg s'" and grow: "\<exists>suffix. entries (audit s') = entries (audit s) @ suffix"
    using evaluate_all_ok [OF assms(1,2)] assms(3) by auto
  from ok have "length buf \<le> reorder_buffer_max cfg" if "map_of (reorder_bufs s') pid = Some buf" for pid buf
    using that stm_okD(6) [OF ok] by (auto simp: buffer_ok_def simp del: map_of_eq_Some_iff)
  moreover have "verify_chain cr (entries (audit s')) = Ret ()"
    using stm_okD(2) [OF ok] by (simp add: log_ok_def verify_chain_iff)
  ultimately show ?thesis using ok grow by (auto simp: stm_ok_def fits_def simp del: map_of_eq_Some_iff)
qed

theorem manager_invariant_witness:
  "verify_chain demo_crypto (entries (audit (evaluate_all demo_cfg
     [(demo_stm_env, demo_report 1, ''UNKNOWN''), (demo_stm_env, demo_report 2, ''UNKNOWN'')] demo_manager))) = Ret ()"
  using manager_invariant [OF demo_manager_ok, of "[(demo_stm_env, demo_report 1, ''UNKNOWN''), (demo_stm_env, demo_report 2, ''UNKNOWN'')]"]
  by (simp add: demo_stm_env_def)

definition demo_accepts :: "stm \<Rightarrow> int \<Rightarrow> bool" where
  "demo_accepts s n = (case fst (evaluate_observation demo_stm_env demo_cfg s (demo_report n) ''UNKNOWN'') of
     Ret (x, _) \<Rightarrow> accepted x | _ \<Rightarrow> False)"

lemma demo_accepts_obtain:
  assumes "demo_accepts s n"
  obtains x fl s' where "evaluate_observation demo_stm_env demo_cfg s (demo_report n) ''UNKNOWN'' = (Ret (x, fl), s')"
    and "accepted x"
  using assms unfolding demo_accepts_def
  by (cases "evaluate_observation demo_stm_env demo_cfg s (demo_report n) ''UNKNOWN''") (auto split: res.splits)

text \<open>The manager after report 1 was accepted and report 3 was buffered.\<close>

definition demo_gap :: stm where
  "demo_gap = evaluate_all demo_cfg
     [(demo_stm_env, demo_report 1, ''UNKNOWN''), (demo_stm_env, demo_report 3, ''UNKNOWN'')] demo_manager"

lemma demo_gap_ok: "stm_ok (crypt demo_stm_env) demo_cfg demo_gap"
  using evaluate_all_ok [OF demo_manager_ok] unfolding demo_gap_def by simp

lemma demo_accepted: "demo_accepts demo_gap 2"
  by code_simp






text \<open>No call, whatever its outcome, moves any peer's watermark back: the observed peer's
  watermark stays or advances in (epoch, sequence) order, and another peer's is at most evicted.\<close>

theorem watermark_never_regresses:
  assumes "stm_ok (crypt env) cfg s" and "evaluate_observation env cfg s obs old = (r, s')"
    and "map_of (last_applied s) p = Some (e, q)" and "map_of (last_applied s') p = Some (e', q')"
  shows "e < e' \<or> e = e' \<and> q \<le> q'"
proof (cases "p = peer_id (obs_of obs)")
  case True
  with evaluate_advanced [OF assms(2,1)] assms(3,4) show ?thesis
    unfolding advanced_def by (metis Pair_inject option.inject)
next
  case False
  with evaluate_advanced [OF assms(2,1)] assms(3,4) show ?thesis
    unfolding advanced_def by (metis Pair_inject option.distinct(1) option.inject order.refl)
qed

theorem watermark_never_regresses_witness:
  "\<exists>e' q'. map_of (last_applied (snd (evaluate_observation demo_stm_env demo_cfg demo_gap (demo_report 2) ''UNKNOWN''))) ''p'' =
     Some (e', q') \<and> (1 < e' \<or> 1 = e' \<and> 1 \<le> q')"
proof -
  have a: "map_of (last_applied demo_gap) ''p'' = Some (1, 1)" by code_simp
  have b: "map_of (last_applied (snd (evaluate_observation demo_stm_env demo_cfg demo_gap (demo_report 2) ''UNKNOWN''))) ''p'' = Some (1, 3)"
    by code_simp
  from watermark_never_regresses [OF demo_gap_ok prod.collapse [symmetric] a b] b show ?thesis by blast
qed

text \<open>An accepted observation is applied once: submitting it again to the resulting manager,
  at any later time, is rejected as a duplicate or as stale and leaves the watermarks alone.\<close>

theorem no_double_apply:
  assumes "stm_ok (crypt env) cfg s" and "0 < max_cache_size cfg"
    and "evaluate_observation env cfg s obs old = (Ret (x, fl), s1)" and "accepted x"
    and "crypt env' = crypt env" and "evaluate_observation env' cfg s1 obs old' = (r, s2)"
  shows "last_applied s2 = last_applied s1 \<and>
    (\<forall>y fl'. r = Ret (y, fl') \<longrightarrow> \<not> accepted y \<and> fl' = [] \<and> decision y \<in> {Duplicate, StaleDecision})"
proof -
  let ?f = "obs_of obs"
  have ok: "stm_ok (crypt env') cfg s1" using evaluate_ok [OF assms(3,1)] assms(5) by simp
  from accepted_run [OF assms(1-4)] obtain k where
    w: "map_of (last_applied s1) (peer_id ?f) = Some (epoch ?f, sequence ?f + int k)" by blast
  show ?thesis
    using assms(6)
  proof (cases rule: evaluate_cases)
    case (rejected d why r0)
    then have d: "d \<notin> {Approved, SybilFlagged}" "d \<in> {Duplicate, StaleDecision}" by auto
    from reject_base [OF rejected(1) ok d(1)] rejected(2) d(2) show ?thesis by (cases r0) auto
  next
    case (ahead r0 e q)
    with w show ?thesis by auto
  next
    case (failed e)
    with w show ?thesis by auto
  next
    case (applied y t r0)
    with w show ?thesis by auto
  qed
qed


theorem no_double_apply_witness:
  "\<exists>s1. last_applied (snd (evaluate_observation demo_stm_env demo_cfg s1 (demo_report 2) ''ok'')) = last_applied s1 \<and>
     map_of (last_applied s1) ''p'' \<noteq> None"
proof -
  from demo_accepted obtain x fl s1 where
    e: "evaluate_observation demo_stm_env demo_cfg demo_gap (demo_report 2) ''UNKNOWN'' = (Ret (x, fl), s1)" "accepted x"
    by (rule demo_accepts_obtain)
  from no_double_apply [OF demo_gap_ok _ e refl prod.collapse [symmetric]]
  have "last_applied (snd (evaluate_observation demo_stm_env demo_cfg s1 (demo_report 2) ''ok'')) = last_applied s1"
    by (simp add: demo_cfg_def)
  moreover have "map_of (last_applied s1) ''p'' \<noteq> None"
    using accepted_run [OF demo_gap_ok _ e] by (auto simp: demo_cfg_def demo_report_def demo_fields_def)
  ultimately show ?thesis by blast
qed

subsection \<open>Weighted votes\<close>

lemma sum_dict: "dict_ok d \<Longrightarrow> sum_list (map snd d) = (\<Sum>k \<in> fst ` set d. the (map_of d k))"
proof (induction d)
  case (Cons a d)
  obtain k v where a: "a = (k, v)" by (cases a)
  have "(\<Sum>k' \<in> fst ` set d. the (map_of d k')) = (\<Sum>k' \<in> fst ` set d. the (map_of (a # d) k'))"
    by (rule sum.cong) (use Cons.prems a in auto)
  with Cons a show ?case by simp
qed simp

definition heaviest :: "(string \<Rightarrow> rat) \<Rightarrow> (string \<times> string) list \<Rightarrow> string \<Rightarrow> rat" where
  "heaviest weight pairs b = Max (insert 0 ((weight \<circ> fst) ` {x \<in> set pairs. snd x = b}))"

lemma heaviest_snoc:
  "heaviest weight (pairs @ [(ob, b)]) b' = (if b' = b then max (heaviest weight pairs b) (weight ob) else heaviest weight pairs b')"
proof -
  have "{x \<in> set (pairs @ [(ob, b)]). snd x = b'} =
      (if b' = b then insert (ob, b) {x \<in> set pairs. snd x = b} else {x \<in> set pairs. snd x = b'})" by auto
  then show ?thesis
    by (auto simp: heaviest_def insert_commute [of 0] max.commute)
qed

definition bucket_step :: "(string \<Rightarrow> rat) \<Rightarrow> string \<times> string \<Rightarrow> (string, rat) dict \<Rightarrow> (string, rat) dict" where
  "bucket_step weight = (\<lambda>(ob, b) d. AList.update b (max (dict_get d b 0) (weight ob)) d)"

lemma bucket_fold:
  "dict_ok (fold (bucket_step weight) pairs []) \<and>
   map_of (fold (bucket_step weight) pairs []) b = (if b \<in> snd ` set pairs then Some (heaviest weight pairs b) else None)"
proof (induction pairs arbitrary: b rule: rev_induct)
  case (snoc x pairs)
  obtain ob c where x: "x = (ob, c)" by (cases x)
  have empty: "heaviest weight pairs c = 0" if "c \<notin> snd ` set pairs"
    using that by (auto simp: heaviest_def image_iff intro!: Max_eqI)
  from snoc [of c] snoc [of b] empty show ?case
    by (auto simp: x bucket_step_def map_of_update dict_get_def heaviest_snoc simp del: map_of_eq_Some_iff)
qed simp


definition votes :: "ip_lib \<Rightarrow> peer_observation \<Rightarrow> (string \<times> string) list" where
  "votes ip obs = map (\<lambda>w. (observer_id (obs_of w), provenance_bucket ip (observer_provenance (obs_of w)))) (witness_set obs)"

lemma weight_votes_fold:
  "wq_score (weight_votes cfg rep obs (build_quorum_vote ip obs p)) =
   sum_list (map snd (fold (bucket_step (reputation_weight rep)) (votes ip obs) []))"
proof -
  have "fold (\<lambda>(w, bucket) d. AList.update bucket
            (max (dict_get d bucket 0) (reputation_weight rep (observer_id (obs_of w)))) d)
          (zip ws (map (\<lambda>w. provenance_bucket ip (observer_provenance (obs_of w))) ws)) d =
        fold (bucket_step (reputation_weight rep))
          (map (\<lambda>w. (observer_id (obs_of w), provenance_bucket ip (observer_provenance (obs_of w)))) ws) d" for ws d
    by (induction ws arbitrary: d) (auto simp: bucket_step_def)
  then show ?thesis by (simp add: weight_votes_def build_quorum_vote_def votes_def Let_def)
qed

text \<open>The weighted score counts each provenance bucket once, with the largest weight of an
  observer in it: a swarm of identities behind one subnet adds no more than its best member.\<close>

theorem weighted_score_per_bucket:
  "wq_score (weight_votes cfg rep obs (build_quorum_vote ip obs p)) =
   (\<Sum>b \<in> snd ` set (votes ip obs). heaviest (reputation_weight rep) (votes ip obs) b)"
proof -
  let ?d = "fold (bucket_step (reputation_weight rep)) (votes ip obs) []"
  have m: "map_of ?d b = (if b \<in> snd ` set (votes ip obs) then Some (heaviest (reputation_weight rep) (votes ip obs) b) else None)" for b
    using bucket_fold by blast
  have "dict_ok ?d" using bucket_fold by blast
  then have "sum_list (map snd ?d) = (\<Sum>b \<in> fst ` set ?d. the (map_of ?d b))" by (rule sum_dict)
  also have "fst ` set ?d = snd ` set (votes ip obs)"
    using m by (metis (no_types, lifting) map_of_eq_None_iff option.distinct(1) subsetI subset_antisym)
  finally show ?thesis by (simp add: weight_votes_fold m)
qed

subsection \<open>Where the behaviour departs from the documentation\<close>

definition colon_report :: "string \<Rightarrow> string \<Rightarrow> peer_observation" where
  "colon_report pid ob = PeerObservation (demo_fields\<lparr>peer_id := pid, sequence := 1, observer_id := ob\<rparr>)
     [seen_by ''w1'' ''net1'', seen_by ''w2'' ''net2'']"

text \<open>Replay keys of different observations can collide, because the parts are joined by a
  colon that peer and observer ids may contain: once one observation is in the replay cache, the
  first observation of another peer by another observer is rejected as its duplicate.\<close>

theorem replay_keys_collide:
  assumes "map_of (seen s) (dedup_key (obs_of (colon_report ''h'' ''1:1:o''))) \<noteq> None"
    and "stm_ok (crypt env) cfg s"
    and "evaluate_observation env cfg s (colon_report ''h:1:1'' ''o'') old = (Ret (x, fl), s')"
  shows "decision x = Duplicate \<and> \<not> accepted x \<and>
    peer_id (obs_of (colon_report ''h:1:1'' ''o'')) \<noteq> peer_id (obs_of (colon_report ''h'' ''1:1:o''))"
proof -
  have k: "dedup_key (obs_of (colon_report ''h:1:1'' ''o'')) = dedup_key (obs_of (colon_report ''h'' ''1:1:o''))"
    by code_simp
  have "evaluate_observation env cfg s (colon_report ''h:1:1'' ''o'') old =
    (case reject env s (colon_report ''h:1:1'' ''o'') old
        (base_result (colon_report ''h:1:1'' ''o'') False Duplicate (Some DuplicateObservation)) of
       (r, s') \<Rightarrow> (res_bind r (\<lambda>x. Ret (x, [])), s'))"
    using assms(1) unfolding evaluate_observation_def Let_def k by simp
  with assms(3) obtain r where rj: "reject env s (colon_report ''h:1:1'' ''o'') old
      (base_result (colon_report ''h:1:1'' ''o'') False Duplicate (Some DuplicateObservation)) = (r, s')"
    and "res_bind r (\<lambda>x. Ret (x, [])) = Ret (x, fl)" by (auto split: prod.splits)
  then have "r = Ret x" by (simp add: res_bind_eq_Ret)
  with reject_base [OF rj assms(2)] show ?thesis by (simp add: colon_report_def)
qed

theorem replay_keys_collide_witness:
  "\<exists>s x fl s'. evaluate_observation demo_stm_env demo_cfg s (colon_report ''h:1:1'' ''o'') ''UNKNOWN'' = (Ret (x, fl), s') \<and>
     decision x = Duplicate"
proof -
  define s where "s = evaluate_all demo_cfg [(demo_stm_env, colon_report ''h'' ''1:1:o'', ''UNKNOWN'')] demo_manager"
  have ok: "stm_ok (crypt demo_stm_env) demo_cfg s" unfolding s_def using evaluate_all_ok [OF demo_manager_ok] by simp
  have a: "map_of (seen s) (dedup_key (obs_of (colon_report ''h'' ''1:1:o''))) \<noteq> None"
    unfolding s_def by code_simp
  have "is_Ret (fst (evaluate_observation demo_stm_env demo_cfg s (colon_report ''h:1:1'' ''o'') ''UNKNOWN''))"
    unfolding s_def by code_simp
  then obtain x fl s' where
    e: "evaluate_observation demo_stm_env demo_cfg s (colon_report ''h:1:1'' ''o'') ''UNKNOWN'' = (Ret (x, fl), s')"
    by (cases "evaluate_observation demo_stm_env demo_cfg s (colon_report ''h:1:1'' ''o'') ''UNKNOWN''") (auto simp: is_Ret_iff)
  from replay_keys_collide [OF a ok e] e show ?thesis by blast
qed

text \<open>Entries buffered for an epoch that is over are never flushed: they keep occupying the
  peer's buffer, so once they fill it every observation of the current epoch that arrives ahead
  of its turn is discarded as stale.\<close>

theorem stranded_epoch_fills_buffer:
  assumes "stm_ok (crypt env) cfg s" and "map_of (last_applied s) (peer_id (obs_of obs)) = Some (e, q)"
    and "map_of (reorder_bufs s) (peer_id (obs_of obs)) = Some buf" and "length buf = reorder_buffer_max cfg"
    and "\<forall>k \<in> fst ` set buf. fst k < e" and "epoch (obs_of obs) = e" and "q + 1 < sequence (obs_of obs)"
    and "evaluate_observation env cfg s obs old = (Ret (x, fl), s')"
  shows "decision x \<in> {Duplicate, StaleDecision} \<and> reorder_bufs s' = reorder_bufs s \<and>
    last_applied s' = last_applied s"
  using assms(8)
proof (cases rule: evaluate_cases)
  case (rejected d why r0)
  then have d: "d \<notin> {Approved, SybilFlagged}" "d \<in> {Duplicate, StaleDecision}" by auto
  from reject_base [OF rejected(1) assms(1) d(1)] rejected(2) d(2) show ?thesis by (cases r0) auto
next
  case (ahead r0 e' q')
  have "map_of buf (epoch (obs_of obs), sequence (obs_of obs)) = None"
    using assms(5,6) by (force simp: map_of_eq_None_iff)
  with assms(3,4) have "buffer_observation env cfg s obs old = reject env s obs old (base_result obs False StaleDecision
      (Some (if is_stale (t_now env) (obs_of obs) then TtlExpiredWaiting else BufferFull)))"
    by (simp add: buffer_observation_def dict_get_def Let_def)
  with ahead(1) have "reject env s obs old (base_result obs False StaleDecision
      (Some (if is_stale (t_now env) (obs_of obs) then TtlExpiredWaiting else BufferFull))) = (r0, s')" by simp
  from reject_base [OF this assms(1)] ahead(2) show ?thesis by (cases r0) auto
qed (use assms(2,6,7) in auto)


text \<open>A manager with a one-place buffer that holds a report of epoch 1 when epoch 2 begins.\<close>

definition small_cfg :: stm_config where
  "small_cfg = demo_cfg\<lparr>reorder_buffer_max := 1\<rparr>"

definition next_epoch_report :: "int \<Rightarrow> peer_observation" where
  "next_epoch_report sq = PeerObservation (demo_fields\<lparr>epoch := 2, sequence := sq\<rparr>)
     [seen_by ''w1'' ''net1'', seen_by ''w2'' ''net2'']"

definition stranded :: stm where
  "stranded = evaluate_all small_cfg
     [(demo_stm_env, demo_report 1, ''UNKNOWN''), (demo_stm_env, demo_report 3, ''UNKNOWN''),
      (demo_stm_env, next_epoch_report 1, ''UNKNOWN'')] demo_manager"

theorem stranded_epoch_fills_buffer_witness:
  "\<exists>x fl s'. evaluate_observation demo_stm_env small_cfg stranded (next_epoch_report 3) ''UNKNOWN'' = (Ret (x, fl), s') \<and>
     decision x \<in> {Duplicate, StaleDecision} \<and> reorder_bufs s' = reorder_bufs stranded"
proof -
  have ok: "stm_ok (crypt demo_stm_env) small_cfg stranded"
    unfolding stranded_def
    using evaluate_all_ok [OF new_manager_ok [OF demo_crypto_signer demo_log_ok], of _ small_cfg "''me''" 20 1]
    by (simp add: demo_manager_def demo_stm_env_def)
  have p: "peer_id (obs_of (next_epoch_report 3)) = ''p''" "epoch (obs_of (next_epoch_report 3)) = 2"
    "sequence (obs_of (next_epoch_report 3)) = 3" by (simp_all add: next_epoch_report_def demo_fields_def)
  have w: "map_of (last_applied stranded) ''p'' = Some (2, 1)" by code_simp
  have "map_option (map fst) (map_of (reorder_bufs stranded) ''p'') = Some [(1, 3)]" by code_simp
  then obtain buf where b: "map_of (reorder_bufs stranded) ''p'' = Some buf" "map fst buf = [(1, 3)]" by auto
  then have "length buf = 1" by (metis length_map length_Cons list.size(3) One_nat_def)
  moreover have "\<forall>k \<in> fst ` set buf. fst k < 2" using b(2) by (metis (no_types) fst_conv list.set(1) list.set(2) list.set_map one_less_numeral_iff semiring_norm(76) singletonD)
  moreover have "is_Ret (fst (evaluate_observation demo_stm_env small_cfg stranded (next_epoch_report 3) ''UNKNOWN''))"
    by code_simp
  then obtain x fl s' where
    e: "evaluate_observation demo_stm_env small_cfg stranded (next_epoch_report 3) ''UNKNOWN'' = (Ret (x, fl), s')"
    by (cases "evaluate_observation demo_stm_env small_cfg stranded (next_epoch_report 3) ''UNKNOWN''") (auto simp: is_Ret_iff)
  ultimately show ?thesis
    using stranded_epoch_fills_buffer [OF ok, of "next_epoch_report 3" 2 1 buf "''UNKNOWN''" x fl s'] w b(1) p e
    by (auto simp: small_cfg_def simp del: map_of_eq_Some_iff)
qed

end
