(* ===== verification/Frugality.thy ===== *)
theory Frugality
  imports Prelude
begin

text \<open>
  The policy that decides which tier a call may use: \<open>src/utils/model_endpoint_url.py\<close>,
  \<open>src/perpetua/discovery/\<close> (backends, registry and selector),
  \<open>orchestrator/backend_resolver.py\<close>, \<open>orchestrator/frugality_router.py\<close> and
  \<open>orchestrator/gate.py\<close>.  \<open>urlparse\<close> and \<open>ipaddress.ip_address\<close> are parameters; the
  environment flags are inputs; trace lines are left out.
\<close>

section \<open>Endpoint policy\<close>

record url_parts =
  url_scheme :: string
  url_username :: "string option"
  url_password :: "string option"
  url_hostname :: "string option"
  url_port :: "int option"

record ip_flags =
  is_link_local :: bool
  is_loopback :: bool
  is_private :: bool

record ip_address =
  ip_flags_of :: ip_flags
  ipv4_mapped :: "ip_flags option"

text \<open>\<open>None\<close> is the \<open>ValueError\<close> of the parser (for the URL also of reading its port).\<close>

record net_lib =
  urlparse :: "string \<Rightarrow> url_parts option"
  parse_ip :: "string \<Rightarrow> ip_address option"

definition unwrapped :: "ip_address \<Rightarrow> ip_flags" where
  "unwrapped a = (case ipv4_mapped a of Some f \<Rightarrow> f | None \<Rightarrow> ip_flags_of a)"

definition localhost_name :: "string \<Rightarrow> bool" where
  "localhost_name h = (h \<in> {''localhost'', ''::1''} \<or> ends_with ''.localhost'' h)"

definition host_allowed :: "net_lib \<Rightarrow> string \<Rightarrow> bool \<Rightarrow> bool" where
  "host_allowed net host allow_public =
     (let h = lower (py_strip host) in
      if h = [] then False
      else if localhost_name h then True
      else case parse_ip net h of
             None \<Rightarrow> allow_public
           | Some a \<Rightarrow>
               if is_link_local (unwrapped a) then False
               else if is_loopback (unwrapped a) \<or> is_private (unwrapped a) then True
               else allow_public)"

definition is_loopback_host :: "net_lib \<Rightarrow> string \<Rightarrow> bool" where
  "is_loopback_host net host =
     (let h = lower (py_strip host) in
      if localhost_name h then True
      else case parse_ip net h of None \<Rightarrow> False | Some a \<Rightarrow> is_loopback (unwrapped a))"

definition validate_model_endpoint_url :: "net_lib \<Rightarrow> string \<Rightarrow> bool \<Rightarrow> bool \<Rightarrow> string res" where
  "validate_model_endpoint_url net url allow_public require_tls =
     (let raw0 = py_strip url in
      if raw0 = [] then Raise ModelEndpointPolicyError
      else
        (let raw = (if has_sub ''://'' raw0 then raw0 else ''http://'' @ raw0) in
         case urlparse net raw of
           None \<Rightarrow> Raise ModelEndpointPolicyError
         | Some u \<Rightarrow>
             (let scheme = lower (url_scheme u) in
              if scheme \<notin> {''http'', ''https''} then Raise ModelEndpointPolicyError
              else if truthy_str (url_username u) \<or> truthy_str (url_password u) then Raise ModelEndpointPolicyError
              else case url_hostname u of
                     None \<Rightarrow> Raise ModelEndpointPolicyError
                   | Some host \<Rightarrow>
                       if host = [] then Raise ModelEndpointPolicyError
                       else if \<not> host_allowed net host allow_public then Raise ModelEndpointPolicyError
                       else if require_tls \<and> scheme = ''http'' \<and> \<not> is_loopback_host net host
                       then Raise ModelEndpointPolicyError
                       else
                         (let port = (case url_port u of Some p \<Rightarrow> p
                                      | None \<Rightarrow> if scheme = ''https'' then 443 else 80);
                              netloc = (if CHR '':'' \<in> set host \<and> take 1 host \<noteq> ''[''
                                        then ''['' @ host @ '']:'' @ show_int port
                                        else host @ '':'' @ show_int port)
                          in Ret (rstrip_slash (scheme @ ''://'' @ netloc))))))"

fun parse_endpoints :: "net_lib \<Rightarrow> bool \<Rightarrow> bool \<Rightarrow> string list \<Rightarrow> string list res" where
  "parse_endpoints net allow_public skip_invalid [] = Ret []"
| "parse_endpoints net allow_public skip_invalid (part # parts) =
     (let candidate = py_strip part in
      if candidate = [] \<or> candidate = ''REQUIRED_SET_IN_ENV''
      then parse_endpoints net allow_public skip_invalid parts
      else case validate_model_endpoint_url net candidate allow_public False of
             Ret u \<Rightarrow> res_bind (parse_endpoints net allow_public skip_invalid parts) (\<lambda>us. Ret (u # us))
           | Raise e \<Rightarrow> if skip_invalid then parse_endpoints net allow_public skip_invalid parts else Raise e)"

definition parse_model_endpoint_list :: "net_lib \<Rightarrow> string \<Rightarrow> bool \<Rightarrow> bool \<Rightarrow> string list res" where
  "parse_model_endpoint_list net raw allow_public skip_invalid =
     (if py_strip raw = [] then Ret []
      else parse_endpoints net allow_public skip_invalid (split_on (CHR '','') raw))"

section \<open>Backends\<close>

datatype backend_kind = Ollama | LmStudio | OpenRouter
datatype backend_health = UnknownHealth | OnlineHealth | OfflineHealth | DegradedHealth

record backend =
  be_name :: string
  base_url :: string
  be_kind :: backend_kind
  be_models :: "string list"
  be_health :: backend_health
  last_seen :: "rat option"

type_synonym registry = "(string, backend) dict"

definition registry_all :: "registry \<Rightarrow> backend list" where
  "registry_all r = map snd r"

definition registry_online :: "registry \<Rightarrow> backend list" where
  "registry_online r = filter (\<lambda>b. be_health b = OnlineHealth) (map snd r)"

text \<open>A probe of an endpoint answers with its health and its models; it is a parameter.\<close>

type_synonym probe = "string \<Rightarrow> backend_health \<times> string list"

definition probed :: "probe \<Rightarrow> rat \<Rightarrow> string \<Rightarrow> string \<Rightarrow> backend_kind \<Rightarrow> backend" where
  "probed probe now name url kind =
     \<lparr>be_name = name, base_url = url, be_kind = kind, be_models = snd (probe url), be_health = fst (probe url),
      last_seen = Some now\<rparr>"

definition probe_and_record ::
  "probe \<Rightarrow> rat \<Rightarrow> string \<Rightarrow> string \<Rightarrow> backend_kind \<Rightarrow> registry \<Rightarrow> backend \<times> registry" where
  "probe_and_record probe now name url kind r =
     (let b = probed probe now name url kind
      in (b, if be_health b = OnlineHealth then AList.update name b r else r))"

definition SEEDS :: "(string \<times> string \<times> backend_kind) list" where
  "SEEDS =
     [(''ollama-local'', ''http://localhost:11434/v1'', Ollama),
      (''lmstudio-mac'', ''http://localhost:1234/v1'', LmStudio),
      (''lmstudio-win'', ''http://192.0.2.1:1234/v1'', LmStudio)]"

text \<open>The probes run concurrently: results come in the order of the seeds, the entries are written
  in the order in which the probes finish.\<close>

definition autodetect ::
  "probe \<Rightarrow> (string \<Rightarrow> rat) \<Rightarrow> (string \<times> string \<times> backend_kind) list \<Rightarrow> registry \<Rightarrow> backend list \<times> registry" where
  "autodetect probe clock finish_order r =
     (map (\<lambda>(name, url, kind). probed probe (clock name) name url kind) SEEDS,
      fold (\<lambda>(name, url, kind) r. snd (probe_and_record probe (clock name) name url kind r)) finish_order r)"

definition kind_value :: "backend_kind \<Rightarrow> string" where
  "kind_value k = (case k of Ollama \<Rightarrow> ''ollama'' | LmStudio \<Rightarrow> ''lmstudio'' | OpenRouter \<Rightarrow> ''openrouter'')"

definition register_by_ip ::
  "net_lib \<Rightarrow> bool \<Rightarrow> probe \<Rightarrow> rat \<Rightarrow> string \<Rightarrow> int \<Rightarrow> backend_kind \<Rightarrow> string option \<Rightarrow> registry
   \<Rightarrow> backend res \<times> registry" where
  "register_by_ip net allow_public probe now ip port kind name0 r =
     (let name = (if truthy_str name0 then the name0 else kind_value kind @ ''-'' @ ip) in
      case validate_model_endpoint_url net (''http://'' @ ip @ '':'' @ show_int port) allow_public False of
        Raise e \<Rightarrow> (Raise (if e = ModelEndpointPolicyError then BackendOfflineError else e), r)
      | Ret base \<Rightarrow>
          (case probe_and_record probe now name (base @ ''/v1'') kind r of
             (b, r') \<Rightarrow> (if be_health b \<noteq> OnlineHealth then Raise BackendOfflineError else Ret b, r')))"

definition MIRROR_BACKENDS :: "string list" where
  "MIRROR_BACKENDS = [''lmstudio-mac'']"

definition TIER_HOSTS :: "(string, string list) dict" where
  "TIER_HOSTS = [(''mac'', [''ollama-local'']), (''windows'', [''lmstudio-win'']), (''shared'', [])]"

definition TIER_PREF :: "(string \<times> string, backend_kind list) dict" where
  "TIER_PREF =
     [((''mac'', ''coding''), [Ollama]), ((''mac'', ''reasoning''), [Ollama]),
      ((''windows'', ''coding''), [LmStudio]), ((''windows'', ''reasoning''), [LmStudio]),
      ((''shared'', ''coding''), [LmStudio, Ollama]), ((''shared'', ''reasoning''), [Ollama, LmStudio]),
      ((''shared'', ''research''), [LmStudio, Ollama]), ((''shared'', ''ops''), [Ollama, LmStudio])]"

definition first_of_kinds :: "backend_kind list \<Rightarrow> backend list \<Rightarrow> backend option" where
  "first_of_kinds kinds bs =
     (case concat (map (\<lambda>k. filter (\<lambda>b. be_kind b = k) bs) kinds) of [] \<Rightarrow> None | b # _ \<Rightarrow> Some b)"

definition select_backend :: "registry \<Rightarrow> string option \<Rightarrow> string \<Rightarrow> string \<Rightarrow> backend res" where
  "select_backend r model_hint task_type target_tier =
     (let online = registry_online r;
          hinted = (case model_hint of
              None \<Rightarrow> None
            | Some m \<Rightarrow> if m = [] then None
                        else find (\<lambda>b. m \<in> set (be_models b) \<and> be_name b \<notin> set MIRROR_BACKENDS) online)
      in case hinted of
           Some b \<Rightarrow> Ret b
         | None \<Rightarrow>
             (case map_of TIER_HOSTS target_tier of
                None \<Rightarrow> Raise (KeyError target_tier)
              | Some hosts \<Rightarrow>
                  (let candidates = filter (\<lambda>b. (hosts = [] \<or> be_name b \<in> set hosts) \<and>
                           be_name b \<notin> set MIRROR_BACKENDS) online;
                       prefs = dict_get TIER_PREF (target_tier, task_type) [Ollama, LmStudio]
                   in case first_of_kinds prefs candidates of
                        Some b \<Rightarrow> Ret b | None \<Rightarrow> Raise NoBackendAvailableError)))"

section \<open>Routing\<close>

record tool_call_spec =
  task_type :: string
  model_hint :: "string option"
  est_tokens :: int
  privacy_critical :: bool
  parent_id :: "string option"
  escalation_reason :: "string option"
  in_context :: bool
  base_url_override :: "string option"
  target_tier :: string
  windows_only :: bool

record resolved_route =
  tier :: int
  rt_backend :: "string option"
  rt_model :: "string option"
  est_cost_usd :: rat
  fallback_chain :: "int list"
  rt_escalation_reason :: "string option"

text \<open>\<open>resolve_backend_for_spec\<close> as the router calls it; the launch spec carries no \<open>kind\<close>.\<close>

definition resolve_backend_for_spec :: "registry \<Rightarrow> tool_call_spec \<Rightarrow> backend res" where
  "resolve_backend_for_spec r spec =
     (let resolved = (case base_url_override spec of
            Some url \<Rightarrow>
              if url = [] then select_backend r (model_hint spec) (task_type spec) (target_tier spec)
              else (case find (\<lambda>b. base_url b = url) (registry_all r) of
                      Some b \<Rightarrow> Ret b
                    | None \<Rightarrow> Ret \<lparr>be_name = ''adhoc'', base_url = url, be_kind = LmStudio, be_models = [],
                                   be_health = UnknownHealth, last_seen = None\<rparr>)
          | None \<Rightarrow> select_backend r (model_hint spec) (task_type spec) (target_tier spec))
      in res_bind resolved (\<lambda>b.
           if windows_only spec \<and> be_name b \<in> set MIRROR_BACKENDS then Raise PolicyUnavailable else Ret b))"

record policy_env =
  offline :: bool
  net :: net_lib

definition max_allowed_tier :: "policy_env \<Rightarrow> tool_call_spec \<Rightarrow> int" where
  "max_allowed_tier env spec = (if offline env then 2 else if privacy_critical spec then 3 else 6)"

definition enforce_tier_policy :: "policy_env \<Rightarrow> int \<Rightarrow> tool_call_spec \<Rightarrow> unit res" where
  "enforce_tier_policy env t spec =
     (if offline env \<and> t \<ge> 3 then Raise FrugalityPolicyError
      else if privacy_critical spec \<and> t \<ge> 4 then Raise FrugalityPolicyError
      else Ret ())"

definition validate_tier1_local_backend :: "policy_env \<Rightarrow> tool_call_spec \<Rightarrow> backend \<Rightarrow> unit res" where
  "validate_tier1_local_backend env spec b =
     (if \<not> (offline env \<or> privacy_critical spec) then Ret ()
      else if base_url b = [] then Raise FrugalityPolicyError
      else case validate_model_endpoint_url (net env) (base_url b) False False of
             Ret _ \<Rightarrow> Ret () | Raise _ \<Rightarrow> Raise FrugalityPolicyError)"

definition probe_tier_0 :: "tool_call_spec \<Rightarrow> resolved_route option" where
  "probe_tier_0 spec =
     (if in_context spec \<or> task_type spec = ''in_context''
      then Some \<lparr>tier = 0, rt_backend = Some ''in_context'', rt_model = None, est_cost_usd = 0,
                 fallback_chain = [], rt_escalation_reason = None\<rparr>
      else None)"

definition probe_tier_1 :: "policy_env \<Rightarrow> tool_call_spec \<Rightarrow> registry option \<Rightarrow> resolved_route option res" where
  "probe_tier_1 env spec reg =
     (case reg of
        None \<Rightarrow> Ret None
      | Some r \<Rightarrow>
          (case resolve_backend_for_spec r spec of
             Raise e \<Rightarrow> if e = PolicyUnavailable then Ret None else Raise e
           | Ret b \<Rightarrow>
               res_bind (validate_tier1_local_backend env spec b) (\<lambda>_.
                 Ret (Some \<lparr>tier = 1, rt_backend = Some (be_name b),
                            rt_model = (case model_hint spec of
                                Some m \<Rightarrow> Some m
                              | None \<Rightarrow> (case be_models b of [] \<Rightarrow> None | m # _ \<Rightarrow> Some m)),
                            est_cost_usd = 0, fallback_chain = [0], rt_escalation_reason = None\<rparr>))))"

definition LOCAL_INDEX_TASK_TYPES :: "string list" where
  "LOCAL_INDEX_TASK_TYPES = [''search'', ''index'', ''gbrain'', ''crg'', ''code_search'', ''semantic_search'']"

definition probe_tier_2 :: "tool_call_spec \<Rightarrow> resolved_route option" where
  "probe_tier_2 spec =
     (if task_type spec \<notin> set LOCAL_INDEX_TASK_TYPES then None
      else Some \<lparr>tier = 2,
                 rt_backend = Some (if task_type spec \<in> {''gbrain'', ''semantic_search''} then ''gbrain'' else ''crg''),
                 rt_model = model_hint spec, est_cost_usd = 0, fallback_chain = [0, 1],
                 rt_escalation_reason = None\<rparr>)"

definition backend_by_tier :: "(int, string) dict" where
  "backend_by_tier = [(3, ''huggingface_free''), (4, ''free_proprietary''), (5, ''openrouter''), (6, ''grok'')]"

definition escalation_route :: "policy_env \<Rightarrow> tool_call_spec \<Rightarrow> int \<Rightarrow> resolved_route res" where
  "escalation_route env spec t =
     (if t \<ge> 3 \<and> \<not> truthy_str (escalation_reason spec) then Raise FrugalityPolicyError
      else res_bind (enforce_tier_policy env t spec) (\<lambda>_.
        Ret \<lparr>tier = t, rt_backend = map_of backend_by_tier t, rt_model = model_hint spec,
             est_cost_usd = (if t \<le> 2 then 0 else 1 / 1000 * of_int (max (est_tokens spec) 1)),
             fallback_chain = [0 .. t - 1], rt_escalation_reason = escalation_reason spec\<rparr>))"

text \<open>The loop over the three local probes, which none of the ceilings excludes.\<close>

definition probe_local :: "policy_env \<Rightarrow> tool_call_spec \<Rightarrow> registry option \<Rightarrow> resolved_route option res" where
  "probe_local env spec reg =
     (case probe_tier_0 spec of
        Some rt \<Rightarrow> Ret (Some rt)
      | None \<Rightarrow>
          (if 1 > max_allowed_tier env spec then Ret None
           else res_bind (probe_tier_1 env spec reg) (\<lambda>r1.
             case r1 of
               Some rt \<Rightarrow> Ret (Some rt)
             | None \<Rightarrow> Ret (if 2 > max_allowed_tier env spec then None else probe_tier_2 spec))))"

definition resolve_route ::
  "policy_env \<Rightarrow> tool_call_spec \<Rightarrow> registry option \<Rightarrow> int option \<Rightarrow> resolved_route res" where
  "resolve_route env spec reg escalation_tier =
     res_bind (probe_local env spec reg) (\<lambda>found.
       case found of
         Some rt \<Rightarrow> res_bind (enforce_tier_policy env (tier rt) spec) (\<lambda>_. Ret rt)
       | None \<Rightarrow>
           (let target = (case escalation_tier of Some t \<Rightarrow> t | None \<Rightarrow> 3) in
            if target \<le> 2 then Raise FrugalityPolicyError
            else res_bind (enforce_tier_policy env target spec) (\<lambda>_. escalation_route env spec target)))"

section \<open>The gate\<close>

datatype denial = TierAboveCeiling int int bool | PolicyMessage

record gate_decision =
  gate_route :: "resolved_route option"
  denied :: "denial option"

definition reasoned :: "string option \<Rightarrow> bool" where
  "reasoned r = (case r of None \<Rightarrow> False | Some s \<Rightarrow> py_strip s \<noteq> [])"

definition ceiling_for :: "policy_env \<Rightarrow> tool_call_spec \<Rightarrow> bool \<Rightarrow> string option \<Rightarrow> int" where
  "ceiling_for env spec override_confirmed override_reason =
     (if privacy_critical spec \<and> (override_confirmed \<and> reasoned override_reason) \<and> \<not> offline env
      then 6 else max_allowed_tier env spec)"

definition consult_by_known_tier ::
  "policy_env \<Rightarrow> int \<Rightarrow> tool_call_spec \<Rightarrow> string option \<Rightarrow> bool \<Rightarrow> string option \<Rightarrow> gate_decision" where
  "consult_by_known_tier env t spec hint override_confirmed override_reason =
     (let ceiling = ceiling_for env spec override_confirmed override_reason in
      if t > ceiling then \<lparr>gate_route = None, denied = Some (TierAboveCeiling t ceiling (offline env))\<rparr>
      else \<lparr>gate_route = Some \<lparr>tier = t, rt_backend = None, rt_model = hint, est_cost_usd = 0,
                               fallback_chain = [], rt_escalation_reason = None\<rparr>,
            denied = None\<rparr>)"

definition or_else :: "string option \<Rightarrow> string option \<Rightarrow> string option" where
  "or_else a b = (if truthy_str a then a else b)"

definition consult_by_resolve_route ::
  "policy_env \<Rightarrow> tool_call_spec \<Rightarrow> registry \<Rightarrow> int option \<Rightarrow> bool \<Rightarrow> string option \<Rightarrow> gate_decision res" where
  "consult_by_resolve_route env spec reg escalation_tier override_confirmed override_reason =
     (let default_ceiling = max_allowed_tier env spec;
          resolve = (\<lambda>sp. case resolve_route env sp (Some reg) escalation_tier of
              Ret rt \<Rightarrow> Ret \<lparr>gate_route = Some rt, denied = None\<rparr>
            | Raise e \<Rightarrow> if e = FrugalityPolicyError
                         then Ret \<lparr>gate_route = None, denied = Some PolicyMessage\<rparr> else Raise e)
      in case escalation_tier of
           None \<Rightarrow> resolve spec
         | Some t \<Rightarrow>
             if t > default_ceiling
             then (if \<not> (override_confirmed \<and> reasoned override_reason)
                   then Ret \<lparr>gate_route = None, denied = Some (TierAboveCeiling t default_ceiling False)\<rparr>
                   else if offline env
                   then Ret \<lparr>gate_route = None, denied = Some (TierAboveCeiling t default_ceiling True)\<rparr>
                   else resolve (spec\<lparr>privacy_critical := False,
                                      escalation_reason := or_else (escalation_reason spec) override_reason\<rparr>))
             else resolve spec)"

definition consult_gate ::
  "policy_env \<Rightarrow> string \<Rightarrow> string option \<Rightarrow> bool \<Rightarrow> string option \<Rightarrow> int option \<Rightarrow> int \<Rightarrow> registry option
   \<Rightarrow> string option \<Rightarrow> int option \<Rightarrow> bool \<Rightarrow> string option \<Rightarrow> gate_decision res" where
  "consult_gate env task device privacy hint frugality_tier tokens reg reason escalation_tier
      override_confirmed override_reason =
     (let spec = \<lparr>task_type = task, model_hint = hint, est_tokens = tokens, privacy_critical = privacy,
                  parent_id = None, escalation_reason = reason, in_context = False,
                  base_url_override = None, target_tier = ''shared'',
                  windows_only = (case device of None \<Rightarrow> False | Some d \<Rightarrow> d \<noteq> [] \<and> has_sub ''win'' (lower d))\<rparr>
      in case frugality_tier of
           Some t \<Rightarrow> Ret (consult_by_known_tier env t spec hint override_confirmed override_reason)
         | None \<Rightarrow>
             (case reg of
                None \<Rightarrow> Ret \<lparr>gate_route = None, denied = None\<rparr>
              | Some r \<Rightarrow> consult_by_resolve_route env spec r escalation_tier override_confirmed override_reason))"

definition gate_permits ::
  "policy_env \<Rightarrow> int option \<Rightarrow> string \<Rightarrow> bool \<Rightarrow> bool \<Rightarrow> string option \<Rightarrow> (bool \<times> denial option) res" where
  "gate_permits env frugality_tier task privacy override_confirmed override_reason =
     (case frugality_tier of
        None \<Rightarrow> Ret (True, None)
      | Some t \<Rightarrow>
          res_bind (consult_gate env task None privacy None (Some t) 0 None None None
              override_confirmed override_reason)
            (\<lambda>d. Ret (gate_route d \<noteq> None, denied d)))"

fun filter_chain_by_gate ::
  "policy_env \<Rightarrow> string \<Rightarrow> bool \<Rightarrow> bool \<Rightarrow> string option \<Rightarrow> ('m \<times> int option) list \<Rightarrow> ('m \<times> int option) list res" where
  "filter_chain_by_gate env task privacy oc oreason [] = Ret []"
| "filter_chain_by_gate env task privacy oc oreason (c # cs) =
     res_bind (gate_permits env (snd c) task privacy oc oreason) (\<lambda>(allowed, _).
     res_bind (filter_chain_by_gate env task privacy oc oreason cs) (\<lambda>kept.
       Ret (if allowed then c # kept else kept)))"


section \<open>Lemmas\<close>

lemma enforce_iff:
  "enforce_tier_policy env t spec = Ret () \<longleftrightarrow> \<not> (offline env \<and> t \<ge> 3) \<and> \<not> (privacy_critical spec \<and> t \<ge> 4)"
  by (auto simp: enforce_tier_policy_def)

lemma probe_tier_1_cases:
  assumes "probe_tier_1 env spec reg = Ret (Some rt)"
  obtains r b where "reg = Some r" and "resolve_backend_for_spec r spec = Ret b" and "tier rt = 1"
    and "rt_backend rt = Some (be_name b)" and "validate_tier1_local_backend env spec b = Ret ()"
  using assms by (auto simp: probe_tier_1_def res_bind_eq_Ret split: option.splits res.splits if_splits)

lemma probe_local_cases:
  assumes "probe_local env spec reg = Ret (Some rt)"
  obtains (zero) "tier rt = 0" | (one) "probe_tier_1 env spec reg = Ret (Some rt)"
  | (two) "tier rt = 2" and "probe_tier_2 spec = Some rt"
  using assms
  by (auto simp: probe_local_def probe_tier_0_def probe_tier_2_def max_allowed_tier_def res_bind_eq_Ret
      split: option.splits if_splits)

lemma escalation_route_cases:
  assumes "escalation_route env spec t = Ret rt" and "3 \<le> t"
  shows "tier rt = t" "truthy_str (escalation_reason spec)" "rt_escalation_reason rt = escalation_reason spec"
  using assms unfolding escalation_route_def by (simp_all add: res_bind_eq_Ret split: if_splits) auto

lemma resolve_route_cases:
  assumes "resolve_route env spec reg esc = Ret rt"
  obtains (local) "probe_local env spec reg = Ret (Some rt)" and "enforce_tier_policy env (tier rt) spec = Ret ()"
  | (escalated) "probe_local env spec reg = Ret None" and "tier rt = (case esc of Some t \<Rightarrow> t | None \<Rightarrow> 3)"
      and "3 \<le> tier rt" and "enforce_tier_policy env (tier rt) spec = Ret ()"
      and "truthy_str (escalation_reason spec)" and "rt_escalation_reason rt = escalation_reason spec"
proof -
  from assms obtain found where f: "probe_local env spec reg = Ret found"
    by (cases "probe_local env spec reg") (auto simp: resolve_route_def)
  show thesis
  proof (cases found)
    case None
    define t where "t = (case esc of Some t \<Rightarrow> t | None \<Rightarrow> 3)"
    from assms f None have "\<not> t \<le> 2" "enforce_tier_policy env t spec = Ret ()" "escalation_route env spec t = Ret rt"
      by (simp_all add: resolve_route_def t_def [symmetric] res_bind_eq_Ret split: if_splits)
    with escalation_route_cases [of env spec t rt] f None show thesis
      by (intro escalated) (simp_all add: t_def [symmetric])
  next
    case (Some r)
    with assms f show thesis by (intro local) (auto simp: resolve_route_def res_bind_eq_Ret)
  qed
qed

lemma local_tier:
  assumes "probe_local env spec reg = Ret (Some rt)"
  shows "tier rt \<in> {0, 1, 2}"
  using assms by (cases rule: probe_local_cases) (auto elim: probe_tier_1_cases)

lemma validate_url_host:
  assumes "validate_model_endpoint_url n url pub tls = Ret u"
  obtains raw parts host where "urlparse n raw = Some parts" and "url_hostname parts = Some host"
    and "host_allowed n host pub" and "lower (url_scheme parts) \<in> {''http'', ''https''}"
    and "\<not> truthy_str (url_username parts)" and "\<not> truthy_str (url_password parts)"
  using assms by (auto simp: validate_model_endpoint_url_def Let_def split: option.splits if_splits)

text \<open>A host that is local whatever the policy: a localhost name or an address that is loopback
  or private and not link-local.\<close>

definition local_host :: "net_lib \<Rightarrow> string \<Rightarrow> bool" where
  "local_host n host \<longleftrightarrow> localhost_name (lower (py_strip host)) \<or>
     (\<exists>a. parse_ip n (lower (py_strip host)) = Some a \<and> \<not> is_link_local (unwrapped a) \<and>
        (is_loopback (unwrapped a) \<or> is_private (unwrapped a)))"

lemma host_allowed_private: "host_allowed n host False \<Longrightarrow> local_host n host"
  by (auto simp: host_allowed_def local_host_def Let_def split: if_splits option.splits)

lemma gate_permits_iff:
  "gate_permits env ft task privacy oc oreason =
     Ret (case ft of
       None \<Rightarrow> (True, None)
     | Some t \<Rightarrow>
         (let ceiling = (if offline env then 2 else if privacy \<and> \<not> (oc \<and> reasoned oreason) then 3 else 6)
          in if t \<le> ceiling then (True, None) else (False, Some (TierAboveCeiling t ceiling (offline env)))))"
  by (cases ft) (auto simp: gate_permits_def consult_gate_def consult_by_known_tier_def ceiling_for_def
      max_allowed_tier_def Let_def)

lemma resolve_ignores_privacy:
  "resolve_backend_for_spec r (spec\<lparr>privacy_critical := p, escalation_reason := q\<rparr>) = resolve_backend_for_spec r spec"
  by (cases "base_url_override spec") (simp_all add: resolve_backend_for_spec_def Let_def)

lemma first_of_kinds_Nil [simp]: "first_of_kinds kinds [] = None"
proof -
  have *: "concat (map (\<lambda>k. ([] :: backend list)) kinds) = []" by (induction kinds) auto
  show ?thesis unfolding first_of_kinds_def filter.simps * by simp
qed

lemma known_tier_route:
  "gate_route (consult_by_known_tier env t spec hint oc oreason) = Some rt \<Longrightarrow>
   tier rt = t \<and> t \<le> ceiling_for env spec oc oreason"
  by (auto simp: consult_by_known_tier_def Let_def split: if_splits)

lemma resolve_route_bounds:
  assumes "resolve_route env spec reg esc = Ret rt"
  shows "(offline env \<longrightarrow> tier rt \<le> 2) \<and> (privacy_critical spec \<longrightarrow> tier rt \<le> 3)"
  using assms
  by (cases rule: resolve_route_cases) (auto simp: enforce_iff dest: local_tier)

text \<open>The registries that discovery can build.\<close>

inductive registry_run :: "registry \<Rightarrow> bool" where
  empty: "registry_run []"
| detect: "registry_run r \<Longrightarrow> registry_run (snd (autodetect probe clock order r))"
| register: "registry_run r \<Longrightarrow> registry_run (snd (register_by_ip lib pub probe now ip port kind name r))"

definition registry_ok :: "registry \<Rightarrow> bool" where
  "registry_ok r \<longleftrightarrow> dict_ok r \<and> (\<forall>(name, b) \<in> set r. map_of r name = Some b \<and> be_name b = name \<and> be_health b = OnlineHealth)"

lemma registry_ok_iff:
  "registry_ok r \<longleftrightarrow> dict_ok r \<and> (\<forall>name b. map_of r name = Some b \<longrightarrow> be_name b = name \<and> be_health b = OnlineHealth)"
  by (auto simp: registry_ok_def dest: map_of_SomeD)

lemma record_ok: "registry_ok r \<Longrightarrow> registry_ok (snd (probe_and_record probe now name url kind r))"
  by (auto simp: registry_ok_iff probe_and_record_def probed_def Let_def map_of_update
      simp del: map_of_eq_Some_iff split: if_splits)

lemma registry_run_ok: "registry_run r \<Longrightarrow> registry_ok r"
proof (induction rule: registry_run.induct)
  case empty
  show ?case by (simp add: registry_ok_def)
next
  case (detect r probe clock order)
  from detect.IH have "registry_ok (fold (\<lambda>(name, url, kind) r. snd (probe_and_record probe (clock name) name url kind r)) order r)"
    by (induction order arbitrary: r) (auto simp: record_ok)
  then show ?case by (simp add: autodetect_def)
next
  case (register r lib pub probe now ip port kind name)
  then show ?case
    using record_ok [OF register.IH, of probe now]
    by (simp add: register_by_ip_def Let_def prod.case_eq_if split: res.split)
qed

lemma first_of_kinds_mem: "first_of_kinds kinds bs = Some b \<Longrightarrow> b \<in> set bs"
proof -
  assume "first_of_kinds kinds bs = Some b"
  then obtain rest where "concat (map (\<lambda>k. filter (\<lambda>b. be_kind b = k) bs) kinds) = b # rest"
    by (auto simp: first_of_kinds_def split: list.splits)
  then have "b \<in> set (concat (map (\<lambda>k. filter (\<lambda>b. be_kind b = k) bs) kinds))" by simp
  then show "b \<in> set bs" by auto
qed

lemma select_backend_cases:
  assumes "select_backend r hint task tgt = Ret b"
  obtains (hinted) m where "hint = Some m" and "m \<in> set (be_models b)" and "b \<in> set (registry_online r)"
      and "be_name b \<notin> set MIRROR_BACKENDS"
  | (tiered) hosts where "map_of TIER_HOSTS tgt = Some hosts" and "hosts = [] \<or> be_name b \<in> set hosts"
      and "b \<in> set (registry_online r)" and "be_name b \<notin> set MIRROR_BACKENDS"
proof -
  let ?h = "case hint of None \<Rightarrow> None | Some m \<Rightarrow> if m = [] then None
      else find (\<lambda>b. m \<in> set (be_models b) \<and> be_name b \<notin> set MIRROR_BACKENDS) (registry_online r)"
  show thesis
  proof (cases ?h)
    case (Some b')
    with assms have "b' = b" by (simp add: select_backend_def Let_def)
    with Some obtain m where m: "hint = Some m"
      and "find (\<lambda>b. m \<in> set (be_models b) \<and> be_name b \<notin> set MIRROR_BACKENDS) (registry_online r) = Some b"
      by (auto split: option.splits if_splits)
    then show thesis by (intro hinted [OF m]) (auto simp: find_Some_iff)
  next
    case None
    with assms obtain hosts where h: "map_of TIER_HOSTS tgt = Some hosts"
      by (auto simp: select_backend_def Let_def split: option.splits)
    with None assms first_of_kinds_mem show thesis
      by (intro tiered [OF h]) (fastforce simp: select_backend_def Let_def split: option.splits)+
  qed
qed

section \<open>Properties\<close>



definition demo_spec :: tool_call_spec where
  "demo_spec = \<lparr>task_type = ''reasoning'', model_hint = None, est_tokens = 100, privacy_critical = True,
     parent_id = None, escalation_reason = None, in_context = False, base_url_override = None,
     target_tier = ''shared'', windows_only = False\<rparr>"

definition demo_url :: "string \<Rightarrow> url_parts" where
  "demo_url host = \<lparr>url_scheme = ''http'', url_username = None, url_password = None, url_hostname = Some host,
     url_port = Some 11434\<rparr>"

definition demo_policy :: policy_env where
  "demo_policy = \<lparr>offline = False,
     net = \<lparr>urlparse = (\<lambda>s. if s = ''http://localhost:11434'' then Some (demo_url ''localhost'')
                         else Some (demo_url ''api.example.com'')),
            parse_ip = (\<lambda>_. None)\<rparr>\<rparr>"

definition demo_backend :: "string \<Rightarrow> backend" where
  "demo_backend url = \<lparr>be_name = ''ollama-local'', base_url = url, be_kind = Ollama, be_models = [''m''],
     be_health = OnlineHealth, last_seen = Some 1\<rparr>"


text \<open>Whatever has been probed and registered, the registry holds online backends only, under
  their own names; a selection returns one of them and never a mirror, and without a matching
  model hint one of the hosts of the requested tier.\<close>

theorem selection_is_sound:
  assumes "registry_run r" and "select_backend r hint task tgt = Ret b"
  shows "map_of r (be_name b) = Some b \<and> be_health b = OnlineHealth \<and> be_name b \<notin> set MIRROR_BACKENDS \<and>
    ((\<exists>m. hint = Some m \<and> m \<in> set (be_models b)) \<or>
     (\<exists>hosts. map_of TIER_HOSTS tgt = Some hosts \<and> (hosts = [] \<or> be_name b \<in> set hosts)))"
proof -
  from registry_run_ok [OF assms(1)] have ok: "registry_ok r" .
  have from_online: "map_of r (be_name b) = Some b \<and> be_health b = OnlineHealth" if "b \<in> set (registry_online r)"
    using that ok by (auto simp: registry_online_def registry_ok_def)
  show ?thesis
    using assms(2)
  proof (cases rule: select_backend_cases)
    case (hinted m)
    with from_online show ?thesis by auto
  next
    case (tiered hosts)
    with from_online show ?thesis by auto
  qed
qed

theorem selection_is_sound_witness:
  "\<exists>r b. select_backend r None ''coding'' ''windows'' = Ret b \<and> be_health b = OnlineHealth \<and> be_name b = ''lmstudio-win''"
proof -
  let ?r = "snd (autodetect (\<lambda>_. (OnlineHealth, [''m''])) (\<lambda>_. 0) SEEDS [])"
  have run: "registry_run ?r" by (intro registry_run.detect registry_run.empty)
  have "(case select_backend ?r None ''coding'' ''windows'' of Ret b \<Rightarrow> be_name b | Raise _ \<Rightarrow> []) = ''lmstudio-win''"
    by code_simp
  then obtain b where b: "select_backend ?r None ''coding'' ''windows'' = Ret b" "be_name b = ''lmstudio-win''"
    by (auto split: res.splits)
  from selection_is_sound [OF run b(1)] b show ?thesis by blast
qed

text \<open>Through the gate no call gets past its ceiling silently: offline nothing beyond the
  local tiers is ever routed, override or not, and a privacy-critical call is routed above tier
  three only with a confirmed override and a reason that is not blank.\<close>

theorem gate_never_silent:
  assumes "consult_gate env task device privacy hint ft tokens reg reason esc oc oreason = Ret d"
    and "gate_route d = Some rt"
  shows "(offline env \<longrightarrow> tier rt \<le> 2) \<and>
    (privacy \<and> 3 < tier rt \<longrightarrow> oc \<and> reasoned oreason \<and> \<not> offline env)"
proof (cases ft)
  case (Some t)
  define spec where "spec = \<lparr>task_type = task, model_hint = hint, est_tokens = tokens, privacy_critical = privacy,
      parent_id = None, escalation_reason = reason, in_context = False, base_url_override = None,
      target_tier = ''shared'',
      windows_only = (case device of None \<Rightarrow> False | Some d \<Rightarrow> d \<noteq> [] \<and> has_sub ''win'' (lower d))\<rparr>"
  from Some assms(1) have "d = consult_by_known_tier env t spec hint oc oreason"
    by (simp add: consult_gate_def spec_def Let_def)
  with known_tier_route assms(2) have "tier rt = t" "t \<le> ceiling_for env spec oc oreason" by auto
  moreover have "privacy_critical spec = privacy" by (simp add: spec_def)
  ultimately show ?thesis
    by (auto simp: ceiling_for_def max_allowed_tier_def split: if_splits)
next
  case None
  define spec where "spec = \<lparr>task_type = task, model_hint = hint, est_tokens = tokens, privacy_critical = privacy,
      parent_id = None, escalation_reason = reason, in_context = False, base_url_override = None,
      target_tier = ''shared'',
      windows_only = (case device of None \<Rightarrow> False | Some d \<Rightarrow> d \<noteq> [] \<and> has_sub ''win'' (lower d))\<rparr>"
  have priv: "privacy_critical spec = privacy" by (simp add: spec_def)
  from None assms obtain r where c: "consult_by_resolve_route env spec r esc oc oreason = Ret d"
    by (auto simp: consult_gate_def spec_def Let_def split: option.splits)
  have routed: ?thesis if "resolve_route env spec (Some r) esc = Ret rt"
    using resolve_route_bounds [OF that] priv by auto
  have relaxed: ?thesis if "resolve_route env sp (Some r) esc = Ret rt" "oc" "reasoned oreason" "\<not> offline env" for sp
    using that by auto
  from c assms(2) routed relaxed show ?thesis
    by (auto simp: consult_by_resolve_route_def Let_def split: option.splits if_splits res.splits)
qed

theorem gate_never_silent_witness:
  "\<exists>d rt. consult_gate demo_policy ''reasoning'' None True None (Some 5) 0 None None None True (Some ''approved by ops'') = Ret d \<and>
     gate_route d = Some rt \<and> reasoned (Some ''approved by ops'')"
proof -
  let ?c = "consult_gate demo_policy ''reasoning'' None True None (Some 5) 0 None None None True (Some ''approved by ops'')"
  have "(case ?c of Ret d \<Rightarrow> map_option tier (gate_route d) | Raise _ \<Rightarrow> None) = Some 5" by code_simp
  then obtain d rt where d: "?c = Ret d" "gate_route d = Some rt" "tier rt = 5" by (auto split: res.splits)
  from gate_never_silent [OF d(1,2)] d show ?thesis by simp
qed

text \<open>Filtering a fallback chain keeps exactly, and in order, the candidates without a tier
  and those within the ceiling: two offline, three for a privacy-critical call without a
  reasoned override, six otherwise.\<close>

theorem filter_chain_spec:
  "filter_chain_by_gate env task privacy oc oreason cs =
     Ret (filter (\<lambda>c. case snd c of None \<Rightarrow> True | Some t \<Rightarrow>
       t \<le> (if offline env then 2 else if privacy \<and> \<not> (oc \<and> reasoned oreason) then 3 else 6)) cs)"
  by (induction cs) (auto simp: gate_permits_iff Let_def split: option.splits)

text \<open>A confirmed override of the tier ceiling also drops the endpoint check of the local
  tier, because it clears the privacy flag for the whole resolution: a privacy-critical call is
  then sent to whatever backend the registry resolves, local or not.\<close>

theorem override_drops_endpoint_check:
  assumes "privacy_critical spec" and "\<not> offline env" and "3 < t" and "oc" and "reasoned oreason"
    and "\<not> in_context spec" and "task_type spec \<noteq> ''in_context''" and "resolve_backend_for_spec r spec = Ret b"
  shows "\<exists>d rt. consult_by_resolve_route env spec r (Some t) oc oreason = Ret d \<and> gate_route d = Some rt \<and>
    tier rt = 1 \<and> rt_backend rt = Some (be_name b)"
proof -
  let ?sp = "spec\<lparr>privacy_critical := False, escalation_reason := or_else (escalation_reason spec) oreason\<rparr>"
  have same: "resolve_backend_for_spec r ?sp = Ret b"
    using assms(8) resolve_ignores_privacy by simp
  then obtain rt where p: "probe_tier_1 env ?sp (Some r) = Ret (Some rt)" "tier rt = 1" "rt_backend rt = Some (be_name b)"
    using assms(2) by (auto simp: probe_tier_1_def validate_tier1_local_backend_def)
  have "probe_local env ?sp (Some r) = Ret (Some rt)"
    using p(1) assms(2,6,7) by (simp add: probe_local_def probe_tier_0_def max_allowed_tier_def)
  then have "resolve_route env ?sp (Some r) (Some t) = Ret rt"
    using p(2) assms(2) by (simp add: resolve_route_def enforce_tier_policy_def)
  then show ?thesis
    using assms(1-5) p by (auto simp: consult_by_resolve_route_def max_allowed_tier_def Let_def)
qed

theorem override_drops_endpoint_check_witness:
  "\<exists>d rt. consult_by_resolve_route demo_policy demo_spec [(''ollama-local'', demo_backend ''http://api.example.com'')]
       (Some 5) True (Some ''ok'') = Ret d \<and> gate_route d = Some rt \<and> tier rt = 1"
proof -
  let ?r = "[(''ollama-local'', demo_backend ''http://api.example.com'')]"
  have "is_Ret (resolve_backend_for_spec ?r demo_spec)" by code_simp
  then obtain b where b: "resolve_backend_for_spec ?r demo_spec = Ret b" by (auto simp: is_Ret_iff)
  have "reasoned (Some ''ok'')" by code_simp
  from override_drops_endpoint_check [OF _ _ _ _ this _ _ b, of demo_policy 5 True] show ?thesis
    by (auto simp: demo_spec_def demo_policy_def)
qed

text \<open>C64: A registry with no online backend ends the resolution with \<open>NoBackendAvailableError\<close>,
  although the router only treats \<open>PolicyUnavailable\<close> as a miss of the local tier: neither the
  index tier nor the requested escalation is tried, and the gate passes the exception on.\<close>

theorem empty_registry_stops_routing:
  assumes "registry_online r = []" and "base_url_override spec = None" and "target_tier spec \<in> {''mac'', ''windows'', ''shared''}"
    and "\<not> in_context spec" and "task_type spec \<noteq> ''in_context''"
  shows "resolve_route env spec (Some r) esc = Raise NoBackendAvailableError"
proof -
  have "map_of TIER_HOSTS (target_tier spec) \<noteq> None" using assms(3) by (auto simp: TIER_HOSTS_def)
  then have "select_backend r (model_hint spec) (task_type spec) (target_tier spec) = Raise NoBackendAvailableError"
    using assms(1) by (auto simp: select_backend_def Let_def split: option.splits)
  then have "probe_tier_1 env spec (Some r) = Raise NoBackendAvailableError"
    using assms(2) by (simp add: probe_tier_1_def resolve_backend_for_spec_def)
  with assms(4,5) show ?thesis
    by (simp add: resolve_route_def probe_local_def probe_tier_0_def max_allowed_tier_def)
qed

theorem empty_registry_stops_routing_witness:
  "resolve_route demo_policy (demo_spec\<lparr>task_type := ''search''\<rparr>) (Some []) (Some 3) = Raise NoBackendAvailableError"
  by (rule empty_registry_stops_routing) (simp_all add: registry_online_def demo_spec_def)

end
