(* ===== verification/TieredPipeline.thy ===== *)
theory TieredPipeline
  imports Frugality
begin

text \<open>
  \<open>orchestrator/tiered_pipeline.py\<close> and \<open>orchestrator/legacy_model_names.py\<close>: the
  configuration of the paid pipelines, the approval artifacts and the runner.  What YAML and JSON
  files hold is given as parsed values whose mappings have string keys; \<open>repr\<close> of floats and
  containers and the ISO form of instants are parameters; environment variables, the clock and
  the provider dispatcher are inputs.  Trace lines carry everything but the clock readings, and
  writing one is taken to succeed.
\<close>

section \<open>Data\<close>

definition PIPELINE_TIER :: int where "PIPELINE_TIER = 5"
definition MAX_STAGES :: nat where "MAX_STAGES = 3"

definition PIPELINE_NON_TIER5_ALLOWLIST :: "string list" where
  "PIPELINE_NON_TIER5_ALLOWLIST = [''glm-5.3-flash:cloud'', ''Qwen3.5-9B-MLX-4bit'']"

record dispatch_result =
  dr_text :: json
  dr_tokens :: "int option"
  dr_cost :: "rat option"

record pipeline_stage =
  stage_name :: string
  stage_models :: "string list"
  stage_max_tokens :: int
  input_from :: "string option"
  instruction :: string

record pipeline_recipe =
  recipe_name :: string
  recipe_stages :: "pipeline_stage list"
  max_total_tokens :: int
  max_input_tokens :: int
  cost_reservation_usd :: rat

datatype instant = Naive rat | Aware rat

record pipeline_approval =
  trace_id :: string
  approved_by :: string
  purpose :: string
  approved_recipe :: string
  route_tier :: int
  approved_tokens :: int
  max_cost_usd :: rat
  expires_at :: instant
  scope :: "string list"

record pipeline_result =
  result_recipe :: string
  result_output :: json
  stage_outputs :: "(string, json) dict"
  requested_tokens :: int
  total_tokens_used :: "int option"
  total_cost_usd :: "rat option"
  models_used :: "(string, string) dict"
  replay :: bool

section \<open>Approval artifacts\<close>

definition TRACE_ID_MIN_LENGTH :: nat where "TRACE_ID_MIN_LENGTH = 8"
definition TRACE_ID_MAX_LENGTH :: nat where "TRACE_ID_MAX_LENGTH = 128"

definition trace_char :: "char \<Rightarrow> bool" where
  "trace_char c = (let n = code c in (65 \<le> n \<and> n \<le> 90) \<or> (97 \<le> n \<and> n \<le> 122) \<or> (48 \<le> n \<and> n \<le> 57) \<or>
     c = CHR ''_'' \<or> c = CHR ''-'')"

definition validate_trace_id :: "string \<Rightarrow> string res" where
  "validate_trace_id t =
     (if length t < TRACE_ID_MIN_LENGTH \<or> TRACE_ID_MAX_LENGTH < length t \<or> \<not> list_all trace_char t
      then Raise PipelineApprovalError else Ret t)"

record time_lib =
  isoformat :: "instant \<Rightarrow> string"
  fromisoformat :: "string \<Rightarrow> instant option"

text \<open>The approval directory: the content of \<open><trace_id>.json\<close>, \<open>None\<close> when it cannot be read
  or parsed.\<close>

type_synonym approval_dir = "(string, json option) dict"

definition approval_payload :: "time_lib \<Rightarrow> pipeline_approval \<Rightarrow> payload" where
  "approval_payload tmlib a =
     [(''trace_id'', JStr (trace_id a)), (''approved_by'', JStr (approved_by a)), (''purpose'', JStr (purpose a)),
      (''recipe'', JStr (approved_recipe a)), (''route_tier'', JInt (route_tier a)),
      (''max_tokens'', JInt (approved_tokens a)), (''max_cost_usd'', JFloat (max_cost_usd a)),
      (''expires_at'', JStr (isoformat tmlib (expires_at a))), (''scope'', jstrs (scope a))]"

definition register_pipeline_approval ::
  "time_lib \<Rightarrow> pipeline_approval \<Rightarrow> approval_dir \<Rightarrow> unit res \<times> approval_dir" where
  "register_pipeline_approval tmlib a dir =
     (case validate_trace_id (trace_id a) of
        Raise e \<Rightarrow> (Raise e, dir)
      | Ret t \<Rightarrow> (Ret (), AList.update t (Some (JObj (approval_payload tmlib a))) dir))"

definition need_key :: "payload \<Rightarrow> string \<Rightarrow> json res" where
  "need_key d k = (case map_of d k of None \<Rightarrow> Raise (KeyError k) | Some v \<Rightarrow> Ret v)"

definition need_str :: "(json \<Rightarrow> string) \<Rightarrow> payload \<Rightarrow> string \<Rightarrow> string res" where
  "need_str repr d k = res_bind (need_key d k) (\<lambda>v. Ret (json_text repr v))"

definition approval_from ::
  "(json \<Rightarrow> string) \<Rightarrow> time_lib \<Rightarrow> string \<Rightarrow> payload \<Rightarrow> pipeline_approval res" where
  "approval_from repr tmlib tid d =
     (if json_text repr (dict_get d ''trace_id'' (JStr [])) \<noteq> tid then Raise PipelineApprovalError
      else
        res_bind (need_str repr d ''expires_at'') (\<lambda>iso.
        res_bind (case fromisoformat tmlib iso of None \<Rightarrow> Raise ValueError | Some i \<Rightarrow> Ret i) (\<lambda>expiry.
        res_bind (case expiry of Naive _ \<Rightarrow> Raise PipelineApprovalError | Aware _ \<Rightarrow> Ret ()) (\<lambda>_.
        res_bind (need_str repr d ''trace_id'') (\<lambda>t.
        res_bind (need_str repr d ''approved_by'') (\<lambda>by.
        res_bind (need_str repr d ''purpose'') (\<lambda>p.
        res_bind (need_str repr d ''recipe'') (\<lambda>r.
        res_bind (res_bind (need_key d ''route_tier'') py_int) (\<lambda>rt.
        res_bind (res_bind (need_key d ''max_tokens'') py_int) (\<lambda>mt.
        res_bind (res_bind (need_key d ''max_cost_usd'') py_float) (\<lambda>mc.
        res_bind (py_iter (dict_get d ''scope'' (JList []))) (\<lambda>items.
          Ret \<lparr>trace_id = t, approved_by = by, purpose = p, approved_recipe = r, route_tier = rt,
               approved_tokens = mt, max_cost_usd = mc, expires_at = expiry,
               scope = map (json_text repr) items\<rparr>))))))))))))"

definition load_pipeline_approval ::
  "(json \<Rightarrow> string) \<Rightarrow> time_lib \<Rightarrow> string \<Rightarrow> approval_dir \<Rightarrow> pipeline_approval res" where
  "load_pipeline_approval repr tmlib tid dir =
     res_bind (validate_trace_id tid) (\<lambda>t.
       case map_of dir t of
         Some (Some (JObj d)) \<Rightarrow>
           (case approval_from repr tmlib tid d of
              Ret a \<Rightarrow> Ret a
            | Raise e \<Rightarrow> Raise (if is_KeyError e \<or> e = TypeError \<or> e = ValueError then PipelineApprovalError else e))
       | _ \<Rightarrow> Raise PipelineApprovalError)"

section \<open>Configuration\<close>

definition LEGACY_MODEL_NAMES :: "(string, string) dict" where
  "LEGACY_MODEL_NAMES =
     [(''glm-5.1:cloud'', ''glm-5.3-flash:cloud''), (''glm-5.1'', ''glm-5.3-flash''), (''glm-5.2'', ''glm-5.3-flash'')]"

definition canonical_model_name :: "string \<Rightarrow> string" where
  "canonical_model_name name =
     (case map_of LEGACY_MODEL_NAMES (lower (py_strip name)) of None \<Rightarrow> name | Some r \<Rightarrow> r)"

text \<open>The files a runner reads and the environment: \<open>config_yaml = None\<close> is a file that cannot be
  read or parsed, \<open>models_yaml\<close> the \<open>models.yml\<close> beside the model registry if there is one.\<close>

record pipeline_files =
  config_is_file :: bool
  models_is_file :: bool
  config_yaml :: "json option"
  models_yaml :: "json option res"
  env_model :: "string \<Rightarrow> string"
  enabled_flag :: "string option"
  repr_of :: "json \<Rightarrow> string"

fun by_name :: "string \<Rightarrow> json list \<Rightarrow> (json, json) dict \<Rightarrow> (json, json) dict res" where
  "by_name field [] acc = Ret acc"
| "by_name field (item # items) acc =
     (case item of
        JObj d \<Rightarrow>
          (case map_of d ''name'' of
             None \<Rightarrow> by_name field items acc
           | Some (JList _) \<Rightarrow> Raise TypeError
           | Some (JObj _) \<Rightarrow> Raise TypeError
           | Some k \<Rightarrow> by_name field items (AList.update k (jget d field) acc))
      | JStr s \<Rightarrow> if has_sub ''name'' s then Raise TypeError else by_name field items acc
      | JList xs \<Rightarrow> if JStr ''name'' \<in> set xs then Raise TypeError else by_name field items acc
      | _ \<Rightarrow> Raise TypeError)"

definition load_by_name :: "string \<Rightarrow> pipeline_files \<Rightarrow> (json, json) dict res" where
  "load_by_name field fs =
     res_bind (models_yaml fs) (\<lambda>raw.
       case raw of
         None \<Rightarrow> Ret []
       | Some v \<Rightarrow>
           (case or_empty v of
              JObj d \<Rightarrow> res_bind (py_iter (dict_get d ''models'' (JList []))) (\<lambda>items. by_name field items [])
            | _ \<Rightarrow> Raise OtherError))"

definition load_backend_by_name :: "pipeline_files \<Rightarrow> (json, json) dict res" where
  "load_backend_by_name = load_by_name ''backend''"

definition load_frugality_tier_by_name :: "pipeline_files \<Rightarrow> (json, json) dict res" where
  "load_frugality_tier_by_name = load_by_name ''frugality_tier''"

definition reject_unknown_keys :: "payload \<Rightarrow> string list \<Rightarrow> unit res" where
  "reject_unknown_keys d allowed =
     (if list_all (\<lambda>kv. fst kv \<in> set allowed) d then Ret () else Raise PipelineConfigError)"

definition first_occurrences :: "'a list \<Rightarrow> 'a list" where
  "first_occurrences xs = rev (remdups (rev xs))"

definition raw_candidates :: "pipeline_files \<Rightarrow> json \<Rightarrow> string list res" where
  "raw_candidates fs cfg =
     (case cfg of
        JStr m \<Rightarrow> Ret [py_strip m]
      | JObj d \<Rightarrow>
          res_bind (reject_unknown_keys d [''candidates'']) (\<lambda>_.
            case jget d ''candidates'' of
              JList (c # cs) \<Rightarrow> Ret (map (\<lambda>c. py_strip (json_text (repr_of fs) c)) (c # cs))
            | _ \<Rightarrow> Raise PipelineConfigError)
      | _ \<Rightarrow> Raise PipelineConfigError)"

definition alias_candidates :: "pipeline_files \<Rightarrow> string \<Rightarrow> json \<Rightarrow> string list res" where
  "alias_candidates fs alias cfg =
     res_bind (raw_candidates fs cfg) (\<lambda>cs.
       if cs = [] \<or> [] \<in> set cs then Raise PipelineConfigError
       else
         (let override = py_strip (env_model fs (''PIPELINE_'' @ map to_upper alias @ ''_MODEL''));
              o1 = canonical_model_name override
          in Ret (first_occurrences (if override = [] then cs else o1 # filter (\<lambda>c. c \<noteq> o1) cs))))"

fun load_aliases :: "pipeline_files \<Rightarrow> payload \<Rightarrow> (string, string list) dict \<Rightarrow> (string, string list) dict res" where
  "load_aliases fs [] models = Ret models"
| "load_aliases fs ((alias, cfg) # rest) models =
     res_bind (alias_candidates fs alias cfg) (\<lambda>cs. load_aliases fs rest (AList.update alias cs models))"

definition is_tier5 :: "json \<Rightarrow> bool" where
  "is_tier5 v = (v = JInt PIPELINE_TIER \<or> v = JFloat (of_int PIPELINE_TIER))"

fun check_candidates ::
  "(json, json) dict \<Rightarrow> (json, json) dict \<Rightarrow> string list \<Rightarrow> (string, string) dict \<Rightarrow> (string, string) dict res" where
  "check_candidates tiers backends [] acc = Ret acc"
| "check_candidates tiers backends (m # ms) acc =
     (if \<not> is_tier5 (dict_get tiers (JStr m) JNull) \<and> m \<notin> set PIPELINE_NON_TIER5_ALLOWLIST
      then Raise PipelineConfigError
      else case dict_get backends (JStr m) JNull of
             JStr b \<Rightarrow>
               if py_strip b = [] then Raise PipelineConfigError
               else check_candidates tiers backends ms (AList.update m (py_strip b) acc)
           | _ \<Rightarrow> Raise PipelineConfigError)"

definition parse_stage ::
  "pipeline_files \<Rightarrow> (string, string list) dict \<Rightarrow> string list \<Rightarrow> json \<Rightarrow> pipeline_stage res" where
  "parse_stage fs models seen row =
     (case row of
        JObj d \<Rightarrow>
          res_bind (reject_unknown_keys d [''name'', ''model'', ''max_tokens'', ''input_from'', ''instruction'']) (\<lambda>_.
          (let name = py_strip (json_text (repr_of fs) (dict_get d ''name'' (JStr [])));
               alias = py_strip (json_text (repr_of fs) (dict_get d ''model'' (JStr [])))
           in if name = [] \<or> name \<in> set seen then Raise PipelineConfigError
              else case map_of models alias of
                None \<Rightarrow> Raise PipelineConfigError
              | Some cs \<Rightarrow>
                  res_bind (recast PipelineConfigError (py_int (dict_get d ''max_tokens'' (JInt 0)))) (\<lambda>mt.
                    if mt \<le> 0 then Raise PipelineConfigError
                    else
                      (let source = (case jget d ''input_from'' of JNull \<Rightarrow> None
                                     | v \<Rightarrow> Some (py_strip (json_text (repr_of fs) v)))
                       in if (case source of None \<Rightarrow> False | Some s \<Rightarrow> s \<notin> set seen)
                          then Raise PipelineConfigError
                          else Ret \<lparr>stage_name = name, stage_models = cs, stage_max_tokens = mt,
                                    input_from = source,
                                    instruction = py_strip (json_text (repr_of fs) (dict_get d ''instruction'' (JStr [])))\<rparr>))))
      | _ \<Rightarrow> Raise PipelineConfigError)"

fun parse_stages ::
  "pipeline_files \<Rightarrow> (string, string list) dict \<Rightarrow> json list \<Rightarrow> pipeline_stage list \<Rightarrow> pipeline_stage list res" where
  "parse_stages fs models [] acc = Ret acc"
| "parse_stages fs models (row # rows) acc =
     res_bind (parse_stage fs models (map stage_name acc) row) (\<lambda>s. parse_stages fs models rows (acc @ [s]))"

definition tokens_of :: "pipeline_stage list \<Rightarrow> int" where
  "tokens_of ss = sum_list (map stage_max_tokens ss)"

definition parse_recipe ::
  "pipeline_files \<Rightarrow> (string, string list) dict \<Rightarrow> string \<Rightarrow> json \<Rightarrow> pipeline_recipe res" where
  "parse_recipe fs models name row =
     (case row of
        JObj d \<Rightarrow>
          res_bind (reject_unknown_keys d [''stages'', ''max_total_tokens'', ''max_input_tokens'', ''cost_reservation_usd'']) (\<lambda>_.
          case jget d ''stages'' of
            JList rows \<Rightarrow>
              if rows = [] \<or> MAX_STAGES < length rows then Raise PipelineConfigError
              else
                res_bind (parse_stages fs models rows []) (\<lambda>ss.
                res_bind (recast PipelineConfigError (py_int (dict_get d ''max_total_tokens'' (JInt (tokens_of ss))))) (\<lambda>total.
                res_bind (recast PipelineConfigError (py_int (dict_get d ''max_input_tokens'' (JInt total)))) (\<lambda>inp.
                  if total \<le> 0 \<or> inp \<le> 0 then Raise PipelineConfigError
                  else if tokens_of ss > total then Raise PipelineConfigError
                  else
                    res_bind (recast PipelineConfigError (py_float (dict_get d ''cost_reservation_usd'' (JInt 0)))) (\<lambda>cost.
                      if cost \<le> 0 then Raise PipelineConfigError
                      else Ret \<lparr>recipe_name = name, recipe_stages = ss, max_total_tokens = total,
                                max_input_tokens = inp, cost_reservation_usd = cost\<rparr>))))
          | _ \<Rightarrow> Raise PipelineConfigError)
      | _ \<Rightarrow> Raise PipelineConfigError)"

fun load_recipes ::
  "pipeline_files \<Rightarrow> (string, string list) dict \<Rightarrow> payload \<Rightarrow> (string, pipeline_recipe) dict
   \<Rightarrow> (string, pipeline_recipe) dict res" where
  "load_recipes fs models [] recipes = Ret recipes"
| "load_recipes fs models ((name, row) # rest) recipes =
     res_bind (parse_recipe fs models name row) (\<lambda>r. load_recipes fs models rest (AList.update name r recipes))"

record runner =
  runner_models :: "(string, string list) dict"
  recipes :: "(string, pipeline_recipe) dict"
  model_backends :: "(string, string) dict"

definition load_and_validate :: "pipeline_files \<Rightarrow> runner res" where
  "load_and_validate fs =
     (if \<not> config_is_file fs \<or> \<not> models_is_file fs then Raise PipelineConfigError
      else case config_yaml fs of
        None \<Rightarrow> Raise PipelineConfigError
      | Some v \<Rightarrow>
          (case or_empty v of
             JObj d \<Rightarrow>
               res_bind (reject_unknown_keys d [''version'', ''enabled'', ''models'', ''recipes'']) (\<lambda>_.
               if (case map_of d ''enabled'' of None \<Rightarrow> False | Some (JBool _) \<Rightarrow> False | Some _ \<Rightarrow> True)
               then Raise PipelineConfigError
               else
                 (case (jget d ''models'', jget d ''recipes'') of
                    (JObj (a # as), JObj (r # rs)) \<Rightarrow>
                      res_bind (load_aliases fs (a # as) []) (\<lambda>models.
                      res_bind (load_frugality_tier_by_name fs) (\<lambda>tiers.
                      res_bind (load_backend_by_name fs) (\<lambda>backends.
                      res_bind (check_candidates tiers backends (concat (map snd models)) []) (\<lambda>mb.
                      res_bind (load_recipes fs models (r # rs) []) (\<lambda>rec.
                        Ret \<lparr>runner_models = models, recipes = rec, model_backends = mb\<rparr>)))))
                  | _ \<Rightarrow> Raise PipelineConfigError))
           | _ \<Rightarrow> Raise PipelineConfigError))"

definition tiered_pipeline_enabled :: "pipeline_files \<Rightarrow> bool" where
  "tiered_pipeline_enabled fs =
     (case enabled_flag fs of
        Some s \<Rightarrow> py_strip s = ''1''
      | None \<Rightarrow>
          (case config_yaml fs of
             None \<Rightarrow> False
           | Some v \<Rightarrow> (case or_empty v of JObj d \<Rightarrow> jget d ''enabled'' = JBool True | _ \<Rightarrow> False)))"

section \<open>The runner\<close>

definition recipe :: "runner \<Rightarrow> string \<Rightarrow> pipeline_recipe res" where
  "recipe rn name = (case map_of (recipes rn) name of None \<Rightarrow> Raise PipelineConfigError | Some r \<Rightarrow> Ret r)"

definition candidate_backend :: "runner \<Rightarrow> string \<Rightarrow> string res" where
  "candidate_backend rn m =
     (case map_of (model_backends rn) m of
        None \<Rightarrow> Raise PipelineConfigError
      | Some b \<Rightarrow> if b = [] then Raise PipelineConfigError else Ret b)"

definition candidate_is_in_scope :: "runner \<Rightarrow> string \<Rightarrow> pipeline_approval \<Rightarrow> bool res" where
  "candidate_is_in_scope rn m a =
     res_bind (candidate_backend rn m) (\<lambda>b.
       Ret (lower b \<in> set (map (\<lambda>i. lower (py_strip i)) (filter (\<lambda>i. py_strip i \<noteq> []) (scope a)))))"

text \<open>The revocation list: not configured, a path that is no readable file, or its lines.\<close>

datatype revocation_file = NotConfigured | NotReadable | RevokedLines "string list"

definition load_revoked_trace_ids :: "revocation_file \<Rightarrow> string list res" where
  "load_revoked_trace_ids f =
     (case f of
        NotConfigured \<Rightarrow> Ret []
      | NotReadable \<Rightarrow> Raise PipelineApprovalError
      | RevokedLines ls \<Rightarrow>
          Ret (map py_strip (filter (\<lambda>l. py_strip l \<noteq> [] \<and> take 1 l \<noteq> ''#'') ls)))"

record pipeline_run_env =
  files :: pipeline_files
  policy :: policy_env
  revocations :: revocation_file
  utc_now :: rat

definition validate_approval ::
  "pipeline_run_env \<Rightarrow> pipeline_approval option \<Rightarrow> string \<Rightarrow> pipeline_recipe \<Rightarrow> unit res" where
  "validate_approval env approval name r =
     (case approval of
        None \<Rightarrow> Raise PipelineApprovalError
      | Some a \<Rightarrow>
          res_bind (load_revoked_trace_ids (revocations env)) (\<lambda>revoked.
            if trace_id a \<in> set revoked then Raise PipelineApprovalError
            else case expires_at a of
              Naive _ \<Rightarrow> Raise PipelineApprovalError
            | Aware t \<Rightarrow>
                if t \<le> utc_now env then Raise PipelineApprovalError
                else if py_strip (trace_id a) = [] \<or> py_strip (approved_by a) = [] \<or> py_strip (purpose a) = []
                then Raise PipelineApprovalError
                else if approved_recipe a \<noteq> name then Raise PipelineApprovalError
                else if route_tier a \<noteq> PIPELINE_TIER then Raise PipelineApprovalError
                else if scope a = [] then Raise PipelineApprovalError
                else if approved_tokens a < max_total_tokens r then Raise PipelineApprovalError
                else if max_cost_usd a < cost_reservation_usd r then Raise PipelineApprovalError
                else Ret ()))"

definition nl :: string where "nl = [CHR 0x0A]"

text \<open>\<open>%s\<close> of an output, which is a string by then.\<close>

definition text_of :: "json \<Rightarrow> string" where
  "text_of v = (case v of JStr s \<Rightarrow> s | _ \<Rightarrow> [])"

definition stage_prompt :: "string \<Rightarrow> pipeline_stage \<Rightarrow> (string, json) dict \<Rightarrow> string res" where
  "stage_prompt original s outputs =
     res_bind (case input_from s of
         None \<Rightarrow> Ret (''Original request:'' @ nl @ original)
       | Some src \<Rightarrow>
           (case map_of outputs src of
              None \<Rightarrow> Raise (KeyError src)
            | Some v \<Rightarrow> Ret (''Original request:'' @ nl @ original @ nl @ nl @ ''Output from stage '' @ src @ '':'' @ nl @ text_of v)))
       (\<lambda>context. Ret (if instruction s = [] then context else instruction s @ nl @ nl @ context))"

text \<open>The number of UTF-8 bytes of a string over the first 256 code points.\<close>

definition input_token_upper_bound :: "string \<Rightarrow> int" where
  "input_token_upper_bound s = sum_list (map (\<lambda>c. if code c < 128 then 1 else 2) s)"

datatype stage_status = Skipped | Unavailable | Failed | Completed

record trace_line =
  tr_trace_id :: string
  tr_recipe :: string
  tr_stage :: string
  tr_model :: string
  tr_max_tokens :: int
  tr_tokens_used :: "int option"
  tr_cost_usd :: "rat option"
  tr_error :: "exn option"
  tr_status :: stage_status

type_synonym 'w dispatcher = "string \<Rightarrow> string \<Rightarrow> int \<Rightarrow> string \<Rightarrow> 'w \<Rightarrow> dispatch_result res \<times> 'w"

definition trace_of ::
  "pipeline_approval \<Rightarrow> pipeline_recipe \<Rightarrow> pipeline_stage \<Rightarrow> string \<Rightarrow> exn option \<Rightarrow> stage_status \<Rightarrow> trace_line" where
  "trace_of a r s m e st =
     \<lparr>tr_trace_id = trace_id a, tr_recipe = recipe_name r, tr_stage = stage_name s, tr_model = m,
      tr_max_tokens = stage_max_tokens s, tr_tokens_used = None, tr_cost_usd = None, tr_error = e, tr_status = st\<rparr>"

text \<open>The loop over the candidates of a stage: the model that answered with its result, and whether
  any candidate was in scope.\<close>

fun try_candidates ::
  "runner \<Rightarrow> pipeline_approval \<Rightarrow> pipeline_recipe \<Rightarrow> 'w dispatcher \<Rightarrow> pipeline_stage \<Rightarrow> string \<Rightarrow> string list \<Rightarrow> bool
   \<Rightarrow> 'w \<Rightarrow> trace_line list \<Rightarrow> ((string \<times> dispatch_result) option \<times> bool) res \<times> 'w \<times> trace_line list" where
  "try_candidates rn a r dispatch s prompt [] in_scope w tr = (Ret (None, in_scope), w, tr)"
| "try_candidates rn a r dispatch s prompt (m # ms) in_scope w tr =
     (case candidate_is_in_scope rn m a of
        Raise e \<Rightarrow> (Raise e, w, tr)
      | Ret ok \<Rightarrow>
          if \<not> ok
          then try_candidates rn a r dispatch s prompt ms in_scope w
                 (tr @ [trace_of a r s m (Some PipelineApprovalError) Skipped])
          else
            (case dispatch m prompt (stage_max_tokens s) (stage_name s) w of
               (Ret x, w') \<Rightarrow> (Ret (Some (m, x), True), w', tr)
             | (Raise e, w') \<Rightarrow>
                 if e = PipelineCandidateUnavailableError True
                 then try_candidates rn a r dispatch s prompt ms True w' (tr @ [trace_of a r s m (Some e) Unavailable])
                 else (Raise e, w', tr @ [trace_of a r s m (Some e) Failed])))"

definition add_opt :: "'a :: plus option \<Rightarrow> 'a option \<Rightarrow> 'a option" where
  "add_opt acc x = (case (acc, x) of (Some a, Some b) \<Rightarrow> Some (a + b) | _ \<Rightarrow> None)"

definition is_text :: "json \<Rightarrow> bool" where
  "is_text v = (case v of JStr t \<Rightarrow> py_strip t \<noteq> [] | _ \<Rightarrow> False)"

record progress =
  outputs :: "(string, json) dict"
  used_models :: "(string, string) dict"
  req_tokens :: int
  sum_tokens :: "int option"
  sum_cost :: "rat option"

definition start_progress :: progress where
  "start_progress = \<lparr>outputs = [], used_models = [], req_tokens = 0, sum_tokens = Some 0, sum_cost = Some 0\<rparr>"

definition after_stage :: "pipeline_stage \<Rightarrow> string \<Rightarrow> dispatch_result \<Rightarrow> progress \<Rightarrow> progress" where
  "after_stage s m x p =
     \<lparr>outputs = AList.update (stage_name s) (dr_text x) (outputs p),
      used_models = AList.update (stage_name s) m (used_models p),
      req_tokens = req_tokens p + stage_max_tokens s,
      sum_tokens = add_opt (sum_tokens p) (dr_tokens x), sum_cost = add_opt (sum_cost p) (dr_cost x)\<rparr>"

definition run_stage ::
  "runner \<Rightarrow> pipeline_approval \<Rightarrow> pipeline_recipe \<Rightarrow> 'w dispatcher \<Rightarrow> string \<Rightarrow> pipeline_stage \<Rightarrow> progress
   \<Rightarrow> 'w \<Rightarrow> trace_line list \<Rightarrow> progress res \<times> 'w \<times> trace_line list" where
  "run_stage rn a r dispatch prompt s p w tr =
     (case stage_prompt prompt s (outputs p) of
        Raise e \<Rightarrow> (Raise e, w, tr)
      | Ret sp \<Rightarrow>
          if input_token_upper_bound sp > max_input_tokens r then (Raise PipelinePolicyError, w, tr)
          else
            (case try_candidates rn a r dispatch s sp (stage_models s) False w tr of
               (Raise e, w', tr') \<Rightarrow> (Raise e, w', tr')
             | (Ret (None, in_scope), w', tr') \<Rightarrow>
                 (Raise (if in_scope then PipelineExecutionError else PipelineApprovalError), w', tr')
             | (Ret (Some (m, x), _), w', tr') \<Rightarrow>
                 if \<not> is_text (dr_text x) then (Raise PipelineExecutionError, w', tr')
                 else (Ret (after_stage s m x p), w',
                       tr' @ [(trace_of a r s m None Completed)
                                \<lparr>tr_tokens_used := dr_tokens x, tr_cost_usd := dr_cost x\<rparr>])))"

fun run_stages ::
  "runner \<Rightarrow> pipeline_approval \<Rightarrow> pipeline_recipe \<Rightarrow> 'w dispatcher \<Rightarrow> string \<Rightarrow> pipeline_stage list \<Rightarrow> progress
   \<Rightarrow> 'w \<Rightarrow> trace_line list \<Rightarrow> progress res \<times> 'w \<times> trace_line list" where
  "run_stages rn a r dispatch prompt [] p w tr = (Ret p, w, tr)"
| "run_stages rn a r dispatch prompt (s # ss) p w tr =
     (case run_stage rn a r dispatch prompt s p w tr of
        (Raise e, w', tr') \<Rightarrow> (Raise e, w', tr')
      | (Ret p', w', tr') \<Rightarrow> run_stages rn a r dispatch prompt ss p' w' tr')"

text \<open>Everything that is checked before the first stage; the recipe when all of it holds.\<close>

definition admit ::
  "pipeline_run_env \<Rightarrow> runner \<Rightarrow> string \<Rightarrow> string \<Rightarrow> pipeline_approval option \<Rightarrow> string \<Rightarrow> bool \<Rightarrow> bool \<Rightarrow> string option
   \<Rightarrow> pipeline_recipe res" where
  "admit env rn name prompt approval task privacy oc oreason =
     (if \<not> tiered_pipeline_enabled (files env) then Raise PipelineDisabledError
      else if py_strip prompt = [] then Raise PipelineError
      else
        res_bind (recipe rn name) (\<lambda>r.
        res_bind (validate_approval env approval name r) (\<lambda>_.
        res_bind (gate_permits (policy env) (Some PIPELINE_TIER) task privacy oc oreason) (\<lambda>(allowed, _).
          if allowed then Ret r else Raise PipelinePolicyError))))"

definition result_of :: "pipeline_recipe \<Rightarrow> progress \<Rightarrow> pipeline_result res" where
  "result_of r p =
     (if recipe_stages r = [] then Raise OtherError
      else case map_of (outputs p) (stage_name (last (recipe_stages r))) of
        None \<Rightarrow> Raise (KeyError (stage_name (last (recipe_stages r))))
      | Some out \<Rightarrow>
          Ret \<lparr>result_recipe = recipe_name r, result_output = out, stage_outputs = outputs p,
               requested_tokens = req_tokens p, total_tokens_used = sum_tokens p, total_cost_usd = sum_cost p,
               models_used = used_models p, replay = False\<rparr>)"

definition run ::
  "pipeline_run_env \<Rightarrow> runner \<Rightarrow> string \<Rightarrow> string \<Rightarrow> pipeline_approval option \<Rightarrow> 'w dispatcher \<Rightarrow> string \<Rightarrow> bool \<Rightarrow> bool
   \<Rightarrow> string option \<Rightarrow> 'w \<Rightarrow> trace_line list \<Rightarrow> pipeline_result res \<times> 'w \<times> trace_line list" where
  "run env rn name prompt approval dispatch task privacy oc oreason w tr =
     (case admit env rn name prompt approval task privacy oc oreason of
        Raise e \<Rightarrow> (Raise e, w, tr)
      | Ret r \<Rightarrow>
          (case run_stages rn (the approval) r dispatch prompt (recipe_stages r) start_progress w tr of
             (Raise e, w', tr') \<Rightarrow> (Raise e, w', tr')
           | (Ret p, w', tr') \<Rightarrow> (result_of r p, w', tr')))"

section \<open>What a loaded configuration guarantees\<close>

lemma first_occurrences_set [simp]: "set (first_occurrences xs) = set xs"
  by (simp add: first_occurrences_def)

lemma first_occurrences_Nil [simp]: "first_occurrences xs = [] \<longleftrightarrow> xs = []"
  by (simp add: first_occurrences_def)

lemma recast_Ret: "recast e r = Ret x \<longleftrightarrow> r = Ret x"
  by (cases r) (auto simp: recast_def)

lemma alias_candidates_nonempty: "alias_candidates fs alias cfg = Ret cs \<Longrightarrow> cs \<noteq> []"
  by (auto simp: alias_candidates_def Let_def res_bind_eq_Ret split: if_splits)

lemma load_aliases_nonempty:
  assumes "load_aliases fs items acc = Ret models" and "\<forall>a cs. map_of acc a = Some cs \<longrightarrow> cs \<noteq> []"
  shows "\<forall>a cs. map_of models a = Some cs \<longrightarrow> cs \<noteq> []"
  using assms
proof (induction fs items acc rule: load_aliases.induct)
  case (2 fs al cfg rest models')
  from "2.prems"(1) obtain cs where cs: "alias_candidates fs al cfg = Ret cs"
    "load_aliases fs rest (AList.update al cs models') = Ret models"
    by (auto simp: res_bind_eq_Ret)
  have "\<forall>a ds. map_of (AList.update al cs models') a = Some ds \<longrightarrow> ds \<noteq> []"
    using "2.prems"(2) alias_candidates_nonempty [OF cs(1)] by (simp add: map_of_update)
  from "2.IH" [OF cs(2) this] show ?case .
qed simp

definition eligible :: "(json, json) dict \<Rightarrow> string \<Rightarrow> bool" where
  "eligible tiers m \<longleftrightarrow> is_tier5 (dict_get tiers (JStr m) JNull) \<or> m \<in> set PIPELINE_NON_TIER5_ALLOWLIST"

lemma check_candidates_sound:
  assumes "check_candidates tiers backends ms acc = Ret mb"
    and "\<forall>m b. map_of acc m = Some b \<longrightarrow> b \<noteq> [] \<and> eligible tiers m"
  shows "(\<forall>m \<in> set ms \<union> dom (map_of acc). map_of mb m \<noteq> None) \<and>
    (\<forall>m b. map_of mb m = Some b \<longrightarrow> b \<noteq> [] \<and> eligible tiers m)"
  using assms
proof (induction tiers backends ms acc rule: check_candidates.induct)
  case (2 tiers backends m ms acc)
  from "2.prems"(1) obtain b where b: "eligible tiers m" "dict_get backends (JStr m) JNull = JStr b" "py_strip b \<noteq> []"
    "check_candidates tiers backends ms (AList.update m (py_strip b) acc) = Ret mb"
    by (auto simp: eligible_def split: if_splits json.splits)
  have inv: "\<forall>m' b'. map_of (AList.update m (py_strip b) acc) m' = Some b' \<longrightarrow> b' \<noteq> [] \<and> eligible tiers m'"
    using "2.prems"(2) b by (simp add: map_of_update)
  have "\<not> (\<not> is_tier5 (dict_get tiers (JStr m) JNull) \<and> m \<notin> set PIPELINE_NON_TIER5_ALLOWLIST)"
    using b(1) by (auto simp: eligible_def)
  from "2.IH" [OF this b(2,3,4) inv] show ?case by (auto simp: map_of_update dom_def)
qed auto

definition stage_ok :: "runner \<Rightarrow> pipeline_stage \<Rightarrow> bool" where
  "stage_ok rn s \<longleftrightarrow> stage_name s \<noteq> [] \<and> 0 < stage_max_tokens s \<and> stage_models s \<noteq> [] \<and>
     stage_models s \<in> ran (map_of (runner_models rn))"

definition stages_ok :: "runner \<Rightarrow> pipeline_stage list \<Rightarrow> bool" where
  "stages_ok rn ss \<longleftrightarrow> distinct (map stage_name ss) \<and> (\<forall>s \<in> set ss. stage_ok rn s) \<and>
     (\<forall>i < length ss. \<forall>src. input_from (ss ! i) = Some src \<longrightarrow> src \<in> set (map stage_name (take i ss)))"

definition recipe_ok :: "runner \<Rightarrow> pipeline_recipe \<Rightarrow> bool" where
  "recipe_ok rn r \<longleftrightarrow> recipe_stages r \<noteq> [] \<and> length (recipe_stages r) \<le> MAX_STAGES \<and> stages_ok rn (recipe_stages r) \<and>
     tokens_of (recipe_stages r) \<le> max_total_tokens r \<and> 0 < max_total_tokens r \<and> 0 < max_input_tokens r \<and>
     0 < cost_reservation_usd r"

lemma parse_stage_sound:
  assumes "parse_stage fs models seen row = Ret s" and "runner_models rn = models"
    and "\<forall>a cs. map_of models a = Some cs \<longrightarrow> cs \<noteq> []"
  shows "stage_ok rn s" "stage_name s \<notin> set seen" "input_from s = Some src \<Longrightarrow> src \<in> set seen"
proof -
  from assms(1) obtain d where d: "row = JObj d" by (cases row) (simp_all add: parse_stage_def)
  from assms(1) show "stage_name s \<notin> set seen" "input_from s = Some src \<Longrightarrow> src \<in> set seen"
    unfolding d parse_stage_def
    by (auto simp: Let_def res_bind_eq_Ret split: if_splits option.splits)
  from assms(1) have "\<exists>alias. stage_name s \<noteq> [] \<and> 0 < stage_max_tokens s \<and> map_of models alias = Some (stage_models s)"
    unfolding d parse_stage_def
    by (auto simp: Let_def res_bind_eq_Ret split: if_splits option.splits)
  with assms(2,3) show "stage_ok rn s" by (auto simp: stage_ok_def ran_def)
qed

lemma parse_stages_sound:
  assumes "parse_stages fs models rows acc = Ret ss" and "runner_models rn = models"
    and "\<forall>a cs. map_of models a = Some cs \<longrightarrow> cs \<noteq> []" and "stages_ok rn acc"
  shows "stages_ok rn ss \<and> length ss = length acc + length rows"
  using assms
proof (induction fs models rows acc rule: parse_stages.induct)
  case (2 fs models row rows acc)
  from "2.prems"(1) obtain s where s: "parse_stage fs models (map stage_name acc) row = Ret s"
    "parse_stages fs models rows (acc @ [s]) = Ret ss"
    by (auto simp: res_bind_eq_Ret)
  note sound = parse_stage_sound [OF s(1) "2.prems"(2,3)]
  have "stages_ok rn (acc @ [s])"
    using "2.prems"(4) sound unfolding stages_ok_def by (auto simp: nth_append less_Suc_eq)
  from "2.IH" [OF s(2) "2.prems"(2,3) this] show ?case by simp
qed simp

lemma parse_recipe_sound:
  assumes "parse_recipe fs models name row = Ret r" and "runner_models rn = models"
    and "\<forall>a cs. map_of models a = Some cs \<longrightarrow> cs \<noteq> []"
  shows "recipe_ok rn r \<and> recipe_name r = name"
proof -
  from assms(1) obtain d rows where d: "row = JObj d" "jget d ''stages'' = JList rows"
    by (auto simp: parse_recipe_def res_bind_eq_Ret split: json.splits)
  from assms(1) obtain ss where ss: "rows \<noteq> []" "\<not> MAX_STAGES < length rows" "parse_stages fs models rows [] = Ret ss"
    "recipe_stages r = ss" "recipe_name r = name" "tokens_of ss \<le> max_total_tokens r" "0 < max_total_tokens r"
    "0 < max_input_tokens r" "0 < cost_reservation_usd r"
    unfolding d(1) parse_recipe_def by (auto simp: d(2) res_bind_eq_Ret recast_Ret split: if_splits)
  have "stages_ok rn []" by (simp add: stages_ok_def)
  from parse_stages_sound [OF ss(3) assms(2,3) this] ss show ?thesis by (auto simp: recipe_ok_def)
qed

lemma load_recipes_sound:
  assumes "load_recipes fs models items acc = Ret rec" and "runner_models rn = models"
    and "\<forall>a cs. map_of models a = Some cs \<longrightarrow> cs \<noteq> []"
    and "\<forall>name r. map_of acc name = Some r \<longrightarrow> recipe_ok rn r \<and> recipe_name r = name"
  shows "\<forall>name r. map_of rec name = Some r \<longrightarrow> recipe_ok rn r \<and> recipe_name r = name"
  using assms
proof (induction fs models items acc rule: load_recipes.induct)
  case (2 fs models name row rest acc)
  from "2.prems"(1) obtain r where r: "parse_recipe fs models name row = Ret r"
    "load_recipes fs models rest (AList.update name r acc) = Ret rec"
    by (auto simp: res_bind_eq_Ret)
  have "\<forall>n x. map_of (AList.update name r acc) n = Some x \<longrightarrow> recipe_ok rn x \<and> recipe_name x = n"
    using "2.prems"(4) parse_recipe_sound [OF r(1) "2.prems"(2,3)] by (simp add: map_of_update)
  from "2.IH" [OF r(2) "2.prems"(2,3) this] show ?case .
qed simp

lemma load_and_validate_parts:
  assumes "load_and_validate fs = Ret rn"
  obtains aliases rows tiers backends where "load_aliases fs aliases [] = Ret (runner_models rn)"
    and "load_frugality_tier_by_name fs = Ret tiers" and "load_backend_by_name fs = Ret backends"
    and "check_candidates tiers backends (concat (map snd (runner_models rn))) [] = Ret (model_backends rn)"
    and "load_recipes fs (runner_models rn) rows [] = Ret (recipes rn)"
proof -
  from assms obtain d where d: "reject_unknown_keys d [''version'', ''enabled'', ''models'', ''recipes''] = Ret ()"
    "(case (jget d ''models'', jget d ''recipes'') of
        (JObj (a # as), JObj (r # rs)) \<Rightarrow>
          res_bind (load_aliases fs (a # as) []) (\<lambda>models.
          res_bind (load_frugality_tier_by_name fs) (\<lambda>tiers.
          res_bind (load_backend_by_name fs) (\<lambda>backends.
          res_bind (check_candidates tiers backends (concat (map snd models)) []) (\<lambda>mb.
          res_bind (load_recipes fs models (r # rs) []) (\<lambda>rec.
            Ret \<lparr>runner_models = models, recipes = rec, model_backends = mb\<rparr>)))))
      | _ \<Rightarrow> Raise PipelineConfigError) = Ret rn"
    by (auto simp: load_and_validate_def res_bind_eq_Ret split: if_splits option.splits json.splits)
  then obtain a as r rs where "jget d ''models'' = JObj (a # as)" "jget d ''recipes'' = JObj (r # rs)"
    by (auto split: json.splits list.splits)
  with d(2) show thesis by (auto simp: res_bind_eq_Ret intro!: that)
qed

lemma loaded_recipe:
  assumes "load_and_validate fs = Ret rn" and "map_of (recipes rn) name = Some r"
  shows "recipe_ok rn r \<and> recipe_name r = name"
proof -
  from assms(1) obtain aliases rows where parts: "load_aliases fs aliases [] = Ret (runner_models rn)"
    "load_recipes fs (runner_models rn) rows [] = Ret (recipes rn)"
    by (rule load_and_validate_parts)
  have "\<forall>a cs. map_of (runner_models rn) a = Some cs \<longrightarrow> cs \<noteq> []" using load_aliases_nonempty [OF parts(1)] by simp
  from load_recipes_sound [OF parts(2) refl this] assms(2) show ?thesis by simp
qed

lemma loaded_backends:
  assumes "load_and_validate fs = Ret rn" and "cs \<in> ran (map_of (runner_models rn))" and "m \<in> set cs"
  shows "\<exists>tiers b. load_frugality_tier_by_name fs = Ret tiers \<and> eligible tiers m \<and>
    map_of (model_backends rn) m = Some b \<and> b \<noteq> []"
proof -
  from assms(1) obtain tiers backends where parts: "load_frugality_tier_by_name fs = Ret tiers"
    "check_candidates tiers backends (concat (map snd (runner_models rn))) [] = Ret (model_backends rn)"
    by (rule load_and_validate_parts)
  from assms(2) obtain a where "(a, cs) \<in> set (runner_models rn)" by (auto simp: ran_def dest: map_of_SomeD)
  with assms(3) have "m \<in> set (concat (map snd (runner_models rn)))" by force
  with check_candidates_sound [OF parts(2)] obtain b where "map_of (model_backends rn) m = Some b" "b \<noteq> []" "eligible tiers m"
    by fastforce
  with parts(1) show ?thesis by blast
qed

section \<open>What a run may do\<close>

lemma in_scope_cases:
  "candidate_is_in_scope rn m a = Ret True \<Longrightarrow> \<exists>b. map_of (model_backends rn) m = Some b \<and> b \<noteq> [] \<and>
     (\<exists>i \<in> set (scope a). py_strip i \<noteq> [] \<and> lower (py_strip i) = lower b)"
  by (auto simp: candidate_is_in_scope_def candidate_backend_def res_bind_eq_Ret split: option.splits if_splits)

text \<open>A property of the dispatcher's world that every permitted call keeps is kept by a run.\<close>

definition permitted ::
  "runner \<Rightarrow> pipeline_approval \<Rightarrow> pipeline_recipe \<Rightarrow> string \<Rightarrow> string \<Rightarrow> int \<Rightarrow> string \<Rightarrow> bool" where
  "permitted rn a r m p t st \<longleftrightarrow> candidate_is_in_scope rn m a = Ret True \<and> input_token_upper_bound p \<le> max_input_tokens r \<and>
     (\<exists>s \<in> set (recipe_stages r). stage_name s = st \<and> m \<in> set (stage_models s) \<and> stage_max_tokens s = t)"

definition keeps :: "runner \<Rightarrow> pipeline_approval \<Rightarrow> pipeline_recipe \<Rightarrow> 'w dispatcher \<Rightarrow> ('w \<Rightarrow> bool) \<Rightarrow> bool" where
  "keeps rn a r dispatch I \<longleftrightarrow>
     (\<forall>m p t st w. permitted rn a r m p t st \<longrightarrow> I w \<longrightarrow> I (snd (dispatch m p t st w)))"

lemma try_candidates_keeps:
  assumes "keeps rn a r dispatch I" and "s \<in> set (recipe_stages r)" and "set ms \<subseteq> set (stage_models s)"
    and "input_token_upper_bound p \<le> max_input_tokens r" and "I w"
  shows "I (fst (snd (try_candidates rn a r dispatch s p ms in_scope w tr)))"
  using assms(3,5)
proof (induction ms arbitrary: in_scope w tr)
  case (Cons m ms)
  show ?case
  proof (cases "candidate_is_in_scope rn m a")
    case (Ret ok)
    show ?thesis
    proof (cases ok)
      case True
      with Ret Cons.prems assms(2,4) have "permitted rn a r m p (stage_max_tokens s) (stage_name s)"
        by (auto simp: permitted_def)
      with assms(1) Cons.prems(2) have "I (snd (dispatch m p (stage_max_tokens s) (stage_name s) w))"
        by (auto simp: keeps_def)
      with Ret True Cons.IH Cons.prems(1) show ?thesis by (auto split: prod.split res.split)
    qed (use Ret Cons in simp)
  qed (use Cons in simp)
qed simp

lemma run_stage_keeps:
  assumes "keeps rn a r dispatch I" and "s \<in> set (recipe_stages r)" and "I w"
  shows "I (fst (snd (run_stage rn a r dispatch prompt s p w tr)))"
proof (cases "stage_prompt prompt s (outputs p)")
  case (Ret sp)
  show ?thesis
  proof (cases "input_token_upper_bound sp > max_input_tokens r")
    case False
    with try_candidates_keeps [OF assms(1,2) subset_refl, of sp w False tr] assms(3)
    have "I (fst (snd (try_candidates rn a r dispatch s sp (stage_models s) False w tr)))" by simp
    with Ret False show ?thesis by (auto simp: run_stage_def split: prod.split res.split option.split)
  qed (use Ret assms(3) in \<open>simp add: run_stage_def\<close>)
qed (use assms(3) in \<open>simp add: run_stage_def\<close>)

lemma run_stages_keeps:
  assumes "keeps rn a r dispatch I" and "set ss \<subseteq> set (recipe_stages r)" and "I w"
  shows "I (fst (snd (run_stages rn a r dispatch prompt ss p w tr)))"
  using assms(2,3)
proof (induction ss arbitrary: p w tr)
  case (Cons s ss)
  then have "I (fst (snd (run_stage rn a r dispatch prompt s p w tr)))"
    by (intro run_stage_keeps [OF assms(1)]) simp_all
  with Cons show ?case by (auto split: prod.split res.split)
qed simp

lemma run_cases:
  assumes "run env rn name prompt ap dispatch task privacy oc oreason w tr = (res, w', tr')"
  obtains (refused) e where "admit env rn name prompt ap task privacy oc oreason = Raise e"
      and "res = Raise e" and "w' = w" and "tr' = tr"
  | (failed) r e where "admit env rn name prompt ap task privacy oc oreason = Ret r"
      and "run_stages rn (the ap) r dispatch prompt (recipe_stages r) start_progress w tr = (Raise e, w', tr')"
      and "res = Raise e"
  | (finished) r p where "admit env rn name prompt ap task privacy oc oreason = Ret r"
      and "run_stages rn (the ap) r dispatch prompt (recipe_stages r) start_progress w tr = (Ret p, w', tr')"
      and "res = result_of r p"
  using assms
  by (cases "admit env rn name prompt ap task privacy oc oreason") (auto simp: run_def split: prod.splits res.splits)

lemma run_keeps:
  assumes "run env rn name prompt ap dispatch task privacy oc oreason w tr = (res, w', tr')"
    and "\<And>r. admit env rn name prompt ap task privacy oc oreason = Ret r \<Longrightarrow> keeps rn (the ap) r dispatch I" and "I w"
  shows "I w'"
  using assms(1)
proof (cases rule: run_cases)
  case (failed r e)
  from run_stages_keeps [OF assms(2) [OF failed(1)] subset_refl assms(3), of prompt start_progress tr] failed show ?thesis by simp
next
  case (finished r p)
  from run_stages_keeps [OF assms(2) [OF finished(1)] subset_refl assms(3), of prompt start_progress tr] finished show ?thesis by simp
qed (use assms(3) in simp)

text \<open>The checks that an admitted run has passed.\<close>

definition authorised :: "pipeline_run_env \<Rightarrow> pipeline_approval \<Rightarrow> string \<Rightarrow> pipeline_recipe \<Rightarrow> bool" where
  "authorised env a name r \<longleftrightarrow>
     (\<exists>revoked t. load_revoked_trace_ids (revocations env) = Ret revoked \<and> trace_id a \<notin> set revoked \<and>
        expires_at a = Aware t \<and> utc_now env < t) \<and>
     approved_recipe a = name \<and> route_tier a = PIPELINE_TIER \<and> scope a \<noteq> [] \<and>
     py_strip (approved_by a) \<noteq> [] \<and> py_strip (purpose a) \<noteq> [] \<and>
     max_total_tokens r \<le> approved_tokens a \<and> cost_reservation_usd r \<le> max_cost_usd a"

lemma validate_approval_authorised:
  "validate_approval env ap name r = Ret u \<Longrightarrow> \<exists>a. ap = Some a \<and> authorised env a name r"
  by (cases ap) (auto simp: validate_approval_def authorised_def res_bind_eq_Ret not_less not_le split: if_splits instant.splits)

lemma admitted:
  assumes "admit env rn name prompt ap task privacy oc oreason = Ret r"
  shows "tiered_pipeline_enabled (files env)" and "py_strip prompt \<noteq> []" and "map_of (recipes rn) name = Some r"
    and "\<exists>a. ap = Some a \<and> authorised env a name r"
    and "\<not> offline (policy env)" and "privacy \<longrightarrow> oc \<and> reasoned oreason"
proof -
  from assms show "tiered_pipeline_enabled (files env)" "py_strip prompt \<noteq> []"
    by (simp_all add: admit_def split: if_splits)
  from assms obtain u d where u: "recipe rn name = Ret r" "validate_approval env ap name r = Ret u"
    "gate_permits (policy env) (Some PIPELINE_TIER) task privacy oc oreason = Ret (True, d)"
    by (auto simp: admit_def res_bind_eq_Ret split: if_splits)
  show "map_of (recipes rn) name = Some r" using u(1) by (simp add: recipe_def split: option.splits)
  show "\<exists>a. ap = Some a \<and> authorised env a name r" using validate_approval_authorised [OF u(2)] .
  show "\<not> offline (policy env)" "privacy \<longrightarrow> oc \<and> reasoned oreason"
    using u(3) by (auto simp: gate_permits_iff PIPELINE_TIER_def Let_def split: if_splits)
qed

section \<open>What a run returns\<close>

text \<open>The progress after a list of stages, given what answered each of them.\<close>

definition progressed :: "pipeline_stage list \<Rightarrow> (string \<times> dispatch_result) list \<Rightarrow> progress \<Rightarrow> progress" where
  "progressed ss xs p = fold (\<lambda>(s, m, x). after_stage s m x) (zip ss xs) p"

lemma run_stage_Ret:
  assumes "run_stage rn a r dispatch prompt s p w tr = (Ret p', w', tr')"
  obtains m x where "p' = after_stage s m x p" and "is_text (dr_text x)" and "m \<in> set (stage_models s)"
    and "candidate_is_in_scope rn m a = Ret True"
proof -
  have found: "m \<in> set ms \<and> candidate_is_in_scope rn m a = Ret True"
    if "try_candidates rn a r dispatch s sp ms sc w tr = (Ret (Some (m, x), sc'), w', tr')" for sp ms sc sc' w tr w' tr' m x
    using that
    by (induction ms arbitrary: sc w tr) (auto split: res.splits if_splits prod.splits)
  from assms obtain sp w1 tr1 m x sc where
    t: "try_candidates rn a r dispatch s sp (stage_models s) False w tr = (Ret (Some (m, x), sc), w1, tr1)"
    and x: "is_text (dr_text x)" "p' = after_stage s m x p"
    by (auto simp: run_stage_def split: res.splits if_splits prod.splits option.splits)
  from found [OF t] x show thesis by (intro that [of m x]) simp_all
qed

lemma run_stages_Ret:
  assumes "run_stages rn a r dispatch prompt ss p w tr = (Ret p', w', tr')"
  shows "\<exists>xs. length xs = length ss \<and> p' = progressed ss xs p \<and>
    list_all2 (\<lambda>s (m, x). is_text (dr_text x) \<and> m \<in> set (stage_models s) \<and> candidate_is_in_scope rn m a = Ret True) ss xs"
  using assms
proof (induction ss arbitrary: p w tr)
  case Nil
  then show ?case by (simp add: progressed_def)
next
  case (Cons s ss)
  from Cons.prems obtain p1 w1 tr1 where s: "run_stage rn a r dispatch prompt s p w tr = (Ret p1, w1, tr1)"
    "run_stages rn a r dispatch prompt ss p1 w1 tr1 = (Ret p', w', tr')"
    by (auto split: prod.splits res.splits)
  from Cons.IH [OF s(2)] obtain xs where xs: "length xs = length ss" "p' = progressed ss xs p1"
    "list_all2 (\<lambda>s (m, x). is_text (dr_text x) \<and> m \<in> set (stage_models s) \<and> candidate_is_in_scope rn m a = Ret True) ss xs"
    by blast
  from s(1) obtain m x where "p1 = after_stage s m x p" "is_text (dr_text x)" "m \<in> set (stage_models s)"
    "candidate_is_in_scope rn m a = Ret True" by (rule run_stage_Ret)
  with xs show ?case by (intro exI [of _ "(m, x) # xs"]) (simp add: progressed_def)
qed

lemma progressed_fields:
  assumes "length xs = length ss" and "distinct (map fst (outputs p) @ map stage_name ss)"
    and "map fst (used_models p) = map fst (outputs p)"
  shows "outputs (progressed ss xs p) = outputs p @ zip (map stage_name ss) (map (dr_text \<circ> snd) xs)"
    and "used_models (progressed ss xs p) = used_models p @ zip (map stage_name ss) (map fst xs)"
    and "req_tokens (progressed ss xs p) = req_tokens p + tokens_of ss"
    and "sum_cost (progressed ss xs p) = fold (\<lambda>x acc. add_opt acc (dr_cost (snd x))) xs (sum_cost p)"
    and "sum_tokens (progressed ss xs p) = fold (\<lambda>x acc. add_opt acc (dr_tokens (snd x))) xs (sum_tokens p)"
proof -
  have "outputs (progressed ss xs p) = outputs p @ zip (map stage_name ss) (map (dr_text \<circ> snd) xs) \<and>
    used_models (progressed ss xs p) = used_models p @ zip (map stage_name ss) (map fst xs) \<and>
    req_tokens (progressed ss xs p) = req_tokens p + tokens_of ss \<and>
    sum_cost (progressed ss xs p) = fold (\<lambda>x acc. add_opt acc (dr_cost (snd x))) xs (sum_cost p) \<and>
    sum_tokens (progressed ss xs p) = fold (\<lambda>x acc. add_opt acc (dr_tokens (snd x))) xs (sum_tokens p)"
    using assms
  proof (induction ss xs arbitrary: p rule: list_induct2')
    case (4 s ss mx xs)
    obtain m x where mx: "mx = (m, x)" by fastforce
    have "map_of (outputs p) (stage_name s) = None" "map_of (used_models p) (stage_name s) = None"
      using "4.prems"(2,3) by (auto simp: map_of_eq_None_iff simp flip: set_map)
    then have new: "outputs (after_stage s m x p) = outputs p @ [(stage_name s, dr_text x)]"
      "used_models (after_stage s m x p) = used_models p @ [(stage_name s, m)]"
      by (simp_all add: after_stage_def update_new)
    have "length xs = length ss" "distinct (map fst (outputs (after_stage s m x p)) @ map stage_name ss)"
      "map fst (used_models (after_stage s m x p)) = map fst (outputs (after_stage s m x p))"
      using "4.prems" new by auto
    from "4.IH" [OF this] new show ?case
      by (simp add: progressed_def mx) (simp add: after_stage_def tokens_of_def)
  qed (simp_all add: progressed_def tokens_of_def)
  then show "outputs (progressed ss xs p) = outputs p @ zip (map stage_name ss) (map (dr_text \<circ> snd) xs)"
    and "used_models (progressed ss xs p) = used_models p @ zip (map stage_name ss) (map fst xs)"
    and "req_tokens (progressed ss xs p) = req_tokens p + tokens_of ss"
    and "sum_cost (progressed ss xs p) = fold (\<lambda>x acc. add_opt acc (dr_cost (snd x))) xs (sum_cost p)"
    and "sum_tokens (progressed ss xs p) = fold (\<lambda>x acc. add_opt acc (dr_tokens (snd x))) xs (sum_tokens p)"
    by blast+
qed

lemma add_opt_simps [simp]:
  "add_opt None y = None" "add_opt x None = None" "add_opt (Some a) (Some b) = Some (a + b)"
  by (simp_all add: add_opt_def split: option.split)

lemma add_opt_fold:
  fixes z :: "'a :: monoid_add"
  shows "fold (\<lambda>x acc. add_opt acc (f x)) xs (Some z) =
    (if \<forall>x \<in> set xs. f x \<noteq> None then Some (z + sum_list (map (the \<circ> f) xs)) else None)"
proof -
  have none: "fold (\<lambda>x acc. add_opt acc (f x)) xs None = None" for xs
    by (induction xs) simp_all
  show ?thesis
  proof (induction xs arbitrary: z)
    case (Cons x xs)
    then show ?case by (cases "f x") (auto simp: none add.assoc comp_def)
  qed simp
qed

lemma finished_result:
  assumes "recipe_ok rn r" and "run_stages rn a r dispatch prompt (recipe_stages r) start_progress w tr = (Ret p, w', tr')"
  obtains xs :: "(string \<times> dispatch_result) list" where "length xs = length (recipe_stages r)"
    and "result_of r p = Ret \<lparr>result_recipe = recipe_name r, result_output = dr_text (snd (last xs)),
          stage_outputs = zip (map stage_name (recipe_stages r)) (map (dr_text \<circ> snd) xs),
          requested_tokens = tokens_of (recipe_stages r),
          total_tokens_used = (if \<forall>x \<in> set xs. dr_tokens (snd x) \<noteq> None then Some (\<Sum>x \<leftarrow> xs. the (dr_tokens (snd x))) else None),
          total_cost_usd = (if \<forall>x \<in> set xs. dr_cost (snd x) \<noteq> None then Some (\<Sum>x \<leftarrow> xs. the (dr_cost (snd x))) else None),
          models_used = zip (map stage_name (recipe_stages r)) (map fst xs), replay = False\<rparr>"
    and "list_all2 (\<lambda>s (m, x). is_text (dr_text x) \<and> m \<in> set (stage_models s) \<and> candidate_is_in_scope rn m a = Ret True)
          (recipe_stages r) xs"
proof -
  let ?ss = "recipe_stages r"
  from run_stages_Ret [OF assms(2)] obtain xs where xs: "length xs = length ?ss" "p = progressed ?ss xs start_progress"
    "list_all2 (\<lambda>s (m, x). is_text (dr_text x) \<and> m \<in> set (stage_models s) \<and> candidate_is_in_scope rn m a = Ret True) ?ss xs"
    by blast
  have ok: "?ss \<noteq> []" "distinct (map stage_name ?ss)" using assms(1) by (auto simp: recipe_ok_def stages_ok_def)
  have fields: "outputs p = zip (map stage_name ?ss) (map (dr_text \<circ> snd) xs)" "used_models p = zip (map stage_name ?ss) (map fst xs)"
    "req_tokens p = tokens_of ?ss" "sum_cost p = fold (\<lambda>x acc. add_opt acc (dr_cost (snd x))) xs (Some 0)"
    "sum_tokens p = fold (\<lambda>x acc. add_opt acc (dr_tokens (snd x))) xs (Some 0)"
    using progressed_fields [OF xs(1), of start_progress] ok(2) xs(2) by (simp_all add: start_progress_def)
  have ne: "xs \<noteq> []" using xs(1) ok(1) by auto
  have "(stage_name (last ?ss), dr_text (snd (last xs))) \<in> set (zip (map stage_name ?ss) (map (dr_text \<circ> snd) xs))"
    using xs(1) ok(1) ne by (auto simp: set_zip last_conv_nth intro!: exI [of _ "length ?ss - 1"])
  moreover have "distinct (map fst (zip (map stage_name ?ss) (map (dr_text \<circ> snd) xs)))" using ok(2) xs(1) by simp
  ultimately have last: "map_of (outputs p) (stage_name (last ?ss)) = Some (dr_text (snd (last xs)))"
    unfolding fields(1) by (rule map_of_is_SomeI [rotated])
  have "result_of r p = Ret \<lparr>result_recipe = recipe_name r, result_output = dr_text (snd (last xs)), stage_outputs = outputs p,
      requested_tokens = req_tokens p, total_tokens_used = sum_tokens p, total_cost_usd = sum_cost p,
      models_used = used_models p, replay = False\<rparr>"
    using ok(1) last by (simp add: result_of_def)
  with fields xs show thesis by (intro that [of xs]) (simp_all add: add_opt_fold comp_def)
qed

section \<open>When a run completes\<close>

text \<open>Every permitted call answers with a text of the given kind or, for a model that is not up, with
  an error that is safe to fall back from.\<close>

definition answers :: "runner \<Rightarrow> pipeline_approval \<Rightarrow> pipeline_recipe \<Rightarrow> 'w dispatcher \<Rightarrow> (string \<Rightarrow> bool) \<Rightarrow> (json \<Rightarrow> bool) \<Rightarrow> bool" where
  "answers rn a r d up good \<longleftrightarrow>
     (\<forall>m p t st w. permitted rn a r m p t st \<longrightarrow>
        (if up m then \<exists>x w'. d m p t st w = (Ret x, w') \<and> is_text (dr_text x) \<and> good (dr_text x)
         else \<exists>w'. d m p t st w = (Raise (PipelineCandidateUnavailableError True), w')))"

lemma try_candidates_answer:
  assumes "answers rn a r d up good" and "s \<in> set (recipe_stages r)" and "set ms \<subseteq> set (stage_models s)"
    and "input_token_upper_bound p \<le> max_input_tokens r"
    and "\<forall>m \<in> set ms. \<exists>ok. candidate_is_in_scope rn m a = Ret ok"
    and "\<exists>m \<in> set ms. up m \<and> candidate_is_in_scope rn m a = Ret True"
  shows "\<exists>m x sc w' tr'. try_candidates rn a r d s p ms in_scope w tr = (Ret (Some (m, x), sc), w', tr') \<and>
    is_text (dr_text x) \<and> good (dr_text x)"
  using assms(3,5,6)
proof (induction ms arbitrary: in_scope w tr)
  case (Cons m ms)
  from Cons.prems(2) obtain ok where ok: "candidate_is_in_scope rn m a = Ret ok" by auto
  show ?case
  proof (cases ok)
    case False
    with ok Cons.prems have "\<exists>m \<in> set ms. up m \<and> candidate_is_in_scope rn m a = Ret True" by auto
    with Cons ok False show ?thesis by simp
  next
    case True
    with ok Cons.prems(1) assms(2,4) have perm: "permitted rn a r m p (stage_max_tokens s) (stage_name s)"
      by (auto simp: permitted_def)
    show ?thesis
    proof (cases "up m")
      case up: True
      with perm assms(1) obtain x w' where "d m p (stage_max_tokens s) (stage_name s) w = (Ret x, w')"
        "is_text (dr_text x)" "good (dr_text x)" unfolding answers_def by metis
      with ok True show ?thesis by auto
    next
      case down: False
      with perm assms(1) obtain w' where "d m p (stage_max_tokens s) (stage_name s) w =
          (Raise (PipelineCandidateUnavailableError True), w')" unfolding answers_def by metis
      moreover have "\<exists>m \<in> set ms. up m \<and> candidate_is_in_scope rn m a = Ret True" using Cons.prems(3) down by auto
      ultimately show ?thesis using Cons ok True by simp
    qed
  qed
qed simp

lemma loaded_scope:
  assumes "load_and_validate fs = Ret rn" and "recipe_ok rn r" and "s \<in> set (recipe_stages r)" and "m \<in> set (stage_models s)"
  shows "\<exists>ok. candidate_is_in_scope rn m a = Ret ok"
proof -
  from assms(2,3) have "stage_models s \<in> ran (map_of (runner_models rn))" by (auto simp: recipe_ok_def stages_ok_def stage_ok_def)
  from loaded_backends [OF assms(1) this assms(4)] show ?thesis
    by (auto simp: candidate_is_in_scope_def candidate_backend_def)
qed

lemma run_stages_complete:
  assumes "load_and_validate fs = Ret rn" and "recipe_ok rn r" and "answers rn a r d up good"
    and "\<forall>s \<in> set (recipe_stages r). \<exists>m \<in> set (stage_models s). up m \<and> candidate_is_in_scope rn m a = Ret True"
    and short: "\<And>s outs sp. s \<in> set (recipe_stages r) \<Longrightarrow> (\<forall>v \<in> ran (map_of outs). good v) \<Longrightarrow>
      stage_prompt prompt s outs = Ret sp \<Longrightarrow> input_token_upper_bound sp \<le> max_input_tokens r"
    and "recipe_stages r = pre @ ss" and "set (map stage_name pre) \<subseteq> fst ` set (outputs p)"
    and "\<forall>v \<in> ran (map_of (outputs p)). good v"
  shows "\<exists>p' w' tr'. run_stages rn a r d prompt ss p w tr = (Ret p', w', tr')"
  using assms(6-8)
proof (induction ss arbitrary: pre p w tr)
  case (Cons s ss)
  have s: "s \<in> set (recipe_stages r)" using Cons.prems(1) by simp
  have earlier: "src \<in> set (map stage_name pre)" if "input_from s = Some src" for src
  proof -
    have "\<forall>i < length (recipe_stages r). \<forall>src. input_from (recipe_stages r ! i) = Some src \<longrightarrow>
        src \<in> set (map stage_name (take i (recipe_stages r)))"
      using assms(2) by (simp add: recipe_ok_def stages_ok_def)
    from this [rule_format, of "length pre" src] that show ?thesis by (simp add: Cons.prems(1))
  qed
  have "\<exists>sp. stage_prompt prompt s (outputs p) = Ret sp"
  proof (cases "input_from s")
    case (Some src)
    with earlier Cons.prems(2) have "map_of (outputs p) src \<noteq> None" by (auto simp: map_of_eq_None_iff)
    with Some show ?thesis by (auto simp: stage_prompt_def)
  qed (simp add: stage_prompt_def)
  then obtain sp where sp: "stage_prompt prompt s (outputs p) = Ret sp" by blast
  have bound: "input_token_upper_bound sp \<le> max_input_tokens r" by (rule short [OF s Cons.prems(3) sp])
  have scope: "\<forall>m \<in> set (stage_models s). \<exists>ok. candidate_is_in_scope rn m a = Ret ok"
    using loaded_scope [OF assms(1,2) s] by blast
  from try_candidates_answer [OF assms(3) s subset_refl bound scope, of False w tr] assms(4) s
  obtain m x sc w1 tr1 where c: "try_candidates rn a r d s sp (stage_models s) False w tr = (Ret (Some (m, x), sc), w1, tr1)"
    "is_text (dr_text x)" "good (dr_text x)" by metis
  then obtain tr2 where st: "run_stage rn a r d prompt s p w tr = (Ret (after_stage s m x p), w1, tr2)"
    using sp bound by (simp add: run_stage_def)
  have "\<exists>p' w' tr'. run_stages rn a r d prompt ss (after_stage s m x p) w1 tr2 = (Ret p', w', tr')"
  proof (rule Cons.IH [of "pre @ [s]"])
    show "set (map stage_name (pre @ [s])) \<subseteq> fst ` set (outputs (after_stage s m x p))"
      using Cons.prems(2) by (auto simp: after_stage_def map_of_update simp flip: dom_map_of_conv_image_fst)
    show "\<forall>v \<in> ran (map_of (outputs (after_stage s m x p))). good v"
      using Cons.prems(3) c(3) by (auto simp: after_stage_def map_of_update ran_def split: if_splits)
  qed (use Cons.prems(1) in simp)
  with st show ?case by simp
qed simp

section \<open>Properties\<close>

definition demo_files :: pipeline_files where
  "demo_files =
     \<lparr>config_is_file = True, models_is_file = True,
      config_yaml = Some (JObj [(''enabled'', JBool True), (''models'', JObj [(''fast'', JStr ''m1'')]),
        (''recipes'', JObj [(''draft'', JObj [
          (''stages'', JList [JObj [(''name'', JStr ''write''), (''model'', JStr ''fast''), (''max_tokens'', JInt 10)]]),
          (''max_input_tokens'', JInt 100), (''cost_reservation_usd'', JInt 2)])])]),
      models_yaml = Ret (Some (JObj [(''models'', JList [JObj [(''name'', JStr ''m1''), (''backend'', JStr ''groq''),
        (''frugality_tier'', JInt 5)]])])),
      env_model = (\<lambda>_. []), enabled_flag = None, repr_of = (\<lambda>_. [])\<rparr>"

definition demo_approval :: pipeline_approval where
  "demo_approval = \<lparr>trace_id = ''trace-0001'', approved_by = ''ops'', purpose = ''demo'', approved_recipe = ''draft'',
     route_tier = 5, approved_tokens = 10, max_cost_usd = 2, expires_at = Aware 100, scope = [''Groq'']\<rparr>"

definition demo_run_env :: pipeline_run_env where
  "demo_run_env = \<lparr>files = demo_files, policy = demo_policy, revocations = NotConfigured, utc_now = 50\<rparr>"

definition demo_runner :: runner where
  "demo_runner = (case load_and_validate demo_files of Ret rn \<Rightarrow> rn | Raise _ \<Rightarrow> undefined)"

definition demo_dispatch :: "nat dispatcher" where
  "demo_dispatch m p t st n = (Ret \<lparr>dr_text = JStr ''hi'', dr_tokens = Some 7, dr_cost = None\<rparr>, n + 1)"

lemma demo_loaded: "load_and_validate demo_files = Ret demo_runner"
proof -
  have "is_Ret (load_and_validate demo_files)" by code_simp
  then show ?thesis by (auto simp: demo_runner_def is_Ret_iff)
qed



text \<open>A dispatcher that also records every call it gets.\<close>

type_synonym call = "string \<times> string \<times> int \<times> string"

definition logged :: "'w dispatcher \<Rightarrow> ('w \<times> call list) dispatcher" where
  "logged d m p t st w = (case d m p t st (fst w) of (x, w') \<Rightarrow> (x, w', snd w @ [(m, p, t, st)]))"

text \<open>C5: No provider is called without authority: if a run makes any call, the feature is enabled, an
  approval that is not revoked and not expired names this recipe and tier five and covers its
  token and cost ceilings, the system is not offline and a privacy-critical run has a confirmed
  and reasoned override; and every call goes to a candidate of a stage whose backend is in the
  approved scope, with the cap of the stage and a prompt within the input limit.\<close>

theorem calls_are_governed:
  assumes "run env rn name prompt ap (logged d) task privacy oc oreason (w, []) tr = (res, (w', calls), tr')"
    and "calls \<noteq> []"
  shows "\<exists>a r. ap = Some a \<and> map_of (recipes rn) name = Some r \<and> tiered_pipeline_enabled (files env) \<and>
    authorised env a name r \<and> \<not> offline (policy env) \<and> (privacy \<longrightarrow> oc \<and> reasoned oreason) \<and>
    (\<forall>(m, p, t, st) \<in> set calls. permitted rn a r m p t st)"
proof -
  have "fst (snd (run env rn name prompt ap (logged d) task privacy oc oreason (w, []) tr)) \<noteq> (w, [])"
    using assms by auto
  then obtain r where r: "admit env rn name prompt ap task privacy oc oreason = Ret r"
    by (cases "admit env rn name prompt ap task privacy oc oreason") (auto simp: run_def)
  from admitted(4) [OF r] obtain a where a: "ap = Some a" "authorised env a name r" by blast
  let ?I = "\<lambda>w :: 'a \<times> call list. \<forall>(m, p, t, st) \<in> set (snd w). permitted rn a r m p t st"
  have kept: "keeps rn a r (logged d) ?I" by (auto simp: keeps_def logged_def split: prod.splits)
  have "keeps rn (the ap) r' (logged d) ?I" if "admit env rn name prompt ap task privacy oc oreason = Ret r'" for r'
    using that r a(1) kept by simp
  from run_keeps [where I = ?I, OF assms(1) this] have "?I (w', calls)" by simp
  with a admitted(1,3,5,6) [OF r] show ?thesis by auto
qed

theorem calls_are_governed_witness:
  "\<exists>res w' calls tr'. run demo_run_env demo_runner ''draft'' ''hello'' (Some demo_approval) (logged demo_dispatch)
      ''reasoning'' False False None (0, []) [] = (res, (w', calls), tr') \<and> calls \<noteq> [] \<and>
     \<not> offline (policy demo_run_env)"
proof -
  obtain res w' calls tr' where r: "run demo_run_env demo_runner ''draft'' ''hello'' (Some demo_approval) (logged demo_dispatch)
      ''reasoning'' False False None (0, []) [] = (res, (w', calls), tr')" by (metis prod.collapse)
  have "snd (fst (snd (run demo_run_env demo_runner ''draft'' ''hello'' (Some demo_approval) (logged demo_dispatch)
      ''reasoning'' False False None (0, []) []))) \<noteq> []" by code_simp
  then have "calls \<noteq> []" using r by simp
  from calls_are_governed [OF r this] r this show ?thesis by blast
qed

text \<open>A run that returns has answered every stage of its recipe, in order, with text from a
  candidate of that stage in the approved scope; its output is that of the last stage, the tokens
  it requested are within the approved budget, and a total is reported exactly when every stage
  reported its part.\<close>

theorem run_result_complete:
  assumes "load_and_validate fs = Ret rn"
    and "run env rn name prompt (Some a) d task privacy oc oreason w tr = (Ret res, w', tr')"
  shows "\<exists>r (xs :: (string \<times> dispatch_result) list). map_of (recipes rn) name = Some r \<and>
    list_all2 (\<lambda>s (m, x). is_text (dr_text x) \<and> m \<in> set (stage_models s) \<and> candidate_is_in_scope rn m a = Ret True)
      (recipe_stages r) xs \<and>
    stage_outputs res = zip (map stage_name (recipe_stages r)) (map (\<lambda>(m, x). dr_text x) xs) \<and>
    models_used res = zip (map stage_name (recipe_stages r)) (map fst xs) \<and>
    result_output res = dr_text (snd (last xs)) \<and> requested_tokens res \<le> approved_tokens a \<and> \<not> replay res \<and>
    total_cost_usd res = (if \<forall>(m, x) \<in> set xs. dr_cost x \<noteq> None then Some (\<Sum>(m, x) \<leftarrow> xs. the (dr_cost x)) else None) \<and>
    total_tokens_used res =
      (if \<forall>(m, x) \<in> set xs. dr_tokens x \<noteq> None then Some (\<Sum>(m, x) \<leftarrow> xs. the (dr_tokens x)) else None)"
  using assms(2)
proof (cases rule: run_cases)
  case (finished r p)
  note adm = admitted [OF finished(1)]
  have ok: "recipe_ok rn r" using loaded_recipe [OF assms(1) adm(3)] by blast
  have stages: "run_stages rn a r d prompt (recipe_stages r) start_progress w tr = (Ret p, w', tr')"
    using finished(2) by simp
  obtain xs :: "(string \<times> dispatch_result) list" where "length xs = length (recipe_stages r)"
    and xs: "result_of r p = Ret \<lparr>result_recipe = recipe_name r, result_output = dr_text (snd (last xs)),
          stage_outputs = zip (map stage_name (recipe_stages r)) (map (dr_text \<circ> snd) xs),
          requested_tokens = tokens_of (recipe_stages r),
          total_tokens_used = (if \<forall>x \<in> set xs. dr_tokens (snd x) \<noteq> None then Some (\<Sum>x \<leftarrow> xs. the (dr_tokens (snd x))) else None),
          total_cost_usd = (if \<forall>x \<in> set xs. dr_cost (snd x) \<noteq> None then Some (\<Sum>x \<leftarrow> xs. the (dr_cost (snd x))) else None),
          models_used = zip (map stage_name (recipe_stages r)) (map fst xs), replay = False\<rparr>"
    "list_all2 (\<lambda>s (m, x). is_text (dr_text x) \<and> m \<in> set (stage_models s) \<and> candidate_is_in_scope rn m a = Ret True)
          (recipe_stages r) xs"
    by (rule finished_result [OF ok stages])
  have "tokens_of (recipe_stages r) \<le> approved_tokens a"
    using ok adm(4) by (auto simp: recipe_ok_def authorised_def)
  with xs finished(3) adm(3) show ?thesis
    by (intro exI [of _ r] exI [of _ xs]) (simp add: case_prod_unfold comp_def)
qed simp_all

theorem run_result_complete_witness:
  "\<exists>res w' tr'. run demo_run_env demo_runner ''draft'' ''hello'' (Some demo_approval) demo_dispatch ''reasoning'' False False None 0 []
      = (Ret res, w', tr') \<and> requested_tokens res \<le> 10"
proof -
  let ?run = "run demo_run_env demo_runner ''draft'' ''hello'' (Some demo_approval) demo_dispatch ''reasoning'' False False None 0 []"
  have "is_Ret (fst ?run)" by code_simp
  then obtain res w' tr' where r: "?run = (Ret res, w', tr')" by (metis is_Ret_iff prod.collapse)
  from run_result_complete [OF demo_loaded r] r show ?thesis by (auto simp: demo_approval_def)
qed

text \<open>C33: An approval that was registered is read back exactly as it was, whatever else is in the
  directory, and no other artifact changes.  The law of the ISO form is the documented inverse of
  \<open>datetime.isoformat\<close>.\<close>

theorem approval_roundtrip:
  assumes "register_pipeline_approval tmlib a dir = (Ret (), dir')" and "expires_at a = Aware t"
    and "fromisoformat tmlib (isoformat tmlib (Aware t)) = Some (Aware t)"
  shows "load_pipeline_approval repr tmlib (trace_id a) dir' = Ret a \<and>
    (tid = trace_id a \<or> load_pipeline_approval repr tmlib tid dir' = load_pipeline_approval repr tmlib tid dir)"
proof -
  from assms(1) have v: "validate_trace_id (trace_id a) = Ret (trace_id a)"
    and dir': "dir' = AList.update (trace_id a) (Some (JObj (approval_payload tmlib a))) dir"
    by (auto simp: register_pipeline_approval_def validate_trace_id_def split: res.splits if_splits)
  have strs: "map (json_text repr) (map JStr xs) = xs" for xs by (induction xs) (simp_all add: json_text_def)
  have "approval_from repr tmlib (trace_id a) (approval_payload tmlib a) = Ret a"
    using assms(2,3) strs [of "scope a"]
    by (cases a) (simp add: approval_from_def approval_payload_def need_str_def need_key_def dict_get_def jstrs_def json_text_def)
  then have "load_pipeline_approval repr tmlib (trace_id a) dir' = Ret a"
    using v by (simp add: load_pipeline_approval_def dir' map_of_update)
  moreover have "load_pipeline_approval repr tmlib tid dir' = load_pipeline_approval repr tmlib tid dir" if "tid \<noteq> trace_id a"
  proof -
    have "map_of dir' t = map_of dir t" if "validate_trace_id tid = Ret t" for t
      using that \<open>tid \<noteq> trace_id a\<close> by (simp add: dir' map_of_update validate_trace_id_def split: if_splits)
    then show ?thesis by (cases "validate_trace_id tid") (simp_all add: load_pipeline_approval_def)
  qed
  ultimately show ?thesis by blast
qed

definition demo_time :: time_lib where
  "demo_time = \<lparr>isoformat = (\<lambda>_. ''2026-01-01''), fromisoformat = (\<lambda>_. Some (Aware 100))\<rparr>"

theorem approval_roundtrip_witness:
  "load_pipeline_approval (\<lambda>_. []) demo_time ''trace-0001'' (snd (register_pipeline_approval demo_time demo_approval []))
     = Ret demo_approval"
proof -
  have "fst (register_pipeline_approval demo_time demo_approval []) = Ret ()" by code_simp
  then have "register_pipeline_approval demo_time demo_approval [] =
      (Ret (), snd (register_pipeline_approval demo_time demo_approval []))" by (metis prod.collapse)
  from approval_roundtrip [OF this, of 100 "\<lambda>_. []" "[]"] show ?thesis
    by (simp add: demo_time_def demo_approval_def)
qed



end
