(* ===== verification/ModelTransport.thy ===== *)
theory ModelTransport
  imports TieredPipeline
begin

text \<open>
  \<open>orchestrator/model_transport.py\<close>: the provider configuration, the checks before a request,
  the retry loop and the dispatch of one stage.  \<open>urlparse\<close> and the HTTP exchange are
  parameters; environment variables and the model registry are inputs; waiting between attempts
  has no effect.  \<open>ProviderConfigError\<close> and \<open>ProviderTransportError\<close> are subclasses of
  \<open>PipelineCandidateUnavailableError\<close> and appear as such, with their \<open>fallback_safe\<close> flag.
\<close>

section \<open>Configuration\<close>

definition RETRYABLE_STATUS_CODES :: "int list" where
  "RETRYABLE_STATUS_CODES = [408, 409, 425, 429, 502, 503, 504]"

definition AMBIGUOUS_STATUS_CODES :: "int list" where
  "AMBIGUOUS_STATUS_CODES = [500, 502, 504]"

definition ALLOWED_EFFORTS :: "string list" where
  "ALLOWED_EFFORTS = [''low'', ''medium'', ''high'', ''xhigh'', ''max'']"

definition OPENAI_SHAPE_BACKENDS :: "string list" where
  "OPENAI_SHAPE_BACKENDS = [''mistral'', ''deepseek'', ''groq'', ''dashscope'', ''meta_llama'']"

abbreviation ProviderConfigError :: exn where
  "ProviderConfigError \<equiv> PipelineCandidateUnavailableError False"

text \<open>\<open>ProviderTransportError\<close> by its status code and the explicit flag, if there is one.\<close>

definition ProviderTransportError :: "int option \<Rightarrow> bool option \<Rightarrow> exn" where
  "ProviderTransportError status fallback_safe =
     PipelineCandidateUnavailableError
       (case fallback_safe of
          Some b \<Rightarrow> b
        | None \<Rightarrow> (case status of None \<Rightarrow> False | Some c \<Rightarrow> c \<notin> set AMBIGUOUS_STATUS_CODES))"

record provider_config =
  pc_backend :: string
  credential_env :: string
  allowed_hosts :: "string list"
  documentation_hosts :: "string list"
  default_api_path :: string
  timeout_seconds :: rat
  max_attempts :: int
  api_version :: "string option"

definition nonblank :: "json \<Rightarrow> bool" where
  "nonblank v = (case v of JStr s \<Rightarrow> py_strip s \<noteq> [] | _ \<Rightarrow> False)"

definition host_list :: "json \<Rightarrow> string list option" where
  "host_list v = (case v of JList hs \<Rightarrow> if list_all nonblank hs then Some (map (lower \<circ> py_strip \<circ> text_of) hs) else None
                   | _ \<Rightarrow> None)"

definition provider_row :: "(json \<Rightarrow> string) \<Rightarrow> string \<Rightarrow> json \<Rightarrow> provider_config res" where
  "provider_row repr backend row =
     (case row of
        JObj d \<Rightarrow>
          (let cred = py_strip (json_text repr (dict_get d ''credential_env'' (JStr [])));
               path = py_strip (json_text repr (dict_get d ''default_api_path'' (JStr [])))
           in res_bind (recast ProviderConfigError (py_float (dict_get d ''timeout_seconds'' (JInt 60)))) (\<lambda>timeout.
              res_bind (recast ProviderConfigError (py_int (dict_get d ''max_attempts'' (JInt 1)))) (\<lambda>attempts.
                case (host_list (jget d ''allowed_hosts''), host_list (jget d ''documentation_hosts'')) of
                  (Some hosts, Some docs) \<Rightarrow>
                    if cred = [] \<or> take 1 path \<noteq> ''/'' \<or> timeout \<le> 0 \<or> \<not> (1 \<le> attempts \<and> attempts \<le> 3)
                    then Raise ProviderConfigError
                    else Ret \<lparr>pc_backend = backend, credential_env = cred, allowed_hosts = hosts,
                              documentation_hosts = docs, default_api_path = path, timeout_seconds = timeout,
                              max_attempts = attempts,
                              api_version = (if truthy (jget d ''api_version'')
                                             then Some (py_strip (json_text repr (jget d ''api_version''))) else None)\<rparr>
                | _ \<Rightarrow> Raise ProviderConfigError)))
      | _ \<Rightarrow> Raise ProviderConfigError)"

fun provider_rows ::
  "(json \<Rightarrow> string) \<Rightarrow> payload \<Rightarrow> (string, provider_config) dict \<Rightarrow> (string, provider_config) dict res" where
  "provider_rows repr [] acc = Ret acc"
| "provider_rows repr ((backend, row) # rest) acc =
     res_bind (provider_row repr backend row) (\<lambda>c. provider_rows repr rest (AList.update backend c acc))"

definition load_provider_configs :: "(json \<Rightarrow> string) \<Rightarrow> bool \<Rightarrow> json option \<Rightarrow> (string, provider_config) dict res" where
  "load_provider_configs repr is_file parsed =
     (if \<not> is_file then Raise ProviderConfigError
      else case parsed of
        None \<Rightarrow> Raise ProviderConfigError
      | Some v \<Rightarrow>
          (case or_empty v of
             JObj raw \<Rightarrow>
               (case jget raw ''providers'' of
                  JObj (r # rs) \<Rightarrow> provider_rows repr (r # rs) []
                | _ \<Rightarrow> Raise ProviderConfigError)
           | _ \<Rightarrow> Raise ProviderConfigError))"

section \<open>Checks before a request\<close>

text \<open>The fields of a registry entry that the transport reads; \<open>provenance\<close>, \<open>provider_options\<close> and
  \<open>api_model\<close> are values of the registry file.\<close>

record model_target =
  mt_name :: string
  mt_backend :: string
  mt_device :: string
  mt_host :: string
  mt_api_path :: "string option"
  mt_api_model :: json
  mt_frugality_tier :: "int option"
  mt_provenance :: json
  mt_provider_options :: json

record target_url =
  tu_scheme :: string
  tu_hostname :: "string option"
  tu_username :: "string option"
  tu_password :: "string option"
  tu_query :: string
  tu_fragment :: string
  tu_path :: string
  tu_port :: "int option res"

record transport =
  providers :: "(string, provider_config) dict"
  targets :: "(string, model_target) dict"
  getenv :: "string \<Rightarrow> string"
  parse_url :: "string \<Rightarrow> target_url res"

definition credential :: "transport \<Rightarrow> provider_config \<Rightarrow> string res" where
  "credential tp p =
     (let value = py_strip (getenv tp (credential_env p)) in
      if value = [] then Raise (PipelineCandidateUnavailableError True) else Ret value)"

definition endpoint :: "transport \<Rightarrow> model_target \<Rightarrow> provider_config \<Rightarrow> string res" where
  "endpoint tp t p =
     res_bind (parse_url tp (mt_host t)) (\<lambda>u.
       (let hostname = lower (case tu_hostname u of None \<Rightarrow> [] | Some h \<Rightarrow> h) in
        if tu_scheme u \<noteq> ''https'' \<or> hostname \<notin> set (allowed_hosts p) then Raise ProviderConfigError
        else if truthy_str (tu_username u) \<or> truthy_str (tu_password u) \<or> tu_query u \<noteq> [] \<or> tu_fragment u \<noteq> [] \<or>
          tu_path u \<notin> {[], ''/''}
        then Raise ProviderConfigError
        else
          res_bind (tu_port u) (\<lambda>port.
            if port \<noteq> None \<and> port \<noteq> Some 443 then Raise ProviderConfigError
            else
              (let api_path = (if truthy_str (mt_api_path t) then the (mt_api_path t) else default_api_path p) in
               if take 1 api_path \<noteq> ''/'' \<or> has_sub ''//'' api_path then Raise ProviderConfigError
               else Ret (''https://'' @ hostname @ api_path)))))"

definition require_verified_provenance :: "transport \<Rightarrow> model_target \<Rightarrow> provider_config \<Rightarrow> unit res" where
  "require_verified_provenance tp t p =
     (case mt_provenance t of
        JObj d \<Rightarrow>
          res_bind (case jget d ''source_url'' of
              JStr s \<Rightarrow> res_bind (parse_url tp s) (\<lambda>u. Ret (Some u))
            | _ \<Rightarrow> Ret None) (\<lambda>parsed.
            if jget d ''kind'' \<noteq> JStr ''provider-api'' \<or> jget d ''source_model_id'' \<noteq> mt_api_model t
            then Raise ProviderConfigError
            else case parsed of
              None \<Rightarrow> Raise ProviderConfigError
            | Some u \<Rightarrow>
                if tu_scheme u \<noteq> ''https'' \<or> \<not> truthy_str (tu_hostname u) \<or>
                  lower (the (tu_hostname u)) \<notin> set (documentation_hosts p)
                then Raise ProviderConfigError else Ret ())
      | _ \<Rightarrow> Raise ProviderConfigError)"

section \<open>Wire formats\<close>

definition user_message :: "string \<Rightarrow> json" where
  "user_message prompt = JList [JObj [(''role'', JStr ''user''), (''content'', JStr prompt)]]"

definition openai_payload :: "model_target \<Rightarrow> string \<Rightarrow> int \<Rightarrow> payload" where
  "openai_payload t prompt mt =
     [(''model'', mt_api_model t), (''messages'', user_message prompt), (''max_tokens'', JInt mt), (''stream'', JBool False)]"

definition anthropic_payload :: "model_target \<Rightarrow> string \<Rightarrow> int \<Rightarrow> payload res" where
  "anthropic_payload t prompt mt =
     (let base = [(''model'', mt_api_model t), (''max_tokens'', JInt mt), (''messages'', user_message prompt)];
          oc = (case or_empty (mt_provider_options t) of JObj d \<Rightarrow> jget d ''output_config'' | _ \<Rightarrow> JNull)
      in case oc of
           JNull \<Rightarrow> Ret base
         | JObj c \<Rightarrow>
             (case jget c ''effort'' of
                JList _ \<Rightarrow> Raise TypeError
              | JObj _ \<Rightarrow> Raise TypeError
              | effort \<Rightarrow>
                  if effort \<notin> JStr ` set ALLOWED_EFFORTS \<or> set (map fst c) \<noteq> {''effort''} then Raise ProviderConfigError
                  else Ret (base @ [(''output_config'', JObj [(''effort'', effort)])]))
         | _ \<Rightarrow> Raise ProviderConfigError)"

definition openai_text :: "payload \<Rightarrow> string res" where
  "openai_text body =
     (case jget body ''choices'' of
        JList (JObj c # _) \<Rightarrow>
          (case jget c ''message'' of
             JObj m \<Rightarrow>
               (case jget m ''content'' of
                  JStr s \<Rightarrow> if py_strip s = [] then Raise (ProviderTransportError None None) else Ret s
                | _ \<Rightarrow> Raise (ProviderTransportError None None))
           | _ \<Rightarrow> Raise (ProviderTransportError None None))
      | _ \<Rightarrow> Raise (ProviderTransportError None None))"

definition text_block :: "json \<Rightarrow> string" where
  "text_block b =
     (case b of
        JObj d \<Rightarrow> if jget d ''type'' = JStr ''text'' then text_of (jget d ''text'') else []
      | _ \<Rightarrow> [])"

definition anthropic_text :: "payload \<Rightarrow> string res" where
  "anthropic_text body =
     (case jget body ''content'' of
        JList blocks \<Rightarrow>
          (let t = concat (map text_block blocks) in
           if py_strip t = [] then Raise (ProviderTransportError None None) else Ret t)
      | _ \<Rightarrow> Raise (ProviderTransportError None None))"

text \<open>\<open>int(v)\<close> and \<open>float(v)\<close> of a value that passed \<open>isinstance(v, (int, float))\<close>.\<close>

definition number_int :: "json \<Rightarrow> int option" where
  "number_int v = (case v of JInt i \<Rightarrow> Some i | JFloat q \<Rightarrow> Some (trunc q) | JBool b \<Rightarrow> Some (of_bool b) | _ \<Rightarrow> None)"

definition number_float :: "json \<Rightarrow> rat option" where
  "number_float v = (case v of JInt i \<Rightarrow> Some (of_int i) | JFloat q \<Rightarrow> Some q | JBool b \<Rightarrow> Some (of_bool b) | _ \<Rightarrow> None)"

definition openai_usage :: "payload \<Rightarrow> int option \<times> rat option" where
  "openai_usage body =
     (case jget body ''usage'' of
        JObj u \<Rightarrow> (number_int (jget u ''total_tokens''), number_float (jget u ''cost''))
      | _ \<Rightarrow> (None, None))"

definition anthropic_usage :: "payload \<Rightarrow> int option \<times> rat option" where
  "anthropic_usage body =
     (case jget body ''usage'' of
        JObj u \<Rightarrow>
          (case (number_int (jget u ''input_tokens''), number_int (jget u ''output_tokens'')) of
             (Some i, Some j) \<Rightarrow> (Some (i + j), None)
           | _ \<Rightarrow> (None, None))
      | _ \<Rightarrow> (None, None))"

section \<open>The exchange\<close>

datatype http_outcome =
    Response int "json option" "string option"
  | ConnectError
  | TimeoutOrNetworkError
  | OtherHttpError

record request =
  rq_provider :: provider_config
  rq_endpoint :: string
  rq_headers :: "(string, string) dict"
  rq_payload :: payload
  rq_anthropic :: bool

type_synonym 'w sender = "request \<Rightarrow> 'w \<Rightarrow> http_outcome \<times> 'w"

definition retry_delay :: "string option \<Rightarrow> nat \<Rightarrow> rat" where
  "retry_delay retry_after attempt =
     (case retry_after of
        None \<Rightarrow> min (1 / 4 * 2 ^ attempt) 1
      | Some h \<Rightarrow> (case parse_float h of Some q \<Rightarrow> max 0 (min q 2) | None \<Rightarrow> min (1 / 4 * 2 ^ attempt) 1))"

fun post_attempts :: "'w sender \<Rightarrow> request \<Rightarrow> nat \<Rightarrow> exn \<Rightarrow> 'w \<Rightarrow> payload res \<times> 'w" where
  "post_attempts send rq 0 last_error w = (Raise last_error, w)"
| "post_attempts send rq (Suc n) last_error w =
     (case send rq w of
        (Response status body _, w') \<Rightarrow>
          if status < 400
          then (case body of
                  Some (JObj d) \<Rightarrow> (Ret d, w')
                | _ \<Rightarrow> (Raise (ProviderTransportError None None), w'))
          else
            (let e = ProviderTransportError (Some status) None in
             if status \<notin> set RETRYABLE_STATUS_CODES then (Raise e, w') else post_attempts send rq n e w')
      | (ConnectError, w') \<Rightarrow> post_attempts send rq n (ProviderTransportError None (Some True)) w'
      | (TimeoutOrNetworkError, w') \<Rightarrow> post_attempts send rq n (ProviderTransportError None (Some False)) w'
      | (OtherHttpError, w') \<Rightarrow> (Raise OtherError, w'))"

definition post :: "'w sender \<Rightarrow> request \<Rightarrow> 'w \<Rightarrow> payload res \<times> 'w" where
  "post send rq w = post_attempts send rq (nat (max_attempts (rq_provider rq))) OtherError w"

definition build_request ::
  "transport \<Rightarrow> model_target \<Rightarrow> provider_config \<Rightarrow> string \<Rightarrow> string \<Rightarrow> string \<Rightarrow> int \<Rightarrow> request res" where
  "build_request tp t p cred url prompt mt =
     (let bearer = [(''Authorization'', ''Bearer '' @ cred), (''Content-Type'', ''application/json'')];
          referer = py_strip (getenv tp ''OPENROUTER_HTTP_REFERER'');
          title = py_strip (getenv tp ''OPENROUTER_APP_TITLE'')
      in if mt_backend t = ''anthropic''
         then (case api_version p of
                 None \<Rightarrow> Raise ProviderConfigError
               | Some v \<Rightarrow>
                   if v = [] then Raise ProviderConfigError
                   else res_bind (anthropic_payload t prompt mt) (\<lambda>pl.
                     Ret \<lparr>rq_provider = p, rq_endpoint = url,
                          rq_headers = [(''x-api-key'', cred), (''anthropic-version'', v), (''content-type'', ''application/json'')],
                          rq_payload = pl, rq_anthropic = True\<rparr>))
         else if mt_backend t = ''openrouter''
         then Ret \<lparr>rq_provider = p, rq_endpoint = url,
                   rq_headers = bearer @ (if referer = [] then [] else [(''HTTP-Referer'', referer)]) @
                                (if title = [] then [] else [(''X-Title'', title)]),
                   rq_payload = openai_payload t prompt mt, rq_anthropic = False\<rparr>
         else if mt_backend t = ''bigmodel'' \<or> mt_backend t \<in> set OPENAI_SHAPE_BACKENDS
         then Ret \<lparr>rq_provider = p, rq_endpoint = url, rq_headers = bearer,
                   rq_payload = openai_payload t prompt mt, rq_anthropic = False\<rparr>
         else Raise ProviderConfigError)"

definition prepare :: "transport \<Rightarrow> string \<Rightarrow> string \<Rightarrow> int \<Rightarrow> request res" where
  "prepare tp m prompt mt =
     (case map_of (targets tp) m of
        None \<Rightarrow> Raise ProviderConfigError
      | Some t \<Rightarrow>
          if mt_frugality_tier t \<noteq> Some PIPELINE_TIER \<or> mt_device t \<noteq> ''cloud'' then Raise ProviderConfigError
          else case map_of (providers tp) (mt_backend t) of
            None \<Rightarrow> Raise ProviderConfigError
          | Some p \<Rightarrow>
              res_bind (require_verified_provenance tp t p) (\<lambda>_.
              res_bind (credential tp p) (\<lambda>cred.
              res_bind (endpoint tp t p) (\<lambda>url. build_request tp t p cred url prompt mt))))"

definition read_answer :: "request \<Rightarrow> payload \<Rightarrow> dispatch_result res" where
  "read_answer rq body =
     (let (tokens, cost) = (if rq_anthropic rq then anthropic_usage body else openai_usage body)
      in res_bind (if rq_anthropic rq then anthropic_text body else openai_text body) (\<lambda>t.
           Ret \<lparr>dr_text = JStr t, dr_tokens = tokens, dr_cost = cost\<rparr>))"

definition dispatch ::
  "transport \<Rightarrow> 'w sender \<Rightarrow> ('w \<Rightarrow> unit res \<times> 'w) \<Rightarrow> string \<Rightarrow> string \<Rightarrow> int \<Rightarrow> 'w \<Rightarrow> dispatch_result res \<times> 'w" where
  "dispatch tp send commit m prompt mt w =
     (case prepare tp m prompt mt of
        Raise e \<Rightarrow>
          (Raise (case e of PipelineCandidateUnavailableError _ \<Rightarrow> PipelineCandidateUnavailableError True | _ \<Rightarrow> e), w)
      | Ret rq \<Rightarrow>
          (case commit w of
             (Raise e, w1) \<Rightarrow> (Raise e, w1)
           | (Ret _, w1) \<Rightarrow>
               (case post send rq w1 of
                  (Raise e, w2) \<Rightarrow> (Raise e, w2)
                | (Ret body, w2) \<Rightarrow> (read_answer rq body, w2))))"

section \<open>Lemmas\<close>

definition provider_ok :: "string \<Rightarrow> provider_config \<Rightarrow> bool" where
  "provider_ok backend p \<longleftrightarrow> pc_backend p = backend \<and> credential_env p \<noteq> [] \<and> take 1 (default_api_path p) = ''/'' \<and>
     0 < timeout_seconds p \<and> 1 \<le> max_attempts p \<and> max_attempts p \<le> 3"

lemma provider_row_ok:
  assumes "provider_row repr backend row = Ret p"
  shows "provider_ok backend p"
proof -
  from assms obtain d where d: "row = JObj d" by (cases row) (simp_all add: provider_row_def)
  show ?thesis
  proof (cases "host_list (jget d ''allowed_hosts'')")
    case None
    with assms show ?thesis by (simp add: d provider_row_def Let_def res_bind_eq_Ret)
  next
    case hosts: (Some hs)
    show ?thesis
    proof (cases "host_list (jget d ''documentation_hosts'')")
      case None
      with assms hosts show ?thesis by (simp add: d provider_row_def Let_def res_bind_eq_Ret)
    next
      case (Some ds)
      with assms hosts show ?thesis
        by (auto simp: d provider_row_def provider_ok_def Let_def res_bind_eq_Ret split: if_splits)
    qed
  qed
qed

lemma provider_rows_ok:
  assumes "provider_rows repr rows acc = Ret ps" and "\<forall>b p. map_of acc b = Some p \<longrightarrow> provider_ok b p"
  shows "\<forall>b p. map_of ps b = Some p \<longrightarrow> provider_ok b p"
  using assms
proof (induction repr rows acc rule: provider_rows.induct)
  case (2 repr backend row rest acc)
  from "2.prems"(1) obtain c where c: "provider_row repr backend row = Ret c"
    "provider_rows repr rest (AList.update backend c acc) = Ret ps" by (auto simp: res_bind_eq_Ret)
  have "\<forall>b p. map_of (AList.update backend c acc) b = Some p \<longrightarrow> provider_ok b p"
    using "2.prems"(2) provider_row_ok [OF c(1)] by (simp add: map_of_update)
  from "2.IH" [OF c(2) this] show ?case .
qed simp

lemma load_provider_configs_ok:
  "load_provider_configs repr is_file parsed = Ret ps \<Longrightarrow> map_of ps b = Some p \<Longrightarrow> provider_ok b p"
  using provider_rows_ok [of repr _ "[]" ps]
  by (auto simp: load_provider_configs_def split: if_splits option.splits json.splits list.splits)

text \<open>What the retry loop keeps of the world, and how often it sends.\<close>

lemma post_step:
  assumes "send rq w = (oc, w')"
  shows "(\<exists>e'. post_attempts send rq (Suc n) e w = post_attempts send rq n e' w') \<or>
    snd (post_attempts send rq (Suc n) e w) = w'"
proof (cases oc)
  case (Response st body ra)
  with assms show ?thesis by (cases "st < 400") (auto simp: Let_def split: option.split json.split)
qed (use assms in auto)

lemma post_attempts_keeps:
  assumes "\<And>w. I w \<Longrightarrow> I (snd (send rq w))" and "I w"
  shows "I (snd (post_attempts send rq n e w))"
  using assms(2)
proof (induction n arbitrary: e w)
  case (Suc n)
  obtain oc w' where sent: "send rq w = (oc, w')" by fastforce
  with assms(1) [OF Suc.prems] have "I w'" by simp
  with post_step [of send rq w oc w' n e, OF sent] Suc.IH show ?case by metis
qed simp

lemma endpoint_Ret:
  assumes "endpoint tp t p = Ret url"
  obtains host path where "url = ''https://'' @ host @ path" and "host \<in> set (allowed_hosts p)" and "take 1 path = ''/''"
    and "\<not> has_sub ''//'' path"
  using assms by (auto simp: endpoint_def Let_def res_bind_eq_Ret split: if_splits)

lemma build_request_fields:
  assumes "build_request tp t p cred url prompt mt = Ret rq"
  shows "rq_provider rq = p \<and> rq_endpoint rq = url"
  using assms by (auto simp: build_request_def Let_def res_bind_eq_Ret split: if_splits option.splits)

lemma prepare_Ret:
  assumes "prepare tp m prompt mt = Ret rq"
  obtains t p where "map_of (targets tp) m = Some t" and "mt_frugality_tier t = Some PIPELINE_TIER" and "mt_device t = ''cloud''"
    and "map_of (providers tp) (mt_backend t) = Some p" and "rq_provider rq = p"
    and "require_verified_provenance tp t p = Ret ()" and "endpoint tp t p = Ret (rq_endpoint rq)"
  using assms by (auto simp: prepare_def res_bind_eq_Ret dest: build_request_fields split: option.splits if_splits)

section \<open>Properties\<close>

text \<open>A request is only ever built for a registered tier-five cloud model with a configured
  provider and a verified provenance record, and it goes to an HTTPS URL on a host of that
  provider's allowlist with an absolute path.\<close>

theorem requests_stay_on_allowlist:
  assumes "prepare tp m prompt mt = Ret rq"
  shows "\<exists>t p host path. map_of (targets tp) m = Some t \<and> mt_frugality_tier t = Some 5 \<and> mt_device t = ''cloud'' \<and>
    map_of (providers tp) (mt_backend t) = Some p \<and> require_verified_provenance tp t p = Ret () \<and>
    rq_endpoint rq = ''https://'' @ host @ path \<and> host \<in> set (allowed_hosts p) \<and> take 1 path = ''/'' \<and> \<not> has_sub ''//'' path"
proof -
  from assms obtain t p where t: "map_of (targets tp) m = Some t" "mt_frugality_tier t = Some PIPELINE_TIER" "mt_device t = ''cloud''"
    "map_of (providers tp) (mt_backend t) = Some p" "rq_provider rq = p" "require_verified_provenance tp t p = Ret ()"
    "endpoint tp t p = Ret (rq_endpoint rq)" by (rule prepare_Ret)
  from t(7) obtain host path where "rq_endpoint rq = ''https://'' @ host @ path" "host \<in> set (allowed_hosts p)"
    "take 1 path = ''/''" "\<not> has_sub ''//'' path" by (rule endpoint_Ret)
  with t show ?thesis unfolding PIPELINE_TIER_def by blast
qed

definition demo_provider :: provider_config where
  "demo_provider = \<lparr>pc_backend = ''groq'', credential_env = ''GROQ'', allowed_hosts = [''api.groq.com''],
     documentation_hosts = [''docs.groq.com''], default_api_path = ''/v1/chat'', timeout_seconds = 60, max_attempts = 2,
     api_version = None\<rparr>"

definition demo_target :: model_target where
  "demo_target = \<lparr>mt_name = ''m1'', mt_backend = ''groq'', mt_device = ''cloud'', mt_host = ''https://api.groq.com'',
     mt_api_path = None, mt_api_model = JStr ''llama'', mt_frugality_tier = Some 5,
     mt_provenance = JObj [(''kind'', JStr ''provider-api''), (''source_model_id'', JStr ''llama''),
       (''source_url'', JStr ''https://docs.groq.com/m'')],
     mt_provider_options = JNull\<rparr>"

definition demo_transport :: transport where
  "demo_transport = \<lparr>providers = [(''groq'', demo_provider)], targets = [(''m1'', demo_target)],
     getenv = (\<lambda>v. if v = ''GROQ'' then ''secret'' else []),
     parse_url = (\<lambda>s. Ret \<lparr>tu_scheme = ''https'', tu_hostname = Some (if s = ''https://api.groq.com'' then ''api.groq.com'' else ''docs.groq.com''),
       tu_username = None, tu_password = None, tu_query = [], tu_fragment = [], tu_path = [], tu_port = Ret None\<rparr>)\<rparr>"

lemma demo_prepare: "is_Ret (prepare demo_transport ''m1'' ''hello'' 10)"
  by code_simp

theorem requests_stay_on_allowlist_witness:
  "\<exists>rq host path. prepare demo_transport ''m1'' ''hello'' 10 = Ret rq \<and> rq_endpoint rq = ''https://'' @ host @ path \<and>
     take 1 path = ''/''"
proof -
  from demo_prepare obtain rq where r: "prepare demo_transport ''m1'' ''hello'' 10 = Ret rq" by (auto simp: is_Ret_iff)
  from requests_stay_on_allowlist [OF r] r show ?thesis by blast
qed

text \<open>The events of one dispatch: the outcome of the commit and every request sent.\<close>

datatype event = Committed bool | Sent

definition committing :: "('w \<Rightarrow> unit res \<times> 'w) \<Rightarrow> 'w \<times> event list \<Rightarrow> unit res \<times> 'w \<times> event list" where
  "committing commit w = (case commit (fst w) of (x, w') \<Rightarrow> (x, w', snd w @ [Committed (is_Ret x)]))"

definition sending :: "'w sender \<Rightarrow> ('w \<times> event list) sender" where
  "sending send rq w = (case send rq (fst w) of (x, w') \<Rightarrow> (x, w', snd w @ [Sent]))"

lemma post_attempts_events:
  "\<exists>k \<le> n. (n = 0 \<or> 1 \<le> k) \<and> snd (snd (post_attempts (sending send) rq n e w)) = snd w @ replicate k Sent"
proof (induction n arbitrary: e w)
  case (Suc n)
  obtain oc w' where "send rq (fst w) = (oc, w')" by fastforce
  then have sent: "sending send rq w = (oc, w', snd w @ [Sent])" by (simp add: sending_def)
  from post_step [of "sending send" rq w, OF sent, of n e] show ?case
  proof
    assume "\<exists>e'. post_attempts (sending send) rq (Suc n) e w = post_attempts (sending send) rq n e' (w', snd w @ [Sent])"
    then obtain e' where e': "post_attempts (sending send) rq (Suc n) e w = post_attempts (sending send) rq n e' (w', snd w @ [Sent])" ..
    from Suc.IH [of e' "(w', snd w @ [Sent])"] obtain k where
      "k \<le> n" "snd (snd (post_attempts (sending send) rq n e' (w', snd w @ [Sent]))) = (snd w @ [Sent]) @ replicate k Sent" by auto
    then show ?thesis unfolding e' by (intro exI [of _ "Suc k"]) simp
  next
    assume "snd (post_attempts (sending send) rq (Suc n) e w) = (w', snd w @ [Sent])"
    then show ?thesis by (intro exI [of _ 1]) simp
  qed
qed simp

text \<open>C30: Nothing is sent before the commit: a dispatch either does nothing, or only fails to commit,
  or commits first and then sends between one and three requests, whatever the provider answers.\<close>

theorem commit_precedes_requests:
  assumes "load_provider_configs repr is_file parsed = Ret (providers tp)"
  shows "\<exists>evs. snd (snd (dispatch tp (sending send) (committing commit) m prompt mt (w, []))) = evs \<and>
    (evs = [] \<or> evs = [Committed False] \<or> (\<exists>k. 1 \<le> k \<and> k \<le> 3 \<and> evs = Committed True # replicate k Sent))"
proof (cases "prepare tp m prompt mt")
  case (Ret rq)
  then have "\<exists>b. map_of (providers tp) b = Some (rq_provider rq)" by (auto elim: prepare_Ret)
  with load_provider_configs_ok [OF assms] have "\<exists>b. provider_ok b (rq_provider rq)" by blast
  then have n: "nat (max_attempts (rq_provider rq)) \<noteq> 0" "nat (max_attempts (rq_provider rq)) \<le> 3"
    by (auto simp: provider_ok_def)
  obtain x w1 where c: "commit w = (x, w1)" by fastforce
  show ?thesis
  proof (cases x)
    case (Ret u)
    from post_attempts_events [of "nat (max_attempts (rq_provider rq))" send rq OtherError "(w1, [Committed True])"] n
    obtain k where "1 \<le> k" "k \<le> 3" "snd (snd (post (sending send) rq (w1, [Committed True]))) = Committed True # replicate k Sent"
      unfolding post_def by auto
    with Ret c \<open>prepare tp m prompt mt = Ret rq\<close> show ?thesis
      by (auto simp: dispatch_def committing_def split: prod.splits res.splits)
  qed (use \<open>prepare tp m prompt mt = Ret rq\<close> c in \<open>simp add: dispatch_def committing_def\<close>)
qed (simp add: dispatch_def)

definition demo_providers_yaml :: json where
  "demo_providers_yaml = JObj [(''providers'', JObj [(''groq'', JObj [(''credential_env'', JStr ''GROQ''),
     (''allowed_hosts'', JList [JStr ''api.groq.com'']), (''documentation_hosts'', JList [JStr ''docs.groq.com'']),
     (''default_api_path'', JStr ''/v1/chat''), (''max_attempts'', JInt 2)])])]"

lemma demo_providers_load: "load_provider_configs (\<lambda>_. []) True (Some demo_providers_yaml) = Ret (providers demo_transport)"
  by code_simp

theorem commit_precedes_requests_witness:
  "snd (snd (dispatch demo_transport (sending (\<lambda>rq n. (ConnectError, n + (1 :: nat)))) (committing (\<lambda>n. (Ret (), n)))
      ''m1'' ''hello'' 10 (0, []))) = [Committed True, Sent, Sent]"
proof -
  let ?evs = "snd (snd (dispatch demo_transport (sending (\<lambda>rq n. (ConnectError, n + (1 :: nat)))) (committing (\<lambda>n. (Ret (), n)))
      ''m1'' ''hello'' 10 (0, [])))"
  from commit_precedes_requests [OF demo_providers_load, where send = "\<lambda>rq n. (ConnectError, n + (1 :: nat))"
      and commit = "\<lambda>n. (Ret (), n)" and m = "''m1''" and prompt = "''hello''" and mt = 10 and w = 0]
  have "?evs = [] \<or> ?evs = [Committed False] \<or>
    (\<exists>k. 1 \<le> k \<and> k \<le> 3 \<and> ?evs = Committed True # replicate k Sent)" by simp
  moreover have "length ?evs = 3" by code_simp
  ultimately show ?thesis by (auto simp: numeral_3_eq_3 numeral_2_eq_2)
qed

text \<open>Only the last attempt decides whether another paid model may be tried: a request that timed
  out, and so may have been served and billed, followed by a refused connection or a rate limit
  on the last attempt, ends in an error that counts as safe to fall back from.\<close>

theorem ambiguous_attempt_forgotten:
  assumes "max_attempts (rq_provider rq) = 2" and "send rq w = (TimeoutOrNetworkError, w1)"
    and "send rq w1 = (oc, w2)" and "oc = ConnectError \<or> oc = Response 429 body hdr"
  shows "post send rq w = (Raise (PipelineCandidateUnavailableError True), w2)"
  using assms
  by (auto simp: post_def numeral_2_eq_2 ProviderTransportError_def RETRYABLE_STATUS_CODES_def AMBIGUOUS_STATUS_CODES_def Let_def)

theorem ambiguous_attempt_forgotten_witness:
  "\<exists>rq. post (\<lambda>rq n. (if n = (0 :: nat) then TimeoutOrNetworkError else ConnectError, n + 1)) rq 0 =
     (Raise (PipelineCandidateUnavailableError True), 2)"
proof -
  from demo_prepare obtain rq where "prepare demo_transport ''m1'' ''hello'' 10 = Ret rq" by (auto simp: is_Ret_iff)
  have "max_attempts (rq_provider (rq\<lparr>rq_provider := demo_provider\<rparr>)) = 2" by (simp add: demo_provider_def)
  from ambiguous_attempt_forgotten [OF this, of "\<lambda>rq n. (if n = (0 :: nat) then TimeoutOrNetworkError else ConnectError, n + 1)" 0 1 ConnectError 2]
  show ?thesis by auto
qed

end
