(* ===== verification/Tier5Budget.thy ===== *)
theory Tier5Budget
  imports Prelude
begin

text \<open>
  \<open>orchestrator/tier5_budget.py\<close>: the reservation ledger for paid runs.  The two SQLite tables
  are lists of rows; a write transaction takes the lock first, so it is one step, and rolls
  back when its body raises.  The clock, the UTC day, the outcome of taking the lock and SHA-256
  are inputs.  Integers are Python's; amounts beyond SQLite's 64 bits are out of scope.
\<close>

section \<open>Tables\<close>

definition MICROUSD_PER_USD :: int where
  "MICROUSD_PER_USD = 1000000"

datatype run_state = Reserved | Dispatched | Settled | Released | ConsumedUnknown

record budget_run =
  run_id :: string
  key_digest :: string
  fingerprint :: string
  utc_day :: string
  run_state :: run_state
  policy_cap :: int
  held :: int
  settled :: int
  created_at :: rat
  updated_at :: rat

record ledger =
  runs :: "budget_run list"
  stage_markers :: "(string \<times> string, rat) dict"

datatype write_lock = Granted | Busy | Failing

record ledger_env =
  ledger_now :: rat
  ledger_day :: string
  write_lock :: write_lock
  sha256 :: "string \<Rightarrow> string"

section \<open>Transactions\<close>

definition guarded_transaction ::
  "ledger_env \<Rightarrow> ledger \<Rightarrow> (ledger \<Rightarrow> 'a res \<times> ledger) \<Rightarrow> 'a res \<times> ledger" where
  "guarded_transaction env l body =
     (case write_lock env of
        Busy \<Rightarrow> (Raise BudgetUnavailableError, l)
      | Failing \<Rightarrow> (Raise OtherError, l)
      | Granted \<Rightarrow> (case body l of (Raise e, _) \<Rightarrow> (Raise e, l) | (Ret x, l') \<Rightarrow> (Ret x, l')))"

definition find_run :: "ledger \<Rightarrow> string \<Rightarrow> budget_run option" where
  "find_run l rid = find (\<lambda>r. run_id r = rid) (runs l)"

definition update_runs :: "(budget_run \<Rightarrow> budget_run) \<Rightarrow> ledger \<Rightarrow> ledger" where
  "update_runs f l = l\<lparr>runs := map f (runs l)\<rparr>"

definition has_stage_markers :: "ledger \<Rightarrow> string \<Rightarrow> bool" where
  "has_stage_markers l rid = list_ex (\<lambda>((r, stage), t). r = rid) (stage_markers l)"

definition is_stage_marked :: "ledger \<Rightarrow> string \<Rightarrow> string \<Rightarrow> bool" where
  "is_stage_marked l rid stage = (map_of (stage_markers l) (rid, stage) \<noteq> None)"

definition get_reservation :: "ledger \<Rightarrow> string \<Rightarrow> budget_run option" where
  "get_reservation l rid = find_run l rid"

text \<open>The \<open>SUM\<close> of the day's holds and settlements in the states that count.\<close>

definition day_used :: "string \<Rightarrow> ledger \<Rightarrow> int" where
  "day_used day l = sum_list (map (\<lambda>r. held r + settled r)
     (filter (\<lambda>r. utc_day r = day \<and>
        run_state r \<in> {Reserved, Dispatched, Settled, ConsumedUnknown}) (runs l)))"

section \<open>Operations\<close>

definition reserve_in ::
  "ledger_env \<Rightarrow> int \<Rightarrow> string \<Rightarrow> string \<Rightarrow> string \<Rightarrow> int \<Rightarrow> int option \<Rightarrow> ledger \<Rightarrow> budget_run res \<times> ledger" where
  "reserve_in env limit rid digest fp worst_case explicit_cap l =
     (case find (\<lambda>r. key_digest r = digest) (runs l) of
        Some existing \<Rightarrow>
          if fingerprint existing \<noteq> fp then (Raise BudgetConflictError, l) else (Ret existing, l)
      | None \<Rightarrow>
          (let remaining = limit - day_used (ledger_day env) l;
               cap0 = (case explicit_cap of Some c \<Rightarrow> c | None \<Rightarrow> remaining - MICROUSD_PER_USD);
               cap = (if cap0 > remaining then remaining else cap0);
               row = \<lparr>run_id = rid, key_digest = digest, fingerprint = fp, utc_day = ledger_day env,
                      run_state = Reserved, policy_cap = cap, held = worst_case, settled = 0,
                      created_at = ledger_now env, updated_at = ledger_now env\<rparr>
           in if cap \<le> 0 \<or> worst_case > cap then (Raise BudgetInsufficientError, l)
              else if find_run l rid \<noteq> None then (Raise IntegrityError, l)
              else (Ret row, l\<lparr>runs := runs l @ [row]\<rparr>)))"

definition reserve ::
  "ledger_env \<Rightarrow> int \<Rightarrow> string \<Rightarrow> string \<Rightarrow> string \<Rightarrow> int \<Rightarrow> int option \<Rightarrow> ledger \<Rightarrow> budget_run res \<times> ledger" where
  "reserve env limit rid idempotency_key fp worst_case explicit_cap l =
     (if py_strip rid = [] \<or> py_strip idempotency_key = [] \<or> py_strip fp = [] then (Raise ValueError, l)
      else if worst_case \<le> 0 then (Raise ValueError, l)
      else if (case explicit_cap of None \<Rightarrow> False | Some c \<Rightarrow> c \<le> 0) then (Raise ValueError, l)
      else guarded_transaction env l
             (reserve_in env limit rid (sha256 env idempotency_key) fp worst_case explicit_cap))"

definition mark_dispatch :: "ledger_env \<Rightarrow> string \<Rightarrow> string \<Rightarrow> ledger \<Rightarrow> unit res \<times> ledger" where
  "mark_dispatch env rid stage l =
     guarded_transaction env l (\<lambda>l.
       if find_run l rid = None then (Raise BudgetError, l)
       else
         (let l1 = (if is_stage_marked l rid stage then l
                    else l\<lparr>stage_markers := stage_markers l @ [((rid, stage), ledger_now env)]\<rparr>)
          in (Ret (), update_runs (\<lambda>r. if run_id r = rid \<and> run_state r = Reserved
                                       then r\<lparr>run_state := Dispatched, updated_at := ledger_now env\<rparr> else r) l1)))"

definition settled_amount :: "budget_run \<Rightarrow> int option \<Rightarrow> int" where
  "settled_amount r unused =
     (case unused of
        None \<Rightarrow> held r
      | Some u \<Rightarrow> if u < 0 \<or> u > held r then held r else held r - u)"

definition settle :: "ledger_env \<Rightarrow> string \<Rightarrow> int option \<Rightarrow> ledger \<Rightarrow> budget_run res \<times> ledger" where
  "settle env rid unused l =
     guarded_transaction env l (\<lambda>l.
       case find_run l rid of
         None \<Rightarrow> (Raise BudgetError, l)
       | Some row \<Rightarrow>
           if run_state row \<in> {Settled, Released, ConsumedUnknown} then (Ret row, l)
           else
             (let set_row = (\<lambda>r. r\<lparr>run_state := Settled, held := 0, settled := settled_amount row unused,
                                   updated_at := ledger_now env\<rparr>)
              in (Ret (set_row row), update_runs (\<lambda>r. if run_id r = rid then set_row r else r) l)))"

definition release_pre_dispatch :: "ledger_env \<Rightarrow> string \<Rightarrow> ledger \<Rightarrow> budget_run res \<times> ledger" where
  "release_pre_dispatch env rid l =
     guarded_transaction env l (\<lambda>l.
       case find_run l rid of
         None \<Rightarrow> (Raise BudgetError, l)
       | Some row \<Rightarrow>
           if has_stage_markers l rid then (Raise BudgetError, l)
           else if run_state row \<noteq> Reserved then (Raise BudgetError, l)
           else
             (let rel = (\<lambda>r. r\<lparr>run_state := Released, held := 0, updated_at := ledger_now env\<rparr>)
              in (Ret (rel row), update_runs (\<lambda>r. if run_id r = rid \<and> run_state r = Reserved then rel r else r) l)))"

definition expired_unmarked :: "rat \<Rightarrow> ledger \<Rightarrow> budget_run \<Rightarrow> bool" where
  "expired_unmarked before l r \<longleftrightarrow>
     run_state r = Reserved \<and> updated_at r < before \<and> \<not> has_stage_markers l (run_id r)"

definition expired_marked :: "rat \<Rightarrow> ledger \<Rightarrow> budget_run \<Rightarrow> bool" where
  "expired_marked before l r \<longleftrightarrow>
     run_state r \<in> {Reserved, Dispatched} \<and> updated_at r < before \<and> has_stage_markers l (run_id r)"

definition recover_row :: "ledger_env \<Rightarrow> rat \<Rightarrow> ledger \<Rightarrow> budget_run \<Rightarrow> budget_run" where
  "recover_row env before l r =
     (if expired_unmarked before l r
      then r\<lparr>run_state := Released, held := 0, updated_at := ledger_now env\<rparr>
      else if expired_marked before l r
      then r\<lparr>run_state := ConsumedUnknown, settled := held r, held := 0, updated_at := ledger_now env\<rparr>
      else r)"

definition recover_expired :: "ledger_env \<Rightarrow> rat \<Rightarrow> ledger \<Rightarrow> (nat \<times> nat) res \<times> ledger" where
  "recover_expired env before l =
     guarded_transaction env l (\<lambda>l.
       (Ret (length (filter (expired_unmarked before l) (runs l)), length (filter (expired_marked before l) (runs l))),
        update_runs (recover_row env before l) l))"

section \<open>Runs of the ledger\<close>

text \<open>Any interleaving of the operations by any processes; every operation is one transaction.\<close>

inductive ledger_run :: "int \<Rightarrow> ledger \<Rightarrow> ledger \<Rightarrow> bool" for limit :: int where
  start: "ledger_run limit l l"
| reserves: "ledger_run limit l l1 \<Longrightarrow> ledger_run limit l (snd (reserve env limit rid key fp worst cap l1))"
| marks: "ledger_run limit l l1 \<Longrightarrow> ledger_run limit l (snd (mark_dispatch env rid stage l1))"
| settles: "ledger_run limit l l1 \<Longrightarrow> ledger_run limit l (snd (settle env rid unused l1))"
| releases: "ledger_run limit l l1 \<Longrightarrow> ledger_run limit l (snd (release_pre_dispatch env rid l1))"
| recovers: "ledger_run limit l l1 \<Longrightarrow> ledger_run limit l (snd (recover_expired env before l1))"

section \<open>Invariant\<close>

definition run_ok :: "budget_run \<Rightarrow> bool" where
  "run_ok r \<longleftrightarrow> 0 \<le> held r \<and> 0 \<le> settled r \<and> held r + settled r \<le> policy_cap r \<and>
     (case run_state r of
        Reserved \<Rightarrow> settled r = 0 | Dispatched \<Rightarrow> settled r = 0
      | Settled \<Rightarrow> held r = 0 | Released \<Rightarrow> held r = 0 \<and> settled r = 0 | ConsumedUnknown \<Rightarrow> held r = 0)"

definition ledger_ok :: "int \<Rightarrow> ledger \<Rightarrow> bool" where
  "ledger_ok limit l \<longleftrightarrow> distinct (map run_id (runs l)) \<and> distinct (map key_digest (runs l)) \<and>
     (\<forall>r \<in> set (runs l). run_ok r) \<and> (\<forall>day. day_used day l \<le> limit) \<and>
     (\<forall>r \<in> set (runs l). run_state r = Dispatched \<longrightarrow> has_stage_markers l (run_id r)) \<and>
     (\<forall>((rid, stage), t) \<in> set (stage_markers l). rid \<in> run_id ` set (runs l))"

text \<open>How one row may change: its identity is fixed, a closed run never changes, and what it
  counts against its day never grows.\<close>

definition closed_state :: "run_state \<Rightarrow> bool" where
  "closed_state st \<longleftrightarrow> st \<in> {Settled, Released, ConsumedUnknown}"

definition row_step :: "budget_run \<Rightarrow> budget_run \<Rightarrow> bool" where
  "row_step r r' \<longleftrightarrow> run_id r' = run_id r \<and> key_digest r' = key_digest r \<and> fingerprint r' = fingerprint r \<and>
     utc_day r' = utc_day r \<and> policy_cap r' = policy_cap r \<and> (closed_state (run_state r) \<longrightarrow> r' = r) \<and>
     held r' + settled r' \<le> held r + settled r \<and> (run_state r = Dispatched \<longrightarrow> run_state r' \<noteq> Reserved \<and> run_state r' \<noteq> Released)"

lemma row_step_refl [simp]: "row_step r r"
  by (simp add: row_step_def)

lemma row_step_trans: "row_step a b \<Longrightarrow> row_step b c \<Longrightarrow> row_step a c"
  unfolding row_step_def by (cases "run_state b") (auto simp: closed_state_def)


lemma day_used_alt:
  assumes "\<forall>r \<in> set (runs l). run_ok r"
  shows "day_used day l = sum_list (map (\<lambda>r. if utc_day r = day then held r + settled r else 0) (runs l))"
proof -
  have "sum_list (map (\<lambda>r. held r + settled r)
      (filter (\<lambda>r. utc_day r = day \<and> run_state r \<in> {Reserved, Dispatched, Settled, ConsumedUnknown}) rs)) =
    sum_list (map (\<lambda>r. if utc_day r = day then held r + settled r else 0) rs)" if "\<forall>r \<in> set rs. run_ok r" for rs
    using that
  proof (induction rs)
    case (Cons r rs)
    then show ?case by (cases "run_state r") (auto simp: run_ok_def)
  qed simp
  with assms show ?thesis by (simp add: day_used_def)
qed

lemma find_run_Some: "find_run l rid = Some r \<Longrightarrow> r \<in> set (runs l) \<and> run_id r = rid"
  by (auto simp: find_run_def find_Some_iff)

lemma find_run_None: "find_run l rid = None \<longleftrightarrow> rid \<notin> run_id ` set (runs l)"
  by (auto simp: find_run_def find_None_iff)

lemma find_run_unique:
  assumes "distinct (map run_id (runs l))" and "r \<in> set (runs l)"
  shows "find_run l (run_id r) = Some r"
proof (cases "find_run l (run_id r)")
  case None
  with assms(2) show ?thesis by (auto simp: find_run_None)
next
  case (Some r')
  from find_run_Some [OF this] assms have "r' = r" by (meson distinct_map inj_onD)
  with Some show ?thesis by simp
qed

text \<open>A step of the whole ledger: every row steps, new rows are appended, markers only grow.\<close>

definition ledger_step :: "ledger \<Rightarrow> ledger \<Rightarrow> bool" where
  "ledger_step l l' \<longleftrightarrow> (\<forall>r \<in> set (runs l). \<exists>r' \<in> set (runs l'). row_step r r') \<and>
     (\<forall>m \<in> set (stage_markers l). m \<in> set (stage_markers l'))"

lemma ledger_step_refl [simp]: "ledger_step l l"
  unfolding ledger_step_def by (metis row_step_refl)

lemma ledger_step_trans: "ledger_step a b \<Longrightarrow> ledger_step b c \<Longrightarrow> ledger_step a c"
  unfolding ledger_step_def by (metis row_step_trans)

lemma ledger_ok_update:
  assumes "ledger_ok limit l" and "runs l' = map f (runs l)"
    and "\<And>r. r \<in> set (runs l) \<Longrightarrow> row_step r (f r) \<and> run_ok (f r)"
    and "\<And>r. r \<in> set (runs l) \<Longrightarrow> run_state (f r) = Dispatched \<Longrightarrow> has_stage_markers l' (run_id r)"
    and "\<And>rid stage t. ((rid, stage), t) \<in> set (stage_markers l') \<Longrightarrow> rid \<in> run_id ` set (runs l)"
    and "\<And>m. m \<in> set (stage_markers l) \<Longrightarrow> m \<in> set (stage_markers l')"
  shows "ledger_ok limit l' \<and> ledger_step l l'"
proof -
  have ids: "map run_id (runs l') = map run_id (runs l)" "map key_digest (runs l') = map key_digest (runs l)"
    using assms(2,3) by (auto simp: row_step_def)
  have ok: "\<forall>r \<in> set (runs l). run_ok r" "\<forall>r \<in> set (runs l'). run_ok r"
    using assms(1,2,3) by (auto simp: ledger_ok_def)
  have "day_used day l' \<le> day_used day l" for day
    unfolding day_used_alt [OF ok(1)] day_used_alt [OF ok(2)] assms(2) map_map
    using assms(3) by (intro sum_list_mono) (auto simp: row_step_def)
  moreover have "day_used day l \<le> limit" for day using assms(1) by (simp add: ledger_ok_def)
  ultimately have used: "\<forall>day. day_used day l' \<le> limit" by (meson order.trans)
  have imgs: "run_id ` set (runs l') = run_id ` set (runs l)" by (metis ids(1) list.set_map)
  have disp: "has_stage_markers l' (run_id r)" if "r \<in> set (runs l')" "run_state r = Dispatched" for r
    using that assms(2-4) by (auto simp: row_step_def)
  have d: "distinct (map run_id (runs l'))" "distinct (map key_digest (runs l'))"
    unfolding ids using assms(1) by (simp_all add: ledger_ok_def)
  have "ledger_step l l'" using assms(2,3,6) by (auto simp: ledger_step_def)
  moreover have "ledger_ok limit l'"
    unfolding ledger_ok_def using d ok(2) used disp assms(5) imgs by auto
  ultimately show ?thesis by blast
qed

lemma guarded_cases:
  assumes "guarded_transaction env l body = (r, l')"
  obtains (refused) e where "r = Raise e" and "l' = l"
  | (committed) x where "r = Ret x" and "body l = (Ret x, l')"
  using assms by (auto simp: guarded_transaction_def split: write_lock.splits prod.splits res.splits)


lemma markers_mem: "has_stage_markers l rid \<longleftrightarrow> (\<exists>stage t. ((rid, stage), t) \<in> set (stage_markers l))"
  by (auto simp: has_stage_markers_def list_ex_iff)

lemma ledger_okD:
  assumes "ledger_ok limit l" and "r \<in> set (runs l)"
  shows "run_ok r" "run_state r = Dispatched \<Longrightarrow> has_stage_markers l (run_id r)"
    "r' \<in> set (runs l) \<Longrightarrow> run_id r' = run_id r \<Longrightarrow> r' = r"
  using assms by (auto simp: ledger_ok_def distinct_map dest: inj_onD)

lemma mark_dispatch_ok:
  assumes "ledger_ok limit l" and "mark_dispatch env rid stage l = (r, l')"
  shows "ledger_ok limit l' \<and> ledger_step l l'"
  using assms(2) unfolding mark_dispatch_def
proof (cases rule: guarded_cases)
  case (committed x)
  let ?f = "\<lambda>r. if run_id r = rid \<and> run_state r = Reserved
             then r\<lparr>run_state := Dispatched, updated_at := ledger_now env\<rparr> else r"
  from committed(2) have known: "find_run l rid \<noteq> None"
    and l': "runs l' = map ?f (runs l)"
    and m: "stage_markers l' = (if is_stage_marked l rid stage then stage_markers l
        else stage_markers l @ [((rid, stage), ledger_now env)])"
    by (auto simp: update_runs_def Let_def split: if_splits)
  have marked: "has_stage_markers l' rid"
    using m by (auto simp: markers_mem is_stage_marked_def split: if_splits dest: map_of_SomeD)
  show ?thesis
  proof (rule ledger_ok_update [OF assms(1) l'])
    fix r assume r: "r \<in> set (runs l)"
    show "row_step r (?f r) \<and> run_ok (?f r)"
      using ledger_okD(1) [OF assms(1) r] by (auto simp: row_step_def closed_state_def run_ok_def)
    show "has_stage_markers l' (run_id r)" if "run_state (?f r) = Dispatched"
      using that marked ledger_okD(2) [OF assms(1) r] m by (auto simp: markers_mem split: if_splits)
  next
    show "rd \<in> run_id ` set (runs l)" if "((rd, st), t) \<in> set (stage_markers l')" for rd st t
      using that m known assms(1) by (auto simp: ledger_ok_def find_run_None split: if_splits)
    show "x \<in> set (stage_markers l')" if "x \<in> set (stage_markers l)" for x
      using that m by auto
  qed
qed (use assms(1) in simp)

text \<open>One row through an update, and the operations on an open run.\<close>

lemma find_run_update:
  assumes "\<And>r. run_id (f r) = run_id r"
  shows "find_run (update_runs f l) rid = map_option f (find_run l rid)"
proof -
  have "find (\<lambda>r. run_id r = rid) (map f rs) = map_option f (find (\<lambda>r. run_id r = rid) rs)" for rs
    by (induction rs) (simp_all add: assms)
  then show ?thesis by (simp add: find_run_def update_runs_def)
qed

lemma settle_open_run:
  assumes "find_run l rid = Some r" and "\<not> closed_state (run_state r)" and "write_lock env = Granted"
  obtains r' l' where "settle env rid unused l = (Ret r', l')" and "find_run l' rid = Some r'" and "run_state r' = Settled"
    and "held r' = 0" and "settled r' = settled_amount r unused" and "stage_markers l' = stage_markers l"
proof -
  let ?set = "\<lambda>x. x\<lparr>run_state := Settled, held := 0, settled := settled_amount r unused, updated_at := ledger_now env\<rparr>"
  let ?f = "\<lambda>x. if run_id x = rid then ?set x else x"
  have "settle env rid unused l = (Ret (?set r), update_runs ?f l)"
    using assms by (simp add: settle_def guarded_transaction_def closed_state_def Let_def)
  moreover have "find_run (update_runs ?f l) rid = Some (?set r)"
    using assms(1) find_run_Some [OF assms(1)] by (simp add: find_run_update)
  ultimately show thesis by (rule that) (simp_all add: update_runs_def)
qed

lemma release_open_run:
  assumes "find_run l rid = Some r" and "run_state r = Reserved" and "\<not> has_stage_markers l rid" and "write_lock env = Granted"
  obtains r' l' where "release_pre_dispatch env rid l = (Ret r', l')" and "find_run l' rid = Some r'" and "run_state r' = Released"
    and "held r' = 0" and "settled r' = settled r" and "stage_markers l' = stage_markers l"
proof -
  let ?rel = "\<lambda>x. x\<lparr>run_state := Released, held := 0, updated_at := ledger_now env\<rparr>"
  let ?f = "\<lambda>x. if run_id x = rid \<and> run_state x = Reserved then ?rel x else x"
  have "release_pre_dispatch env rid l = (Ret (?rel r), update_runs ?f l)"
    using assms by (simp add: release_pre_dispatch_def guarded_transaction_def Let_def)
  moreover have "find_run (update_runs ?f l) rid = Some (?rel r)"
    using assms(1,2) find_run_Some [OF assms(1)] by (simp add: find_run_update)
  ultimately show thesis by (rule that) (simp_all add: update_runs_def)
qed

lemma mark_open_run:
  assumes "mark_dispatch env rid stage l = (x, l')" and "find_run l rid = Some r" and "\<not> closed_state (run_state r)"
  shows "\<exists>r'. find_run l' rid = Some r' \<and> \<not> closed_state (run_state r') \<and> held r' = held r \<and> settled r' = settled r \<and>
    (x = Ret () \<longrightarrow> has_stage_markers l' rid) \<and> (has_stage_markers l rid \<longrightarrow> has_stage_markers l' rid)"
  using assms(1) unfolding mark_dispatch_def
proof (cases rule: guarded_cases)
  case (committed u)
  let ?f = "\<lambda>r. if run_id r = rid \<and> run_state r = Reserved
             then r\<lparr>run_state := Dispatched, updated_at := ledger_now env\<rparr> else r"
  let ?l1 = "if is_stage_marked l rid stage then l
             else l\<lparr>stage_markers := stage_markers l @ [((rid, stage), ledger_now env)]\<rparr>"
  from committed(2) assms(2) have l': "l' = update_runs ?f ?l1" by (simp add: Let_def)
  have "find_run ?l1 rid = Some r" using assms(2) by (simp add: find_run_def)
  then have "find_run l' rid = Some (?f r)" unfolding l' by (simp add: find_run_update)
  moreover have "has_stage_markers l' rid" "has_stage_markers l rid \<longrightarrow> has_stage_markers l' rid"
    unfolding l' by (auto simp: update_runs_def markers_mem is_stage_marked_def dest: map_of_SomeD)
  ultimately show ?thesis using assms(3) by (auto simp: closed_state_def)
qed (use assms(2,3) in simp)

text \<open>The other updates leave the markers alone.\<close>

lemma update_ok:
  assumes "ledger_ok limit l" and "l' = update_runs f l"
    and "\<And>r. r \<in> set (runs l) \<Longrightarrow> row_step r (f r) \<and> run_ok (f r) \<and> (run_state (f r) = Dispatched \<longrightarrow> run_state r = Dispatched)"
  shows "ledger_ok limit l' \<and> ledger_step l l'"
  by (rule ledger_ok_update [OF assms(1), where f = f])
    (use assms in \<open>auto simp: update_runs_def has_stage_markers_def ledger_ok_def\<close>)

lemma settled_amount_bounds: "0 \<le> held r \<Longrightarrow> 0 \<le> settled_amount r u \<and> settled_amount r u \<le> held r"
  by (auto simp: settled_amount_def split: option.splits)

lemma settle_ok:
  assumes "ledger_ok limit l" and "settle env rid unused l = (r, l')"
  shows "ledger_ok limit l' \<and> ledger_step l l'"
  using assms(2) unfolding settle_def
proof (cases rule: guarded_cases)
  case (committed x)
  then obtain row where row: "find_run l rid = Some row" by (auto split: option.splits)
  note mem = find_run_Some [OF row]
  show ?thesis
  proof (cases "run_state row \<in> {Settled, Released, ConsumedUnknown}")
    case False
    let ?f = "\<lambda>r. if run_id r = rid then r\<lparr>run_state := Settled, held := 0,
        settled := settled_amount row unused, updated_at := ledger_now env\<rparr> else r"
    from committed(2) row False have l': "l' = update_runs ?f l" by (auto simp: Let_def)
    show ?thesis
    proof (rule update_ok [OF assms(1) l'])
      fix r assume r: "r \<in> set (runs l)"
      have "r = row" if "run_id r = rid" using ledger_okD(3) [OF assms(1), of row r] mem r that by simp
      with False settled_amount_bounds [of row unused] ledger_okD(1) [OF assms(1) r]
      show "row_step r (?f r) \<and> run_ok (?f r) \<and> (run_state (?f r) = Dispatched \<longrightarrow> run_state r = Dispatched)"
        by (cases "run_state row") (auto simp: row_step_def closed_state_def run_ok_def)
    qed
  qed (use committed(2) row assms(1) in auto)
qed (use assms(1) in simp)

lemma release_ok:
  assumes "ledger_ok limit l" and "release_pre_dispatch env rid l = (r, l')"
  shows "ledger_ok limit l' \<and> ledger_step l l'"
  using assms(2) unfolding release_pre_dispatch_def
proof (cases rule: guarded_cases)
  case (committed x)
  let ?f = "\<lambda>r. if run_id r = rid \<and> run_state r = Reserved
      then r\<lparr>run_state := Released, held := 0, updated_at := ledger_now env\<rparr> else r"
  from committed(2) have l': "l' = update_runs ?f l" by (auto simp: Let_def split: option.splits if_splits)
  show ?thesis
  proof (rule update_ok [OF assms(1) l'])
    fix r assume r: "r \<in> set (runs l)"
    from ledger_okD(1) [OF assms(1) r]
    show "row_step r (?f r) \<and> run_ok (?f r) \<and> (run_state (?f r) = Dispatched \<longrightarrow> run_state r = Dispatched)"
      by (auto simp: row_step_def closed_state_def run_ok_def)
  qed
qed (use assms(1) in simp)

lemma recover_row_ok:
  assumes "run_ok r"
  shows "row_step r (recover_row env before l r) \<and> run_ok (recover_row env before l r) \<and>
    (run_state (recover_row env before l r) = Dispatched \<longrightarrow> run_state r = Dispatched)"
  using assms
  by (auto simp: recover_row_def expired_unmarked_def expired_marked_def row_step_def closed_state_def run_ok_def)

lemma recover_ok:
  assumes "ledger_ok limit l" and "recover_expired env before l = (r, l')"
  shows "ledger_ok limit l' \<and> ledger_step l l'"
  using assms(2) unfolding recover_expired_def
proof (cases rule: guarded_cases)
  case (committed x)
  then have "l' = update_runs (recover_row env before l) l" by simp
  then show ?thesis by (rule update_ok [OF assms(1)]) (use recover_row_ok ledger_okD(1) [OF assms(1)] in blast)
qed (use assms(1) in simp)

lemma reserve_cases:
  assumes "reserve env limit rid key fp worst cap l = (r, l')"
  obtains (refused) e where "r = Raise e" and "l' = l"
  | (replayed) row where "r = Ret row" and "l' = l" and "row \<in> set (runs l)"
      and "key_digest row = sha256 env key" and "fingerprint row = fp"
  | (inserted) row where "r = Ret row" and "l' = l\<lparr>runs := runs l @ [row]\<rparr>"
      and "run_id row = rid" and "key_digest row = sha256 env key" and "fingerprint row = fp"
      and "utc_day row = ledger_day env" and "run_state row = Reserved" and "held row = worst" and "settled row = 0"
      and "0 < worst" and "worst \<le> policy_cap row"
      and "policy_cap row \<le> limit - day_used (ledger_day env) l"
      and "rid \<notin> run_id ` set (runs l)" and "sha256 env key \<notin> key_digest ` set (runs l)"
proof (cases "py_strip rid = [] \<or> py_strip key = [] \<or> py_strip fp = [] \<or> worst \<le> 0 \<or>
    (case cap of None \<Rightarrow> False | Some c \<Rightarrow> c \<le> 0)")
  case True
  with assms refused show thesis by (auto simp: reserve_def split: if_splits option.splits)
next
  case False
  with assms have "guarded_transaction env l (reserve_in env limit rid (sha256 env key) fp worst cap) = (r, l')"
    by (auto simp: reserve_def)
  then show thesis
  proof (cases rule: guarded_cases)
    case (refused e)
    with \<open>\<And>e. r = Raise e \<Longrightarrow> l' = l \<Longrightarrow> thesis\<close> show thesis by blast
  next
    case (committed x)
    show thesis
    proof (cases "find (\<lambda>r. key_digest r = sha256 env key) (runs l)")
      case None
      with committed False show thesis
        by (intro inserted [of x])
          (auto simp: reserve_in_def Let_def find_None_iff find_run_None image_iff split: if_splits option.splits)
    next
      case (Some ex)
      with committed show thesis
        by (intro replayed [of x]) (auto simp: reserve_in_def find_Some_iff split: if_splits)
    qed
  qed
qed


lemma reserve_ok:
  assumes "ledger_ok limit l" and "reserve env limit rid key fp worst cap l = (r, l')"
  shows "ledger_ok limit l' \<and> ledger_step l l'"
  using assms(2)
proof (cases rule: reserve_cases)
  case (inserted row)
  have used: "day_used day l' = day_used day l + (if day = utc_day row then worst else 0)" for day
    using inserted by (simp add: day_used_def)
  have "run_ok row" using inserted by (simp add: run_ok_def)
  moreover have "day_used day l' \<le> limit" for day
    using assms(1) inserted used [of day] by (auto simp: ledger_ok_def)
  moreover have "ledger_step l l'" unfolding ledger_step_def inserted(2) using row_step_refl by fastforce
  ultimately show ?thesis
    using assms(1) inserted unfolding ledger_ok_def by (auto simp: has_stage_markers_def)
qed (use assms(1) in auto)

lemma ledger_run_ok:
  assumes "ledger_run limit l l'" and "ledger_ok limit l"
  shows "ledger_ok limit l' \<and> ledger_step l l'"
  using assms
proof (induction rule: ledger_run.induct)
  case (reserves l l1 env rid key fp worst cap)
  with reserve_ok [OF _ prod.collapse [symmetric], of limit l1] ledger_step_trans show ?case by blast
next
  case (marks l l1 env rid stage)
  with mark_dispatch_ok [OF _ prod.collapse [symmetric], of limit l1] ledger_step_trans show ?case by blast
next
  case (settles l l1 env rid unused)
  with settle_ok [OF _ prod.collapse [symmetric], of limit l1] ledger_step_trans show ?case by blast
next
  case (releases l l1 env rid)
  with release_ok [OF _ prod.collapse [symmetric], of limit l1] ledger_step_trans show ?case by blast
next
  case (recovers l l1 env before)
  with recover_ok [OF _ prod.collapse [symmetric], of limit l1] ledger_step_trans show ?case by blast
qed simp

lemma empty_ledger_ok: "0 \<le> limit \<Longrightarrow> ledger_ok limit \<lparr>runs = [], stage_markers = []\<rparr>"
  by (simp add: ledger_ok_def day_used_def)

lemma step_find:
  assumes "ledger_ok limit l'" and "ledger_step l l'" and "r \<in> set (runs l)"
  obtains r' where "find_run l' (run_id r) = Some r'" and "row_step r r'"
proof -
  from assms(2,3) obtain r' where r': "r' \<in> set (runs l')" "row_step r r'" unfolding ledger_step_def by blast
  moreover have "run_id r' = run_id r" using r'(2) by (simp add: row_step_def)
  ultimately show thesis using find_run_unique [of l' r'] assms(1) that by (simp add: ledger_ok_def)
qed

lemma find_key:
  assumes "ledger_ok limit l" and "r \<in> set (runs l)"
  shows "find (\<lambda>x. key_digest x = key_digest r) (runs l) = Some r"
proof -
  obtain x where x: "find (\<lambda>x. key_digest x = key_digest r) (runs l) = Some x"
    using assms(2) by (cases "find (\<lambda>x. key_digest x = key_digest r) (runs l)") (auto simp: find_None_iff)
  then have "x \<in> set (runs l)" "key_digest x = key_digest r" by (auto simp: find_Some_iff)
  with assms have "x = r" by (auto simp: ledger_ok_def distinct_map dest: inj_onD)
  with x show ?thesis by simp
qed

lemma sum_list_change:
  fixes g :: "'a \<Rightarrow> int"
  assumes "r \<in> set rs" and "distinct (map k rs)"
  shows "sum_list (map g (map (\<lambda>x. if k x = k r then h x else x) rs)) = sum_list (map g rs) - g r + g (h r)"
  using assms
proof (induction rs)
  case (Cons a rs)
  show ?case
  proof (cases "r = a")
    case True
    have "map (\<lambda>x. if k x = k a then h x else x) rs = rs"
      using Cons.prems(2) by (intro map_idI) (auto simp: image_iff)
    with True show ?thesis by simp
  next
    case False
    with Cons show ?thesis by (auto simp: image_iff)
  qed
qed simp

section \<open>Properties\<close>

definition demo_ledger_env :: ledger_env where
  "demo_ledger_env = \<lparr>ledger_now = 10, ledger_day = ''2026-01-01'', write_lock = Granted, sha256 = (\<lambda>s. s)\<rparr>"

definition empty_ledger :: ledger where
  "empty_ledger = \<lparr>runs = [], stage_markers = []\<rparr>"

definition demo_ledger :: ledger where
  "demo_ledger = snd (reserve demo_ledger_env 5000000 ''r1'' ''k1'' ''f1'' 2000000 None empty_ledger)"

lemma demo_ledger_run: "ledger_run 5000000 empty_ledger demo_ledger"
  unfolding demo_ledger_def by (intro ledger_run.reserves ledger_run.start)

lemma demo_ledger_ok: "ledger_ok 5000000 demo_ledger"
  using ledger_run_ok [OF demo_ledger_run] empty_ledger_ok [of 5000000] by (simp add: empty_ledger_def)

text \<open>C6: Whatever the interleaving of reservations, dispatch markers, settlements, releases and
  recoveries, what a day's runs hold and have settled never exceeds the daily limit, and no run
  counts more than the cap it was granted.\<close>

theorem daily_limit_respected:
  assumes "ledger_ok limit l" and "ledger_run limit l l'"
  shows "day_used day l' \<le> limit \<and> (\<forall>r \<in> set (runs l'). 0 \<le> held r \<and> 0 \<le> settled r \<and> held r + settled r \<le> policy_cap r)"
  using ledger_run_ok [OF assms(2,1)] by (auto simp: ledger_ok_def run_ok_def)

theorem daily_limit_respected_witness:
  "day_used ''2026-01-01'' (snd (reserve demo_ledger_env 5000000 ''r2'' ''k2'' ''f2'' 2000000 (Some 9000000) demo_ledger)) \<le> 5000000"
  using daily_limit_respected [OF demo_ledger_ok ledger_run.reserves [OF ledger_run.start]] by blast




text \<open>A closed run is final: once settled, released or consumed, its row never changes again.\<close>

theorem closed_runs_final:
  assumes "ledger_ok limit l" and "ledger_run limit l l'" and "find_run l rid = Some r" and "closed_state (run_state r)"
  shows "find_run l' rid = Some r"
proof -
  have "r \<in> set (runs l)" "run_id r = rid" using find_run_Some [OF assms(3)] by auto
  with ledger_run_ok [OF assms(2,1)] obtain r' where "find_run l' rid = Some r'" "row_step r r'"
    using step_find [of limit l' l r] by metis
  with assms(4) show ?thesis by (simp add: row_step_def)
qed

theorem closed_runs_final_witness:
  "find_run (snd (mark_dispatch demo_ledger_env ''r1'' ''draft''
     (snd (release_pre_dispatch demo_ledger_env ''r1'' demo_ledger)))) ''r1'' =
   find_run (snd (release_pre_dispatch demo_ledger_env ''r1'' demo_ledger)) ''r1''"
proof -
  let ?l = "snd (release_pre_dispatch demo_ledger_env ''r1'' demo_ledger)"
  have ok: "ledger_ok 5000000 ?l" using release_ok [OF demo_ledger_ok prod.collapse [symmetric]] by blast
  have "map_option run_state (find_run ?l ''r1'') = Some Released" by code_simp
  then obtain r where r: "find_run ?l ''r1'' = Some r" "run_state r = Released" by auto
  from closed_runs_final [OF ok ledger_run.marks [OF ledger_run.start] r(1)] r show ?thesis
    by (simp add: closed_state_def)
qed

text \<open>Settling is conservative: an open run is closed, an amount is given back to the day
  only when it is a verified part of the hold, and everything else of the hold is spent; the
  day's total drops by exactly what was given back.\<close>

theorem settle_is_conservative:
  assumes "ledger_ok limit l" and "find_run l rid = Some r" and "\<not> closed_state (run_state r)"
    and "write_lock env = Granted"
    and "back = (case unused of None \<Rightarrow> 0 | Some u \<Rightarrow> if 0 \<le> u \<and> u \<le> held r then u else 0)"
  shows "\<exists>r' l'. settle env rid unused l = (Ret r', l') \<and> find_run l' rid = Some r' \<and>
    run_state r' = Settled \<and> held r' = 0 \<and> settled r' = held r - back \<and>
    day_used (utc_day r) l' = day_used (utc_day r) l - back"
proof -
  let ?set = "\<lambda>x. x\<lparr>run_state := Settled, held := 0, settled := settled_amount r unused, updated_at := ledger_now env\<rparr>"
  let ?l' = "update_runs (\<lambda>x. if run_id x = rid then ?set x else x) l"
  have s: "settle env rid unused l = (Ret (?set r), ?l')"
    using assms(2-4) by (simp add: settle_def guarded_transaction_def closed_state_def Let_def)
  have r: "r \<in> set (runs l)" "run_id r = rid" using find_run_Some [OF assms(2)] by auto
  have ok: "ledger_ok limit ?l'" using settle_ok [OF assms(1) s] by blast
  have amount: "settled_amount r unused = held r - back"
    using assms(5) by (auto simp: settled_amount_def split: option.splits)
  have opened: "settled r = 0" using ledger_okD(1) [OF assms(1) r(1)] assms(3)
    by (cases "run_state r") (auto simp: run_ok_def closed_state_def)
  have rows: "\<forall>x \<in> set (runs l). run_ok x" "\<forall>x \<in> set (runs ?l'). run_ok x" "distinct (map run_id (runs l))"
    using assms(1) ok by (auto simp: ledger_ok_def)
  let ?g = "\<lambda>x. if utc_day x = utc_day r then held x + settled x else (0 :: int)"
  have "day_used (utc_day r) ?l' = sum_list (map ?g (map (\<lambda>x. if run_id x = run_id r then ?set x else x) (runs l)))"
    by (subst day_used_alt [OF rows(2)]) (simp add: update_runs_def r(2))
  also have "\<dots> = day_used (utc_day r) l - ?g r + ?g (?set r)"
    unfolding day_used_alt [OF rows(1)] by (rule sum_list_change [OF r(1) rows(3)])
  also have "\<dots> = day_used (utc_day r) l - back" using amount opened by simp
  finally have used: "day_used (utc_day r) ?l' = day_used (utc_day r) l - back" .
  have "?set r \<in> set (runs ?l')" using r by (auto simp: update_runs_def image_iff)
  from find_run_unique [OF _ this] ok r(2) have "find_run ?l' rid = Some (?set r)" by (simp add: ledger_ok_def)
  with s used amount show ?thesis by (intro exI [of _ "?set r"] exI [of _ ?l']) simp
qed

theorem settle_is_conservative_witness:
  "\<exists>r' l'. settle demo_ledger_env ''r1'' (Some 500000) demo_ledger = (Ret r', l') \<and> settled r' = 1500000"
proof -
  have "map_option (\<lambda>r. (run_state r, held r)) (find_run demo_ledger ''r1'') = Some (Reserved, 2000000)" by code_simp
  then obtain r where r: "find_run demo_ledger ''r1'' = Some r" "run_state r = Reserved" "held r = 2000000" by auto
  from settle_is_conservative [OF demo_ledger_ok r(1) _ _ refl, of demo_ledger_env "Some 500000"] r
  show ?thesis by (auto simp: closed_state_def demo_ledger_env_def)
qed

text \<open>A dispatch marker is accepted for a run that was released: nothing is reserved for it,
  the call succeeds like any other, the settlement that follows charges nothing, and the day's
  total does not see the spending the marker announces.\<close>

theorem released_run_dispatches_unpaid:
  assumes "ledger_ok limit l" and "find_run l rid = Some r" and "run_state r = Released" and "write_lock env = Granted"
  shows "\<exists>l'. mark_dispatch env rid stage l = (Ret (), l') \<and> has_stage_markers l' rid \<and>
    settle env rid unused l' = (Ret r, l') \<and> held r = 0 \<and> settled r = 0 \<and> day_used day l' = day_used day l"
proof -
  have mem: "r \<in> set (runs l)" "run_id r = rid" using find_run_Some [OF assms(2)] by auto
  let ?l1 = "if is_stage_marked l rid stage then l
             else l\<lparr>stage_markers := stage_markers l @ [((rid, stage), ledger_now env)]\<rparr>"
  have "x = r" if "x \<in> set (runs l)" "run_id x = rid" for x using ledger_okD(3) [OF assms(1) mem(1) that(1)] mem that by simp
  then have same: "map (\<lambda>x. if run_id x = rid \<and> run_state x = Reserved
      then x\<lparr>run_state := Dispatched, updated_at := ledger_now env\<rparr> else x) (runs l) = runs l"
    using assms(3) by (intro map_idI) auto
  have m: "mark_dispatch env rid stage l = (Ret (), ?l1)"
    using assms(2,4) same by (auto simp: mark_dispatch_def guarded_transaction_def update_runs_def Let_def)
  have "has_stage_markers ?l1 rid"
    by (auto simp: markers_mem is_stage_marked_def dest: map_of_SomeD)
  moreover have "find_run ?l1 rid = Some r" using assms(2) by (simp add: find_run_def)
  moreover have "held r = 0 \<and> settled r = 0" using ledger_okD(1) [OF assms(1) mem(1)] assms(3) by (simp add: run_ok_def)
  ultimately show ?thesis
    using m assms(3,4) by (intro exI [of _ ?l1]) (auto simp: settle_def guarded_transaction_def day_used_def)
qed

theorem released_run_dispatches_unpaid_witness:
  "\<exists>l' r. mark_dispatch demo_ledger_env ''r1'' ''draft'' (snd (recover_expired demo_ledger_env 60 demo_ledger)) = (Ret (), l') \<and>
     settle demo_ledger_env ''r1'' (Some 0) l' = (Ret r, l') \<and> settled r = 0"
proof -
  let ?l = "snd (recover_expired demo_ledger_env 60 demo_ledger)"
  have ok: "ledger_ok 5000000 ?l" using recover_ok [OF demo_ledger_ok prod.collapse [symmetric]] by blast
  have "map_option run_state (find_run ?l ''r1'') = Some Released" by code_simp
  then obtain r where r: "find_run ?l ''r1'' = Some r" "run_state r = Released" by auto
  from released_run_dispatches_unpaid [OF ok r, of demo_ledger_env "''draft''" "Some 0" "''day''"] show ?thesis
    by (auto simp: demo_ledger_env_def)
qed

end
