(* ===== verification/Tier5Execution.thy ===== *)
theory Tier5Execution
  imports ModelTransport Tier5Budget
begin

text \<open>
  \<open>orchestrator/tier5_execution.py\<close>: a paid run from its fingerprint to its settlement.  It
  composes the ledger, the runner and the transport; the state is the ledger together with the
  provider world.  HMAC and SHA-256 are parameters.
\<close>

section \<open>The service\<close>

record 'w service =
  pipeline_env :: pipeline_run_env
  daily_limit :: int
  reserve_env :: ledger_env
  mark_env :: "'w \<Rightarrow> ledger_env"
  close_env :: ledger_env
  hmac_key :: "string option"
  env_hmac_key :: string
  hmac_sha256 :: "string \<Rightarrow> json \<Rightarrow> string"
  sha256_hex :: "string \<Rightarrow> string"

definition canonical_data :: "(string \<Rightarrow> string) \<Rightarrow> string \<Rightarrow> string \<Rightarrow> pipeline_approval \<Rightarrow> string \<Rightarrow> bool \<Rightarrow> payload" where
  "canonical_data sha name prompt a task privacy =
     [(''approved_by'', JStr (py_strip (approved_by a))), (''privacy_critical'', JBool privacy),
      (''prompt_sha256'', JStr (sha prompt)), (''purpose'', JStr (py_strip (purpose a))),
      (''recipe'', JStr (py_strip name)), (''task_type'', JStr (py_strip task)),
      (''trace_id'', JStr (py_strip (trace_id a)))]"

definition compute_request_fingerprint ::
  "'w service \<Rightarrow> string \<Rightarrow> string \<Rightarrow> pipeline_approval \<Rightarrow> string \<Rightarrow> bool \<Rightarrow> string res" where
  "compute_request_fingerprint sv name prompt a task privacy =
     (let secret = (if truthy_str (hmac_key sv) then the (hmac_key sv) else env_hmac_key sv) in
      if py_strip secret = [] then Raise Tier5ConfigurationError
      else Ret (hmac_sha256 sv secret (JObj (canonical_data (sha256_hex sv) name prompt a task privacy))))"

definition microusd :: "rat \<Rightarrow> int" where
  "microusd usd = round_half_even (usd * of_int MICROUSD_PER_USD)"

text \<open>A dispatcher that is handed the commit of the dispatch marker.\<close>

type_synonym 'w committing_dispatcher =
  "(ledger \<times> 'w \<Rightarrow> unit res \<times> ledger \<times> 'w) \<Rightarrow> (ledger \<times> 'w) dispatcher"

definition commit_marker :: "'w service \<Rightarrow> string \<Rightarrow> string \<Rightarrow> ledger \<times> 'w \<Rightarrow> unit res \<times> ledger \<times> 'w" where
  "commit_marker sv rid stage lw =
     (case mark_dispatch (mark_env sv (snd lw)) rid stage (fst lw) of (x, l') \<Rightarrow> (x, l', snd lw))"

definition marked_dispatch :: "'w service \<Rightarrow> string \<Rightarrow> 'w committing_dispatcher \<Rightarrow> (ledger \<times> 'w) dispatcher" where
  "marked_dispatch sv rid d m p t stage lw = d (commit_marker sv rid stage) m p t stage lw"

definition verified_unused :: "int \<Rightarrow> rat option \<Rightarrow> int" where
  "verified_unused held_amount cost =
     (case cost of
        None \<Rightarrow> 0
      | Some c \<Rightarrow> if 0 \<le> c then max 0 (held_amount - microusd c) else 0)"

text \<open>What a run with a given hold is charged for the cost the provider reported.\<close>

definition charge :: "int \<Rightarrow> rat option \<Rightarrow> int" where
  "charge held_amount cost =
     (case cost of None \<Rightarrow> held_amount | Some c \<Rightarrow> if 0 \<le> c then min held_amount (microusd c) else held_amount)"

definition close_failed :: "'w service \<Rightarrow> string \<Rightarrow> ledger \<Rightarrow> ledger" where
  "close_failed sv rid l =
     snd (if has_stage_markers l rid then settle (close_env sv) rid (Some 0) l
          else release_pre_dispatch (close_env sv) rid l)"

definition execute_reserved ::
  "'w service \<Rightarrow> runner \<Rightarrow> 'w committing_dispatcher \<Rightarrow> string \<Rightarrow> string \<Rightarrow> string \<Rightarrow> pipeline_approval \<Rightarrow> string \<Rightarrow> bool
   \<Rightarrow> bool \<Rightarrow> string option \<Rightarrow> budget_run \<Rightarrow> ledger \<times> 'w \<Rightarrow> trace_line list
   \<Rightarrow> (pipeline_result \<times> budget_run) res \<times> (ledger \<times> 'w) \<times> trace_line list" where
  "execute_reserved sv rn d rid name prompt a task privacy oc oreason rv lw tr =
     (case run (pipeline_env sv) rn name prompt (Some a) (marked_dispatch sv rid d) task privacy oc oreason lw tr of
        (Raise e, (l2, w2), tr2) \<Rightarrow> (Raise e, (close_failed sv rid l2, w2), tr2)
      | (Ret res, (l2, w2), tr2) \<Rightarrow>
          (case settle (close_env sv) rid (Some (verified_unused (held rv) (total_cost_usd res))) l2 of
             (x, l3) \<Rightarrow> (res_bind x (\<lambda>row. Ret (res, row)), (l3, w2), tr2)))"

definition replay_result :: "pipeline_recipe \<Rightarrow> pipeline_result" where
  "replay_result r =
     \<lparr>result_recipe = recipe_name r, result_output = JStr [], stage_outputs = [], requested_tokens = 0,
      total_tokens_used = None, total_cost_usd = None, models_used = [], replay = True\<rparr>"

definition execute ::
  "'w service \<Rightarrow> runner \<Rightarrow> 'w committing_dispatcher \<Rightarrow> string \<Rightarrow> string \<Rightarrow> string \<Rightarrow> string \<Rightarrow> pipeline_approval \<Rightarrow> string
   \<Rightarrow> bool \<Rightarrow> bool \<Rightarrow> string option \<Rightarrow> int option \<Rightarrow> ledger \<times> 'w \<Rightarrow> trace_line list
   \<Rightarrow> (pipeline_result \<times> budget_run) res \<times> (ledger \<times> 'w) \<times> trace_line list" where
  "execute sv rn d rid key name prompt a task privacy oc oreason cap lw tr =
     (case compute_request_fingerprint sv name prompt a task privacy of
        Raise e \<Rightarrow> (Raise e, lw, tr)
      | Ret fp \<Rightarrow>
          (case recipe rn name of
             Raise e \<Rightarrow> (Raise e, lw, tr)
           | Ret r \<Rightarrow>
               (case reserve (reserve_env sv) (daily_limit sv) rid key fp (microusd (cost_reservation_usd r)) cap (fst lw) of
                  (Raise e, l1) \<Rightarrow> (Raise e, (l1, snd lw), tr)
                | (Ret rv, l1) \<Rightarrow>
                    if run_state rv \<noteq> Reserved then (Ret (replay_result r, rv), (l1, snd lw), tr)
                    else execute_reserved sv rn d rid name prompt a task privacy oc oreason rv (l1, snd lw) tr)))"

text \<open>The transport as a committing dispatcher; it sends on the provider world only.\<close>

definition provider_send :: "'w sender \<Rightarrow> (ledger \<times> 'w) sender" where
  "provider_send send rq lw = (case send rq (snd lw) of (x, w') \<Rightarrow> (x, fst lw, w'))"

definition transport_dispatcher :: "transport \<Rightarrow> 'w sender \<Rightarrow> 'w committing_dispatcher" where
  "transport_dispatcher tp send commit m p t stage lw = dispatch tp (provider_send send) commit m p t lw"

lemma microusd_nonneg: "0 \<le> c \<Longrightarrow> 0 \<le> microusd c"
proof -
  assume "0 \<le> c"
  then have "round_half_even 0 \<le> round_half_even (c * of_int MICROUSD_PER_USD)"
    by (intro round_half_even_mono) (simp add: MICROUSD_PER_USD_def)
  with round_half_even_of_int [of 0] show ?thesis by (simp add: microusd_def)
qed

lemma settled_amount_charge:
  assumes "held r = h" and "0 \<le> h"
  shows "settled_amount r (Some (verified_unused h cost)) = charge h cost"
proof (cases cost)
  case (Some c)
  show ?thesis
  proof (cases "0 \<le> c")
    case True
    with microusd_nonneg [OF this] assms Some show ?thesis
      by (auto simp: settled_amount_def verified_unused_def charge_def min_def max_def)
  qed (use assms Some in \<open>simp add: settled_amount_def verified_unused_def charge_def\<close>)
qed (use assms in \<open>simp add: settled_amount_def verified_unused_def charge_def\<close>)

section \<open>Dispatchers that commit first\<close>

text \<open>The contract between the service and a dispatcher: a call changes nothing, or it takes the
  commit as its first effect; the ledger is as the commit left it, and the provider world moves on
  only when the commit succeeded.\<close>

locale commit_first =
  fixes d :: "'w committing_dispatcher"
  assumes commits: "d commit m p t stage lw = (x, lw') \<Longrightarrow>
    lw' = lw \<or> (\<exists>y lw1. commit lw = (y, lw1) \<and> fst lw' = fst lw1 \<and> (is_Ret y \<or> lw' = lw1))"
begin

lemma marked_cases:
  assumes "marked_dispatch sv rid d m p t stage (l, w) = (x, l', w')"
  obtains (unchanged) "l' = l" "w' = w"
  | (committed) "mark_dispatch (mark_env sv w) rid stage l = (Ret (), l')"
  | (refused) e where "mark_dispatch (mark_env sv w) rid stage l = (Raise e, l')" "w' = w"
proof -
  obtain y l1 where m: "mark_dispatch (mark_env sv w) rid stage l = (y, l1)" by fastforce
  then have "commit_marker sv rid stage (l, w) = (y, l1, w)" by (simp add: commit_marker_def)
  with commits [OF assms [unfolded marked_dispatch_def]] have "l' = l \<and> w' = w \<or> l' = l1 \<and> (is_Ret y \<or> w' = w)" by auto
  with m show thesis by (cases y) (auto intro: that)
qed

text \<open>What markers and the passage of the run keep.\<close>

lemma marked_keeps:
  assumes "I (l, w)"
    and "\<And>e l1. mark_dispatch (mark_env sv w) rid stage l = (Raise e, l1) \<Longrightarrow> I (l1, w)"
    and "\<And>l1 w1. mark_dispatch (mark_env sv w) rid stage l = (Ret (), l1) \<Longrightarrow> I (l1, w1)"
  shows "I (snd (marked_dispatch sv rid d m p t stage (l, w)))"
proof -
  obtain x l' w' where r: "marked_dispatch sv rid d m p t stage (l, w) = (x, l', w')" by (metis prod.collapse)
  then show ?thesis by (cases rule: marked_cases) (use assms r in auto)
qed

lemma marked_keeps_all:
  assumes "\<And>l w stage e l1 w1. I (l, w) \<Longrightarrow> mark_dispatch (mark_env sv w) rid stage l = (Raise e, l1) \<Longrightarrow> I (l1, w)"
    and "\<And>l w stage l1 w1. I (l, w) \<Longrightarrow> mark_dispatch (mark_env sv w) rid stage l = (Ret (), l1) \<Longrightarrow> I (l1, w1)"
  shows "keeps rn a r (marked_dispatch sv rid d) I"
  unfolding keeps_def
proof (intro allI impI)
  fix m p t st and lw :: "ledger \<times> 'w"
  assume i: "I lw"
  obtain l w where lw: "lw = (l, w)" by (cases lw)
  show "I (snd (marked_dispatch sv rid d m p t st lw))"
    unfolding lw by (rule marked_keeps) (use i assms lw in blast)+
qed

lemma execute_ledger_run:
  assumes "execute sv rn d rid key name prompt a task privacy oc oreason cap (l, w) tr = (out, (l', w'), tr')"
  shows "ledger_run (daily_limit sv) l l'"
proof -
  let ?I = "\<lambda>lw :: ledger \<times> 'w. ledger_run (daily_limit sv) l (fst lw)"
  have kept: "keeps rn a' r (marked_dispatch sv rid d) ?I" for a' r
    by (rule marked_keeps_all) (metis fst_conv ledger_run.marks snd_conv)+
  have run_keeps': "?I (l2, w2)" if "run (pipeline_env sv) rn name prompt (Some a) (marked_dispatch sv rid d) task privacy oc oreason lw tr
      = (res, (l2, w2), tr2)" and "?I lw" for res l2 w2 tr2 lw
    using run_keeps [where I = ?I, OF that(1) _ that(2)] kept by simp
  have closed: "ledger_run (daily_limit sv) l (close_failed sv rid l2)" if "ledger_run (daily_limit sv) l l2" for l2
    using that by (simp add: close_failed_def ledger_run.settles ledger_run.releases)
  have reserved: "ledger_run (daily_limit sv) l l'"
    if "execute_reserved sv rn d rid name prompt a task privacy oc oreason rv (l1, w) tr = (out, (l', w'), tr')"
      and "ledger_run (daily_limit sv) l l1" for rv l1
    using that run_keeps' [of "(l1, w)"] closed
    by (auto simp: execute_reserved_def split: prod.splits res.splits) (metis ledger_run.settles snd_conv)
  show ?thesis
    using assms reserved ledger_run.start
    by (auto simp: execute_def split: res.splits prod.splits if_splits) (metis ledger_run.reserves ledger_run.start snd_conv)+
qed

text \<open>The state of the run between its reservation and its settlement.\<close>

definition open_run :: "int \<Rightarrow> string \<Rightarrow> int \<Rightarrow> 'w \<Rightarrow> ledger \<times> 'w \<Rightarrow> bool" where
  "open_run limit rid h w0 lw \<longleftrightarrow> ledger_ok limit (fst lw) \<and>
     (\<exists>r. find_run (fst lw) rid = Some r \<and> \<not> closed_state (run_state r) \<and> held r = h \<and> settled r = 0) \<and>
     (snd lw = w0 \<or> has_stage_markers (fst lw) rid)"

lemma keeps_open_run: "keeps rn a r (marked_dispatch sv rid d) (open_run limit rid h w0)"
proof (rule marked_keeps_all)
  fix l w stage e l1 and w1 :: 'w
  assume o: "open_run limit rid h w0 (l, w)"
  then obtain r where r: "find_run l rid = Some r" "\<not> closed_state (run_state r)" "held r = h" "settled r = 0"
    by (auto simp: open_run_def)
  show "open_run limit rid h w0 (l1, w)" if "mark_dispatch (mark_env sv w) rid stage l = (Raise e, l1)"
    using o that mark_dispatch_ok [OF _ that] mark_open_run [OF that r(1,2)] r(3,4) by (fastforce simp: open_run_def)
  show "open_run limit rid h w0 (l1, w1)" if "mark_dispatch (mark_env sv w) rid stage l = (Ret (), l1)"
    using o that mark_dispatch_ok [OF _ that] mark_open_run [OF that r(1,2)] r(3,4) by (fastforce simp: open_run_def)
qed

lemma execute_reserved_closes:
  assumes "execute_reserved sv rn d rid name prompt a task privacy oc oreason rv (l, w) tr = (out, (l', w'), tr')"
    and "ledger_ok limit l" and "find_run l rid = Some rv" and "run_state rv = Reserved" and "settled rv = 0"
    and "write_lock (close_env sv) = Granted"
  shows "\<exists>row. find_run l' rid = Some row \<and> held row = 0 \<and> (w' = w \<or> has_stage_markers l' rid) \<and>
    (case out of
       Ret (res, row') \<Rightarrow> row' = row \<and> run_state row = Settled \<and> settled row = charge (held rv) (total_cost_usd res)
     | Raise e \<Rightarrow> if has_stage_markers l' rid then run_state row = Settled \<and> settled row = held rv
                  else run_state row = Released \<and> settled row = 0)"
proof -
  let ?I = "open_run limit rid (held rv) w"
  have start: "?I (l, w)" using assms(2-5) by (auto simp: open_run_def closed_state_def)
  obtain x l2 w2 tr2 where run: "run (pipeline_env sv) rn name prompt (Some a) (marked_dispatch sv rid d) task privacy oc oreason (l, w) tr
      = (x, (l2, w2), tr2)" by (metis prod.collapse)
  have "?I (l2, w2)" by (rule run_keeps [where I = ?I, OF run keeps_open_run start])
  then obtain r where ok: "ledger_ok limit l2" and r: "find_run l2 rid = Some r" "\<not> closed_state (run_state r)" "held r = held rv"
    "settled r = 0" and w2: "w2 = w \<or> has_stage_markers l2 rid" by (auto simp: open_run_def)
  have mem: "r \<in> set (runs l2)" "run_id r = rid" using find_run_Some [OF r(1)] by auto
  have pos: "0 \<le> held rv" using ledger_okD(1) [OF ok mem(1)] r(3) by (simp add: run_ok_def)
  show ?thesis
  proof (cases x)
    case (Ret res)
    obtain row l3 where s: "settle (close_env sv) rid (Some (verified_unused (held rv) (total_cost_usd res))) l2 = (Ret row, l3)"
      "find_run l3 rid = Some row" "run_state row = Settled" "held row = 0"
      "settled row = settled_amount r (Some (verified_unused (held rv) (total_cost_usd res)))" "stage_markers l3 = stage_markers l2"
      by (rule settle_open_run [OF r(1,2) assms(6)])
    with assms(1) run Ret have "out = Ret (res, row)" "l' = l3" "w' = w2" by (simp_all add: execute_reserved_def)
    with s w2 r(3) pos show ?thesis
      by (simp add: has_stage_markers_def settled_amount_charge)
  next
    case (Raise e)
    with assms(1) run have out: "out = Raise e" "l' = close_failed sv rid l2" "w' = w2" by (simp_all add: execute_reserved_def)
    show ?thesis
    proof (cases "has_stage_markers l2 rid")
      case True
      obtain row l3 where s: "settle (close_env sv) rid (Some 0) l2 = (Ret row, l3)" "find_run l3 rid = Some row"
        "run_state row = Settled" "held row = 0" "settled row = settled_amount r (Some 0)" "stage_markers l3 = stage_markers l2"
        by (rule settle_open_run [OF r(1,2) assms(6)])
      with True out r(3) show ?thesis
        by (auto simp: close_failed_def has_stage_markers_def settled_amount_def)
    next
      case False
      with ledger_okD(2) [OF ok mem(1)] mem(2) r(2) have "run_state r = Reserved" by (cases "run_state r") (auto simp: closed_state_def)
      then obtain row l3 where s: "release_pre_dispatch (close_env sv) rid l2 = (Ret row, l3)" "find_run l3 rid = Some row"
        "run_state row = Released" "held row = 0" "settled row = settled r" "stage_markers l3 = stage_markers l2"
        using release_open_run [OF r(1) _ False assms(6)] by metis
      with False out r(4) w2 show ?thesis by (auto simp: close_failed_def has_stage_markers_def)
    qed
  qed
qed

lemma execute_closes:
  assumes "execute sv rn d rid key name prompt a task privacy oc oreason cap (l, w) tr = (out, (l', w'), tr')"
    and "ledger_ok (daily_limit sv) l" and "sha256 (reserve_env sv) key \<notin> key_digest ` set (runs l)"
    and "write_lock (close_env sv) = Granted"
  shows "(\<exists>e. out = Raise e \<and> l' = l \<and> w' = w) \<or>
    (\<exists>r row. recipe rn name = Ret r \<and> find_run l' rid = Some row \<and> held row = 0 \<and> (w' = w \<or> has_stage_markers l' rid) \<and>
      (case out of
         Ret (res, row') \<Rightarrow> row' = row \<and> run_state row = Settled \<and>
           settled row = charge (microusd (cost_reservation_usd r)) (total_cost_usd res)
       | Raise e \<Rightarrow> if has_stage_markers l' rid
                    then run_state row = Settled \<and> settled row = microusd (cost_reservation_usd r)
                    else run_state row = Released \<and> settled row = 0))"
proof (cases "compute_request_fingerprint sv name prompt a task privacy")
  case (Raise e)
  with assms(1) show ?thesis by (auto simp: execute_def)
next
  case fp: (Ret fp)
  show ?thesis
  proof (cases "recipe rn name")
    case (Raise e)
    with assms(1) fp show ?thesis by (auto simp: execute_def)
  next
    case r: (Ret r)
    obtain x l1 where res: "reserve (reserve_env sv) (daily_limit sv) rid key fp (microusd (cost_reservation_usd r)) cap l = (x, l1)"
      by fastforce
    then show ?thesis
    proof (cases rule: reserve_cases)
      case (refused e)
      with assms(1) fp r res show ?thesis by (auto simp: execute_def)
    next
      case (replayed row)
      with assms(3) show ?thesis by (metis image_eqI)
    next
      case (inserted row)
      have ok: "ledger_ok (daily_limit sv) l1" using reserve_ok [OF assms(2) res] by blast
      have "row \<in> set (runs l1)" using inserted(2) by simp
      from find_run_unique [OF _ this] ok inserted(3) have found: "find_run l1 rid = Some row" by (simp add: ledger_ok_def)
      from assms(1) fp r res inserted(1,7) have
        "execute_reserved sv rn d rid name prompt a task privacy oc oreason row (l1, w) tr = (out, (l', w'), tr')"
        by (simp add: execute_def)
      from execute_reserved_closes [OF this ok found inserted(7,9) assms(4), unfolded inserted(8)] r show ?thesis
        by blast
    qed
  qed
qed

end

interpretation transport: commit_first "transport_dispatcher tp send" for tp :: transport and send :: "'w sender"
proof unfold_locales
  fix commit :: "ledger \<times> 'w \<Rightarrow> unit res \<times> ledger \<times> 'w" and m p t stage lw x lw'
  assume r: "transport_dispatcher tp send commit m p t stage lw = (x, lw')"
  show "lw' = lw \<or> (\<exists>y lw1. commit lw = (y, lw1) \<and> fst lw' = fst lw1 \<and> (is_Ret y \<or> lw' = lw1))"
  proof (cases "prepare tp m p t")
    case (Raise e)
    with r show ?thesis by (simp add: transport_dispatcher_def dispatch_def)
  next
    case (Ret rq)
    obtain y lw1 where c: "commit lw = (y, lw1)" by (cases "commit lw")
    have "fst (snd (post (provider_send send) rq lw1)) = fst lw1"
      unfolding post_def
      by (rule post_attempts_keeps [where I = "\<lambda>z. fst z = fst lw1"]) (auto simp: provider_send_def split: prod.splits)
    with r Ret c show ?thesis
      by (cases y) (auto simp: transport_dispatcher_def dispatch_def split: prod.splits res.splits)
  qed
qed

section \<open>Properties\<close>

definition demo_service :: "nat service" where
  "demo_service = \<lparr>pipeline_env = demo_run_env, daily_limit = 9000000, reserve_env = demo_ledger_env,
     mark_env = (\<lambda>_. demo_ledger_env), close_env = demo_ledger_env, hmac_key = Some ''k'', env_hmac_key = [],
     hmac_sha256 = (\<lambda>s v. ''fp''), sha256_hex = (\<lambda>s. s)\<rparr>"

text \<open>A provider that answers every request and counts them.\<close>

definition demo_send :: "nat sender" where
  "demo_send rq n = (Response 200 (Some (JObj [(''choices'', JList [JObj [(''message'', JObj [(''content'', JStr ''hi'')])]]),
     (''usage'', JObj [(''total_tokens'', JInt 7), (''cost'', JInt 1)])])) None, n + 1)"

text \<open>A paid run stays within the daily limit: whatever the approval, the policy, the locks and the
  provider do, executing it moves the ledger by ledger operations only, so that its invariant
  and the limit of every day hold afterwards.\<close>

theorem execution_within_limit:
  assumes "ledger_ok (daily_limit sv) l"
    and "execute sv rn (transport_dispatcher tp send) rid key name prompt a task privacy oc oreason cap (l, w) tr
      = (out, (l', w'), tr')"
  shows "ledger_ok (daily_limit sv) l' \<and> day_used day l' \<le> daily_limit sv"
proof -
  from ledger_run_ok [OF transport.execute_ledger_run [OF assms(2)] assms(1)] show ?thesis by (simp add: ledger_ok_def)
qed

theorem execution_within_limit_witness:
  "day_used ''2026-01-01'' (fst (fst (snd (execute demo_service demo_runner (transport_dispatcher demo_transport demo_send)
     ''r9'' ''k9'' ''draft'' ''hello'' demo_approval ''reasoning'' False False None None (empty_ledger, 0) [])))) \<le> 9000000"
proof -
  have ok: "ledger_ok (daily_limit demo_service) empty_ledger"
    using empty_ledger_ok [of 9000000] by (simp add: demo_service_def empty_ledger_def)
  obtain out l' w' tr' where e: "execute demo_service demo_runner (transport_dispatcher demo_transport demo_send)
     ''r9'' ''k9'' ''draft'' ''hello'' demo_approval ''reasoning'' False False None None (empty_ledger, 0) []
     = (out, (l', w'), tr')" by (metis prod.collapse)
  from execution_within_limit [OF ok e, of "''2026-01-01''"] e show ?thesis by (simp add: demo_service_def)
qed



text \<open>A run that is still reserved is executed again: a second submission of the same request that
  arrives before the first has marked a dispatch gets the same reservation, is not recognised as
  a replay, and runs the whole pipeline on the one hold.\<close>

theorem inflight_submission_runs_again:
  assumes "ledger_ok (daily_limit sv) l" and "find_run l rid = Some rv" and "run_state rv = Reserved"
    and "compute_request_fingerprint sv name prompt a task privacy = Ret (fingerprint rv)" and "recipe rn name = Ret r"
    and "key_digest rv = sha256 (reserve_env sv) key" and "write_lock (reserve_env sv) = Granted"
    and "py_strip rid \<noteq> []" and "py_strip key \<noteq> []" and "py_strip (fingerprint rv) \<noteq> []" and "0 < microusd (cost_reservation_usd r)"
  shows "execute sv rn (transport_dispatcher tp send) rid key name prompt a task privacy oc oreason None (l, w) tr =
    execute_reserved sv rn (transport_dispatcher tp send) rid name prompt a task privacy oc oreason rv (l, w) tr"
proof -
  have mem: "rv \<in> set (runs l)" using find_run_Some [OF assms(2)] by blast
  have "find (\<lambda>x. key_digest x = sha256 (reserve_env sv) key) (runs l) = Some rv"
    using find_key [OF assms(1) mem] assms(6) by simp
  with assms(7-11) have "reserve (reserve_env sv) (daily_limit sv) rid key (fingerprint rv) (microusd (cost_reservation_usd r)) None l = (Ret rv, l)"
    by (simp add: reserve_def guarded_transaction_def reserve_in_def)
  with assms(3-5) show ?thesis by (simp add: execute_def)
qed

text \<open>The witness runs a request whose first submission is between its reservation and its first
  marker: the second one sends a request of its own.\<close>

definition inflight_ledger :: ledger where
  "inflight_ledger = snd (reserve demo_ledger_env 9000000 ''r9'' ''k9'' ''fp'' 2000000 None empty_ledger)"

theorem inflight_submission_runs_again_witness:
  "\<exists>res row l' tr'. execute demo_service demo_runner (transport_dispatcher demo_transport demo_send)
     ''r9'' ''k9'' ''draft'' ''hello'' demo_approval ''reasoning'' False False None None (inflight_ledger, 1) []
     = (Ret (res, row), (l', 2), tr') \<and> \<not> replay res"
proof -
  have ok: "ledger_ok (daily_limit demo_service) inflight_ledger"
    using reserve_ok [of 9000000 empty_ledger demo_ledger_env "''r9''" "''k9''" "''fp''" 2000000 None _ inflight_ledger]
      empty_ledger_ok [of 9000000] by (simp add: demo_service_def empty_ledger_def inflight_ledger_def prod_eq_iff)
  have "(case find_run inflight_ledger ''r9'' of Some rv \<Rightarrow> run_state rv = Reserved \<and> fingerprint rv = ''fp'' \<and>
      key_digest rv = ''k9'' | None \<Rightarrow> False)" by code_simp
  then obtain rv where rv: "find_run inflight_ledger ''r9'' = Some rv" "run_state rv = Reserved" "fingerprint rv = ''fp''"
    "key_digest rv = ''k9''" by (auto split: option.splits)
  have fp: "compute_request_fingerprint demo_service ''draft'' ''hello'' demo_approval ''reasoning'' False = Ret ''fp''"
    by code_simp
  have "(case recipe demo_runner ''draft'' of Ret r \<Rightarrow> 0 < microusd (cost_reservation_usd r) | Raise _ \<Rightarrow> False)" by code_simp
  then obtain r where r: "recipe demo_runner ''draft'' = Ret r" "0 < microusd (cost_reservation_usd r)" by (auto split: res.splits)
  have env: "sha256 (reserve_env demo_service) ''k9'' = ''k9''" "write_lock (reserve_env demo_service) = Granted"
    by code_simp+
  have ne: "py_strip ''r9'' \<noteq> []" "py_strip ''k9'' \<noteq> []" "py_strip ''fp'' \<noteq> []" by code_simp+
  have again: "execute demo_service demo_runner (transport_dispatcher demo_transport demo_send) ''r9'' ''k9'' ''draft'' ''hello''
      demo_approval ''reasoning'' False False None None (inflight_ledger, 1) [] =
    execute_reserved demo_service demo_runner (transport_dispatcher demo_transport demo_send) ''r9'' ''draft'' ''hello''
      demo_approval ''reasoning'' False False None rv (inflight_ledger, 1) []"
    using inflight_submission_runs_again [OF ok rv(1,2) _ r(1) _ env(2) ne(1,2) _ r(2)] fp rv env ne by metis
  have sim: "(case find_run inflight_ledger ''r9'' of Some rv \<Rightarrow>
      (case execute_reserved demo_service demo_runner (transport_dispatcher demo_transport demo_send) ''r9'' ''draft'' ''hello''
      demo_approval ''reasoning'' False False None rv (inflight_ledger, 1) [] of
       (Ret (res, row), (l', w'), tr') \<Rightarrow> \<not> replay res \<and> w' = 2 | _ \<Rightarrow> False) | None \<Rightarrow> False)" by code_simp
  let ?er = "execute_reserved demo_service demo_runner (transport_dispatcher demo_transport demo_send) ''r9'' ''draft'' ''hello''
      demo_approval ''reasoning'' False False None rv (inflight_ledger, 1) []"
  obtain out l' w' tr' where e: "?er = (out, (l', w'), tr')" by (metis prod.collapse)
  with sim rv(1) obtain x where x: "out = Ret x" by (cases out) simp_all
  obtain res row where "x = (res, row)" by (cases x)
  with sim rv(1) e x have "?er = (Ret (res, row), (l', 2), tr')" "\<not> replay res" by simp_all
  with again show ?thesis by metis
qed

end
