(* ===== verification/HardwareDispatch.thy ===== *)
theory HardwareDispatch
  imports Frugality
begin

text \<open>
  Which model may run where, and which worker a job goes to: \<open>src/utils/hardware_policy.py\<close>,
  \<open>src/utils/dispatch_models.py\<close>, \<open>orchestrator/dangerous_workers.py\<close>,
  \<open>orchestrator/cli_launch.py\<close>, \<open>orchestrator/openclaw_skill_resolver.py\<close> and
  \<open>orchestrator/worker_registry.py\<close>.  The parsed YAML file, the environment, the file tests
  and the text of containers and floats are inputs; HTTP exchanges and child processes are
  operations of a world that the workers pass along.
\<close>

section \<open>Hardware policy\<close>

record hardware_policy =
  windows_only :: "json list"
  mac_only :: "json list"
  shared :: "json list"

text \<open>\<open>str.splitlines\<close>; a carriage return and the line feed after it are one line end.\<close>

definition is_line_end :: "char \<Rightarrow> bool" where
  "is_line_end c = (let n = code c in (10 \<le> n \<and> n \<le> 13) \<or> (28 \<le> n \<and> n \<le> 30) \<or> n = 133)"

fun lines_from :: "string \<Rightarrow> string \<Rightarrow> string list" where
  "lines_from cur [] = (if cur = [] then [] else [rev cur])"
| "lines_from cur (c # cs) =
     (if code c = 13 \<and> take 1 cs = [CHR 0x0A] then lines_from cur cs
      else if is_line_end c then rev cur # lines_from [] cs
      else lines_from (c # cur) cs)"

definition split_lines :: "string \<Rightarrow> string list" where
  "split_lines s = lines_from [] s"

text \<open>The fallback parser for hosts without PyYAML.\<close>

definition POLICY_KEYS :: "string list" where
  "POLICY_KEYS = [''windows_only'', ''mac_only'', ''shared'',
     ''windows_only_aliases'', ''mac_only_aliases'', ''shared_aliases'']"

definition strip_char :: "char \<Rightarrow> string \<Rightarrow> string" where
  "strip_char q s = rev (dropWhile (\<lambda>c. c = q) (rev (dropWhile (\<lambda>c. c = q) s)))"

definition rstrip :: "string \<Rightarrow> string" where
  "rstrip s = rev (dropWhile is_space (rev s))"

fun parse_policy_lines ::
    "string list \<Rightarrow> string option \<Rightarrow> (string, string list) dict \<Rightarrow> (string, string list) dict" where
  "parse_policy_lines [] current parsed = parsed"
| "parse_policy_lines (raw # rest) current parsed =
     (let line = rstrip (takeWhile (\<lambda>c. c \<noteq> CHR ''#'') raw); stripped = py_strip line in
      if stripped = [] then parse_policy_lines rest current parsed
      else if ends_with '':'' stripped \<and> take 1 stripped \<noteq> ''-'' then
        (let key = butlast stripped in
         parse_policy_lines rest (if key \<in> set POLICY_KEYS then Some key else None) parsed)
      else case current of
             Some cur \<Rightarrow>
               if cur \<noteq> [] \<and> take 1 stripped = ''-'' then
                 (let value = strip_char (char_of (39 :: nat)) (strip_char (char_of (34 :: nat)) (py_strip (drop 1 stripped))) in
                  parse_policy_lines rest current
                    (if value = [] then parsed else AList.update cur (dict_get parsed cur [] @ [value]) parsed))
               else parse_policy_lines rest current parsed
           | None \<Rightarrow> parse_policy_lines rest current parsed)"

definition simple_policy_parse :: "string \<Rightarrow> (string, string list) dict" where
  "simple_policy_parse text = parse_policy_lines (split_lines text) None (map (\<lambda>k. (k, [])) POLICY_KEYS)"

text \<open>\<open>list(loaded.get(key, []) or [])\<close>.\<close>

definition policy_list :: "payload \<Rightarrow> string \<Rightarrow> json list res" where
  "policy_list loaded key =
     (let v = jget loaded key in if truthy v then py_iter v else Ret [])"

definition normalize_policy :: "payload \<Rightarrow> hardware_policy res" where
  "normalize_policy loaded =
     res_bind (policy_list loaded ''windows_only'') (\<lambda>w.
     res_bind (policy_list loaded ''windows_only_aliases'') (\<lambda>wa.
     res_bind (policy_list loaded ''mac_only'') (\<lambda>m.
     res_bind (policy_list loaded ''mac_only_aliases'') (\<lambda>ma.
     res_bind (policy_list loaded ''shared'') (\<lambda>s.
     res_bind (policy_list loaded ''shared_aliases'') (\<lambda>sa.
       Ret \<lparr>windows_only = w @ wa, mac_only = m @ ma, shared = s @ sa\<rparr>))))))"

text \<open>
  \<open>load_policy\<close>: \<open>yaml\<close> is the YAML parser where it is installed, \<open>read_text\<close> the file system;
  the cache is state, returned updated.
\<close>

definition parse_policy_text :: "(string \<Rightarrow> json res) option \<Rightarrow> string \<Rightarrow> payload res" where
  "parse_policy_text yaml text =
     (case yaml of
        None \<Rightarrow> Ret (map (\<lambda>(k, vs). (k, JList (map JStr vs))) (simple_policy_parse text))
      | Some load \<Rightarrow>
          res_bind (load text) (\<lambda>v. case or_empty v of JObj d \<Rightarrow> Ret d | _ \<Rightarrow> Raise OtherError))"

definition load_policy ::
    "(string \<Rightarrow> json res) option \<Rightarrow> (string \<Rightarrow> string res) \<Rightarrow> string \<Rightarrow> string option \<Rightarrow> bool \<Rightarrow>
     hardware_policy option \<Rightarrow> hardware_policy res \<times> hardware_policy option" where
  "load_policy yaml read_text default_path policy_path force_reload cache =
     (let loaded =
        (let path = (case policy_path of None \<Rightarrow> default_path | Some p \<Rightarrow> p);
             r = res_bind (read_text path) (\<lambda>text. res_bind (parse_policy_text yaml text) normalize_policy)
         in (r, case r of Ret p \<Rightarrow> if path = default_path then Some p else cache | Raise e \<Rightarrow> cache))
      in case cache of
           Some p \<Rightarrow> if \<not> force_reload \<and> policy_path = None then (Ret p, cache) else loaded
         | None \<Rightarrow> loaded)"

definition MAC_PLATFORMS :: "string list" where
  "MAC_PLATFORMS = [''mac'', ''macos'', ''darwin'', ''apple'', ''mac-studio'', ''lmstudio-mac'']"

definition WIN_PLATFORMS :: "string list" where
  "WIN_PLATFORMS = [''win'', ''windows'', ''win32'', ''win-rtx3080'', ''win-rtx5080'', ''lmstudio-win'', ''ollama-win'']"

definition normalized :: "string \<Rightarrow> string" where
  "normalized s = py_strip (lower s)"

definition forbidden_models_for_platform :: "(json \<Rightarrow> string) \<Rightarrow> hardware_policy \<Rightarrow> string \<Rightarrow> string list" where
  "forbidden_models_for_platform repr p platform =
     (if normalized platform \<in> set MAC_PLATFORMS then map (\<lambda>m. lower (json_text repr m)) (windows_only p)
      else if normalized platform \<in> set WIN_PLATFORMS then map (\<lambda>m. lower (json_text repr m)) (mac_only p)
      else [])"

definition filter_models_for_platform ::
    "(json \<Rightarrow> string) \<Rightarrow> hardware_policy \<Rightarrow> string list \<Rightarrow> string \<Rightarrow> string list" where
  "filter_models_for_platform repr p models platform =
     filter (\<lambda>m. lower m \<notin> set (forbidden_models_for_platform repr p platform)) models"

text \<open>\<open>m.lower()\<close> on an entry that is not a string is an \<open>AttributeError\<close>.\<close>

definition lower_of :: "json \<Rightarrow> string res" where
  "lower_of m = (case m of JStr s \<Rightarrow> Ret (lower s) | _ \<Rightarrow> Raise OtherError)"

definition check_affinity :: "hardware_policy \<Rightarrow> string \<Rightarrow> string \<Rightarrow> unit res" where
  "check_affinity p model_id platform =
     (if normalized platform \<in> set MAC_PLATFORMS then
        res_bind (res_map lower_of (windows_only p)) (\<lambda>forbidden.
          if lower model_id \<in> set forbidden then Raise HardwareAffinityError else Ret ())
      else if normalized platform \<in> set WIN_PLATFORMS then
        res_bind (res_map lower_of (mac_only p)) (\<lambda>forbidden.
          if lower model_id \<in> set forbidden then Raise HardwareAffinityError else Ret ())
      else Ret ())"

definition expected_platform_for_model :: "hardware_policy \<Rightarrow> string \<Rightarrow> string option res" where
  "expected_platform_for_model p model_id =
     res_bind (res_map lower_of (windows_only p)) (\<lambda>w.
       if lower model_id \<in> set w then Ret (Some ''win'')
       else res_bind (res_map lower_of (mac_only p)) (\<lambda>m.
         if lower model_id \<in> set m then Ret (Some ''mac'') else Ret None))"

section \<open>Roles, intents and backends\<close>

record job_spec =
  js_job_id :: string
  js_intent :: string
  js_prompt :: string
  js_backend_hint :: "string option"
  js_constraints :: json
  js_metadata :: payload
  js_created_at :: string
  js_role :: "string option"
  js_specialization :: "string option"
  js_session_id :: "string option"
  js_parent_orchestrator_id :: "string option"
  js_artifact_policy :: "string option"
  js_authenticated_lane :: "string option"
  js_lineage_trust :: string
  js_depth :: int
  js_task_type :: string

definition get_constraint :: "job_spec \<Rightarrow> string \<Rightarrow> json \<Rightarrow> json" where
  "get_constraint spec key dflt =
     (case or_empty (js_constraints spec) of JObj d \<Rightarrow> dict_get d key dflt | _ \<Rightarrow> dflt)"

definition WINDOWS_QWEN_PRIORITY_MODEL :: string where
  "WINDOWS_QWEN_PRIORITY_MODEL = ''qwen3.5-27b-claude-4.6-opus-reasoning-distilled-v2''"

definition ROLE_BACKEND_MAP :: "((string \<times> string option) \<times> (string \<times> string)) list" where
  "ROLE_BACKEND_MAP =
     [((''coder'', None), (''lmstudio-win'', WINDOWS_QWEN_PRIORITY_MODEL)),
      ((''priority-subagent'', None), (''lmstudio-win'', WINDOWS_QWEN_PRIORITY_MODEL)),
      ((''subagent'', None), (''lmstudio-win'', WINDOWS_QWEN_PRIORITY_MODEL)),
      ((''executor-agent'', Some ''python-coding''), (''lmstudio-win'', WINDOWS_QWEN_PRIORITY_MODEL)),
      ((''executor-agent'', Some ''test-writing''), (''lmstudio-win'', WINDOWS_QWEN_PRIORITY_MODEL)),
      ((''executor-agent'', None), (''lmstudio-win'', WINDOWS_QWEN_PRIORITY_MODEL)),
      ((''context-agent'', Some ''market-research''), (''ollama'', ''qwen3.5:9b-mlx'')),
      ((''context-agent'', Some ''m&a-research''), (''ollama'', ''qwen3.5:9b-mlx'')),
      ((''context-agent'', None), (''ollama'', ''qwen3.5:9b-mlx'')),
      ((''verifier-agent'', None), (''lmstudio-win'', WINDOWS_QWEN_PRIORITY_MODEL)),
      ((''crystallizer-agent'', None), (''ollama'', ''qwen3.5:9b-mlx'')),
      ((''architect-agent'', None), (''lmstudio-win'', WINDOWS_QWEN_PRIORITY_MODEL)),
      ((''refiner-agent'', None), (''ollama'', ''qwen3.5:9b-mlx''))]"

definition resolve_role_backend :: "string \<Rightarrow> string option \<Rightarrow> (string \<times> string) option" where
  "resolve_role_backend role specialization =
     (case map_of ROLE_BACKEND_MAP (role, specialization) of
        Some pair \<Rightarrow> Some pair
      | None \<Rightarrow> if specialization \<noteq> None then map_of ROLE_BACKEND_MAP (role, None) else None)"

definition INTENT_BACKEND_MAP :: "(string, string) dict" where
  "INTENT_BACKEND_MAP =
     [(''code-review'', ''codex''), (''debug'', ''codex''), (''ml-experiment'', ''gemini''),
      (''research'', ''gemini''), (''freeform'', ''ollama''), (''echo'', ''echo''),
      (''agy-research'', ''agy''), (''agy-freeform'', ''agy'')]"

definition explicit_hint :: "job_spec \<Rightarrow> string option" where
  "explicit_hint spec =
     (case js_backend_hint spec of Some h \<Rightarrow> if h \<noteq> [] \<and> h \<noteq> ''auto'' then Some h else None | None \<Rightarrow> None)"

definition role_backend :: "job_spec \<Rightarrow> (string \<times> string) option" where
  "role_backend spec =
     (case js_role spec of
        Some r \<Rightarrow> if r \<noteq> [] then resolve_role_backend r (js_specialization spec) else None
      | None \<Rightarrow> None)"

definition resolve_backend :: "job_spec \<Rightarrow> string" where
  "resolve_backend spec =
     (case explicit_hint spec of
        Some h \<Rightarrow> h
      | None \<Rightarrow>
          (case role_backend spec of
             Some pair \<Rightarrow> fst pair
           | None \<Rightarrow> dict_get INTENT_BACKEND_MAP (js_intent spec) ''echo''))"

section \<open>Explicit model ids\<close>

text \<open>The environment variables a process sees, and the text of containers and floats.\<close>

record host_env =
  getenv :: "string \<Rightarrow> string option"
  repr_of :: "json \<Rightarrow> string"

definition env_or :: "host_env \<Rightarrow> string \<Rightarrow> string \<Rightarrow> string" where
  "env_or h k dflt = (case getenv h k of Some v \<Rightarrow> v | None \<Rightarrow> dflt)"

definition allow_public_model_endpoints :: "host_env \<Rightarrow> bool" where
  "allow_public_model_endpoints h =
     (lower (py_strip (env_or h ''ALLOW_PUBLIC_MODEL_ENDPOINTS'' [])) \<in> {''1'', ''true'', ''yes'', ''on''})"

definition BACKENDS_WITH_MODEL :: "string list" where
  "BACKENDS_WITH_MODEL = [''ollama'', ''ollama-mac'', ''lmstudio-mac'', ''lmstudio-win'', ''mlx'']"

definition mac_lmstudio_default_model :: "host_env \<Rightarrow> string" where
  "mac_lmstudio_default_model h =
     (if env_or h ''MAC_LMS_MODEL'' [] \<noteq> [] then env_or h ''MAC_LMS_MODEL'' []
      else if env_or h ''LMS_MAC_MODEL'' [] \<noteq> [] then env_or h ''LMS_MAC_MODEL'' []
      else ''Qwen3.5-9B-MLX-4bit'')"

definition ollama_mac_default_model :: "host_env \<Rightarrow> string" where
  "ollama_mac_default_model h = env_or h ''OLLAMA_MAC_MODEL'' ''qwen3.5:9b-mlx''"

definition lmstudio_win_default_model :: "host_env \<Rightarrow> string" where
  "lmstudio_win_default_model h =
     env_or h ''WINDOWS_CODER_MODEL'' ''Qwen3.5-27B-Claude-4.6-Opus-Reasoning-Distilled-v2''"

definition backend_requires_dispatch_model :: "string \<Rightarrow> bool" where
  "backend_requires_dispatch_model backend = (normalized backend \<in> set BACKENDS_WITH_MODEL)"

definition backend_never_empty_model :: "string \<Rightarrow> bool" where
  "backend_never_empty_model backend = (normalized backend = ''lmstudio-mac'')"

definition role_mapped_model ::
    "string \<Rightarrow> string option \<Rightarrow> string option \<Rightarrow> string option \<Rightarrow> string option" where
  "role_mapped_model backend role specialization target_platform =
     (case role of
        None \<Rightarrow> None
      | Some r \<Rightarrow>
          if r = [] then None
          else case resolve_role_backend r specialization of
                 None \<Rightarrow> None
               | Some (b, mapped_model) \<Rightarrow>
                   (let mapped = normalized b; norm = normalized backend in
                    if target_platform = Some ''win'' \<and> mapped = ''lmstudio-win'' then Some mapped_model
                    else if mapped = norm \<or> (norm \<in> {''ollama'', ''ollama-mac''} \<and> mapped = ''ollama'')
                    then Some mapped_model
                    else None))"

text \<open>\<open>str(meta.get("model") or "").strip()\<close>.\<close>

definition explicit_model :: "host_env \<Rightarrow> payload \<Rightarrow> string" where
  "explicit_model h meta =
     (let v = jget meta ''model'' in py_strip (if truthy v then json_text (repr_of h) v else []))"

definition default_model :: "host_env \<Rightarrow> string \<Rightarrow> string option \<Rightarrow> string res" where
  "default_model h backend target_platform =
     (let norm = normalized backend;
          plat = normalized (case target_platform of Some t \<Rightarrow> t | None \<Rightarrow> [])
      in if plat = ''win'' \<or> norm = ''lmstudio-win'' then Ret (lmstudio_win_default_model h)
         else if norm \<in> {''ollama'', ''ollama-mac'', ''mlx''} then Ret (ollama_mac_default_model h)
         else if norm = ''lmstudio-mac'' then
           (if py_strip (mac_lmstudio_default_model h) = [] then Raise ValueError
            else Ret (mac_lmstudio_default_model h))
         else Raise ValueError)"

definition resolve_dispatch_model ::
    "host_env \<Rightarrow> string \<Rightarrow> payload \<Rightarrow> string option \<Rightarrow> string option \<Rightarrow> string option \<Rightarrow> string res" where
  "resolve_dispatch_model h backend meta role specialization target_platform =
     (if explicit_model h meta \<noteq> [] then Ret (explicit_model h meta)
      else case role_mapped_model backend role specialization target_platform of
             Some m \<Rightarrow> if m \<noteq> [] then Ret m else default_model h backend target_platform
           | None \<Rightarrow> default_model h backend target_platform)"

definition ensure_metadata_model ::
    "host_env \<Rightarrow> string \<Rightarrow> payload \<Rightarrow> string option \<Rightarrow> string option \<Rightarrow> string option \<Rightarrow> payload res" where
  "ensure_metadata_model h backend meta role specialization target_platform =
     (if explicit_model h meta \<noteq> [] then Ret meta
      else res_bind (resolve_dispatch_model h backend meta role specialization target_platform)
             (\<lambda>m. Ret (AList.update ''model'' (JStr m) meta)))"

section \<open>Skills\<close>

record skill_fs =
  default_skills_root :: string
  ancestor_dirs :: "string list"
  is_dir :: "string \<Rightarrow> bool"
  is_file :: "string \<Rightarrow> bool"
  home_dir :: string

record skill_envelope =
  skill_id :: string
  skill_path :: string
  skill_args :: payload
  skill_agent_id :: string
  openclaw_home :: string
  parent_chain :: "string list"

definition NINE_SKILLS :: "string list" where
  "NINE_SKILLS =
     [''openclaw-new-agent'', ''openclaw-add-channel'', ''openclaw-add-cron'', ''openclaw-dream-setup'',
      ''openclaw-add-script'', ''openclaw-add-secret'', ''openclaw-status'', ''openclaw-restart'',
      ''openclaw-stow'']"

definition MAX_RECURSION_DEPTH :: nat where "MAX_RECURSION_DEPTH = 3"

definition skill_depth :: "skill_envelope \<Rightarrow> nat" where
  "skill_depth e = length (parent_chain e)"

definition envelope_to_dict :: "skill_envelope \<Rightarrow> payload" where
  "envelope_to_dict e =
     [(''skill_id'', JStr (skill_id e)), (''skill_path'', JStr (skill_path e)), (''args'', JObj (skill_args e)),
      (''agent_id'', JStr (skill_agent_id e)), (''openclaw_home'', JStr (openclaw_home e)),
      (''parent_chain'', jstrs (parent_chain e)), (''depth'', JInt (int (skill_depth e)))]"

definition find_skills_root :: "skill_fs \<Rightarrow> string res" where
  "find_skills_root fs =
     (if is_dir fs (default_skills_root fs) then Ret (default_skills_root fs)
      else case find (\<lambda>c. is_dir fs c)
                  (map (\<lambda>a. a @ ''/orama-system/bin/orama-system/skills/openclaw-skills'') (ancestor_dirs fs)) of
             Some c \<Rightarrow> Ret c
           | None \<Rightarrow> Raise SkillResolutionError)"

definition resolve_skill ::
    "skill_fs \<Rightarrow> string \<Rightarrow> payload \<Rightarrow> string \<Rightarrow> string option \<Rightarrow> string list \<Rightarrow> skill_envelope res" where
  "resolve_skill fs sid args agent home chain =
     (if MAX_RECURSION_DEPTH \<le> length chain then Raise RecursionBudgetExceeded
      else if sid \<notin> set NINE_SKILLS then Raise SkillResolutionError
      else res_bind (find_skills_root fs) (\<lambda>root.
        (let path = root @ ''/skills/'' @ sid @ ''/SKILL.md'' in
         if \<not> is_file fs path then Raise SkillResolutionError
         else Ret \<lparr>skill_id = sid, skill_path = path, skill_args = args, skill_agent_id = agent,
                  openclaw_home = (if truthy_str home then the home else home_dir fs @ ''/.openclaw''),
                  parent_chain = chain\<rparr>)))"

definition child_envelope :: "skill_fs \<Rightarrow> skill_envelope \<Rightarrow> string \<Rightarrow> payload \<Rightarrow> skill_envelope res" where
  "child_envelope fs parent sid args =
     resolve_skill fs sid args (skill_agent_id parent) (Some (openclaw_home parent))
       (parent_chain parent @ [skill_id parent])"

section \<open>Workers\<close>

text \<open>
  What the workers ask of the world: \<open>http_post url payload timeout\<close> is the POST with
  \<open>raise_for_status\<close> and \<open>json()\<close>; \<open>http_status url timeout\<close> is the status code of a GET, or
  \<open>None\<close> where the client raised.  \<open>spawn\<close> starts a child and says whether the task was
  cancelled meanwhile; \<open>communicate\<close> collects its output.
\<close>

datatype spawned = Spawned nat bool | SpawnFailed exn
datatype collected = Collected string | CommTimeout | CommCancelled

record 'w worker_io =
  http_post :: "string \<Rightarrow> json \<Rightarrow> rat \<Rightarrow> 'w \<Rightarrow> json res \<times> 'w"
  http_status :: "string \<Rightarrow> rat \<Rightarrow> 'w \<Rightarrow> nat option \<times> 'w"
  spawn :: "string list \<Rightarrow> 'w \<Rightarrow> spawned \<times> 'w"
  communicate :: "nat \<Rightarrow> rat \<Rightarrow> 'w \<Rightarrow> collected \<times> 'w"
  kill_tree :: "nat \<Rightarrow> 'w \<Rightarrow> 'w"
  returncode :: "nat \<Rightarrow> 'w \<Rightarrow> int option"
  note_proc :: "string \<Rightarrow> nat \<Rightarrow> 'w \<Rightarrow> 'w"
  clear_proc :: "string \<Rightarrow> nat \<Rightarrow> 'w \<Rightarrow> 'w"

text \<open>\<open>windows\<close> is the argument check of \<open>win_exec\<close> on Windows, and \<open>None\<close> elsewhere.\<close>

record host =
  host_env_of :: host_env
  net_of :: net_lib
  policy_of :: hardware_policy
  skills_of :: skill_fs
  windows :: "(string list \<Rightarrow> string list res) option"

text \<open>\<open>v.get(k, default)\<close>, \<open>v[k]\<close> and \<open>v[0]\<close> on decoded JSON.\<close>

definition obj_get :: "json \<Rightarrow> string \<Rightarrow> json \<Rightarrow> json res" where
  "obj_get v k dflt = (case v of JObj d \<Rightarrow> Ret (dict_get d k dflt) | _ \<Rightarrow> Raise OtherError)"

definition obj_item :: "json \<Rightarrow> string \<Rightarrow> json res" where
  "obj_item v k =
     (case v of
        JObj d \<Rightarrow> (case map_of d k of Some x \<Rightarrow> Ret x | None \<Rightarrow> Raise (KeyError k))
      | _ \<Rightarrow> Raise TypeError)"

definition first_item :: "json \<Rightarrow> json res" where
  "first_item v =
     (case v of
        JList xs \<Rightarrow> (case xs of [] \<Rightarrow> Raise OtherError | x # _ \<Rightarrow> Ret x)
      | JStr s \<Rightarrow> (case s of [] \<Rightarrow> Raise OtherError | c # _ \<Rightarrow> Ret (JStr [c]))
      | JObj d \<Rightarrow> Raise (KeyError ''0'')
      | _ \<Rightarrow> Raise TypeError)"

definition user_messages :: "string \<Rightarrow> json" where
  "user_messages prompt = JList [JObj [(''role'', JStr ''user''), (''content'', JStr prompt)]]"

definition answer :: "string \<Rightarrow> string \<Rightarrow> json \<Rightarrow> json \<Rightarrow> json" where
  "answer backend model output tokens =
     JObj [(''backend'', JStr backend), (''model'', JStr model), (''output'', output), (''tokens'', tokens)]"

definition echo_worker :: "job_spec \<Rightarrow> json" where
  "echo_worker spec =
     JObj [(''backend'', JStr ''echo''), (''intent'', JStr (js_intent spec)),
           (''output'', JStr (''[echo] '' @ js_prompt spec)), (''tokens'', JInt 0)]"

definition ollama_answer :: "string \<Rightarrow> json \<Rightarrow> json res" where
  "ollama_answer model data =
     res_bind (obj_get data ''message'' (JObj [])) (\<lambda>m.
     res_bind (obj_get m ''content'' (JStr [])) (\<lambda>out.
     res_bind (obj_get data ''eval_count'' (JInt 0)) (\<lambda>tokens.
       Ret (answer ''ollama-mac'' model out tokens))))"

definition chat_answer :: "string \<Rightarrow> string \<Rightarrow> json \<Rightarrow> json res" where
  "chat_answer backend model data =
     res_bind (obj_item data ''choices'') (\<lambda>cs.
     res_bind (first_item cs) (\<lambda>c.
     res_bind (obj_item c ''message'') (\<lambda>m.
     res_bind (obj_item m ''content'') (\<lambda>out.
     res_bind (obj_get data ''usage'' (JObj [])) (\<lambda>u.
     res_bind (obj_get u ''completion_tokens'' (JInt 0)) (\<lambda>tokens.
       Ret (answer backend model out tokens)))))))"

definition posted ::
    "'w worker_io \<Rightarrow> string \<Rightarrow> json \<Rightarrow> rat \<Rightarrow> (json \<Rightarrow> json res) \<Rightarrow> 'w \<Rightarrow> json res \<times> 'w" where
  "posted io url payload timeout parse w =
     (let (r, w') = http_post io url payload timeout w in (res_bind r parse, w'))"

definition ollama_mac_worker :: "'w worker_io \<Rightarrow> host \<Rightarrow> job_spec \<Rightarrow> 'w \<Rightarrow> json res \<times> 'w" where
  "ollama_mac_worker io host spec w =
     (case resolve_dispatch_model (host_env_of host) ''ollama-mac'' (js_metadata spec)
             (js_role spec) (js_specialization spec) None of
        Raise e \<Rightarrow> (Raise e, w)
      | Ret model \<Rightarrow>
          (case py_float (get_constraint spec ''max_seconds'' (JInt 120)) of
             Raise e \<Rightarrow> (Raise e, w)
           | Ret timeout \<Rightarrow>
               posted io ''http://localhost:11434/api/chat''
                 (JObj [(''model'', JStr model), (''messages'', user_messages (js_prompt spec)),
                        (''stream'', JBool False)])
                 timeout (ollama_answer model) w))"

definition chat_limits :: "job_spec \<Rightarrow> int \<Rightarrow> int \<Rightarrow> (rat \<times> int) res" where
  "chat_limits spec seconds tokens =
     res_bind (py_float (get_constraint spec ''max_seconds'' (JInt seconds))) (\<lambda>timeout.
     res_bind (py_int (get_constraint spec ''max_tokens'' (JInt tokens))) (\<lambda>max_tokens.
       Ret (timeout, max_tokens)))"

definition chat_payload :: "string \<Rightarrow> job_spec \<Rightarrow> int \<Rightarrow> json" where
  "chat_payload model spec max_tokens =
     JObj [(''model'', JStr model), (''messages'', user_messages (js_prompt spec)),
           (''max_tokens'', JInt max_tokens)]"

definition lmstudio_mac_worker :: "'w worker_io \<Rightarrow> host \<Rightarrow> job_spec \<Rightarrow> 'w \<Rightarrow> json res \<times> 'w" where
  "lmstudio_mac_worker io host spec w =
     (case resolve_dispatch_model (host_env_of host) ''lmstudio-mac'' (js_metadata spec)
             (js_role spec) (js_specialization spec) None of
        Raise e \<Rightarrow> (Raise e, w)
      | Ret model \<Rightarrow>
          (case chat_limits spec 120 2048 of
             Raise e \<Rightarrow> (Raise e, w)
           | Ret (timeout, max_tokens) \<Rightarrow>
               posted io ''http://localhost:1234/v1/chat/completions'' (chat_payload model spec max_tokens)
                 timeout (chat_answer ''lmstudio-mac'' model) w))"

text \<open>The first endpoint of a pool whose model list answers below 400.\<close>

fun first_reachable :: "'w worker_io \<Rightarrow> rat \<Rightarrow> string list \<Rightarrow> 'w \<Rightarrow> string option \<times> 'w" where
  "first_reachable io timeout [] w = (None, w)"
| "first_reachable io timeout (url # urls) w =
     (let (r, w') = http_status io (url @ ''/v1/models'') timeout w in
      case r of
        Some st \<Rightarrow> if st < 400 then (Some url, w') else first_reachable io timeout urls w'
      | None \<Rightarrow> first_reachable io timeout urls w')"

definition win_endpoint :: "'w worker_io \<Rightarrow> host \<Rightarrow> job_spec \<Rightarrow> 'w \<Rightarrow> string res \<times> 'w" where
  "win_endpoint io host spec w =
     (let h = host_env_of host; public = allow_public_model_endpoints h;
          pre_probed = jget (js_metadata spec) ''_win_endpoint''
      in if truthy pre_probed then
           (validate_model_endpoint_url (net_of host) (json_text (repr_of h) pre_probed) public False, w)
         else case parse_model_endpoint_list (net_of host)
                     (env_or h ''LM_STUDIO_WIN_ENDPOINTS'' ''REQUIRED_SET_IN_ENV'') public False of
                Raise e \<Rightarrow> (Raise (if e = ModelEndpointPolicyError then RuntimeError else e), w)
              | Ret candidates \<Rightarrow>
                  if candidates = [] then (Raise RuntimeError, w)
                  else (case first_reachable io 5 candidates w of
                          (Some e, w') \<Rightarrow> (Ret e, w')
                        | (None, w') \<Rightarrow> (Raise RuntimeError, w')))"

definition lmstudio_win_worker :: "'w worker_io \<Rightarrow> host \<Rightarrow> job_spec \<Rightarrow> 'w \<Rightarrow> json res \<times> 'w" where
  "lmstudio_win_worker io host spec w =
     (case resolve_dispatch_model (host_env_of host) ''lmstudio-win'' (js_metadata spec)
             (js_role spec) (js_specialization spec) (Some ''win'') of
        Raise e \<Rightarrow> (Raise e, w)
      | Ret model \<Rightarrow>
          (case chat_limits spec 300 4096 of
             Raise e \<Rightarrow> (Raise e, w)
           | Ret (timeout, max_tokens) \<Rightarrow>
               (case win_endpoint io host spec w of
                  (Raise e, w') \<Rightarrow> (Raise e, w')
                | (Ret endpoint, w') \<Rightarrow>
                    posted io (endpoint @ ''/v1/chat/completions'') (chat_payload model spec max_tokens)
                      timeout (chat_answer ''lmstudio-win'' model) w')))"

section \<open>Command-line workers\<close>

definition DANGEROUS_CLI_BACKENDS :: "string list" where
  "DANGEROUS_CLI_BACKENDS = [''codex'', ''gemini'', ''agy'']"

definition dangerous_cli_workers_enabled :: "host_env \<Rightarrow> bool" where
  "dangerous_cli_workers_enabled h =
     (lower (py_strip (env_or h ''PT_ALLOW_DANGEROUS_CLI_WORKERS'' [])) \<in> {''1'', ''true'', ''yes'', ''on''})"

definition assert_dangerous_cli_worker_allowed :: "host_env \<Rightarrow> string \<Rightarrow> unit res" where
  "assert_dangerous_cli_worker_allowed h backend =
     (if backend \<notin> set DANGEROUS_CLI_BACKENDS then Ret ()
      else if dangerous_cli_workers_enabled h then Ret ()
      else Raise RuntimeError)"

definition prepare_cli_command :: "host \<Rightarrow> string list \<Rightarrow> string list res" where
  "prepare_cli_command host cmd =
     (if cmd = [] then Raise ValueError
      else case windows host of None \<Rightarrow> Ret cmd | Some checked \<Rightarrow> checked cmd)"

definition clear_exited :: "'w worker_io \<Rightarrow> string \<Rightarrow> nat \<Rightarrow> 'w \<Rightarrow> 'w" where
  "clear_exited io jid proc w =
     (if returncode io proc w \<noteq> None \<and> jid \<noteq> [] then clear_proc io jid proc w else w)"

definition run_dangerous_cli_subprocess ::
    "'w worker_io \<Rightarrow> host \<Rightarrow> job_spec \<Rightarrow> string list \<Rightarrow> string \<Rightarrow> 'w \<Rightarrow> json res \<times> 'w" where
  "run_dangerous_cli_subprocess io host spec cmd backend w =
     (case py_float (get_constraint spec ''max_seconds'' (JInt 300)) of
        Raise e \<Rightarrow> (Raise e, w)
      | Ret timeout \<Rightarrow>
          (case prepare_cli_command host cmd of
             Raise e \<Rightarrow> (Raise (if e = ValueError then RuntimeError else e), w)
           | Ret argv \<Rightarrow>
               (case spawn io argv w of
                  (SpawnFailed e, w1) \<Rightarrow> (Raise e, w1)
                | (Spawned proc cancelled, w1) \<Rightarrow>
                    (let jid = js_job_id spec;
                         w2 = (if jid \<noteq> [] then note_proc io jid proc w1 else w1)
                     in if cancelled then (Raise CancelledError, w2)
                        else (case communicate io proc timeout w2 of
                                (CommCancelled, w3) \<Rightarrow> (Raise CancelledError, w3)
                              | (CommTimeout, w3) \<Rightarrow>
                                  (Raise RuntimeError, clear_exited io jid proc (kill_tree io proc w3))
                              | (Collected out, w3) \<Rightarrow>
                                  (let w4 = clear_exited io jid proc w3 in
                                   case returncode io proc w3 of
                                     Some rc \<Rightarrow>
                                       if rc = 0 then
                                         (Ret (JObj [(''backend'', JStr backend), (''output'', JStr (py_strip out)),
                                                     (''returncode'', JInt rc)]), w4)
                                       else (Raise RuntimeError, w4)
                                   | None \<Rightarrow> (Raise RuntimeError, w4)))))))"

definition cli_command :: "string \<Rightarrow> string \<Rightarrow> string list" where
  "cli_command backend prompt =
     (if backend = ''codex'' then [''codex'', ''--approval-mode'', ''auto-edit'', ''--quiet'', prompt]
      else if backend = ''gemini'' then [''gemini'', ''--yolo'', ''-p'', prompt]
      else [''agy'', ''--dangerously-skip-permissions'', ''-p'', prompt])"

definition cli_worker :: "string \<Rightarrow> 'w worker_io \<Rightarrow> host \<Rightarrow> job_spec \<Rightarrow> 'w \<Rightarrow> json res \<times> 'w" where
  "cli_worker backend io host spec w =
     (case assert_dangerous_cli_worker_allowed (host_env_of host) backend of
        Raise e \<Rightarrow> (Raise e, w)
      | Ret _ \<Rightarrow> run_dangerous_cli_subprocess io host spec (cli_command backend (js_prompt spec)) backend w)"

text \<open>\<open>WORKER_REGISTRY.get(backend, WORKER_REGISTRY["echo"])\<close>.\<close>

datatype worker = Echo | OllamaMac | LmStudioMac | LmStudioWin | Cli string

definition WORKER_REGISTRY :: "(string \<times> worker) list" where
  "WORKER_REGISTRY =
     [(''echo'', Echo), (''ollama'', OllamaMac), (''ollama-mac'', OllamaMac), (''lmstudio-mac'', LmStudioMac),
      (''lmstudio-win'', LmStudioWin), (''codex'', Cli ''codex''), (''gemini'', Cli ''gemini''), (''agy'', Cli ''agy'')]"

fun run_registered :: "worker \<Rightarrow> 'w worker_io \<Rightarrow> host \<Rightarrow> job_spec \<Rightarrow> 'w \<Rightarrow> json res \<times> 'w" where
  "run_registered Echo io host spec w = (Ret (echo_worker spec), w)"
| "run_registered OllamaMac io host spec w = ollama_mac_worker io host spec w"
| "run_registered LmStudioMac io host spec w = lmstudio_mac_worker io host spec w"
| "run_registered LmStudioWin io host spec w = lmstudio_win_worker io host spec w"
| "run_registered (Cli backend) io host spec w = cli_worker backend io host spec w"

definition worker_for :: "string \<Rightarrow> worker" where
  "worker_for backend = dict_get WORKER_REGISTRY backend Echo"

section \<open>Affinity checks and model lists agree\<close>

definition is_json_str :: "json \<Rightarrow> bool" where
  "is_json_str j = (case j of JStr _ \<Rightarrow> True | _ \<Rightarrow> False)"

text \<open>A policy whose entries are all strings, as the shipped file and the fallback parser give.\<close>

definition policy_of_strings :: "hardware_policy \<Rightarrow> bool" where
  "policy_of_strings p \<longleftrightarrow> list_all is_json_str (windows_only p @ mac_only p @ shared p)"

lemma is_json_str_iff: "is_json_str j \<longleftrightarrow> (\<exists>s. j = JStr s)"
  by (cases j) (simp_all add: is_json_str_def)

lemma lower_of_strings:
  "list_all is_json_str js \<Longrightarrow> res_map lower_of js = Ret (map (\<lambda>m. lower (json_text repr m)) js)"
  by (induction js) (auto simp: is_json_str_iff lower_of_def json_text_def)

text \<open>For a policy of strings, filtering a model list for a platform keeps exactly the models that
  the affinity check accepts there.\<close>

theorem affinity_iff_listed:
  assumes "policy_of_strings p"
  shows "filter_models_for_platform repr p models platform =
         filter (\<lambda>m. check_affinity p m platform = Ret ()) models"
proof -
  have w: "res_map lower_of (windows_only p) = Ret (map (\<lambda>m. lower (json_text repr m)) (windows_only p))"
    and m: "res_map lower_of (mac_only p) = Ret (map (\<lambda>m. lower (json_text repr m)) (mac_only p))"
    using assms by (auto simp: policy_of_strings_def intro!: lower_of_strings)
  show ?thesis
    unfolding filter_models_for_platform_def
    by (rule filter_cong) (auto simp: forbidden_models_for_platform_def check_affinity_def w m)
qed

text \<open>Aliases are enforced like the entries they stand for.\<close>

lemma policy_list_of_strings:
  "map_of d k = Some (JList (map JStr xs)) \<Longrightarrow> policy_list d k = Ret (map JStr xs)"
  by (auto simp: policy_list_def jget_Some)

lemma lower_of_map_JStr: "res_map lower_of (map JStr xs) = Ret (map lower xs)"
  by (induction xs) (simp_all add: lower_of_def)

lemma alias_enforced:
  assumes "map_of d ''windows_only'' = Some (JList (map JStr ws))"
    and "map_of d ''windows_only_aliases'' = Some (JList (map JStr was))"
    and "normalize_policy d = Ret p"
    and "normalized platform \<in> set MAC_PLATFORMS"
    and "lower m \<in> lower ` set (ws @ was)"
  shows "check_affinity p m platform = Raise HardwareAffinityError"
proof -
  have "windows_only p = map JStr (ws @ was)"
    using assms(3) unfolding normalize_policy_def
    by (auto simp: res_bind_eq_Ret policy_list_of_strings [OF assms(1)] policy_list_of_strings [OF assms(2)])
  then have "res_map lower_of (windows_only p) = Ret (map lower (ws @ was))"
    by (simp only: lower_of_map_JStr)
  with assms(4,5) show ?thesis by (auto simp: check_affinity_def)
qed

text \<open>A model confined to one platform passes the check there and fails it on the other.\<close>

lemma expected_platform_other:
  assumes "expected_platform_for_model p m = Ret (Some ''win'')" and "normalized platform \<in> set MAC_PLATFORMS"
  shows "check_affinity p m platform = Raise HardwareAffinityError"
  using assms by (auto simp: expected_platform_for_model_def check_affinity_def res_bind_eq_Ret
      split: if_splits)

section \<open>The role table and the model ids\<close>

lemma role_table_registered:
  "((r, s), (b, m)) \<in> set ROLE_BACKEND_MAP \<Longrightarrow> b \<in> {''ollama'', ''lmstudio-win''} \<and> m \<noteq> [] \<and> py_strip m = m"
  by (auto simp: ROLE_BACKEND_MAP_def WINDOWS_QWEN_PRIORITY_MODEL_def str_defs)

lemma role_backend_known:
  "resolve_role_backend r s = Some (b, m) \<Longrightarrow> b \<in> {''ollama'', ''lmstudio-win''} \<and> m \<noteq> [] \<and> py_strip m = m"
  unfolding resolve_role_backend_def
  by (auto split: option.splits if_splits dest!: map_of_SomeD role_table_registered)

lemma role_mapped_model_text:
  "role_mapped_model b r s t = Some m \<Longrightarrow> m \<noteq> [] \<and> py_strip m = m"
  unfolding role_mapped_model_def Let_def
  by (auto split: option.splits if_splits dest!: role_backend_known)

lemma explicit_model_strip [simp]: "py_strip (explicit_model h meta) = explicit_model h meta"
  by (simp add: explicit_model_def Let_def)

lemma explicit_model_update:
  "explicit_model h (AList.update ''model'' (JStr m) meta) = py_strip m"
  by (simp add: explicit_model_def jget_def dict_simps json_text_def py_strip_def)

lemma explicit_model_other:
  "k \<noteq> ''model'' \<Longrightarrow> explicit_model h (AList.update k v meta) = explicit_model h meta"
  by (simp add: explicit_model_def jget_def dict_simps)

lemma resolve_other:
  "k \<noteq> ''model'' \<Longrightarrow>
   resolve_dispatch_model h b (AList.update k v meta) r s t = resolve_dispatch_model h b meta r s t"
  by (simp add: resolve_dispatch_model_def explicit_model_other)

text \<open>The mirror is never asked for "whatever is loaded".\<close>

lemma normalized_evals:
  "normalized ''lmstudio-mac'' = ''lmstudio-mac''" "normalized ''lmstudio-win'' = ''lmstudio-win''"
  "normalized ''ollama'' = ''ollama''" "normalized ''ollama-mac'' = ''ollama-mac''"
  "normalized ''win'' = ''win''" "normalized ''mac'' = ''mac''" "normalized [] = []"
  by (code_simp)+

text \<open>The model id resolved for the LM Studio mirror is never blank.\<close>

theorem mirror_model_explicit:
  assumes "normalized backend = ''lmstudio-mac''" and "resolve_dispatch_model h backend meta r s None = Ret m"
  shows "py_strip m \<noteq> []"
  using assms
  by (auto simp: resolve_dispatch_model_def default_model_def normalized_evals Let_def
      split: option.splits if_splits dest: role_mapped_model_text)

text \<open>Both names of the Ollama worker resolve alike.\<close>

lemma ollama_alias:
  "resolve_dispatch_model h ''ollama-mac'' meta r s None = resolve_dispatch_model h ''ollama'' meta r s None"
proof -
  have "role_mapped_model ''ollama-mac'' r s None = role_mapped_model ''ollama'' r s None"
    by (auto simp: role_mapped_model_def Let_def normalized_evals dest!: role_backend_known
        split: option.splits)
  moreover have "default_model h ''ollama-mac'' None = default_model h ''ollama'' None"
    by (simp add: default_model_def normalized_evals Let_def)
  ultimately show ?thesis by (simp add: resolve_dispatch_model_def split: option.split)
qed

section \<open>Skill chains are short\<close>

lemma resolve_skill_Ret:
  assumes "resolve_skill fs sid args agent home chain = Ret e"
  shows "parent_chain e = chain \<and> length chain < MAX_RECURSION_DEPTH \<and> sid \<in> set NINE_SKILLS \<and> skill_id e = sid
    \<and> is_file fs (skill_path e) \<and> skill_agent_id e = agent"
  using assms by (auto simp: resolve_skill_def res_bind_eq_Ret Let_def split: if_splits)

text \<open>A procedure that keeps asking for child skills.\<close>

fun descend :: "skill_fs \<Rightarrow> skill_envelope \<Rightarrow> (string \<times> payload) list \<Rightarrow> skill_envelope res" where
  "descend fs e [] = Ret e"
| "descend fs e ((sid, args) # rest) = res_bind (child_envelope fs e sid args) (\<lambda>c. descend fs c rest)"

lemma child_depth:
  "child_envelope fs e sid args = Ret c \<Longrightarrow> skill_depth c = Suc (skill_depth e) \<and> skill_depth c < MAX_RECURSION_DEPTH"
  unfolding child_envelope_def skill_depth_def by (drule resolve_skill_Ret) simp

lemma descend_depth:
  "descend fs e asks = Ret c \<Longrightarrow> skill_depth e < MAX_RECURSION_DEPTH \<Longrightarrow>
   skill_depth c = skill_depth e + length asks \<and> skill_depth c < MAX_RECURSION_DEPTH"
proof (induction fs e asks rule: descend.induct)
  case (2 fs e sid args rest)
  from "2.prems"(1) obtain d where d: "child_envelope fs e sid args = Ret d" "descend fs d rest = Ret c"
    by (auto simp: res_bind_eq_Ret)
  from child_depth [OF d(1)] have c: "skill_depth d = Suc (skill_depth e)" "skill_depth d < MAX_RECURSION_DEPTH"
    by auto
  from "2.IH" [OF d(2) c(2)] c(1) show ?case by simp
qed simp

text \<open>A chain of child skills from a resolved skill is shorter than the recursion limit.\<close>

theorem skill_chain_bounded:
  assumes "resolve_skill fs sid args agent home [] = Ret e" and "descend fs e asks = Ret c"
  shows "length asks < MAX_RECURSION_DEPTH"
  using descend_depth [OF assms(2)] resolve_skill_Ret [OF assms(1)] by (simp add: skill_depth_def)

section \<open>The statements on concrete values\<close>

definition demo_affinity :: hardware_policy where
  "demo_affinity = \<lparr>windows_only = [JStr ''Gemma-26B'', JStr ''gemma-q4''], mac_only = [JStr ''bge-m3''], shared = []\<rparr>"

lemma affinity_iff_listed_witness:
  "filter_models_for_platform (\<lambda>_. []) demo_affinity [''gemma-26b'', ''bge-m3'', ''x''] ''Darwin '' =
   filter (\<lambda>m. check_affinity demo_affinity m ''Darwin '' = Ret ()) [''gemma-26b'', ''bge-m3'', ''x'']"
  by (rule affinity_iff_listed) code_simp

lemma mirror_model_explicit_witness: "py_strip ''Qwen3.5-9B-MLX-4bit'' \<noteq> []"
proof (rule mirror_model_explicit [of "'' LMStudio-Mac''"
      "\<lparr>getenv = (\<lambda>k. if k = ''MAC_LMS_MODEL'' then Some [] else None), repr_of = (\<lambda>_. [])\<rparr>" "[]" None None])
  show "normalized '' LMStudio-Mac'' = ''lmstudio-mac''" by code_simp
  show "resolve_dispatch_model \<lparr>getenv = (\<lambda>k. if k = ''MAC_LMS_MODEL'' then Some [] else None), repr_of = (\<lambda>_. [])\<rparr>
      '' LMStudio-Mac'' [] None None None = Ret ''Qwen3.5-9B-MLX-4bit''" by code_simp
qed

definition demo_fs :: skill_fs where
  "demo_fs = \<lparr>default_skills_root = ''/skills'', ancestor_dirs = [''/a''], is_dir = (\<lambda>d. d = ''/skills''),
     is_file = (\<lambda>f. True), home_dir = ''/home''\<rparr>"

definition demo_root :: skill_envelope where
  "demo_root = \<lparr>skill_id = ''openclaw-stow'', skill_path = ''/skills/skills/openclaw-stow/SKILL.md'', skill_args = [],
     skill_agent_id = ''a'', openclaw_home = ''/home/.openclaw'', parent_chain = []\<rparr>"

lemma skill_chain_bounded_witness:
  "length [(''openclaw-status'', [] :: payload), (''openclaw-restart'', [])] < MAX_RECURSION_DEPTH"
proof (rule skill_chain_bounded [of demo_fs "''openclaw-stow''" "[]" "''a''" None demo_root _
      "\<lparr>skill_id = ''openclaw-restart'', skill_path = ''/skills/skills/openclaw-restart/SKILL.md'', skill_args = [],
        skill_agent_id = ''a'', openclaw_home = ''/home/.openclaw'', parent_chain = [''openclaw-stow'', ''openclaw-status'']\<rparr>"])
  show "resolve_skill demo_fs ''openclaw-stow'' [] ''a'' None [] = Ret demo_root" by code_simp
  show "descend demo_fs demo_root [(''openclaw-status'', []), (''openclaw-restart'', [])] =
    Ret \<lparr>skill_id = ''openclaw-restart'', skill_path = ''/skills/skills/openclaw-restart/SKILL.md'', skill_args = [],
        skill_agent_id = ''a'', openclaw_home = ''/home/.openclaw'', parent_chain = [''openclaw-stow'', ''openclaw-status'']\<rparr>"
    by code_simp
qed

end
