(* ===== verification/JobDispatch.thy ===== *)
theory JobDispatch
  imports HardwareDispatch
begin

text \<open>
  The dispatch of one job in \<open>orchestrator/supervisor.py\<close>: the job descriptor and its lineage
  label, the memory context put in front of the prompt, the skill gate, the Windows coder pool and
  the hand-over to a worker with an explicit, checked model id.  What the memory search returns is
  an operation of the world; log lines are left out.
\<close>

section \<open>Job descriptors\<close>

definition MAX_DEPTH :: int where "MAX_DEPTH = 1"
definition MAX_THREADS :: nat where "MAX_THREADS = 25"

datatype job_status = Queued | Running | WaitingInput | Succeeded | FailedJob | CancelledJob

fun job_status_value :: "job_status \<Rightarrow> string" where
  "job_status_value Queued = ''queued''"
| "job_status_value Running = ''running''"
| "job_status_value WaitingInput = ''waiting_input''"
| "job_status_value Succeeded = ''succeeded''"
| "job_status_value FailedJob = ''failed''"
| "job_status_value CancelledJob = ''cancelled''"

text \<open>The validator of \<open>depth\<close>, run before the field's own constraints.\<close>

definition no_sub_workers :: "json \<Rightarrow> int res" where
  "no_sub_workers v = res_bind (py_int v) (\<lambda>d. if d \<noteq> 0 then Raise ValueError else Ret d)"

definition jstr_opt :: "string option \<Rightarrow> json" where
  "jstr_opt s = jopt JStr s"

definition spec_to_dict :: "job_spec \<Rightarrow> payload" where
  "spec_to_dict s =
     [(''job_id'', JStr (js_job_id s)), (''intent'', JStr (js_intent s)), (''prompt'', JStr (js_prompt s)),
      (''backend_hint'', jstr_opt (js_backend_hint s)), (''constraints'', js_constraints s),
      (''metadata'', JObj (js_metadata s)), (''created_at'', JStr (js_created_at s)),
      (''role'', jstr_opt (js_role s)), (''specialization'', jstr_opt (js_specialization s)),
      (''session_id'', jstr_opt (js_session_id s)),
      (''parent_orchestrator_id'', jstr_opt (js_parent_orchestrator_id s)),
      (''artifact_policy'', jstr_opt (js_artifact_policy s)),
      (''authenticated_lane'', jstr_opt (js_authenticated_lane s)),
      (''lineage_trust'', JStr (js_lineage_trust s)), (''depth'', JInt (js_depth s)),
      (''task_type'', JStr (js_task_type s))]"

definition caller_reported_lineage_metadata :: "json \<Rightarrow> bool \<Rightarrow> payload" where
  "caller_reported_lineage_metadata meta has_lineage =
     (let stamped = AList.delete ''lineage_trust'' (case meta of JObj d \<Rightarrow> d | _ \<Rightarrow> [])
      in if has_lineage then AList.update ''lineage_trust'' (JStr ''caller_reported'') stamped else stamped)"

text \<open>Only the dispatcher sets \<open>_win_endpoint\<close>; a submitted one is dropped.\<close>

definition drop_win_endpoint :: "job_spec \<Rightarrow> job_spec" where
  "drop_win_endpoint s =
     (if ''_win_endpoint'' \<in> set (map fst (js_metadata s))
      then s\<lparr>js_metadata := filter (\<lambda>(k, v). k \<noteq> ''_win_endpoint'') (js_metadata s)\<rparr> else s)"

definition backend_to_platform :: "string \<Rightarrow> string" where
  "backend_to_platform backend = (if has_sub ''win'' (lower backend) then ''win'' else ''mac'')"

section \<open>Before the worker\<close>

text \<open>\<open>_inject_memory_context\<close>: any exception of the search or of a malformed hit leaves the
  descriptor as it was.\<close>

type_synonym 'w retriever = "string \<Rightarrow> 'w \<Rightarrow> json list res \<times> 'w"

fun context_lines :: "(json \<Rightarrow> string) \<Rightarrow> nat \<Rightarrow> json list \<Rightarrow> string list res" where
  "context_lines repr i [] = Ret []"
| "context_lines repr i (h # hs) =
     res_bind (obj_get h ''text'' JNull) (\<lambda>t.
     res_bind (context_lines repr (Suc i) hs) (\<lambda>ls.
       Ret (if truthy t then (''['' @ show_nat (Suc i) @ ''] '' @ json_text repr t) # ls else ls)))"

definition line_feed :: string where "line_feed = [CHR 0x0A]"

fun join_lines :: "string list \<Rightarrow> string" where
  "join_lines [] = []"
| "join_lines [l] = l"
| "join_lines (l # ls) = l @ line_feed @ join_lines ls"

definition with_context :: "(json \<Rightarrow> string) \<Rightarrow> job_spec \<Rightarrow> json list \<Rightarrow> job_spec" where
  "with_context repr spec hits =
     (case context_lines repr 0 hits of
        Raise e \<Rightarrow> spec
      | Ret ls \<Rightarrow>
          if py_strip (join_lines ls) = [] then spec
          else spec\<lparr>js_prompt := ''[MEMORY CONTEXT]'' @ line_feed @ join_lines ls @ line_feed @
                 ''[END MEMORY CONTEXT]'' @ line_feed @ line_feed @ js_prompt spec\<rparr>)"

definition inject_memory_context ::
    "'w retriever \<Rightarrow> (json \<Rightarrow> string) \<Rightarrow> job_spec \<Rightarrow> 'w \<Rightarrow> job_spec res \<times> 'w" where
  "inject_memory_context retrieve repr spec w =
     (if dict_get (js_metadata spec) ''use_memory'' (JBool True) = JBool False then (Ret spec, w)
      else case retrieve (if js_prompt spec \<noteq> [] then js_prompt spec else js_intent spec) w of
             (Raise e, w') \<Rightarrow> (if e = CancelledError then Raise e else Ret spec, w')
           | (Ret hits, w') \<Rightarrow> (Ret (if hits = [] then spec else with_context repr spec hits), w'))"

definition SKILL_MAP :: "(string, string) dict" where
  "SKILL_MAP =
     [(''new_agent'', ''openclaw-new-agent''), (''add_channel'', ''openclaw-add-channel''),
      (''add_cron'', ''openclaw-add-cron''), (''dream_setup'', ''openclaw-dream-setup''),
      (''add_script'', ''openclaw-add-script''), (''add_secret'', ''openclaw-add-secret''),
      (''status'', ''openclaw-status''), (''restart'', ''openclaw-restart''), (''stow'', ''openclaw-stow'')]"

definition try_skill_envelope :: "skill_fs \<Rightarrow> job_spec \<Rightarrow> skill_envelope option res" where
  "try_skill_envelope fs spec =
     (case map_of SKILL_MAP (js_task_type spec) of
        None \<Rightarrow> Ret None
      | Some sid \<Rightarrow>
          (case resolve_skill fs sid (js_metadata spec) (js_job_id spec) None [] of
             Ret e \<Rightarrow> Ret (Some e)
           | Raise e \<Rightarrow> Raise (if e = SkillResolutionError then RuntimeError else e)))"

definition get_reachable_windows_coder :: "'w worker_io \<Rightarrow> host \<Rightarrow> 'w \<Rightarrow> string option \<times> 'w" where
  "get_reachable_windows_coder io host w =
     (case parse_model_endpoint_list (net_of host) (env_or (host_env_of host) ''WIN_CODER_ENDPOINTS'' [])
             (allow_public_model_endpoints (host_env_of host)) False of
        Raise e \<Rightarrow> (None, w)
      | Ret pool \<Rightarrow> if pool = [] then (None, w) else first_reachable io (5 / 2) pool w)"

definition prepare_spec_for_inference :: "host \<Rightarrow> job_spec \<Rightarrow> string \<Rightarrow> string option \<Rightarrow> job_spec res" where
  "prepare_spec_for_inference host spec backend affinity_platform =
     (if \<not> backend_requires_dispatch_model backend then Ret spec
      else
        (let plat = (if truthy_str affinity_platform then the affinity_platform else backend_to_platform backend);
             win_target = (if plat = ''win'' then Some plat else None);
             h = host_env_of host
         in res_bind (ensure_metadata_model h backend (js_metadata spec) (js_role spec) (js_specialization spec) win_target) (\<lambda>meta.
            res_bind (resolve_dispatch_model h backend meta (js_role spec) (js_specialization spec) win_target) (\<lambda>model.
            res_bind (check_affinity (policy_of host) model plat) (\<lambda>_.
              Ret (if meta \<noteq> js_metadata spec then spec\<lparr>js_metadata := meta\<rparr> else spec))))))"

section \<open>The dispatch\<close>

definition MAC_LOCAL_BACKENDS :: "string list" where
  "MAC_LOCAL_BACKENDS = [''ollama'', ''ollama-mac'', ''lmstudio-mac'', ''mlx'']"

definition with_win_endpoint :: "string \<Rightarrow> job_spec \<Rightarrow> job_spec" where
  "with_win_endpoint url spec = spec\<lparr>js_metadata := AList.update ''_win_endpoint'' (JStr url) (js_metadata spec)\<rparr>"

definition routed :: "string \<Rightarrow> json \<Rightarrow> json" where
  "routed url result =
     (case result of
        JObj d \<Rightarrow> JObj (AList.update ''windows_endpoint'' (JStr url) (AList.update ''routed_to_windows'' (JBool True) d))
      | _ \<Rightarrow> result)"

definition run_on_windows :: "'w worker_io \<Rightarrow> host \<Rightarrow> job_spec \<Rightarrow> string \<Rightarrow> string \<Rightarrow> 'w \<Rightarrow> json res \<times> 'w" where
  "run_on_windows io host spec backend url w =
     (case prepare_spec_for_inference host spec ''lmstudio-win'' (Some ''win'') of
        Raise e \<Rightarrow> (Raise e, w)
      | Ret spec_win \<Rightarrow>
          (case run_registered (worker_for ''lmstudio-win'') io host (with_win_endpoint url spec_win) w of
             (Raise e, w') \<Rightarrow> (Raise e, w')
           | (Ret result, w') \<Rightarrow>
               (Ret (if backend \<in> set MAC_LOCAL_BACKENDS then routed url result else result), w')))"

definition run_on_backend :: "'w worker_io \<Rightarrow> host \<Rightarrow> job_spec \<Rightarrow> string \<Rightarrow> 'w \<Rightarrow> json res \<times> 'w" where
  "run_on_backend io host spec backend w =
     (if backend_requires_dispatch_model backend then
        (case prepare_spec_for_inference host spec backend None of
           Raise e \<Rightarrow> (Raise e, w)
         | Ret spec' \<Rightarrow> run_registered (worker_for backend) io host spec' w)
      else run_registered (worker_for backend) io host spec w)"

definition route_job :: "'w worker_io \<Rightarrow> host \<Rightarrow> job_spec \<Rightarrow> 'w \<Rightarrow> json res \<times> 'w" where
  "route_job io host spec w =
     (let backend = resolve_backend spec in
      if backend \<in> set MAC_LOCAL_BACKENDS \<or> backend = ''lmstudio-win'' then
        (case get_reachable_windows_coder io host w of
           (Some url, w') \<Rightarrow> run_on_windows io host spec backend url w'
         | (None, w') \<Rightarrow> run_on_backend io host spec backend w')
      else run_on_backend io host spec backend w)"

definition dispatch_job :: "'w retriever \<Rightarrow> 'w worker_io \<Rightarrow> host \<Rightarrow> job_spec \<Rightarrow> 'w \<Rightarrow> json res \<times> 'w" where
  "dispatch_job retrieve io host spec0 w0 =
     (case inject_memory_context retrieve (repr_of (host_env_of host)) spec0 w0 of
        (Raise e, w) \<Rightarrow> (Raise e, w)
      | (Ret spec, w) \<Rightarrow>
          (case try_skill_envelope (skills_of host) spec of
             Raise e \<Rightarrow> (Raise e, w)
           | Ret (Some e) \<Rightarrow> (Ret (JObj [(''status'', JStr ''ok''), (''skill_envelope'', JObj (envelope_to_dict e))]), w)
           | Ret None \<Rightarrow> route_job io host spec w))"

text \<open>The checks of \<open>submit_job\<close> before anything is recorded.\<close>

definition submission_gate :: "host \<Rightarrow> job_spec \<Rightarrow> unit res" where
  "submission_gate host spec =
     (let backend = resolve_backend spec in
      if backend_requires_dispatch_model backend then
        res_bind (resolve_dispatch_model (host_env_of host) backend (js_metadata spec) (js_role spec) (js_specialization spec) None)
          (\<lambda>model. check_affinity (policy_of host) model (backend_to_platform backend))
      else Ret ())"

section \<open>The model that was checked is the model that is posted\<close>

lemma prepared_model:
  assumes "prepare_spec_for_inference host spec b aff = Ret spec'" and "backend_requires_dispatch_model b"
    and "plat = (if truthy_str aff then the aff else backend_to_platform b)"
    and "t = (if plat = ''win'' then Some plat else None)"
  shows "\<exists>m. resolve_dispatch_model (host_env_of host) b (js_metadata spec') (js_role spec') (js_specialization spec') t = Ret m
     \<and> check_affinity (policy_of host) m plat = Ret ()"
proof -
  from assms(1) obtain meta m
    where e: "ensure_metadata_model (host_env_of host) b (js_metadata spec) (js_role spec) (js_specialization spec) t = Ret meta"
      and m: "resolve_dispatch_model (host_env_of host) b meta (js_role spec) (js_specialization spec) t = Ret m"
      and c: "check_affinity (policy_of host) m plat = Ret ()"
      and s: "spec' = (if meta \<noteq> js_metadata spec then spec\<lparr>js_metadata := meta\<rparr> else spec)"
    unfolding prepare_spec_for_inference_def assms(3,4) by (auto simp: assms(2) res_bind_eq_Ret Let_def)
  have "js_metadata spec' = meta" "js_role spec' = js_role spec" "js_specialization spec' = js_specialization spec"
    using s by auto
  with m c show ?thesis by auto
qed

text \<open>What a request to an inference server may look like.\<close>

definition MAC_ENDPOINTS :: "string list" where
  "MAC_ENDPOINTS = [''http://localhost:11434/api/chat'', ''http://localhost:1234/v1/chat/completions'']"

definition posted_model :: "json \<Rightarrow> string option" where
  "posted_model payload =
     (case payload of
        JObj d \<Rightarrow> (case jget d ''model'' of JStr m \<Rightarrow> Some m | _ \<Rightarrow> None)
      | _ \<Rightarrow> None)"

definition win_url_ok :: "host \<Rightarrow> string \<Rightarrow> bool" where
  "win_url_ok host url \<longleftrightarrow>
     (\<exists>raw e. url = e @ ''/v1/chat/completions'' \<and>
        validate_model_endpoint_url (net_of host) raw (allow_public_model_endpoints (host_env_of host)) False = Ret e)"

definition permitted_post :: "host \<Rightarrow> string \<Rightarrow> json \<Rightarrow> bool" where
  "permitted_post host url payload \<longleftrightarrow>
     (\<exists>m. posted_model payload = Some m \<and>
        ((url \<in> set MAC_ENDPOINTS \<and> check_affinity (policy_of host) m ''mac'' = Ret ()) \<or>
         (win_url_ok host url \<and> check_affinity (policy_of host) m ''win'' = Ret ())))"

text \<open>Every endpoint the Windows worker may post to went through the endpoint policy.\<close>

lemma first_reachable_member: "first_reachable io t urls w = (Some u, w') \<Longrightarrow> u \<in> set urls"
  by (induction urls arbitrary: w) (auto split: prod.splits option.splits if_splits)

lemma parsed_endpoint_valid:
  "parse_endpoints n pub skip parts = Ret us \<Longrightarrow> u \<in> set us \<Longrightarrow>
   \<exists>raw. validate_model_endpoint_url n raw pub False = Ret u"
proof (induction parts arbitrary: us)
  case (Cons part parts)
  then show ?case by (auto simp: Let_def res_bind_eq_Ret split: if_splits res.splits)
qed simp

lemma parsed_list_valid:
  "parse_model_endpoint_list n raw pub skip = Ret us \<Longrightarrow> u \<in> set us \<Longrightarrow>
   \<exists>raw. validate_model_endpoint_url n raw pub False = Ret u"
  unfolding parse_model_endpoint_list_def by (auto split: if_splits dest: parsed_endpoint_valid)

lemma win_endpoint_url:
  assumes "win_endpoint io host spec w = (Ret e, w')"
  shows "\<exists>raw. validate_model_endpoint_url (net_of host) raw (allow_public_model_endpoints (host_env_of host)) False = Ret e"
  using assms
  by (auto simp: win_endpoint_def Let_def split: if_splits res.splits prod.splits option.splits
      dest!: first_reachable_member dest: parsed_list_valid)

text \<open>
  The world as the workers may use it: an invariant that every permitted request and every other
  operation keep is kept by a whole dispatch.
\<close>

locale guarded_inference =
  fixes retrieve :: "'w retriever" and io :: "'w worker_io" and host :: host and keeps :: "'w \<Rightarrow> bool"
  assumes keeps_post: "permitted_post host url payload \<Longrightarrow> keeps w \<Longrightarrow> keeps (snd (http_post io url payload t w))"
    and keeps_status: "keeps w \<Longrightarrow> keeps (snd (http_status io url t w))"
    and keeps_spawn: "keeps w \<Longrightarrow> keeps (snd (spawn io argv w))"
    and keeps_communicate: "keeps w \<Longrightarrow> keeps (snd (communicate io p t w))"
    and keeps_kill: "keeps w \<Longrightarrow> keeps (kill_tree io p w)"
    and keeps_note: "keeps w \<Longrightarrow> keeps (note_proc io jid p w)"
    and keeps_clear: "keeps w \<Longrightarrow> keeps (clear_proc io jid p w)"
    and keeps_retrieve: "keeps w \<Longrightarrow> keeps (snd (retrieve q w))"
begin

lemma after_post: "http_post io url payload t w = (r, w') \<Longrightarrow> permitted_post host url payload \<Longrightarrow> keeps w \<Longrightarrow> keeps w'"
  using keeps_post by (metis snd_conv)

lemma after_status: "http_status io url t w = (r, w') \<Longrightarrow> keeps w \<Longrightarrow> keeps w'"
  using keeps_status by (metis snd_conv)

lemma after_spawn: "spawn io argv w = (r, w') \<Longrightarrow> keeps w \<Longrightarrow> keeps w'"
  using keeps_spawn by (metis snd_conv)

lemma after_communicate: "communicate io p t w = (r, w') \<Longrightarrow> keeps w \<Longrightarrow> keeps w'"
  using keeps_communicate by (metis snd_conv)

lemma after_retrieve: "retrieve q w = (r, w') \<Longrightarrow> keeps w \<Longrightarrow> keeps w'"
  using keeps_retrieve by (metis snd_conv)

lemma first_reachable_keeps: "first_reachable io t urls w = (r, w') \<Longrightarrow> keeps w \<Longrightarrow> keeps w'"
  by (induction urls arbitrary: w)
    (auto split: prod.splits option.splits if_splits dest: after_status)

lemma posted_keeps:
  "posted io url payload t parse w = (r, w') \<Longrightarrow> permitted_post host url payload \<Longrightarrow> keeps w \<Longrightarrow> keeps w'"
  by (auto simp: posted_def split: prod.splits dest: after_post)

lemma clear_exited_keeps: "keeps w \<Longrightarrow> keeps (clear_exited io jid p w)"
  by (simp add: clear_exited_def keeps_clear)

lemma subprocess_keeps:
  assumes "run_dangerous_cli_subprocess io host spec cmd backend w = (r, w')" and w: "keeps w"
  shows "keeps w'"
proof -
  note run = assms(1) [unfolded run_dangerous_cli_subprocess_def Let_def]
  show ?thesis
  proof (cases "py_float (get_constraint spec ''max_seconds'' (JInt 300))")
    case (Ret timeout)
    note run = run [unfolded Ret res.case]
    show ?thesis
    proof (cases "prepare_cli_command host cmd")
      case (Ret argv)
      obtain sp w1 where sp: "spawn io argv w = (sp, w1)" by (cases "spawn io argv w")
      note run = run [unfolded Ret res.case sp prod.case]
      have w1: "keeps w1" using after_spawn [OF sp w] .
      show ?thesis
      proof (cases sp)
        case (Spawned proc cancelled)
        let ?w2 = "if js_job_id spec \<noteq> [] then note_proc io (js_job_id spec) proc w1 else w1"
        have w2: "keeps ?w2" using w1 keeps_note by simp
        obtain co w3 where co: "communicate io proc timeout ?w2 = (co, w3)"
          by (cases "communicate io proc timeout ?w2")
        have w3: "keeps w3" using after_communicate [OF co w2] .
        note run = run [unfolded Spawned spawned.case co prod.case]
        from run w2 w3 clear_exited_keeps keeps_kill show ?thesis
          by (auto split: if_splits collected.splits option.splits)
      next
        case (SpawnFailed e)
        with run w1 show ?thesis by simp
      qed
    next
      case (Raise e)
      with run w show ?thesis by simp
    qed
  next
    case (Raise e)
    with run w show ?thesis by simp
  qed
qed

lemma ollama_keeps:
  assumes "ollama_mac_worker io host spec w = (r, w')" and "keeps w"
    and "resolve_dispatch_model (host_env_of host) ''ollama-mac'' (js_metadata spec) (js_role spec) (js_specialization spec) None = Ret m"
    and "check_affinity (policy_of host) m ''mac'' = Ret ()"
  shows "keeps w'"
  using assms
  by (auto simp: ollama_mac_worker_def permitted_post_def posted_model_def MAC_ENDPOINTS_def jget_def dict_get_def
      split: res.splits elim!: posted_keeps)

lemma lmstudio_mac_keeps:
  assumes "lmstudio_mac_worker io host spec w = (r, w')" and "keeps w"
    and "resolve_dispatch_model (host_env_of host) ''lmstudio-mac'' (js_metadata spec) (js_role spec) (js_specialization spec) None = Ret m"
    and "check_affinity (policy_of host) m ''mac'' = Ret ()"
  shows "keeps w'"
  using assms
  by (auto simp: lmstudio_mac_worker_def permitted_post_def posted_model_def MAC_ENDPOINTS_def jget_def dict_get_def
      chat_payload_def split: res.splits prod.splits elim!: posted_keeps)

lemma win_endpoint_keeps: "win_endpoint io host spec w = (r, w') \<Longrightarrow> keeps w \<Longrightarrow> keeps w'"
  by (auto simp: win_endpoint_def Let_def split: if_splits res.splits prod.splits option.splits
      dest: first_reachable_keeps)

lemma lmstudio_win_keeps:
  assumes "lmstudio_win_worker io host spec w = (r, w')" and "keeps w"
    and "resolve_dispatch_model (host_env_of host) ''lmstudio-win'' (js_metadata spec) (js_role spec) (js_specialization spec) (Some ''win'') = Ret m"
    and "check_affinity (policy_of host) m ''win'' = Ret ()"
  shows "keeps w'"
  using assms
  by (auto simp: lmstudio_win_worker_def permitted_post_def posted_model_def jget_def dict_get_def win_url_ok_def
      chat_payload_def split: res.splits prod.splits dest: win_endpoint_keeps win_endpoint_url elim!: posted_keeps)

lemma cli_keeps: "cli_worker backend io host spec w = (r, w') \<Longrightarrow> keeps w \<Longrightarrow> keeps w'"
  by (auto simp: cli_worker_def split: res.splits dest: subprocess_keeps)

lemma windows_keeps:
  assumes "run_on_windows io host spec b url w = (r, w')" and w: "keeps w"
  shows "keeps w'"
proof (cases "prepare_spec_for_inference host spec ''lmstudio-win'' (Some ''win'')")
  case (Raise e)
  with assms show ?thesis by (simp add: run_on_windows_def)
next
  case (Ret spec')
  have req: "backend_requires_dispatch_model ''lmstudio-win''"
    by (simp add: backend_requires_dispatch_model_def normalized_evals BACKENDS_WITH_MODEL_def)
  from prepared_model [OF Ret req refl refl] obtain m
    where m: "resolve_dispatch_model (host_env_of host) ''lmstudio-win'' (js_metadata spec') (js_role spec')
        (js_specialization spec') (Some ''win'') = Ret m"
      and c: "check_affinity (policy_of host) m ''win'' = Ret ()"
    by (auto simp: truthy_str_def)
  have m': "resolve_dispatch_model (host_env_of host) ''lmstudio-win'' (js_metadata (with_win_endpoint url spec'))
      (js_role (with_win_endpoint url spec')) (js_specialization (with_win_endpoint url spec')) (Some ''win'') = Ret m"
    using m by (simp add: with_win_endpoint_def resolve_other)
  have "worker_for ''lmstudio-win'' = LmStudioWin" by (simp add: worker_for_def WORKER_REGISTRY_def dict_get_def)
  with assms Ret obtain x where "lmstudio_win_worker io host (with_win_endpoint url spec') w = (x, w')"
    by (auto simp: run_on_windows_def split: res.splits prod.splits)
  from lmstudio_win_keeps [OF this w m' c] show ?thesis .
qed

lemma worker_for_cases:
  "worker_for b \<in> {Echo} \<or> (b \<in> {''ollama'', ''ollama-mac''} \<and> worker_for b = OllamaMac) \<or>
   (b = ''lmstudio-mac'' \<and> worker_for b = LmStudioMac) \<or> (b = ''lmstudio-win'' \<and> worker_for b = LmStudioWin) \<or>
   (\<exists>c. worker_for b = Cli c)"
  by (auto simp: worker_for_def WORKER_REGISTRY_def dict_get_def)

lemma backend_keeps:
  assumes run: "run_on_backend io host spec b w = (r, w')" and w: "keeps w"
  shows "keeps w'"
proof (cases "backend_requires_dispatch_model b")
  case True
  show ?thesis
  proof (cases "prepare_spec_for_inference host spec b None")
    case (Raise e)
    with run w True show ?thesis by (simp add: run_on_backend_def)
  next
    case (Ret spec')
    with run True have run': "run_registered (worker_for b) io host spec' w = (r, w')"
      by (simp add: run_on_backend_def)
    have "\<exists>m. resolve_dispatch_model (host_env_of host) b (js_metadata spec') (js_role spec') (js_specialization spec')
          (if backend_to_platform b = ''win'' then Some (backend_to_platform b) else None) = Ret m
        \<and> check_affinity (policy_of host) m (backend_to_platform b) = Ret ()"
      by (rule prepared_model [OF Ret True]) (simp_all add: truthy_str_def)
    then obtain m
      where m: "resolve_dispatch_model (host_env_of host) b (js_metadata spec') (js_role spec') (js_specialization spec')
          (if backend_to_platform b = ''win'' then Some (backend_to_platform b) else None) = Ret m"
        and c: "check_affinity (policy_of host) m (backend_to_platform b) = Ret ()"
      by blast
    have plats: "backend_to_platform ''ollama'' = ''mac''" "backend_to_platform ''ollama-mac'' = ''mac''"
      "backend_to_platform ''lmstudio-mac'' = ''mac''" "backend_to_platform ''lmstudio-win'' = ''win''"
      by code_simp+
    from worker_for_cases [of b] consider "worker_for b = Echo"
      | "b \<in> {''ollama'', ''ollama-mac''}" "worker_for b = OllamaMac"
      | "b = ''lmstudio-mac''" "worker_for b = LmStudioMac"
      | "b = ''lmstudio-win''" "worker_for b = LmStudioWin"
      | k where "worker_for b = Cli k" by auto
    then show ?thesis
    proof cases
      case 1
      with run' w show ?thesis by simp
    next
      case 2
      with m c plats have "resolve_dispatch_model (host_env_of host) ''ollama-mac'' (js_metadata spec') (js_role spec')
          (js_specialization spec') None = Ret m" and "check_affinity (policy_of host) m ''mac'' = Ret ()"
        by (auto simp: ollama_alias)
      with 2 run' w show ?thesis by (auto elim: ollama_keeps)
    next
      case 3
      with m c plats run' w show ?thesis by (auto elim: lmstudio_mac_keeps)
    next
      case 4
      with m c plats run' w show ?thesis by (auto elim: lmstudio_win_keeps)
    next
      case 5
      with run' w show ?thesis by (auto elim: cli_keeps)
    qed
  qed
next
  case False
  have "b \<notin> {''ollama'', ''ollama-mac'', ''lmstudio-mac'', ''lmstudio-win''}"
    using False by (auto simp: backend_requires_dispatch_model_def normalized_evals BACKENDS_WITH_MODEL_def)
  with worker_for_cases [of b] have "worker_for b = Echo \<or> (\<exists>k. worker_for b = Cli k)" by auto
  with run False w show ?thesis by (auto simp: run_on_backend_def elim: cli_keeps)
qed

lemma route_keeps: "route_job io host spec w = (r, w') \<Longrightarrow> keeps w \<Longrightarrow> keeps w'"
  by (auto simp: route_job_def get_reachable_windows_coder_def Let_def
      split: if_splits prod.splits option.splits res.splits
      dest: first_reachable_keeps windows_keeps backend_keeps)

lemma dispatch_keeps: "dispatch_job retrieve io host spec w = (r, w') \<Longrightarrow> keeps w \<Longrightarrow> keeps w'"
  by (auto simp: dispatch_job_def inject_memory_context_def
      split: if_splits prod.splits option.splits res.splits
      dest: after_retrieve route_keeps)

end

section \<open>A dispatch that records its requests\<close>

definition logged_io :: "'w worker_io \<Rightarrow> ('w \<times> (string \<times> json) list) worker_io" where
  "logged_io io = \<lparr>
     http_post = (\<lambda>url payload t (w, l). case http_post io url payload t w of (r, w') \<Rightarrow> (r, w', l @ [(url, payload)])),
     http_status = (\<lambda>url t (w, l). case http_status io url t w of (r, w') \<Rightarrow> (r, w', l)),
     spawn = (\<lambda>argv (w, l). case spawn io argv w of (r, w') \<Rightarrow> (r, w', l)),
     communicate = (\<lambda>p t (w, l). case communicate io p t w of (r, w') \<Rightarrow> (r, w', l)),
     kill_tree = (\<lambda>p (w, l). (kill_tree io p w, l)),
     returncode = (\<lambda>p (w, l). returncode io p w),
     note_proc = (\<lambda>jid p (w, l). (note_proc io jid p w, l)),
     clear_proc = (\<lambda>jid p (w, l). (clear_proc io jid p w, l))\<rparr>"

definition logged_retriever :: "'w retriever \<Rightarrow> ('w \<times> (string \<times> json) list) retriever" where
  "logged_retriever retrieve = (\<lambda>q (w, l). case retrieve q w of (r, w') \<Rightarrow> (r, w', l))"

definition posts_permitted :: "host \<Rightarrow> 'w \<times> (string \<times> json) list \<Rightarrow> bool" where
  "posts_permitted host w \<longleftrightarrow> list_all (\<lambda>(url, payload). permitted_post host url payload) (snd w)"

interpretation recorded: guarded_inference "logged_retriever retrieve" "logged_io io" host "posts_permitted host"
  for retrieve :: "'w retriever" and io :: "'w worker_io" and host
  by unfold_locales
    (auto simp: logged_io_def logged_retriever_def posts_permitted_def split: prod.split)


text \<open>A task type that names a skill never falls through to a model.\<close>

definition skill_outcome :: "string \<Rightarrow> json res \<Rightarrow> bool" where
  "skill_outcome sid r \<longleftrightarrow>
     (case r of
        Raise e \<Rightarrow> e \<in> {RuntimeError, CancelledError}
      | Ret v \<Rightarrow> (case v of
          JObj d \<Rightarrow> (case jget d ''skill_envelope'' of JObj env \<Rightarrow> jget env ''skill_id'' = JStr sid | _ \<Rightarrow> False)
        | _ \<Rightarrow> False))"

lemma resolve_skill_raises:
  assumes "resolve_skill fs sid args agent home [] = Raise e" and "sid \<in> set NINE_SKILLS"
  shows "e = SkillResolutionError"
  using assms
  by (auto simp: resolve_skill_def MAX_RECURSION_DEPTH_def res_bind_def find_skills_root_def Let_def
      split: if_splits res.splits option.splits)

lemma SKILL_MAP_known: "map_of SKILL_MAP t = Some sid \<Longrightarrow> sid \<in> set NINE_SKILLS"
  by (drule map_of_SomeD) (auto simp: SKILL_MAP_def NINE_SKILLS_def)

lemma skill_gate_outcome:
  assumes "map_of SKILL_MAP (js_task_type spec) = Some sid"
  shows "(\<exists>e. try_skill_envelope fs spec = Ret (Some e) \<and> skill_id e = sid)
       \<or> try_skill_envelope fs spec = Raise RuntimeError"
proof (cases "resolve_skill fs sid (js_metadata spec) (js_job_id spec) None []")
  case (Ret e)
  with assms resolve_skill_Ret [OF Ret] show ?thesis by (simp add: try_skill_envelope_def)
next
  case (Raise e)
  with assms resolve_skill_raises [OF Raise SKILL_MAP_known [OF assms]] show ?thesis
    by (simp add: try_skill_envelope_def)
qed

lemma with_context_task: "js_task_type (with_context repr spec hits) = js_task_type spec"
  by (simp add: with_context_def split: res.split)

lemma inject_task:
  assumes "inject_memory_context retrieve repr spec w = (Ret spec', w')"
  shows "js_task_type spec' = js_task_type spec"
  using assms by (auto simp: inject_memory_context_def with_context_task split: if_splits prod.splits res.splits)

lemma inject_raises:
  "inject_memory_context retrieve repr spec w = (Raise e, w') \<Longrightarrow> e = CancelledError"
  by (auto simp: inject_memory_context_def split: if_splits prod.splits res.splits)

lemma inject_posts_nothing:
  "inject_memory_context (logged_retriever retrieve) repr spec (w, l) = (r, (w', l')) \<Longrightarrow> l' = l"
  by (auto simp: inject_memory_context_def logged_retriever_def split: if_splits prod.splits res.splits)

text \<open>A job whose task type names a skill ends with that skill's envelope or fails; it posts nothing
  to a model.\<close>

theorem skill_tasks_stay_skills:
  assumes "map_of SKILL_MAP (js_task_type spec) = Some sid"
  shows "case dispatch_job (logged_retriever retrieve) (logged_io io) host spec (w, []) of
           (r, w', posts) \<Rightarrow> posts = [] \<and> skill_outcome sid r"
proof -
  obtain r w1 l1 where inj: "inject_memory_context (logged_retriever retrieve) (repr_of (host_env_of host)) spec (w, []) = (r, (w1, l1))"
    by (metis prod.collapse)
  have l1: "l1 = []" using inject_posts_nothing [OF inj] .
  show ?thesis
  proof (cases r)
    case (Raise e)
    with inj have "e = CancelledError" by (auto dest: inject_raises)
    with inj Raise l1 show ?thesis by (simp add: dispatch_job_def skill_outcome_def)
  next
    case (Ret spec')
    with inj have "js_task_type spec' = js_task_type spec" by (auto dest: inject_task)
    with assms have "map_of SKILL_MAP (js_task_type spec') = Some sid" by simp
    from skill_gate_outcome [OF this, of "skills_of host"] inj Ret l1 show ?thesis
      by (auto simp: dispatch_job_def skill_outcome_def envelope_to_dict_def jget_def dict_get_def)
  qed
qed

section \<open>A job on a small host\<close>

definition demo_net :: net_lib where
  "demo_net = \<lparr>urlparse = (\<lambda>u. if u = ''http://10.0.0.5:1234''
       then Some \<lparr>url_scheme = ''http'', url_username = None, url_password = None,
                  url_hostname = Some ''10.0.0.5'', url_port = Some 1234\<rparr> else None),
     parse_ip = (\<lambda>a. if a = ''10.0.0.5''
       then Some \<lparr>ip_flags_of = \<lparr>is_link_local = False, is_loopback = False, is_private = True\<rparr>, ipv4_mapped = None\<rparr>
       else None)\<rparr>"

definition demo_host :: host where
  "demo_host = \<lparr>host_env_of = \<lparr>getenv = (\<lambda>k. if k = ''WIN_CODER_ENDPOINTS'' then Some ''10.0.0.5:1234'' else None),
       repr_of = (\<lambda>_. [])\<rparr>, net_of = demo_net,
     policy_of = \<lparr>windows_only = [JStr ''gemma-4-26b-a4b-it'', JStr ''qwen3.5-27b-claude-4.6-opus-reasoning-distilled-v2''],
                  mac_only = [JStr ''qwen3.5:9b-mlx''], shared = []\<rparr>,
     skills_of = demo_fs, windows = None\<rparr>"

definition demo_io :: "nat worker_io" where
  "demo_io = \<lparr>
     http_post = (\<lambda>url payload t n. (Ret (JObj [(''choices'', JList [JObj [(''message'', JObj [(''content'', JStr ''ok'')])]])]), Suc n)),
     http_status = (\<lambda>url t n. (Some 200, n)), spawn = (\<lambda>argv n. (Spawned 0 False, n)),
     communicate = (\<lambda>p t n. (Collected ''done'', n)), kill_tree = (\<lambda>p n. n), returncode = (\<lambda>p n. Some 0),
     note_proc = (\<lambda>jid p n. n), clear_proc = (\<lambda>jid p n. n)\<rparr>"

definition demo_job_spec :: job_spec where
  "demo_job_spec = \<lparr>js_job_id = ''job-1'', js_intent = ''freeform'', js_prompt = ''hello'', js_backend_hint = None,
     js_constraints = JObj [], js_metadata = [], js_created_at = ''t0'', js_role = None, js_specialization = None,
     js_session_id = None, js_parent_orchestrator_id = None, js_artifact_policy = None, js_authenticated_lane = None,
     js_lineage_trust = ''caller_reported'', js_depth = 0, js_task_type = []\<rparr>"

text \<open>The freeform job is preempted by the Windows pool: one request, with the Windows default model.\<close>

lemma demo_preempted:
  "dispatch_job (logged_retriever (\<lambda>q n. (Ret [], n))) (logged_io demo_io) demo_host demo_job_spec (0, [])
   = (Ret (JObj [(''backend'', JStr ''lmstudio-win''),
        (''model'', JStr ''Qwen3.5-27B-Claude-4.6-Opus-Reasoning-Distilled-v2''), (''output'', JStr ''ok''),
        (''tokens'', JInt 0), (''routed_to_windows'', JBool True), (''windows_endpoint'', JStr ''http://10.0.0.5:1234'')]),
      1, [(''http://10.0.0.5:1234/v1/chat/completions'',
        JObj [(''model'', JStr ''Qwen3.5-27B-Claude-4.6-Opus-Reasoning-Distilled-v2''),
              (''messages'', user_messages ''hello''), (''max_tokens'', JInt 4096)])])"
  by code_simp

lemma skill_tasks_stay_skills_witness:
  "case dispatch_job (logged_retriever (\<lambda>q n. (Ret [], n))) (logged_io demo_io) demo_host
          (demo_job_spec\<lparr>js_task_type := ''restart''\<rparr>) (0, []) of
     (r, w', posts) \<Rightarrow> posts = [] \<and> skill_outcome ''openclaw-restart'' r"
  by (rule skill_tasks_stay_skills) code_simp

end
