(* ===== verification/Supervisor.thy ===== *)
theory Supervisor
  imports JobDispatch
begin

text \<open>
  \<open>OrchestrationSupervisor\<close> of \<open>orchestrator/supervisor.py\<close>: the event log \<open>jobs.jsonl\<close>, the
  result artifacts, the worker tasks with their points of suspension, cancellation, the containment
  of child processes and replay.  One operation here is what the coroutine does between two
  suspensions; what happens while it waits is a sequence of other steps.  A log line is an event or
  a line that does not parse; writes to the log succeed except where a step says otherwise.
\<close>

section \<open>The event log\<close>

datatype log_line = BadLine | EventLine payload

definition load_events :: "log_line list \<Rightarrow> payload list" where
  "load_events lines = concat (map (\<lambda>l. case l of BadLine \<Rightarrow> [] | EventLine e \<Rightarrow> [e]) lines)"

definition event_record :: "string \<Rightarrow> string \<Rightarrow> payload \<Rightarrow> payload" where
  "event_record now jid event = dict_update [(''ts'', JStr now), (''job_id'', JStr jid)] event"

definition append_to_log :: "string \<Rightarrow> string \<Rightarrow> payload \<Rightarrow> log_line list \<Rightarrow> log_line list" where
  "append_to_log now jid event lines = lines @ [EventLine (event_record now jid event)]"

definition latest_status_per_job :: "payload list \<Rightarrow> (json, payload) dict" where
  "latest_status_per_job events =
     foldl (\<lambda>states evt. let jid = jget evt ''job_id'' in if truthy jid then AList.update jid evt states else states)
       [] events"

definition has_status :: "payload \<Rightarrow> job_status \<Rightarrow> bool" where
  "has_status event st = (jget event ''status'' = JStr (job_status_value st))"

definition first_queued_event :: "payload list \<Rightarrow> string \<Rightarrow> payload option" where
  "first_queued_event events jid = find (\<lambda>e. jget e ''job_id'' = JStr jid \<and> has_status e Queued) events"

definition queued_spec_for_job :: "payload list \<Rightarrow> string \<Rightarrow> payload option" where
  "queued_spec_for_job events jid =
     (case first_queued_event events jid of
        None \<Rightarrow> None
      | Some e \<Rightarrow> (case jget e ''spec'' of JObj d \<Rightarrow> Some d | _ \<Rightarrow> None))"

definition LIST_SPEC_COLUMNS :: "string list" where
  "LIST_SPEC_COLUMNS = [''intent'', ''role'', ''backend_hint'']"

definition set_if_missing :: "string \<Rightarrow> json \<Rightarrow> payload \<Rightarrow> payload" where
  "set_if_missing k v row = (if jget row k = JNull \<and> v \<noteq> JNull then AList.update k v row else row)"

definition list_row :: "payload \<Rightarrow> payload option \<Rightarrow> payload" where
  "list_row latest queued =
     (let row1 = (case queued of
            None \<Rightarrow> latest
          | Some q \<Rightarrow>
              (let row0 = set_if_missing ''created_at'' (jget q ''ts'') latest in
               case jget q ''spec'' of
                 JObj spec \<Rightarrow> fold (\<lambda>k row. set_if_missing k (jget spec k) row) LIST_SPEC_COLUMNS row0
               | _ \<Rightarrow> row0))
      in set_if_missing ''updated_at'' (jget row1 ''ts'') row1)"

definition list_records_per_job :: "payload list \<Rightarrow> payload list" where
  "list_records_per_job events =
     map (\<lambda>(jid, latest). list_row latest
            (case jid of JStr j \<Rightarrow> first_queued_event events j | _ \<Rightarrow> None))
       (latest_status_per_job events)"

section \<open>The state\<close>

text \<open>
  Where a worker task is suspended: not started, inside the dispatch, or emitting the gossip event
  after its final event (of kind \<open>result\<close> inside the \<open>try\<close>, of kind \<open>error\<close> inside a handler).
\<close>

datatype task_end = Returned | WasCancelled | Crashed
datatype task_pc = Created | Dispatching | Announcing string payload | Ended task_end

record sup_task =
  t_spec :: job_spec
  t_pc :: task_pc
  t_cancel :: bool
  t_notified :: bool

text \<open>A containment cleanup: about to make attempt \<open>k\<close>, or waiting for a process tree in it.\<close>

datatype cleanup = Attempt nat | Terminating nat nat

record sup =
  jobs_file :: "log_line list"
  artifacts :: "(string, json) dict"
  active :: "(string, nat) dict"
  sup_tasks :: "sup_task list"
  children :: "(string, nat) dict"
  exits :: "(nat, int) dict"
  cleanups :: "(string, cleanup) dict"
  cleanup_finished :: "string list"
  gossiped :: "(string \<times> payload) list"
  gossip_warned :: bool

definition init_sup :: "log_line list \<Rightarrow> (string, json) dict \<Rightarrow> sup" where
  "init_sup file arts = \<lparr>jobs_file = file, artifacts = arts, active = [], sup_tasks = [], children = [],
     exits = [], cleanups = [], cleanup_finished = [], gossiped = [], gossip_warned = False\<rparr>"

definition append_event :: "string \<Rightarrow> string \<Rightarrow> payload \<Rightarrow> sup \<Rightarrow> sup" where
  "append_event now jid event s = s\<lparr>jobs_file := append_to_log now jid event (jobs_file s)\<rparr>"

definition append_lifecycle_event :: "string \<Rightarrow> job_spec \<Rightarrow> job_status \<Rightarrow> payload \<Rightarrow> sup \<Rightarrow> sup" where
  "append_lifecycle_event now spec st extra s =
     append_event now (js_job_id spec)
       (dict_update extra [(''status'', JStr (job_status_value st)), (''lineage_trust'', JStr (js_lineage_trust spec))]) s"

definition events :: "sup \<Rightarrow> payload list" where
  "events s = load_events (jobs_file s)"

definition latest_event :: "sup \<Rightarrow> string \<Rightarrow> payload option" where
  "latest_event s jid = map_of (latest_status_per_job (events s)) (JStr jid)"

definition set_task :: "nat \<Rightarrow> (sup_task \<Rightarrow> sup_task) \<Rightarrow> sup \<Rightarrow> sup" where
  "set_task tid f s = s\<lparr>sup_tasks := (sup_tasks s)[tid := f (sup_tasks s ! tid)]\<rparr>"

definition goto :: "nat \<Rightarrow> task_pc \<Rightarrow> sup \<Rightarrow> sup" where
  "goto tid pc s = set_task tid (\<lambda>t. t\<lparr>t_pc := pc\<rparr>) s"

definition ended :: "sup \<Rightarrow> nat \<Rightarrow> bool" where
  "ended s tid = (case t_pc (sup_tasks s ! tid) of Ended _ \<Rightarrow> True | _ \<Rightarrow> False)"

definition pop_active :: "string \<Rightarrow> sup \<Rightarrow> sup" where
  "pop_active jid s = s\<lparr>active := AList.delete jid (active s)\<rparr>"

section \<open>Submission\<close>

definition register_task :: "job_spec \<Rightarrow> sup \<Rightarrow> sup" where
  "register_task spec s = s\<lparr>
     sup_tasks := sup_tasks s @ [\<lparr>t_spec = spec, t_pc = Created, t_cancel = False, t_notified = False\<rparr>],
     active := AList.update (js_job_id spec) (length (sup_tasks s)) (active s)\<rparr>"

definition submit_job :: "host \<Rightarrow> string \<Rightarrow> job_spec \<Rightarrow> sup \<Rightarrow> string res \<times> sup" where
  "submit_job host now spec0 s =
     (let spec = drop_win_endpoint spec0 in
      if MAX_DEPTH < js_depth spec then (Raise ValueError, s)
      else if MAX_THREADS \<le> length (active s) then (Raise RuntimeError, s)
      else case submission_gate host spec of
             Raise e \<Rightarrow> (Raise e, s)
           | Ret _ \<Rightarrow>
               (Ret (js_job_id spec),
                register_task spec (append_lifecycle_event now spec Queued [(''spec'', JObj (spec_to_dict spec))] s)))"

section \<open>The worker task\<close>

text \<open>\<open>json.dumps(result, ensure_ascii=False, indent=2)\<close>; \<open>show_float\<close> is \<open>repr\<close> of a float.\<close>

definition json_char :: "char \<Rightarrow> string" where
  "json_char c =
     (if c = CHR 0x22 then [CHR 0x5C, CHR 0x22]
      else if c = CHR 0x5C then [CHR 0x5C, CHR 0x5C]
      else if code c = 10 then [CHR 0x5C, CHR ''n'']
      else if code c = 13 then [CHR 0x5C, CHR ''r'']
      else if code c = 9 then [CHR 0x5C, CHR ''t'']
      else if code c = 8 then [CHR 0x5C, CHR ''b'']
      else if code c = 12 then [CHR 0x5C, CHR ''f'']
      else if code c < 32 then
        [CHR 0x5C, CHR ''u'', CHR ''0'', CHR ''0'', if code c < 16 then CHR ''0'' else CHR ''1'',
         ''0123456789abcdef'' ! (code c mod 16)]
      else [c])"

definition json_quote :: "string \<Rightarrow> string" where
  "json_quote s = [CHR 0x22] @ concat (map json_char s) @ [CHR 0x22]"

definition indent_line :: "nat \<Rightarrow> string" where
  "indent_line n = line_feed @ replicate n CHR '' ''"

fun dumps :: "(rat \<Rightarrow> string) \<Rightarrow> nat \<Rightarrow> json \<Rightarrow> string" where
  "dumps show_float n JNull = ''null''"
| "dumps show_float n (JBool b) = (if b then ''true'' else ''false'')"
| "dumps show_float n (JInt i) = show_int i"
| "dumps show_float n (JFloat q) = show_float q"
| "dumps show_float n (JStr s) = json_quote s"
| "dumps show_float n (JList xs) =
     (if xs = [] then ''[]''
      else ''['' @ indent_line (n + 2) @ join_with ('','' @ indent_line (n + 2)) (map (dumps show_float (n + 2)) xs)
           @ indent_line n @ '']'')"
| "dumps show_float n (JObj d) =
     (if d = [] then ''{}''
      else ''{'' @ indent_line (n + 2)
           @ join_with ('','' @ indent_line (n + 2)) (map (\<lambda>(k, v). json_quote k @ '': '' @ dumps show_float (n + 2) v) d)
           @ indent_line n @ ''}'')"

definition utf8_size :: "string \<Rightarrow> nat" where
  "utf8_size s = sum_list (map (\<lambda>c. if code c < 128 then 1 else 2) s)"

definition MAX_RESULT_BYTES :: nat where "MAX_RESULT_BYTES = 2 * 1024 * 1024"

definition truncated_marker :: "nat \<Rightarrow> json" where
  "truncated_marker n = JObj [(''status'', JStr ''truncated''),
     (''reason'', JStr (''result exceeded '' @ show_nat MAX_RESULT_BYTES @ '' bytes'')),
     (''original_size_bytes'', JInt (int n))]"

definition artifact_for :: "(rat \<Rightarrow> string) \<Rightarrow> json \<Rightarrow> json" where
  "artifact_for show_float result =
     (let n = utf8_size (dumps show_float 0 result) in
      if MAX_RESULT_BYTES < n then truncated_marker n else result)"

definition artifact_path :: "string \<Rightarrow> string" where
  "artifact_path jid = ''jobs/'' @ jid @ ''/result.json''"

definition spec_of_task :: "sup \<Rightarrow> nat \<Rightarrow> job_spec" where
  "spec_of_task s tid = t_spec (sup_tasks s ! tid)"

definition start_worker :: "string \<Rightarrow> nat \<Rightarrow> sup \<Rightarrow> sup" where
  "start_worker now tid s = goto tid Dispatching (append_lifecycle_event now (spec_of_task s tid) Running [] s)"

text \<open>An exception before the \<open>try\<close>: the append of the running event, or making the directory.\<close>

definition crash_at_start :: "string \<Rightarrow> bool \<Rightarrow> nat \<Rightarrow> sup \<Rightarrow> sup" where
  "crash_at_start now appended tid s =
     goto tid (Ended Crashed)
       (if appended then append_lifecycle_event now (spec_of_task s tid) Running [] s else s)"

definition job_succeeded :: "(rat \<Rightarrow> string) \<Rightarrow> string \<Rightarrow> nat \<Rightarrow> json \<Rightarrow> sup \<Rightarrow> sup" where
  "job_succeeded show_float now tid result s =
     (let spec = spec_of_task s tid; jid = js_job_id spec;
          s1 = s\<lparr>artifacts := AList.update jid (artifact_for show_float result) (artifacts s)\<rparr>
      in goto tid (Announcing ''result'' [])
           (append_lifecycle_event now spec Succeeded [(''artifact'', JStr (artifact_path jid))] s1))"

definition job_failed :: "string \<Rightarrow> nat \<Rightarrow> exn \<Rightarrow> string \<Rightarrow> sup \<Rightarrow> sup" where
  "job_failed now tid e msg s =
     (let policy = (if e = HardwareAffinityError then [(''policy'', JBool True)] else []) in
      goto tid (Announcing ''error'' ((''detail'', JStr msg) # policy))
        (append_lifecycle_event now (spec_of_task s tid) FailedJob ((''error'', JStr msg) # policy) s))"

definition gossip_payload :: "job_spec \<Rightarrow> payload \<Rightarrow> payload" where
  "gossip_payload spec extra =
     (let base = [(''job_id'', JStr (js_job_id spec)), (''prompt'', JStr (js_prompt spec)),
                  (''intent'', JStr (js_intent spec)), (''lineage_trust'', JStr (js_lineage_trust spec))];
          p = (case js_role spec of Some r \<Rightarrow> if r \<noteq> [] then AList.update ''role'' (JStr r) base else base | None \<Rightarrow> base)
      in AList.update ''lineage_trust'' (JStr (js_lineage_trust spec)) (dict_update p extra))"

definition record_to_gossip :: "bool \<Rightarrow> string \<Rightarrow> job_spec \<Rightarrow> payload \<Rightarrow> sup \<Rightarrow> sup" where
  "record_to_gossip emitted event_type spec extra s =
     (if emitted then s\<lparr>gossiped := gossiped s @ [(event_type, gossip_payload spec extra)]\<rparr>
      else s\<lparr>gossip_warned := True\<rparr>)"

definition announced :: "bool \<Rightarrow> nat \<Rightarrow> sup \<Rightarrow> sup" where
  "announced emitted tid s =
     (case t_pc (sup_tasks s ! tid) of
        Announcing event_type extra \<Rightarrow>
          pop_active (js_job_id (spec_of_task s tid))
            (goto tid (Ended Returned) (record_to_gossip emitted event_type (spec_of_task s tid) extra s))
      | _ \<Rightarrow> s)"

text \<open>\<open>CancelledError\<close> at the current point of suspension.\<close>

definition deliver_cancel :: "string \<Rightarrow> nat \<Rightarrow> sup \<Rightarrow> sup" where
  "deliver_cancel now tid s =
     (let spec = spec_of_task s tid; jid = js_job_id spec;
          checkpoint = append_lifecycle_event now spec CancelledJob []
      in case t_pc (sup_tasks s ! tid) of
           Created \<Rightarrow> goto tid (Ended WasCancelled) s
         | Dispatching \<Rightarrow> pop_active jid (goto tid (Ended WasCancelled) (checkpoint s))
         | Announcing event_type extra \<Rightarrow>
             pop_active jid (goto tid (Ended WasCancelled) (if event_type = ''result'' then checkpoint s else s))
         | Ended _ \<Rightarrow> s)"

section \<open>Child processes\<close>

definition note_child :: "string \<Rightarrow> nat \<Rightarrow> sup \<Rightarrow> sup" where
  "note_child jid proc s =
     (case map_of (children s) jid of
        Some p \<Rightarrow>
          if p \<noteq> proc \<and> map_of (exits s) p = None then s
          else s\<lparr>children := AList.update jid proc (children s)\<rparr>
      | None \<Rightarrow> s\<lparr>children := AList.update jid proc (children s)\<rparr>)"

definition has_registered_child :: "string \<Rightarrow> sup \<Rightarrow> bool" where
  "has_registered_child jid s = (map_of (children s) jid \<noteq> None)"

definition clear_child :: "string \<Rightarrow> nat \<Rightarrow> sup \<Rightarrow> sup" where
  "clear_child jid proc s =
     (if map_of (children s) jid = Some proc then s\<lparr>children := AList.delete jid (children s)\<rparr> else s)"

definition process_exit :: "nat \<Rightarrow> int \<Rightarrow> sup \<Rightarrow> sup" where
  "process_exit proc rc s = (if map_of (exits s) proc = None then s\<lparr>exits := AList.update proc rc (exits s)\<rparr> else s)"

text \<open>
  \<open>wait_process_exit\<close> and \<open>cli_launch._wait_exit\<close>: in round \<open>i\<close> the loop sees whether the process
  has exited, the clock, and whether the bounded wait timed out.  \<open>None\<close> is a loop that goes on for
  ever.
\<close>

record wait_obs =
  seen_exit :: bool
  clock :: rat
  timed_out :: bool

partial_function (option) wait_loop :: "rat \<Rightarrow> (nat \<Rightarrow> wait_obs) \<Rightarrow> nat \<Rightarrow> nat option" where
  "wait_loop deadline obs i =
     (if seen_exit (obs i) then Some i
      else if deadline - clock (obs i) \<le> 0 then Some i
      else if timed_out (obs i) then Some i
      else wait_loop deadline obs (Suc i))"

definition wait_process_exit :: "rat \<Rightarrow> rat \<Rightarrow> (nat \<Rightarrow> wait_obs) \<Rightarrow> nat option" where
  "wait_process_exit start timeout obs =
     (if timeout \<le> 0 \<or> seen_exit (obs 0) then Some 0 else wait_loop (start + timeout) obs 0)"

text \<open>\<open>terminate_cli_tree\<close>: on Windows the status of the tree kill, \<open>None\<close> where it raised; elsewhere
  whether the direct child has exited.\<close>

definition terminate_cli_tree :: "bool \<Rightarrow> string option \<Rightarrow> int option \<Rightarrow> string" where
  "terminate_cli_tree is_windows tree rc =
     (if is_windows then (case tree of Some st \<Rightarrow> st | None \<Rightarrow> ''unknown'')
      else if rc \<noteq> None then ''contained'' else ''unknown'')"

section \<open>Cancellation and containment\<close>

definition containment_fields :: "string \<Rightarrow> string \<Rightarrow> payload" where
  "containment_fields kind state =
     [(''status'', JStr (job_status_value CancelledJob)), (''worker_kind'', JStr kind), (''containment_state'', JStr state)]"

definition has_containment_annotation :: "payload option \<Rightarrow> bool" where
  "has_containment_annotation event =
     (case event of
        None \<Rightarrow> False
      | Some e \<Rightarrow> has_status e CancelledJob \<and> map_of e ''worker_kind'' \<noteq> None \<and> map_of e ''containment_state'' \<noteq> None)"

definition ensure_containment_task :: "string \<Rightarrow> sup \<Rightarrow> sup" where
  "ensure_containment_task jid s =
     (if map_of (cleanups s) jid \<noteq> None then s
      else if has_containment_annotation (latest_event s jid) then s
      else if jid \<in> set (cleanup_finished s) then s
      else s\<lparr>cleanups := AList.update jid (Attempt 1) (cleanups s)\<rparr>)"

definition CONTAINMENT_ANNOTATION_ATTEMPTS :: nat where "CONTAINMENT_ANNOTATION_ATTEMPTS = 3"

definition finish_cleanup :: "string \<Rightarrow> sup \<Rightarrow> sup" where
  "finish_cleanup jid s =
     s\<lparr>cleanups := AList.delete jid (cleanups s), cleanup_finished := List.insert jid (cleanup_finished s)\<rparr>"

definition attempt_failed :: "string \<Rightarrow> nat \<Rightarrow> sup \<Rightarrow> sup" where
  "attempt_failed jid k s =
     (if CONTAINMENT_ANNOTATION_ATTEMPTS \<le> k then finish_cleanup jid s
      else s\<lparr>cleanups := AList.update jid (Attempt (Suc k)) (cleanups s)\<rparr>)"

text \<open>What the surroundings do in one step of a cleanup: whether the writes and the kill succeed,
  and the status the kill reports.\<close>

record cleanup_env =
  cleanup_ok :: bool
  tree_status :: string
  cleanup_now :: string

definition containment_state_of :: "sup \<Rightarrow> nat \<Rightarrow> string \<Rightarrow> string" where
  "containment_state_of s proc status =
     (if map_of (exits s) proc \<noteq> None \<and> status = ''contained'' then ''verified'' else ''unresolved'')"

definition cleanup_step :: "cleanup_env \<Rightarrow> string \<Rightarrow> sup \<Rightarrow> sup" where
  "cleanup_step env jid s =
     (case map_of (cleanups s) jid of
        None \<Rightarrow> s
      | Some (Attempt k) \<Rightarrow>
          (case map_of (children s) jid of
             Some proc \<Rightarrow> s\<lparr>cleanups := AList.update jid (Terminating k proc) (cleanups s)\<rparr>
           | None \<Rightarrow>
               if cleanup_ok env then
                 finish_cleanup jid
                   (append_event (cleanup_now env) jid (containment_fields ''in-process'' ''not-applicable'') s)
               else attempt_failed jid k s)
      | Some (Terminating k proc) \<Rightarrow>
          if cleanup_ok env then
            finish_cleanup jid
              (clear_child jid proc
                 (append_event (cleanup_now env) jid
                    (containment_fields ''cli'' (containment_state_of s proc (tree_status env))
                     @ [(''containment_detail'', JStr (tree_status env))]) s))
          else attempt_failed jid k s)"

definition request_cancel :: "nat \<Rightarrow> sup \<Rightarrow> sup" where
  "request_cancel tid s = set_task tid (\<lambda>t. t\<lparr>t_cancel := True\<rparr>) s"

definition cancel :: "string \<Rightarrow> sup \<Rightarrow> bool \<times> sup" where
  "cancel jid s =
     (case map_of (active s) jid of
        Some tid \<Rightarrow> if ended s tid then (False, s) else (True, request_cancel tid s)
      | None \<Rightarrow> (False, s))"

definition drop_if_mapped :: "string \<Rightarrow> nat \<Rightarrow> sup \<Rightarrow> sup" where
  "drop_if_mapped jid tid s = (if map_of (active s) jid = Some tid then pop_active jid s else s)"

definition is_cancelled :: "payload option \<Rightarrow> bool" where
  "is_cancelled event = (case event of Some e \<Rightarrow> has_status e CancelledJob | None \<Rightarrow> False)"

definition confirm_cancelled :: "string \<Rightarrow> string \<Rightarrow> nat \<Rightarrow> sup \<Rightarrow> sup" where
  "confirm_cancelled now jid tid s =
     (let s1 = drop_if_mapped jid tid s in
      if is_cancelled (latest_event s1 jid) then s1
      else append_event now jid [(''status'', JStr (job_status_value CancelledJob))] s1)"

text \<open>The done callback of a worker task.\<close>

definition on_cancelled_worker_done :: "string \<Rightarrow> nat \<Rightarrow> sup \<Rightarrow> sup" where
  "on_cancelled_worker_done now tid s =
     (let jid = js_job_id (spec_of_task s tid); s0 = set_task tid (\<lambda>t. t\<lparr>t_notified := True\<rparr>) s in
      if t_pc (sup_tasks s ! tid) \<noteq> Ended WasCancelled then s0
      else (let s1 = confirm_cancelled now jid tid s0 in
            if has_containment_annotation (latest_event s1 jid) then s1 else ensure_containment_task jid s1))"

text \<open>
  \<open>cancel_with_terminal_state\<close>; \<open>worker_wait\<close> and \<open>cleanup_wait\<close> are what the other tasks do while
  it waits for the worker (at most the confirmation timeout) and for the cleanup.
\<close>

definition terminal_state :: "sup \<Rightarrow> string \<Rightarrow> json" where
  "terminal_state s jid = (case latest_event s jid of Some e \<Rightarrow> jget e ''status'' | None \<Rightarrow> JNull)"

definition after_worker_wait :: "string \<Rightarrow> string \<Rightarrow> nat \<Rightarrow> sup \<Rightarrow> sup" where
  "after_worker_wait now jid tid s =
     (if t_pc (sup_tasks s ! tid) = Ended WasCancelled then confirm_cancelled now jid tid s else s)"

definition cancel_with_terminal_state ::
    "string \<Rightarrow> string \<Rightarrow> (sup \<Rightarrow> sup) \<Rightarrow> (sup \<Rightarrow> sup) \<Rightarrow> sup \<Rightarrow> (bool \<times> json) \<times> sup" where
  "cancel_with_terminal_state now jid worker_wait cleanup_wait s =
     (if map_of (cleanups s) jid \<noteq> None then
        (let s1 = cleanup_wait s in ((True, terminal_state s1 jid), s1))
      else case (case map_of (active s) jid of Some tid \<Rightarrow> if ended s tid then None else Some tid | None \<Rightarrow> None) of
             Some tid \<Rightarrow>
               (let s1 = after_worker_wait now jid tid (worker_wait (request_cancel tid s));
                    terminal = terminal_state s1 jid
                in if terminal = JStr (job_status_value CancelledJob)
                   then ((True, terminal), cleanup_wait (ensure_containment_task jid s1))
                   else ((True, terminal), s1))
           | None \<Rightarrow>
               (let terminal = terminal_state s jid in
                if terminal = JStr (job_status_value CancelledJob) \<and> has_registered_child jid s
                then ((True, terminal), cleanup_wait (ensure_containment_task jid s))
                else ((False, terminal), s)))"

section \<open>Replay and queries\<close>

definition REPLAYABLE_STATUSES :: "job_status list" where
  "REPLAYABLE_STATUSES = [Succeeded, FailedJob, CancelledJob]"

text \<open>The fields of \<open>JobSpec\<close> as pydantic accepts them.\<close>

definition str_field :: "json \<Rightarrow> string res" where
  "str_field v = (case v of JStr s \<Rightarrow> Ret s | _ \<Rightarrow> Raise ValueError)"

definition opt_str_field :: "json \<Rightarrow> string option res" where
  "opt_str_field v = (case v of JNull \<Rightarrow> Ret None | JStr s \<Rightarrow> Ret (Some s) | _ \<Rightarrow> Raise ValueError)"

definition constraints_field :: "json \<Rightarrow> json res" where
  "constraints_field v =
     (case v of
        JObj d \<Rightarrow> Ret v
      | JList xs \<Rightarrow> if list_all is_json_str xs then Ret v else Raise ValueError
      | _ \<Rightarrow> Raise ValueError)"

definition replayed_spec :: "string \<Rightarrow> string \<Rightarrow> payload \<Rightarrow> job_spec res" where
  "replayed_spec new_id created d =
     res_bind (str_field (dict_get d ''intent'' (JStr ''freeform''))) (\<lambda>intent.
     res_bind (str_field (dict_get d ''prompt'' (JStr []))) (\<lambda>prompt.
     res_bind (opt_str_field (jget d ''backend_hint'')) (\<lambda>hint.
     res_bind (constraints_field (dict_get d ''constraints'' (JObj []))) (\<lambda>constraints.
     res_bind (opt_str_field (jget d ''role'')) (\<lambda>role.
     res_bind (opt_str_field (jget d ''specialization'')) (\<lambda>specialization.
     res_bind (opt_str_field (jget d ''session_id'')) (\<lambda>session.
     res_bind (opt_str_field (jget d ''parent_orchestrator_id'')) (\<lambda>parent.
     res_bind (opt_str_field (jget d ''artifact_policy'')) (\<lambda>artifact.
     res_bind (opt_str_field (jget d ''authenticated_lane'')) (\<lambda>lane.
     res_bind (str_field (dict_get d ''task_type'' (JStr []))) (\<lambda>task_type.
       Ret \<lparr>js_job_id = new_id, js_intent = intent, js_prompt = prompt, js_backend_hint = hint,
            js_constraints = constraints,
            js_metadata = caller_reported_lineage_metadata (jget d ''metadata'')
              (truthy (jget d ''session_id'') \<or> truthy (jget d ''parent_orchestrator_id'')),
            js_created_at = created, js_role = role, js_specialization = specialization,
            js_session_id = session, js_parent_orchestrator_id = parent, js_artifact_policy = artifact,
            js_authenticated_lane = lane, js_lineage_trust = ''caller_reported'', js_depth = 0,
            js_task_type = task_type\<rparr>)))))))))))"

definition replay_source :: "sup \<Rightarrow> string \<Rightarrow> payload res" where
  "replay_source s jid =
     (case latest_event s jid of
        None \<Rightarrow> Raise ReplayJobNotFoundError
      | Some raw \<Rightarrow>
          if \<not> list_ex (has_status raw) REPLAYABLE_STATUSES then Raise ReplayJobNotReplayableError
          else case queued_spec_for_job (events s) jid of
                 None \<Rightarrow> Raise ReplayNoQueuedSpecError
               | Some d \<Rightarrow> Ret d)"

definition replay_job :: "host \<Rightarrow> string \<Rightarrow> string \<Rightarrow> string \<Rightarrow> payload \<Rightarrow> sup \<Rightarrow> string res \<times> sup" where
  "replay_job host now new_id jid overrides s =
     (case replay_source s jid of
        Raise e \<Rightarrow> (Raise e, s)
      | Ret queued \<Rightarrow>
          (case replayed_spec new_id now (dict_update queued overrides) of
             Raise e \<Rightarrow> (Raise e, s)
           | Ret spec \<Rightarrow> submit_job host now spec s))"

definition get_status :: "sup \<Rightarrow> string \<Rightarrow> payload option" where
  "get_status s jid =
     map_option (\<lambda>raw.
       dict_update raw
         [(''artifact'', if map_of (artifacts s) jid \<noteq> None then JStr (artifact_path jid) else JNull),
          (''result'', case map_of (artifacts s) jid of Some v \<Rightarrow> v | None \<Rightarrow> JNull)])
       (latest_event s jid)"

definition list_jobs :: "job_status option \<Rightarrow> sup \<Rightarrow> payload list" where
  "list_jobs status s =
     (let jobs = list_records_per_job (events s) in
      case status of None \<Rightarrow> jobs | Some st \<Rightarrow> filter (\<lambda>j. has_status j st) jobs)"

section \<open>Steps\<close>

text \<open>A process that stops keeps the two files; everything else starts empty.\<close>

definition restart :: "sup \<Rightarrow> sup" where
  "restart s = init_sup (jobs_file s) (artifacts s)"

definition known_job :: "sup \<Rightarrow> string \<Rightarrow> bool" where
  "known_job s jid \<longleftrightarrow> latest_event s jid \<noteq> None \<or> jid \<in> (\<lambda>t. js_job_id (t_spec t)) ` set (sup_tasks s)"

inductive sup_step :: "host \<Rightarrow> (rat \<Rightarrow> string) \<Rightarrow> sup \<Rightarrow> sup \<Rightarrow> bool" for host show_float where
  submit: "js_job_id spec \<noteq> [] \<Longrightarrow> \<not> known_job s (js_job_id spec) \<Longrightarrow>
     sup_step host show_float s (snd (submit_job host now spec s))"
| start: "tid < length (sup_tasks s) \<Longrightarrow> t_pc (sup_tasks s ! tid) = Created \<Longrightarrow>
     sup_step host show_float s (start_worker now tid s)"
| crash: "tid < length (sup_tasks s) \<Longrightarrow> t_pc (sup_tasks s ! tid) = Created \<Longrightarrow>
     sup_step host show_float s (crash_at_start now appended tid s)"
| succeed: "tid < length (sup_tasks s) \<Longrightarrow> t_pc (sup_tasks s ! tid) = Dispatching \<Longrightarrow>
     sup_step host show_float s (job_succeeded show_float now tid result s)"
| fail: "tid < length (sup_tasks s) \<Longrightarrow> t_pc (sup_tasks s ! tid) = Dispatching \<Longrightarrow>
     sup_step host show_float s (job_failed now tid e msg s)"
| announce: "tid < length (sup_tasks s) \<Longrightarrow> t_pc (sup_tasks s ! tid) = Announcing k x \<Longrightarrow>
     sup_step host show_float s (announced emitted tid s)"
| request: "sup_step host show_float s (snd (cancel jid s))"
| deliver: "tid < length (sup_tasks s) \<Longrightarrow> t_cancel (sup_tasks s ! tid) \<Longrightarrow>
     sup_step host show_float s (deliver_cancel now tid s)"
| callback: "tid < length (sup_tasks s) \<Longrightarrow> ended s tid \<Longrightarrow> \<not> t_notified (sup_tasks s ! tid) \<Longrightarrow>
     sup_step host show_float s (on_cancelled_worker_done now tid s)"
| confirm: "tid < length (sup_tasks s) \<Longrightarrow> jid = js_job_id (spec_of_task s tid) \<Longrightarrow>
     sup_step host show_float s (after_worker_wait now jid tid s)"
| contain: "is_cancelled (latest_event s jid) \<Longrightarrow>
     sup_step host show_float s (ensure_containment_task jid s)"
| clean: "sup_step host show_float s (cleanup_step env jid s)"
| noted: "tid < length (sup_tasks s) \<Longrightarrow> t_pc (sup_tasks s ! tid) = Dispatching \<Longrightarrow>
     sup_step host show_float s (note_child (js_job_id (spec_of_task s tid)) proc s)"
| cleared: "tid < length (sup_tasks s) \<Longrightarrow> t_pc (sup_tasks s ! tid) = Dispatching \<Longrightarrow>
     sup_step host show_float s (clear_child (js_job_id (spec_of_task s tid)) proc s)"
| exited: "sup_step host show_float s (process_exit proc rc s)"
| stop: "sup_step host show_float s (restart s)"

inductive sup_steps :: "host \<Rightarrow> (rat \<Rightarrow> string) \<Rightarrow> sup \<Rightarrow> sup \<Rightarrow> bool" for host show_float where
  none: "sup_steps host show_float s s"
| more: "sup_steps host show_float s t \<Longrightarrow> sup_step host show_float t u \<Longrightarrow> sup_steps host show_float s u"

end
