(* ===== verification/SupervisorRuns.thy ===== *)
theory SupervisorRuns
  imports Supervisor
begin

text \<open>
  Runs of the supervisor: what every step does to the status of each job, the invariant that ties
  the log to the tasks, and what follows for submission, success, cancellation, containment and
  restart.
\<close>

section \<open>The latest event of a job\<close>

lemma load_events_append: "load_events (a @ b) = load_events a @ load_events b"
  by (simp add: load_events_def)

lemma load_events_line [simp]: "load_events [EventLine e] = [e]"
  by (simp add: load_events_def)

lemma events_append_event: "events (append_event now jid e s) = events s @ [event_record now jid e]"
  by (simp add: events_def append_event_def append_to_log_def load_events_append)

lemma latest_snoc:
  "latest_status_per_job (evs @ [e]) =
   (if truthy (jget e ''job_id'') then AList.update (jget e ''job_id'') e (latest_status_per_job evs)
    else latest_status_per_job evs)"
  by (simp add: latest_status_per_job_def Let_def)

lemma latest_Nil [simp]: "latest_status_per_job [] = []"
  by (simp add: latest_status_per_job_def)

lemma latest_event_member: "map_of (latest_status_per_job evs) j = Some e \<Longrightarrow> e \<in> set evs \<and> jget e ''job_id'' = j"
  by (induction evs rule: rev_induct) (auto simp: latest_snoc map_of_update split: if_splits)

definition event_ok :: "payload \<Rightarrow> bool" where
  "event_ok e \<longleftrightarrow> dict_ok e \<and> map_of e ''job_id'' = None"

lemma event_record_get:
  assumes "event_ok e"
  shows "jget (event_record now jid e) ''job_id'' = JStr jid"
    and "k \<notin> {''ts'', ''job_id''} \<Longrightarrow> jget (event_record now jid e) k = jget e k"
    and "k \<notin> {''ts'', ''job_id''} \<Longrightarrow> map_of (event_record now jid e) k = map_of e k"
  using assms
  by (auto simp: event_record_def event_ok_def jget_dict_update map_of_dict_update jget_def dict_get_def
      split: option.splits)

lemma latest_append_event:
  assumes "event_ok e" and "jid \<noteq> []"
  shows "latest_event (append_event now jid e s) j =
         (if j = jid then Some (event_record now jid e) else latest_event s j)"
  using assms by (simp add: latest_event_def events_append_event latest_snoc event_record_get(1) map_of_update)

definition all_statuses :: "job_status list" where
  "all_statuses = [Queued, Running, WaitingInput, Succeeded, FailedJob, CancelledJob]"

definition event_status :: "payload \<Rightarrow> job_status option" where
  "event_status e = find (has_status e) all_statuses"

text \<open>The status map that the log stands for.\<close>

definition statuses :: "sup \<Rightarrow> string \<Rightarrow> job_status option" where
  "statuses s jid = (case latest_event s jid of Some e \<Rightarrow> event_status e | None \<Rightarrow> None)"

lemma job_status_value_inj [simp]: "job_status_value a = job_status_value b \<longleftrightarrow> a = b"
  by (cases a; cases b) simp_all

lemma event_status_eq: "jget e ''status'' = JStr (job_status_value st) \<Longrightarrow> event_status e = Some st"
  by (cases st) (simp_all add: event_status_def all_statuses_def has_status_def)

lemma event_status_Some: "event_status e = Some st \<longleftrightarrow> has_status e st"
proof
  assume "event_status e = Some st"
  then show "has_status e st" by (auto simp: event_status_def find_Some_iff)
next
  assume "has_status e st"
  then show "event_status e = Some st" by (simp add: has_status_def event_status_eq)
qed

lemma statuses_Some: "statuses s jid = Some st \<longleftrightarrow> (\<exists>e. latest_event s jid = Some e \<and> has_status e st)"
  by (simp add: statuses_def event_status_Some split: option.splits)

lemma is_cancelled_iff: "is_cancelled (latest_event s jid) \<longleftrightarrow> statuses s jid = Some CancelledJob"
  by (auto simp: is_cancelled_def statuses_Some split: option.splits)

lemma terminal_state_iff: "terminal_state s jid = JStr (job_status_value st) \<longleftrightarrow> statuses s jid = Some st"
  by (auto simp: terminal_state_def statuses_Some has_status_def split: option.splits)

lemma statuses_append_event:
  assumes "event_ok e" and "jid \<noteq> []" and "jget e ''status'' = JStr (job_status_value st)"
  shows "statuses (append_event now jid e s) = (statuses s)(jid := Some st)"
proof
  fix j
  have "event_status (event_record now jid e) = Some st"
    by (rule event_status_eq) (simp add: event_record_get(2) [OF assms(1)] assms(3))
  then show "statuses (append_event now jid e s) j = ((statuses s)(jid := Some st)) j"
    by (simp add: statuses_def latest_append_event [OF assms(1,2)])
qed

text \<open>The events the supervisor writes.\<close>

definition extra_ok :: "payload \<Rightarrow> bool" where
  "extra_ok x \<longleftrightarrow> dict_ok x \<and> map_of x ''job_id'' = None"

definition lifecycle_event :: "job_spec \<Rightarrow> job_status \<Rightarrow> payload \<Rightarrow> payload" where
  "lifecycle_event spec st extra =
     dict_update extra [(''status'', JStr (job_status_value st)), (''lineage_trust'', JStr (js_lineage_trust spec))]"

lemma append_lifecycle_eq:
  "append_lifecycle_event now spec st extra s = append_event now (js_job_id spec) (lifecycle_event spec st extra) s"
  by (simp add: append_lifecycle_event_def lifecycle_event_def)

lemma lifecycle_event_ok:
  "extra_ok x \<Longrightarrow> event_ok (lifecycle_event spec st x)"
  "jget (lifecycle_event spec st x) ''status'' = JStr (job_status_value st)"
  "jget (lifecycle_event spec st x) ''lineage_trust'' = JStr (js_lineage_trust spec)"
  by (auto simp: lifecycle_event_def event_ok_def extra_ok_def map_of_update jget_def dict_get_def)

lemma extra_ok_simps [simp]:
  "extra_ok []" "extra_ok [(''spec'', v)]" "extra_ok [(''artifact'', v)]"
  "extra_ok ((''error'', v) # (if b then [(''policy'', w)] else []))"
  by (auto simp: extra_ok_def)

lemma statuses_lifecycle [simp]:
  assumes "js_job_id spec \<noteq> []" and "extra_ok x"
  shows "statuses (append_lifecycle_event now spec st x s) = (statuses s)(js_job_id spec := Some st)"
  using assms by (simp add: append_lifecycle_eq statuses_append_event lifecycle_event_ok)

lemma statuses_plain_cancel [simp]:
  "jid \<noteq> [] \<Longrightarrow> statuses (append_event now jid [(''status'', JStr (job_status_value CancelledJob))] s) =
     (statuses s)(jid := Some CancelledJob)"
  by (rule statuses_append_event) (simp_all add: event_ok_def jget_def dict_get_def del: job_status_value.simps)

lemma statuses_containment [simp]:
  "jid \<noteq> [] \<Longrightarrow> statuses (append_event now jid (containment_fields kind st) s) = (statuses s)(jid := Some CancelledJob)"
  "jid \<noteq> [] \<Longrightarrow> statuses (append_event now jid (containment_fields kind st @ [(''containment_detail'', d)]) s) =
     (statuses s)(jid := Some CancelledJob)"
  by (rule statuses_append_event;
      simp add: event_ok_def containment_fields_def jget_def dict_get_def del: job_status_value.simps)+

text \<open>Steps that leave the log alone leave the statuses alone.\<close>

lemma statuses_cong: "jobs_file s = jobs_file t \<Longrightarrow> statuses s = statuses t"
  by (simp add: statuses_def latest_event_def events_def fun_eq_iff)

lemma jobs_file_frames [simp]:
  "jobs_file (set_task tid f s) = jobs_file s" "jobs_file (goto tid pc s) = jobs_file s"
  "jobs_file (pop_active jid s) = jobs_file s" "jobs_file (register_task spec s) = jobs_file s"
  "jobs_file (record_to_gossip b kd spec x s) = jobs_file s" "jobs_file (note_child jid p s) = jobs_file s"
  "jobs_file (clear_child jid p s) = jobs_file s" "jobs_file (process_exit p rc s) = jobs_file s"
  "jobs_file (ensure_containment_task jid s) = jobs_file s" "jobs_file (finish_cleanup jid s) = jobs_file s"
  "jobs_file (attempt_failed jid k s) = jobs_file s" "jobs_file (request_cancel tid s) = jobs_file s"
  "jobs_file (drop_if_mapped jid tid s) = jobs_file s" "jobs_file (restart s) = jobs_file s"
  "jobs_file (announced b tid s) = jobs_file s" "jobs_file (snd (cancel jid s)) = jobs_file s"
  by (simp_all add: set_task_def goto_def pop_active_def register_task_def record_to_gossip_def note_child_def
      clear_child_def process_exit_def ensure_containment_task_def finish_cleanup_def attempt_failed_def
      request_cancel_def drop_if_mapped_def restart_def init_sup_def announced_def cancel_def
      split: option.split task_pc.split)

lemma statuses_frames [simp]:
  "statuses (set_task tid f s) = statuses s" "statuses (goto tid pc s) = statuses s"
  "statuses (pop_active jid s) = statuses s" "statuses (register_task spec s) = statuses s"
  "statuses (record_to_gossip b kd spec x s) = statuses s" "statuses (note_child jid p s) = statuses s"
  "statuses (clear_child jid p s) = statuses s" "statuses (process_exit p rc s) = statuses s"
  "statuses (ensure_containment_task jid s) = statuses s" "statuses (finish_cleanup jid s) = statuses s"
  "statuses (attempt_failed jid k s) = statuses s" "statuses (request_cancel tid s) = statuses s"
  "statuses (drop_if_mapped jid tid s) = statuses s" "statuses (restart s) = statuses s"
  "statuses (announced b tid s) = statuses s" "statuses (snd (cancel jid s)) = statuses s"
  "statuses (s\<lparr>cleanups := c\<rparr>) = statuses s" "statuses (s\<lparr>artifacts := a\<rparr>) = statuses s"
  by (rule statuses_cong; simp)+

lemma other_frames [simp]:
  "sup_tasks (append_event now jid e s) = sup_tasks s" "active (append_event now jid e s) = active s"
  "cleanups (append_event now jid e s) = cleanups s" "artifacts (append_event now jid e s) = artifacts s"
  "children (append_event now jid e s) = children s" "exits (append_event now jid e s) = exits s"
  "cleanup_finished (append_event now jid e s) = cleanup_finished s"
  "sup_tasks (append_lifecycle_event now spec st x s) = sup_tasks s"
  "active (append_lifecycle_event now spec st x s) = active s"
  "cleanups (append_lifecycle_event now spec st x s) = cleanups s"
  "artifacts (append_lifecycle_event now spec st x s) = artifacts s"
  by (simp_all add: append_event_def append_lifecycle_event_def)

lemma goto_fields [simp]:
  "sup_tasks (goto tid pc s) = (sup_tasks s)[tid := (sup_tasks s ! tid)\<lparr>t_pc := pc\<rparr>]"
  "active (goto tid pc s) = active s" "cleanups (goto tid pc s) = cleanups s" "artifacts (goto tid pc s) = artifacts s"
  "children (goto tid pc s) = children s"
  by (simp_all add: goto_def set_task_def)

lemma set_task_fields [simp]:
  "sup_tasks (set_task tid f s) = (sup_tasks s)[tid := f (sup_tasks s ! tid)]"
  "active (set_task tid f s) = active s" "cleanups (set_task tid f s) = cleanups s"
  "artifacts (set_task tid f s) = artifacts s" "children (set_task tid f s) = children s"
  by (simp_all add: set_task_def)

lemma pop_active_fields [simp]:
  "sup_tasks (pop_active jid s) = sup_tasks s" "active (pop_active jid s) = AList.delete jid (active s)"
  "cleanups (pop_active jid s) = cleanups s" "artifacts (pop_active jid s) = artifacts s"
  by (simp_all add: pop_active_def)

lemma gossip_fields [simp]:
  "sup_tasks (record_to_gossip b k' spec x s) = sup_tasks s" "active (record_to_gossip b k' spec x s) = active s"
  "cleanups (record_to_gossip b k' spec x s) = cleanups s" "artifacts (record_to_gossip b k' spec x s) = artifacts s"
  by (simp_all add: record_to_gossip_def)

section \<open>The invariant\<close>

abbreviation task_job :: "sup_task \<Rightarrow> string" where
  "task_job t \<equiv> js_job_id (t_spec t)"

definition task_ok :: "job_status option \<Rightarrow> sup_task \<Rightarrow> bool" where
  "task_ok st t \<longleftrightarrow> task_job t \<noteq> [] \<and> (t_notified t \<longrightarrow> (\<exists>e. t_pc t = Ended e)) \<and>
     (case t_pc t of
        Created \<Rightarrow> st = Some Queued
      | Dispatching \<Rightarrow> st = Some Running
      | Announcing k x \<Rightarrow> (k = ''result'' \<and> st = Some Succeeded) \<or> (k = ''error'' \<and> st = Some FailedJob)
      | Ended Returned \<Rightarrow> st \<in> {Some Succeeded, Some FailedJob}
      | Ended Crashed \<Rightarrow> st \<in> {Some Queued, Some Running}
      | Ended WasCancelled \<Rightarrow> st \<in> {Some Queued, Some FailedJob, Some CancelledJob} \<and>
          (t_notified t \<longrightarrow> st = Some CancelledJob))"

definition sup_inv :: "sup \<Rightarrow> bool" where
  "sup_inv s \<longleftrightarrow>
     (\<forall>i < length (sup_tasks s). task_ok (statuses s (task_job (sup_tasks s ! i))) (sup_tasks s ! i)) \<and>
     distinct (map task_job (sup_tasks s)) \<and>
     dict_ok (active s) \<and> length (active s) \<le> MAX_THREADS \<and>
     (\<forall>jid tid. map_of (active s) jid = Some tid \<longrightarrow>
        tid < length (sup_tasks s) \<and> task_job (sup_tasks s ! tid) = jid) \<and>
     (\<forall>jid c. map_of (cleanups s) jid = Some c \<longrightarrow> jid \<noteq> [] \<and> statuses s jid = Some CancelledJob)"

text \<open>How a job's status may move.\<close>

fun may_follow :: "job_status option \<Rightarrow> job_status \<Rightarrow> bool" where
  "may_follow None st = (st = Queued)"
| "may_follow (Some Queued) st = (st \<in> {Running, CancelledJob})"
| "may_follow (Some Running) st = (st \<in> {Succeeded, FailedJob, CancelledJob})"
| "may_follow (Some WaitingInput) st = False"
| "may_follow (Some Succeeded) st = (st = CancelledJob)"
| "may_follow (Some FailedJob) st = (st = CancelledJob)"
| "may_follow (Some CancelledJob) st = (st = CancelledJob)"

definition lifecycle_step :: "(string \<Rightarrow> job_status option) \<Rightarrow> (string \<Rightarrow> job_status option) \<Rightarrow> bool" where
  "lifecycle_step m m' \<longleftrightarrow> m' = m \<or> (\<exists>jid st. may_follow (m jid) st \<and> m' = m(jid := Some st))"

lemma lifecycle_stay: "m' = m \<Longrightarrow> lifecycle_step m m'"
  by (simp add: lifecycle_step_def)

lemma lifecycle_move: "m' = m(jid := Some st) \<Longrightarrow> may_follow (m jid) st \<Longrightarrow> lifecycle_step m m'"
  by (auto simp: lifecycle_step_def)

lemma task_of_inv:
  assumes "sup_inv s" and "tid < length (sup_tasks s)"
  shows "task_ok (statuses s (task_job (sup_tasks s ! tid))) (sup_tasks s ! tid)"
    and "task_job (sup_tasks s ! tid) \<noteq> []"
  using assms by (auto simp: sup_inv_def task_ok_def)

lemma distinct_jobs:
  assumes "sup_inv s" and "i < length (sup_tasks s)" and "j < length (sup_tasks s)"
    and "task_job (sup_tasks s ! i) = task_job (sup_tasks s ! j)"
  shows "i = j"
  using assms nth_eq_iff_index_eq [of "map task_job (sup_tasks s)" i j] by (auto simp: sup_inv_def)

text \<open>One task moves, and with it at most the status of its job.\<close>

lemma length_delete_le: "length (AList.delete k d) \<le> length d"
  by (simp add: AList.delete_eq)

lemma sup_inv_task:
  assumes inv: "sup_inv s" and tid: "tid < length (sup_tasks s)"
    and tasks: "sup_tasks s' = (sup_tasks s)[tid := t']" and spec: "t_spec t' = t_spec (sup_tasks s ! tid)"
    and others: "\<And>j. j \<noteq> task_job t' \<Longrightarrow> statuses s' j = statuses s j"
    and ok: "task_ok (statuses s' (task_job t')) t'"
    and act: "active s' = active s \<or> active s' = AList.delete (task_job t') (active s)"
    and cl: "cleanups s' = cleanups s"
    and keep: "statuses s (task_job t') = Some CancelledJob \<Longrightarrow> statuses s' (task_job t') = Some CancelledJob"
  shows "sup_inv s'"
proof -
  have job: "task_job t' = task_job (sup_tasks s ! tid)" using spec by simp
  have tj: "map task_job (sup_tasks s') = map task_job (sup_tasks s)"
    using tid by (simp add: tasks map_update job list_update_id flip: job)
      (metis job list_update_id map_update)
  have "task_ok (statuses s' (task_job (sup_tasks s' ! i))) (sup_tasks s' ! i)" if i: "i < length (sup_tasks s')" for i
  proof (cases "i = tid")
    case True
    with ok tid show ?thesis by (simp add: tasks)
  next
    case False
    have "task_job (sup_tasks s ! i) \<noteq> task_job t'"
      using distinct_jobs [OF inv _ tid, of i] False i by (auto simp: tasks job)
    with False i task_of_inv(1) [OF inv, of i] others show ?thesis by (simp add: tasks)
  qed
  moreover have "dict_ok (active s')" and "length (active s') \<le> MAX_THREADS"
    using act inv length_delete_le [of "task_job t'" "active s"] by (auto simp: sup_inv_def)
  moreover have "tid' < length (sup_tasks s') \<and> task_job (sup_tasks s' ! tid') = jid"
    if "map_of (active s') jid = Some tid'" for jid tid'
  proof -
    from that act have "map_of (active s) jid = Some tid'" by (auto simp: map_of_delete split: if_splits)
    with inv have "tid' < length (sup_tasks s)" "task_job (sup_tasks s ! tid') = jid" by (auto simp: sup_inv_def)
    with tid show ?thesis by (cases "tid' = tid") (simp_all add: tasks job)
  qed
  moreover have "jid \<noteq> [] \<and> statuses s' jid = Some CancelledJob" if "map_of (cleanups s') jid = Some c" for jid c
  proof -
    from that cl inv have "jid \<noteq> []" "statuses s jid = Some CancelledJob" by (auto simp: sup_inv_def)
    with keep others show ?thesis by (cases "jid = task_job t'") auto
  qed
  ultimately show ?thesis using inv tj unfolding sup_inv_def by simp
qed

text \<open>Steps that move no task.\<close>

lemma sup_inv_same:
  assumes "sup_inv s" and "sup_tasks s' = sup_tasks s" and "statuses s' = statuses s"
    and "active s' = active s \<or> active s' = AList.delete jid (active s)" and "cleanups s' = cleanups s"
  shows "sup_inv s'"
  using assms length_delete_le [of jid "active s"] unfolding sup_inv_def
  by (auto simp: map_of_delete split: if_splits)

section \<open>Every step keeps the invariant and moves one status along the life cycle\<close>

definition sound_step :: "sup \<Rightarrow> sup \<Rightarrow> bool" where
  "sound_step s s' \<longleftrightarrow> sup_inv s' \<and> lifecycle_step (statuses s) (statuses s')"

lemma sound_stay: "sup_inv s' \<Longrightarrow> statuses s' = statuses s \<Longrightarrow> sound_step s s'"
  by (simp add: sound_step_def lifecycle_stay)

lemma sound_refl: "sup_inv s \<Longrightarrow> sound_step s s"
  by (simp add: sound_stay)

text \<open>The common shape of a worker's own steps.\<close>

lemma worker_step_sound:
  fixes s tid pc
  defines "jid \<equiv> task_job (sup_tasks s ! tid)" and "t' \<equiv> (sup_tasks s ! tid)\<lparr>t_pc := pc\<rparr>"
  assumes inv: "sup_inv s" and tid: "tid < length (sup_tasks s)"
    and tasks: "sup_tasks s' = (sup_tasks s)[tid := t']"
    and st: "statuses s' = (statuses s)(jid := Some x)" and ok: "task_ok (Some x) t'"
    and act: "active s' = active s \<or> active s' = AList.delete jid (active s)"
    and cl: "cleanups s' = cleanups s" and move: "may_follow (statuses s jid) x"
  shows "sound_step s s'"
proof -
  have job: "task_job t' = jid" "t_spec t' = t_spec (sup_tasks s ! tid)" by (simp_all add: t'_def jid_def)
  have "sup_inv s'"
    by (rule sup_inv_task [OF inv tid tasks job(2)]) (use job st ok act cl move in auto)
  with st move show ?thesis by (auto simp: sound_step_def intro: lifecycle_move)
qed

lemma worker_quiet_sound:
  fixes s tid pc
  defines "jid \<equiv> task_job (sup_tasks s ! tid)" and "t' \<equiv> (sup_tasks s ! tid)\<lparr>t_pc := pc\<rparr>"
  assumes inv: "sup_inv s" and tid: "tid < length (sup_tasks s)"
    and tasks: "sup_tasks s' = (sup_tasks s)[tid := t']"
    and st: "statuses s' = statuses s" and ok: "task_ok (statuses s jid) t'"
    and act: "active s' = active s \<or> active s' = AList.delete jid (active s)"
    and cl: "cleanups s' = cleanups s"
  shows "sound_step s s'"
proof -
  have job: "task_job t' = jid" "t_spec t' = t_spec (sup_tasks s ! tid)" by (simp_all add: t'_def jid_def)
  have "sup_inv s'"
    by (rule sup_inv_task [OF inv tid tasks job(2)]) (use job st ok act cl in auto)
  with st show ?thesis by (simp add: sound_stay)
qed

lemma drop_win_endpoint_id [simp]: "js_job_id (drop_win_endpoint spec) = js_job_id spec"
  by (simp add: drop_win_endpoint_def)

lemma length_update_le: "length (AList.update k v d) \<le> Suc (length d)"
  by (simp add: length_update)

lemma submit_sound:
  assumes inv: "sup_inv s" and id: "js_job_id spec \<noteq> []" and new: "\<not> known_job s (js_job_id spec)"
  shows "sound_step s (snd (submit_job host now spec s))"
proof (cases "MAX_DEPTH < js_depth (drop_win_endpoint spec) \<or> MAX_THREADS \<le> length (active s)
    \<or> (\<exists>e. submission_gate host (drop_win_endpoint spec) = Raise e)")
  case True
  then have "snd (submit_job host now spec s) = s" by (auto simp: submit_job_def Let_def)
  with inv show ?thesis by (simp add: sound_refl)
next
  case False
  let ?spec = "drop_win_endpoint spec" and ?jid = "js_job_id spec"
  let ?s1 = "append_lifecycle_event now ?spec Queued [(''spec'', JObj (spec_to_dict ?spec))] s"
  let ?s' = "register_task ?spec ?s1"
  obtain u where g: "submission_gate host ?spec = Ret u"
    using False by (cases "submission_gate host ?spec") auto
  from False g have s': "snd (submit_job host now spec s) = ?s'" by (auto simp: submit_job_def Let_def)
  have le: "length (active s) < MAX_THREADS" using False by auto
  have none: "statuses s ?jid = None" using new by (simp add: known_job_def statuses_def)
  have st: "statuses ?s' = (statuses s)(?jid := Some Queued)" using id by simp
  have tasks: "sup_tasks ?s' = sup_tasks s @ [\<lparr>t_spec = ?spec, t_pc = Created, t_cancel = False, t_notified = False\<rparr>]"
    "active ?s' = AList.update ?jid (length (sup_tasks s)) (active s)" "cleanups ?s' = cleanups s"
    by (simp_all add: register_task_def)
  have fresh: "?jid \<notin> task_job ` set (sup_tasks s)" using new by (simp add: known_job_def)
  then have old: "task_job (sup_tasks s ! i) \<noteq> ?jid" if "i < length (sup_tasks s)" for i
    using that nth_mem by force
  have "sup_inv ?s'"
    unfolding sup_inv_def
  proof (intro conjI allI impI)
    fix i assume "i < length (sup_tasks ?s')"
    then show "task_ok (statuses ?s' (task_job (sup_tasks ?s' ! i))) (sup_tasks ?s' ! i)"
      using id old task_of_inv(1) [OF inv, of i]
      by (cases "i = length (sup_tasks s)") (auto simp: tasks st nth_append task_ok_def less_Suc_eq)
  next
    show "distinct (map task_job (sup_tasks ?s'))" using inv fresh by (simp add: tasks sup_inv_def)
    show "dict_ok (active ?s')" using inv by (simp add: tasks sup_inv_def)
    show "length (active ?s') \<le> MAX_THREADS"
      using le length_update_le [of ?jid "length (sup_tasks s)" "active s"] by (simp add: tasks)
  next
    fix jid tid assume "map_of (active ?s') jid = Some tid"
    then have "(jid = ?jid \<and> tid = length (sup_tasks s)) \<or> map_of (active s) jid = Some tid"
      by (auto simp: tasks map_of_update split: if_splits)
    then show "tid < length (sup_tasks ?s')" "task_job (sup_tasks ?s' ! tid) = jid"
      using inv by (auto simp: tasks nth_append sup_inv_def less_Suc_eq simp del: map_of_eq_Some_iff)
  next
    fix jid c assume "map_of (cleanups ?s') jid = Some c"
    with inv have c: "jid \<noteq> []" "statuses s jid = Some CancelledJob" by (auto simp: tasks sup_inv_def)
    with none have "jid \<noteq> ?jid" by auto
    with c id show "jid \<noteq> []" "statuses ?s' jid = Some CancelledJob" by simp_all
  qed
  with s' st none show ?thesis by (auto simp: sound_step_def intro: lifecycle_move)
qed

lemma worker_spec_id: "sup_inv s \<Longrightarrow> tid < length (sup_tasks s) \<Longrightarrow> js_job_id (spec_of_task s tid) \<noteq> []"
  by (simp add: spec_of_task_def task_of_inv(2))

lemma start_sound:
  assumes "sup_inv s" and "tid < length (sup_tasks s)" and "t_pc (sup_tasks s ! tid) = Created"
  shows "sound_step s (start_worker now tid s)"
  using task_of_inv [OF assms(1,2)] assms
  by (intro worker_step_sound [where tid = tid and pc = "Dispatching" and x = Running])
    (auto simp: start_worker_def spec_of_task_def task_ok_def)

lemma crash_sound:
  assumes "sup_inv s" and "tid < length (sup_tasks s)" and "t_pc (sup_tasks s ! tid) = Created"
  shows "sound_step s (crash_at_start now appended tid s)"
proof (cases appended)
  case True
  with task_of_inv [OF assms(1,2)] assms show ?thesis
    by (intro worker_step_sound [where tid = tid and pc = "Ended Crashed" and x = Running])
      (auto simp: crash_at_start_def spec_of_task_def task_ok_def)
next
  case False
  with task_of_inv [OF assms(1,2)] assms show ?thesis
    by (intro worker_quiet_sound [where tid = tid and pc = "Ended Crashed"])
      (auto simp: crash_at_start_def spec_of_task_def task_ok_def)
qed

lemma succeed_sound:
  assumes "sup_inv s" and "tid < length (sup_tasks s)" and "t_pc (sup_tasks s ! tid) = Dispatching"
  shows "sound_step s (job_succeeded show_float now tid result s)"
  using task_of_inv [OF assms(1,2)] assms
  by (intro worker_step_sound [where tid = tid and pc = "Announcing ''result'' []" and x = Succeeded])
    (auto simp: job_succeeded_def spec_of_task_def task_ok_def Let_def)

lemma fail_sound:
  assumes "sup_inv s" and "tid < length (sup_tasks s)" and "t_pc (sup_tasks s ! tid) = Dispatching"
  shows "sound_step s (job_failed now tid e msg s)"
  using task_of_inv [OF assms(1,2)] assms
  by (intro worker_step_sound [where tid = tid and pc = "Announcing ''error'' ((''detail'', JStr msg) # (if e = HardwareAffinityError then [(''policy'', JBool True)] else []))" and x = FailedJob])
    (auto simp: job_failed_def spec_of_task_def task_ok_def Let_def)

lemma announce_sound:
  assumes "sup_inv s" and "tid < length (sup_tasks s)" and "t_pc (sup_tasks s ! tid) = Announcing k x"
  shows "sound_step s (announced emitted tid s)"
  using task_of_inv [OF assms(1,2)] assms
  by (intro worker_quiet_sound [where tid = tid and pc = "Ended Returned"])
    (auto simp: announced_def spec_of_task_def task_ok_def)

lemma deliver_sound:
  assumes inv: "sup_inv s" and tid: "tid < length (sup_tasks s)"
  shows "sound_step s (deliver_cancel now tid s)"
proof -
  note t = task_of_inv [OF inv tid]
  show ?thesis
  proof (cases "t_pc (sup_tasks s ! tid)")
    case Created
    with t assms show ?thesis
      by (intro worker_quiet_sound [where tid = tid and pc = "Ended WasCancelled"]) (auto simp: deliver_cancel_def Let_def task_ok_def)
  next
    case Dispatching
    with t assms show ?thesis
      by (intro worker_step_sound [where tid = tid and pc = "Ended WasCancelled" and x = CancelledJob])
        (auto simp: deliver_cancel_def Let_def spec_of_task_def task_ok_def)
  next
    case (Announcing k x)
    show ?thesis
    proof (cases "k = ''result''")
      case True
      with Announcing t assms show ?thesis
        by (intro worker_step_sound [where tid = tid and pc = "Ended WasCancelled" and x = CancelledJob])
          (auto simp: deliver_cancel_def Let_def spec_of_task_def task_ok_def)
    next
      case False
      with Announcing t assms show ?thesis
        by (intro worker_quiet_sound [where tid = tid and pc = "Ended WasCancelled"])
          (auto simp: deliver_cancel_def Let_def spec_of_task_def task_ok_def)
    qed
  next
    case (Ended e)
    with inv show ?thesis by (simp add: deliver_cancel_def Let_def sound_refl)
  qed
qed

lemma request_sound:
  assumes inv: "sup_inv s"
  shows "sound_step s (snd (cancel jid s))"
proof (cases "map_of (active s) jid")
  case (Some tid)
  show ?thesis
  proof (cases "ended s tid")
    case False
    from inv Some have tid: "tid < length (sup_tasks s)" by (auto simp: sup_inv_def simp del: map_of_eq_Some_iff)
    let ?t = "(sup_tasks s ! tid)\<lparr>t_cancel := True\<rparr>"
    have s': "snd (cancel jid s) = set_task tid (\<lambda>t. t\<lparr>t_cancel := True\<rparr>) s"
      using Some False by (simp add: cancel_def request_cancel_def)
    have "task_ok st ?t = task_ok st (sup_tasks s ! tid)" for st
      by (simp add: task_ok_def split: task_pc.split task_end.split)
    with task_of_inv [OF inv tid] have "sup_inv (set_task tid (\<lambda>t. t\<lparr>t_cancel := True\<rparr>) s)"
      by (intro sup_inv_task [OF inv tid, where t' = ?t]) auto
    with s' show ?thesis by (simp add: sound_stay)
  qed (use Some inv in \<open>simp add: cancel_def sound_refl\<close>)
qed (use inv in \<open>simp add: cancel_def sound_refl\<close>)

text \<open>Confirming a cancelled task: the entry goes, the log says so.\<close>

lemma drop_fields [simp]:
  "sup_tasks (drop_if_mapped jid tid s) = sup_tasks s" "cleanups (drop_if_mapped jid tid s) = cleanups s"
  "artifacts (drop_if_mapped jid tid s) = artifacts s"
  by (simp_all add: drop_if_mapped_def)

lemma confirm_statuses:
  assumes "jid \<noteq> []"
  shows "statuses (confirm_cancelled now jid tid s) = (statuses s)(jid := Some CancelledJob)"
proof (cases "is_cancelled (latest_event (drop_if_mapped jid tid s) jid)")
  case True
  then have "statuses s jid = Some CancelledJob" by (simp add: is_cancelled_iff)
  with True show ?thesis by (auto simp: confirm_cancelled_def Let_def)
next
  case False
  with assms show ?thesis
    by (simp add: confirm_cancelled_def Let_def del: job_status_value.simps)
qed

lemma confirm_fields:
  "sup_tasks (confirm_cancelled now jid tid s) = sup_tasks s" "cleanups (confirm_cancelled now jid tid s) = cleanups s"
  "artifacts (confirm_cancelled now jid tid s) = artifacts s"
  "active (confirm_cancelled now jid tid s) = active s \<or> active (confirm_cancelled now jid tid s) = AList.delete jid (active s)"
  by (simp_all add: confirm_cancelled_def Let_def) (simp add: drop_if_mapped_def)

lemma confirm_sound:
  assumes inv: "sup_inv s" and tid: "tid < length (sup_tasks s)" and jid: "jid = task_job (sup_tasks s ! tid)"
    and pc: "t_pc (sup_tasks s ! tid) = Ended WasCancelled"
  shows "sound_step s (confirm_cancelled now jid tid s)"
proof -
  note t = task_of_inv [OF inv tid]
  have "sup_inv (confirm_cancelled now jid tid s)"
    using t jid pc confirm_fields(4) [of now jid tid s]
    by (intro sup_inv_task [OF inv tid, where t' = "sup_tasks s ! tid"])
      (auto simp: confirm_fields confirm_statuses task_ok_def)
  moreover have "lifecycle_step (statuses s) (statuses (confirm_cancelled now jid tid s))"
    using t jid pc by (intro lifecycle_move [where jid = jid and st = CancelledJob])
      (auto simp: confirm_statuses task_ok_def)
  ultimately show ?thesis by (simp add: sound_step_def)
qed

lemma after_worker_wait_sound:
  assumes inv: "sup_inv s" and tid: "tid < length (sup_tasks s)" and jid: "jid = task_job (sup_tasks s ! tid)"
  shows "sound_step s (after_worker_wait now jid tid s)"
  using confirm_sound [OF assms] sound_refl [OF inv] by (simp add: after_worker_wait_def)

lemma ensure_fields [simp]:
  "sup_tasks (ensure_containment_task jid s) = sup_tasks s" "active (ensure_containment_task jid s) = active s"
  "artifacts (ensure_containment_task jid s) = artifacts s"
  by (simp_all add: ensure_containment_task_def)

lemma ensure_sound:
  assumes inv: "sup_inv s" and c: "statuses s jid = Some CancelledJob" and id: "jid \<noteq> []"
  shows "sound_step s (ensure_containment_task jid s)"
proof -
  have "sup_inv (ensure_containment_task jid s)"
    using inv c id unfolding sup_inv_def
    by (auto simp: ensure_containment_task_def map_of_update statuses_frames split: if_splits
        simp del: map_of_eq_Some_iff)
  then show ?thesis by (simp add: sound_stay)
qed

lemma sound_then:
  assumes "sound_step s t" and "sound_step t u" and "statuses u = statuses t"
  shows "sound_step s u"
  using assms by (simp add: sound_step_def)

lemma callback_sound:
  assumes inv: "sup_inv s" and tid: "tid < length (sup_tasks s)" and e: "ended s tid"
  shows "sound_step s (on_cancelled_worker_done now tid s)"
proof -
  let ?jid = "task_job (sup_tasks s ! tid)" and ?t = "(sup_tasks s ! tid)\<lparr>t_notified := True\<rparr>"
  let ?s0 = "set_task tid (\<lambda>t. t\<lparr>t_notified := True\<rparr>) s"
  note t = task_of_inv [OF inv tid]
  show ?thesis
  proof (cases "t_pc (sup_tasks s ! tid) = Ended WasCancelled")
    case False
    with t e have "sup_inv ?s0"
      by (intro sup_inv_task [OF inv tid, where t' = ?t])
        (auto simp: task_ok_def ended_def split: task_pc.splits task_end.splits)
    with False show ?thesis by (simp add: on_cancelled_worker_done_def Let_def sound_stay)
  next
    case True
    let ?s1 = "confirm_cancelled now ?jid tid ?s0"
    have st: "statuses ?s1 = (statuses s)(?jid := Some CancelledJob)"
      using t by (simp add: confirm_statuses)
    have "sup_inv ?s1"
      using t True confirm_fields(4) [of now ?jid tid ?s0]
      by (intro sup_inv_task [OF inv tid, where t' = ?t])
        (auto simp: confirm_fields confirm_statuses task_ok_def)
    moreover have "lifecycle_step (statuses s) (statuses ?s1)"
      using t True by (intro lifecycle_move [OF st]) (auto simp: task_ok_def)
    ultimately have one: "sound_step s ?s1" by (simp add: sound_step_def)
    have two: "sound_step ?s1 (ensure_containment_task ?jid ?s1)"
      using one t st by (intro ensure_sound) (auto simp: sound_step_def)
    from True one sound_then [OF one two] show ?thesis
      by (simp add: on_cancelled_worker_done_def Let_def spec_of_task_def)
  qed
qed

text \<open>Cleanups only ever repeat the cancelled status.\<close>

lemma sup_inv_cleanups:
  assumes inv: "sup_inv s" and "sup_tasks s' = sup_tasks s" and "active s' = active s" and "statuses s' = statuses s"
    and cl: "\<And>j c. map_of (cleanups s') j = Some c \<Longrightarrow> \<exists>c'. map_of (cleanups s) j = Some c'"
  shows "sup_inv s'"
  using assms unfolding sup_inv_def by (simp del: map_of_eq_Some_iff)

lemma cleanup_fields [simp]:
  "sup_tasks (finish_cleanup jid s) = sup_tasks s" "active (finish_cleanup jid s) = active s"
  "artifacts (finish_cleanup jid s) = artifacts s"
  "sup_tasks (attempt_failed jid k s) = sup_tasks s" "active (attempt_failed jid k s) = active s"
  "artifacts (attempt_failed jid k s) = artifacts s"
  "sup_tasks (clear_child jid p s) = sup_tasks s" "active (clear_child jid p s) = active s"
  "cleanups (clear_child jid p s) = cleanups s" "artifacts (clear_child jid p s) = artifacts s"
  by (simp_all add: finish_cleanup_def attempt_failed_def clear_child_def)

lemma cleanup_maps:
  "map_of (cleanups (finish_cleanup jid s)) j = (if j = jid then None else map_of (cleanups s) j)"
  "map_of (cleanups (attempt_failed jid k s)) j =
     (if j = jid then (if CONTAINMENT_ANNOTATION_ATTEMPTS \<le> k then None else Some (Attempt (Suc k)))
      else map_of (cleanups s) j)"
  by (simp_all add: finish_cleanup_def attempt_failed_def map_of_delete map_of_update)

lemma cleanup_step_cases:
  assumes "map_of (cleanups s) jid = Some c"
  obtains (wait) k p where "c = Attempt k" "map_of (children s) jid = Some p"
      "cleanup_step env jid s = s\<lparr>cleanups := AList.update jid (Terminating k p) (cleanups s)\<rparr>"
    | (plain) k where "c = Attempt k" "map_of (children s) jid = None" "cleanup_ok env"
      "cleanup_step env jid s = finish_cleanup jid
         (append_event (cleanup_now env) jid (containment_fields ''in-process'' ''not-applicable'') s)"
    | (killed) k p where "c = Terminating k p" "cleanup_ok env"
      "cleanup_step env jid s = finish_cleanup jid (clear_child jid p (append_event (cleanup_now env) jid
         (containment_fields ''cli'' (containment_state_of s p (tree_status env))
          @ [(''containment_detail'', JStr (tree_status env))]) s))"
    | (retry) k where "c = Attempt k \<or> (\<exists>p. c = Terminating k p)" "\<not> cleanup_ok env"
      "cleanup_step env jid s = attempt_failed jid k s"
proof (cases c)
  case (Attempt k)
  show ?thesis
  proof (cases "map_of (children s) jid")
    case None
    with Attempt assms plain [of k] retry [of k] show ?thesis
      by (cases "cleanup_ok env") (simp_all add: cleanup_step_def)
  next
    case (Some p)
    with Attempt assms wait [of k p] show ?thesis by (simp add: cleanup_step_def)
  qed
next
  case (Terminating k p)
  with assms killed [of k p] retry [of k] show ?thesis
    by (cases "cleanup_ok env") (simp_all add: cleanup_step_def)
qed

lemma clean_sound:
  assumes inv: "sup_inv s"
  shows "sound_step s (cleanup_step env jid s)"
proof (cases "map_of (cleanups s) jid")
  case None
  then have "cleanup_step env jid s = s" by (simp add: cleanup_step_def)
  with inv show ?thesis by (simp add: sound_refl)
next
  case (Some c)
  with inv have id: "jid \<noteq> []" "statuses s jid = Some CancelledJob"
    by (auto simp: sup_inv_def simp del: map_of_eq_Some_iff)
  then have same: "(statuses s)(jid := Some CancelledJob) = statuses s" by auto
  from Some show ?thesis
  proof (cases rule: cleanup_step_cases [where env = env])
    case (wait k p)
    have "sup_inv (s\<lparr>cleanups := AList.update jid (Terminating k p) (cleanups s)\<rparr>)"
      by (rule sup_inv_cleanups [OF inv]) (use Some in \<open>auto simp: map_of_update split: if_splits\<close>)
    with wait show ?thesis by (simp add: sound_stay)
  next
    case (plain k)
    then have "statuses (cleanup_step env jid s) = statuses s" using id same by simp
    moreover from plain this have "sup_inv (cleanup_step env jid s)"
      by (intro sup_inv_cleanups [OF inv]) (auto simp: cleanup_maps split: if_splits)
    ultimately show ?thesis by (rule sound_stay [rotated])
  next
    case (killed k p)
    then have "statuses (cleanup_step env jid s) = statuses s" using id same by simp
    moreover from killed this have "sup_inv (cleanup_step env jid s)"
      by (intro sup_inv_cleanups [OF inv]) (auto simp: cleanup_maps split: if_splits)
    ultimately show ?thesis by (rule sound_stay [rotated])
  next
    case (retry k)
    then have "statuses (cleanup_step env jid s) = statuses s" by simp
    moreover from retry this Some have "sup_inv (cleanup_step env jid s)"
      by (intro sup_inv_cleanups [OF inv]) (auto simp: cleanup_maps split: if_splits)
    ultimately show ?thesis by (rule sound_stay [rotated])
  qed
qed

lemma init_inv: "sup_inv (init_sup file arts)"
  by (simp add: sup_inv_def init_sup_def)

lemma map_frames:
  "sup_tasks (note_child jid p s) = sup_tasks s" "active (note_child jid p s) = active s"
  "cleanups (note_child jid p s) = cleanups s" "artifacts (note_child jid p s) = artifacts s"
  "sup_tasks (process_exit p rc s) = sup_tasks s" "active (process_exit p rc s) = active s"
  "cleanups (process_exit p rc s) = cleanups s" "artifacts (process_exit p rc s) = artifacts s"
  by (simp_all add: note_child_def process_exit_def split: option.split)

lemma latest_event_nonempty: "latest_event s jid \<noteq> None \<Longrightarrow> jid \<noteq> []"
proof -
  have "map_of (latest_status_per_job evs) (JStr []) = None" for evs
    by (induction evs rule: rev_induct) (simp_all add: latest_snoc map_of_update, metis truthy.simps(5))
  then show "latest_event s jid \<noteq> None \<Longrightarrow> jid \<noteq> []" by (auto simp: latest_event_def)
qed

lemma frame_sound:
  assumes "sup_inv s" and "sup_tasks s' = sup_tasks s" and "statuses s' = statuses s"
    and "active s' = active s" and "cleanups s' = cleanups s"
  shows "sound_step s s'"
  using sup_inv_same [OF assms(1-3) _ assms(5)] assms(3,4) by (blast intro: sound_stay)

lemma restart_sound: "sound_step s (restart s)"
  by (rule sound_stay) (simp_all only: statuses_frames, simp add: restart_def init_inv)

theorem step_sound:
  assumes "sup_step host show_float s s'" and "sup_inv s"
  shows "sound_step s s'"
  using assms
proof (induction rule: sup_step.induct)
  case (submit spec s now)
  then show ?case by (simp add: submit_sound)
next
  case (start tid s now)
  then show ?case by (simp add: start_sound)
next
  case (crash tid s now appended)
  then show ?case by (simp add: crash_sound)
next
  case (succeed tid s now result)
  then show ?case by (simp add: succeed_sound)
next
  case (fail tid s now e msg)
  then show ?case by (simp add: fail_sound)
next
  case (announce tid s k x emitted)
  then show ?case by (simp add: announce_sound)
next
  case (request s jid)
  then show ?case by (simp add: request_sound)
next
  case (deliver tid s now)
  then show ?case by (simp add: deliver_sound)
next
  case (callback tid s now)
  then show ?case by (simp add: callback_sound)
next
  case (confirm tid s jid now)
  then show ?case by (simp add: after_worker_wait_sound spec_of_task_def)
next
  case (contain s jid)
  have "statuses s jid = Some CancelledJob" using contain by (simp add: is_cancelled_iff)
  moreover have "jid \<noteq> []"
    using contain by (intro latest_event_nonempty [of s]) (auto simp: is_cancelled_def split: option.splits)
  ultimately show ?case using contain by (simp add: ensure_sound)
next
  case (clean s env jid)
  then show ?case by (simp add: clean_sound)
next
  case (noted tid s p)
  show ?case by (rule frame_sound [OF noted(3)]) (simp_all add: map_frames)
next
  case (cleared tid s p)
  show ?case by (rule frame_sound [OF cleared(3)]) simp_all
next
  case (exited s p rc)
  show ?case by (rule frame_sound [OF exited]) (simp_all add: map_frames)
next
  case (stop s)
  show ?case by (rule restart_sound)
qed

lemma steps_inv: "sup_steps host show_float s s' \<Longrightarrow> sup_inv s \<Longrightarrow> sup_inv s'"
  by (induction rule: sup_steps.induct) (auto dest: step_sound simp: sound_step_def)

section \<open>The life cycle as an abstract machine\<close>

text \<open>C3: Every step of every run of the supervisor moves the status of at most one job, along an edge of
  the job life cycle.\<close>

theorem supervisor_refines_lifecycle:
  assumes "sup_steps host show_float (init_sup file arts) s" and "sup_step host show_float s s'"
  shows "lifecycle_step (statuses s) (statuses s')"
  using step_sound [OF assms(2) steps_inv [OF assms(1) init_inv]] by (simp add: sound_step_def)

text \<open>In every reachable state each task is where the log says its job is, no two tasks share a job,
  at most twenty-five jobs are active and only cancelled jobs are being cleaned up.\<close>

theorem reachable_invariant:
  assumes "sup_steps host show_float (init_sup file arts) s"
  shows "sup_inv s"
  by (rule steps_inv [OF assms init_inv])

lemma may_follow_cancelled: "may_follow (Some CancelledJob) st \<Longrightarrow> st = CancelledJob"
  by simp

lemma lifecycle_cancelled:
  "lifecycle_step m m' \<Longrightarrow> m jid = Some CancelledJob \<Longrightarrow> m' jid = Some CancelledJob"
  by (auto simp: lifecycle_step_def split: if_splits)

lemma steps_cancelled:
  assumes "sup_steps host show_float s t" and "sup_inv s" and "statuses s jid = Some CancelledJob"
  shows "statuses t jid = Some CancelledJob"
  using assms
proof (induction rule: sup_steps.induct)
  case (more s t u)
  have "sup_inv t" by (rule steps_inv [OF more.hyps(1) more.prems(1)])
  from step_sound [OF more.hyps(2) this] more show ?case
    by (auto simp: sound_step_def intro: lifecycle_cancelled)
qed

section \<open>What a cancellation reports\<close>

text \<open>
  A caller that is told \<open>cancelled\<close> may rely on it: the log says so when the call returns, and no
  later step takes it back.  \<open>worker_wait\<close> and \<open>cleanup_wait\<close> are any steps of the other tasks.
\<close>

lemma steps_trans:
  "sup_steps host show_float t u \<Longrightarrow> sup_steps host show_float s t \<Longrightarrow> sup_steps host show_float s u"
  by (induction rule: sup_steps.induct) (auto intro: sup_steps.more)

lemma steps_one: "sup_step host show_float s t \<Longrightarrow> sup_steps host show_float s t"
  by (rule sup_steps.more [OF sup_steps.none])

definition waits :: "host \<Rightarrow> (rat \<Rightarrow> string) \<Rightarrow> (sup \<Rightarrow> sup) \<Rightarrow> bool" where
  "waits host show_float f \<longleftrightarrow> (\<forall>s. sup_steps host show_float s (f s) \<and> length (sup_tasks s) \<le> length (sup_tasks (f s))
     \<and> (\<forall>tid < length (sup_tasks s). spec_of_task (f s) tid = spec_of_task s tid))"

lemma wait_steps: "waits host show_float f \<Longrightarrow> sup_steps host show_float s (f s)"
  by (simp add: waits_def)

lemma request_step:
  assumes "map_of (active s) jid = Some tid" and "\<not> ended s tid"
  shows "sup_step host show_float s (request_cancel tid s)"
  using sup_step.request [of host show_float s jid] assms by (simp add: cancel_def)

lemma request_fields:
  "length (sup_tasks (request_cancel tid s)) = length (sup_tasks s)"
  "spec_of_task (request_cancel tid s) i = spec_of_task s i"
  by (simp_all add: request_cancel_def set_task_def spec_of_task_def)
    (cases "tid < length (sup_tasks s)"; cases "i = tid"; simp add: list_update_beyond)

lemma contain_steps:
  assumes "statuses s jid = Some CancelledJob" and "waits host show_float f"
  shows "sup_steps host show_float s (f (ensure_containment_task jid s))"
proof -
  have "sup_step host show_float s (ensure_containment_task jid s)"
    by (rule sup_step.contain) (simp add: is_cancelled_iff assms(1))
  from steps_trans [OF wait_steps [OF assms(2)] steps_one [OF this]] show ?thesis .
qed

lemma cancel_is_steps:
  assumes inv: "sup_inv s" and w: "waits host show_float worker_wait" and c: "waits host show_float cleanup_wait"
    and r: "cancel_with_terminal_state now jid worker_wait cleanup_wait s = ((req, terminal), s')"
  shows "sup_steps host show_float s s' \<and>
         (terminal = JStr (job_status_value CancelledJob) \<longrightarrow> statuses s' jid = Some CancelledJob)"
proof (cases "map_of (cleanups s) jid")
  case (Some cl)
  with r have s': "s' = cleanup_wait s" "terminal = terminal_state s' jid"
    by (auto simp: cancel_with_terminal_state_def Let_def)
  with wait_steps [OF c] show ?thesis by (simp add: terminal_state_iff del: job_status_value.simps)
next
  case None
  let ?live = "case map_of (active s) jid of Some tid \<Rightarrow> if ended s tid then None else Some tid | None \<Rightarrow> None"
  show ?thesis
  proof (cases ?live)
    case (Some tid)
    then have a: "map_of (active s) jid = Some tid" "\<not> ended s tid" by (auto split: option.splits if_splits)
    with inv have tid: "tid < length (sup_tasks s)" "task_job (sup_tasks s ! tid) = jid"
      by (auto simp: sup_inv_def simp del: map_of_eq_Some_iff)
    let ?s0 = "request_cancel tid s" and ?s1 = "worker_wait (request_cancel tid s)"
    let ?s2 = "after_worker_wait now jid tid ?s1"
    have "tid < length (sup_tasks ?s0)" using tid by (simp add: request_fields)
    moreover from w have "length (sup_tasks ?s0) \<le> length (sup_tasks ?s1)"
      and "\<forall>i < length (sup_tasks ?s0). spec_of_task ?s1 i = spec_of_task ?s0 i" by (simp_all add: waits_def)
    ultimately have "tid < length (sup_tasks ?s1)" "js_job_id (spec_of_task ?s1 tid) = jid"
      using tid by (auto simp: request_fields) (simp add: spec_of_task_def)
    then have "sup_step host show_float ?s1 ?s2" by (intro sup_step.confirm) auto
    then have steps: "sup_steps host show_float s ?s2"
      by (intro sup_steps.more [OF steps_trans [OF wait_steps [OF w] steps_one [OF request_step [OF a]]]])
    show ?thesis
    proof (cases "statuses ?s2 jid = Some CancelledJob")
      case True
      with r None Some have s': "s' = cleanup_wait (ensure_containment_task jid ?s2)"
        by (auto simp: cancel_with_terminal_state_def Let_def terminal_state_iff simp del: job_status_value.simps)
      have last: "sup_steps host show_float ?s2 s'" unfolding s' by (rule contain_steps [OF True c])
      from steps_cancelled [OF last steps_inv [OF steps inv] True] steps_trans [OF last steps] show ?thesis by simp
    next
      case False
      with r None Some have "s' = ?s2" "terminal = terminal_state s' jid"
        by (auto simp: cancel_with_terminal_state_def Let_def terminal_state_iff simp del: job_status_value.simps)
      with steps show ?thesis by (simp add: terminal_state_iff del: job_status_value.simps)
    qed
  next
    case no_task: None
    show ?thesis
    proof (cases "statuses s jid = Some CancelledJob \<and> has_registered_child jid s")
      case True
      with r None no_task have s': "s' = cleanup_wait (ensure_containment_task jid s)"
        by (auto simp: cancel_with_terminal_state_def Let_def terminal_state_iff simp del: job_status_value.simps)
      have last: "sup_steps host show_float s s'" unfolding s' by (rule contain_steps [OF _ c]) (use True in simp)
      from steps_cancelled [OF last inv] True last show ?thesis by simp
    next
      case False
      with r None no_task have "s' = s" "terminal = terminal_state s' jid"
        by (auto simp: cancel_with_terminal_state_def Let_def terminal_state_iff simp del: job_status_value.simps)
      then show ?thesis by (simp add: terminal_state_iff sup_steps.none del: job_status_value.simps)
    qed
  qed
qed

text \<open>C7: When a cancellation reports the cancelled state, the job is cancelled in the log then and in
  every later state, whatever the other tasks do meanwhile and afterwards.\<close>

theorem reported_cancellation_is_final:
  assumes "sup_steps host show_float (init_sup file arts) s"
    and "waits host show_float worker_wait" and "waits host show_float cleanup_wait"
    and "cancel_with_terminal_state now jid worker_wait cleanup_wait s = ((req, JStr ''cancelled''), s')"
    and "sup_steps host show_float s' t"
  shows "statuses t jid = Some CancelledJob"
proof -
  have inv: "sup_inv s" by (rule steps_inv [OF assms(1) init_inv])
  from cancel_is_steps [OF inv assms(2-4)]
  have "sup_steps host show_float s s'" and c: "statuses s' jid = Some CancelledJob" by simp_all
  from steps_cancelled [OF assms(5) steps_inv [OF this(1) inv] c] show ?thesis .
qed

end
