(* ===== verification/SupervisorSafety.thy ===== *)
theory SupervisorSafety
  imports SupervisorRuns
begin

text \<open>
  What the supervisor's files and counters promise over every run: a success has its artifact, an
  artifact stays within its cap, \<open>verified\<close> is written only for a process that has exited; cleanups
  and waits end; and what a crash at the start of a worker and a restart leave behind.
\<close>

section \<open>Events and artifacts\<close>

definition event_honest :: "(string, json) dict \<Rightarrow> payload \<Rightarrow> bool" where
  "event_honest arts e \<longleftrightarrow>
     (has_status e Succeeded \<longrightarrow> (\<exists>jid. jget e ''job_id'' = JStr jid \<and> map_of arts jid \<noteq> None)) \<and>
     (jget e ''containment_state'' = JStr ''verified'' \<longrightarrow>
        jget e ''worker_kind'' = JStr ''cli'' \<and> jget e ''containment_detail'' = JStr ''contained'')"

definition files_ok :: "(rat \<Rightarrow> string) \<Rightarrow> sup \<Rightarrow> bool" where
  "files_ok show_float s \<longleftrightarrow>
     list_all (event_honest (artifacts s)) (events s) \<and>
     (\<forall>jid v. map_of (artifacts s) jid = Some v \<longrightarrow> (\<exists>r. v = artifact_for show_float r))"

lemma event_honest_more:
  "event_honest a e \<Longrightarrow> (\<And>jid. map_of a jid \<noteq> None \<Longrightarrow> map_of b jid \<noteq> None) \<Longrightarrow> event_honest b e"
  unfolding event_honest_def by blast

lemma files_ok_same:
  "files_ok show_float s \<Longrightarrow> jobs_file s' = jobs_file s \<Longrightarrow> artifacts s' = artifacts s \<Longrightarrow> files_ok show_float s'"
  by (simp add: files_ok_def events_def)

lemma files_ok_append:
  assumes "files_ok show_float s" and "jobs_file s' = jobs_file (append_event now jid e s)" and "artifacts s' = artifacts s"
    and "event_honest (artifacts s) (event_record now jid e)"
  shows "files_ok show_float s'"
proof -
  have "events s' = events s @ [event_record now jid e]"
    using assms(2) by (simp add: events_def append_event_def append_to_log_def load_events_append)
  with assms show ?thesis by (simp add: files_ok_def)
qed

lemma event_honestI:
  assumes "event_ok e" and "\<not> has_status e Succeeded"
    and "jget e ''containment_state'' = JStr ''verified'' \<Longrightarrow>
         jget e ''worker_kind'' = JStr ''cli'' \<and> jget e ''containment_detail'' = JStr ''contained''"
  shows "event_honest a (event_record now jid e)"
  using assms by (simp add: event_honest_def has_status_def event_record_get)

lemma honest_lifecycle:
  assumes "extra_ok x" and "map_of x ''containment_state'' = None" and "st \<noteq> Succeeded"
  shows "event_honest a (event_record now jid (lifecycle_event spec st x))"
proof (rule event_honestI)
  show "event_ok (lifecycle_event spec st x)" by (rule lifecycle_event_ok(1) [OF assms(1)])
  show "\<not> has_status (lifecycle_event spec st x) Succeeded"
    using assms(3) by (simp add: has_status_def lifecycle_event_ok(2) del: job_status_value.simps)
qed (use assms(2) in \<open>simp add: lifecycle_event_def jget_def dict_get_def map_of_update\<close>)

lemma honest_plain:
  "event_honest a (event_record now jid [(''status'', JStr (job_status_value CancelledJob))])"
  by (rule event_honestI) (simp_all add: event_ok_def has_status_def jget_def dict_get_def)

lemma honest_in_process:
  "event_honest a (event_record now jid (containment_fields ''in-process'' ''not-applicable''))"
  by (rule event_honestI) (simp_all add: event_ok_def has_status_def jget_def dict_get_def containment_fields_def)

lemma honest_cli:
  "event_honest a (event_record now jid (containment_fields ''cli'' (containment_state_of s p st)
     @ [(''containment_detail'', JStr st)]))"
  by (rule event_honestI)
    (simp_all add: event_ok_def has_status_def jget_def dict_get_def containment_fields_def containment_state_of_def
      split: if_splits)

lemma files_ok_lifecycle:
  assumes "files_ok show_float s" and "jobs_file s' = jobs_file (append_lifecycle_event now spec st x s)"
    and "artifacts s' = artifacts s" and "extra_ok x" and "map_of x ''containment_state'' = None" and "st \<noteq> Succeeded"
  shows "files_ok show_float s'"
  by (rule files_ok_append [OF assms(1) assms(2) [unfolded append_lifecycle_eq] assms(3) honest_lifecycle [OF assms(4-6)]])

lemma announced_artifacts [simp]: "artifacts (announced b tid s) = artifacts s"
  by (simp add: announced_def split: task_pc.split)

lemma cancel_artifacts [simp]: "artifacts (snd (cancel jid s)) = artifacts s"
  by (simp add: cancel_def request_cancel_def split: option.split)

lemma files_ok_confirm: "files_ok show_float s \<Longrightarrow> files_ok show_float (confirm_cancelled now jid tid s)"
proof (cases "is_cancelled (latest_event (drop_if_mapped jid tid s) jid)")
  case True
  moreover assume "files_ok show_float s"
  ultimately show ?thesis by (auto simp: confirm_cancelled_def Let_def intro: files_ok_same)
next
  case False
  assume ok: "files_ok show_float s"
  show ?thesis
    by (rule files_ok_append [OF ok _ _ honest_plain [of _ now jid]])
      (use False in \<open>simp_all add: confirm_cancelled_def Let_def append_event_def del: job_status_value.simps\<close>)
qed

lemma files_ok_clean: "files_ok show_float s \<Longrightarrow> files_ok show_float (cleanup_step env jid s)"
proof (cases "map_of (cleanups s) jid")
  case None
  moreover assume "files_ok show_float s"
  ultimately show ?thesis by (simp add: cleanup_step_def)
next
  case (Some c)
  assume ok: "files_ok show_float s"
  from Some show ?thesis
  proof (cases rule: cleanup_step_cases [where env = env])
    case (wait k p)
    with ok show ?thesis by (auto intro: files_ok_same)
  next
    case (plain k)
    show ?thesis
      by (rule files_ok_append [OF ok _ _ honest_in_process]) (simp_all only: plain jobs_file_frames cleanup_fields other_frames)
  next
    case (killed k p)
    show ?thesis
      by (rule files_ok_append [OF ok _ _ honest_cli]) (simp_all only: killed jobs_file_frames cleanup_fields other_frames)
  next
    case (retry k)
    with ok show ?thesis by (auto intro: files_ok_same)
  qed
qed

lemma files_ok_succeed:
  assumes ok: "files_ok show_float s"
  shows "files_ok show_float (job_succeeded show_float now tid result s)"
proof -
  let ?spec = "spec_of_task s tid"
  let ?x = "[(''artifact'', JStr (artifact_path (js_job_id ?spec)))]"
  let ?e = "lifecycle_event ?spec Succeeded ?x"
  let ?s' = "job_succeeded show_float now tid result s"
  have ev: "events ?s' = events s @ [event_record now (js_job_id ?spec) ?e]"
    by (simp add: job_succeeded_def Let_def append_lifecycle_eq events_def append_event_def append_to_log_def
        load_events_append)
  have art: "artifacts ?s' = AList.update (js_job_id ?spec) (artifact_for show_float result) (artifacts s)"
    by (simp add: job_succeeded_def Let_def)
  have e: "event_ok ?e" by (rule lifecycle_event_ok) simp
  have "jget ?e ''containment_state'' = JNull"
    by (simp add: lifecycle_event_def jget_def dict_get_def map_of_update)
  then have "event_honest (artifacts ?s') (event_record now (js_job_id ?spec) ?e)"
    by (simp add: event_honest_def event_record_get [OF e] art map_of_update)
  moreover have "event_honest (artifacts ?s') x" if "event_honest (artifacts s) x" for x
    by (rule event_honest_more [OF that]) (simp add: art map_of_update)
  ultimately show ?thesis
    using ok unfolding files_ok_def ev list_all_append
    by (auto simp: list_all_iff art map_of_update split: if_splits)
qed

lemma files_ok_submit:
  assumes ok: "files_ok show_float s"
  shows "files_ok show_float (snd (submit_job host now spec s))"
proof (cases "MAX_DEPTH < js_depth (drop_win_endpoint spec) \<or> MAX_THREADS \<le> length (active s)
    \<or> (\<exists>e. submission_gate host (drop_win_endpoint spec) = Raise e)")
  case True
  then have "snd (submit_job host now spec s) = s" by (auto simp: submit_job_def Let_def)
  with ok show ?thesis by simp
next
  case False
  let ?spec = "drop_win_endpoint spec"
  obtain u where "submission_gate host ?spec = Ret u"
    using False by (cases "submission_gate host ?spec") auto
  with False have s': "snd (submit_job host now spec s) = register_task ?spec
      (append_lifecycle_event now ?spec Queued [(''spec'', JObj (spec_to_dict ?spec))] s)"
    by (auto simp: submit_job_def Let_def)
  show ?thesis
    unfolding s'
    by (rule files_ok_lifecycle [OF ok, of _ now ?spec Queued "[(''spec'', JObj (spec_to_dict ?spec))]"])
      (simp_all add: register_task_def)
qed

theorem step_files_ok:
  assumes "sup_step host show_float s s'" and "files_ok show_float s"
  shows "files_ok show_float s'"
  using assms
proof (induction rule: sup_step.induct)
  case (submit spec s now)
  then show ?case by (simp add: files_ok_submit)
next
  case (start tid s now)
  show ?case
    by (rule files_ok_lifecycle [OF start(3), where st = Running and x = "[]" and now = now and spec = "spec_of_task s tid"])
      (simp_all add: start_worker_def)
next
  case (crash tid s now appended)
  show ?case
  proof (cases appended)
    case True
    then show ?thesis
      by (intro files_ok_lifecycle [OF crash(3), where st = Running and x = "[]" and now = now and spec = "spec_of_task s tid"])
        (simp_all add: crash_at_start_def)
  next
    case False
    then show ?thesis by (intro files_ok_same [OF crash(3)]) (simp_all add: crash_at_start_def)
  qed
next
  case (succeed tid s now result)
  then show ?case by (simp add: files_ok_succeed)
next
  case (fail tid s now e msg)
  show ?case
    by (rule files_ok_lifecycle [OF fail(3), where st = FailedJob and now = now and spec = "spec_of_task s tid"
        and x = "(''error'', JStr msg) # (if e = HardwareAffinityError then [(''policy'', JBool True)] else [])"])
      (simp_all add: job_failed_def Let_def)
next
  case (announce tid s k x emitted)
  show ?case by (rule files_ok_same [OF announce(3)]) simp_all
next
  case (request s jid)
  show ?case by (rule files_ok_same [OF request]) simp_all
next
  case (deliver tid s now)
  have chk: "files_ok show_float (append_lifecycle_event now (spec_of_task s tid) CancelledJob [] s)"
    by (rule files_ok_lifecycle [OF deliver(3), where x = "[]" and st = CancelledJob]) simp_all
  show ?case
    using deliver(3) files_ok_same [OF deliver(3)] files_ok_same [OF chk]
    by (simp add: deliver_cancel_def Let_def split: task_pc.split)
next
  case (callback tid s now)
  let ?s0 = "set_task tid (\<lambda>t. t\<lparr>t_notified := True\<rparr>) s"
  have s0: "files_ok show_float ?s0" using callback(4) by (rule files_ok_same) simp_all
  show ?case
    using s0 files_ok_confirm [OF s0] files_ok_same [OF files_ok_confirm [OF s0]]
    by (simp add: on_cancelled_worker_done_def Let_def)
next
  case (confirm tid s jid now)
  then show ?case by (simp add: after_worker_wait_def files_ok_confirm)
next
  case (contain s jid)
  show ?case by (rule files_ok_same [OF contain(2)]) simp_all
next
  case (clean s env jid)
  then show ?case by (simp add: files_ok_clean)
next
  case (noted tid s p)
  show ?case by (rule files_ok_same [OF noted(3)]) (simp_all add: map_frames)
next
  case (cleared tid s p)
  show ?case by (rule files_ok_same [OF cleared(3)]) simp_all
next
  case (exited s p rc)
  show ?case by (rule files_ok_same [OF exited]) (simp_all add: map_frames)
next
  case (stop s)
  show ?case by (rule files_ok_same [OF stop]) (simp_all add: restart_def init_sup_def)
qed

lemma steps_files_ok: "sup_steps host show_float s t \<Longrightarrow> files_ok show_float s \<Longrightarrow> files_ok show_float t"
  by (induction rule: sup_steps.induct) (auto intro: step_files_ok)

text \<open>C20: In every reachable state each success in the log has a result artifact, every artifact is a
  result or the marker of one that was too large, and a containment is recorded as verified only
  for a command-line child with a contained tree.\<close>

theorem success_has_artifact:
  assumes "sup_steps host show_float (init_sup [] []) s"
  shows "files_ok show_float s"
  by (rule steps_files_ok [OF assms]) (simp add: files_ok_def events_def load_events_def init_sup_def)

section \<open>Cleanups and waits end\<close>

fun run_cleanup :: "string \<Rightarrow> cleanup_env list \<Rightarrow> sup \<Rightarrow> sup" where
  "run_cleanup jid [] s = s"
| "run_cleanup jid (env # envs) s = run_cleanup jid envs (cleanup_step env jid s)"

fun steps_left :: "cleanup option \<Rightarrow> nat" where
  "steps_left None = 0"
| "steps_left (Some (Attempt k)) = 2 * (CONTAINMENT_ANNOTATION_ATTEMPTS - k) + 2"
| "steps_left (Some (Terminating k p)) = 2 * (CONTAINMENT_ANNOTATION_ATTEMPTS - k) + 1"

lemma cleanup_step_decreases:
  assumes "map_of (cleanups s) jid = Some c"
  shows "steps_left (map_of (cleanups (cleanup_step env jid s)) jid) < steps_left (Some c)"
  using assms
proof (cases rule: cleanup_step_cases [where env = env])
  case (retry k)
  then show ?thesis by (auto simp: cleanup_maps CONTAINMENT_ANNOTATION_ATTEMPTS_def)
qed (auto simp: cleanup_maps map_of_update)

text \<open>What a cleanup has achieved: it is still going on and has kept the child, or it is finished,
  and the log is annotated or the child is kept.\<close>

definition cleanup_kept :: "string \<Rightarrow> (string, nat) dict \<Rightarrow> sup \<Rightarrow> bool" where
  "cleanup_kept jid kids s \<longleftrightarrow>
     (if map_of (cleanups s) jid = None
      then jid \<in> set (cleanup_finished s) \<and> (has_containment_annotation (latest_event s jid) \<or> children s = kids)
      else children s = kids)"

lemma cleanup_side_fields:
  "children (attempt_failed jid k s) = children s" "children (finish_cleanup jid s) = children s"
  "jid \<in> set (cleanup_finished (finish_cleanup jid s))"
  "CONTAINMENT_ANNOTATION_ATTEMPTS \<le> k \<Longrightarrow> jid \<in> set (cleanup_finished (attempt_failed jid k s))"
  by (simp_all add: attempt_failed_def finish_cleanup_def)

lemma latest_event_cong: "jobs_file s = jobs_file t \<Longrightarrow> latest_event s = latest_event t"
  by (simp add: latest_event_def events_def fun_eq_iff)

lemma annotated_after:
  assumes "jid \<noteq> []" and "event_ok e" and "has_status e CancelledJob"
    and "map_of e ''worker_kind'' \<noteq> None" and "map_of e ''containment_state'' \<noteq> None"
  shows "has_containment_annotation (latest_event (append_event now jid e s) jid)"
  using assms by (simp add: latest_append_event has_containment_annotation_def has_status_def event_record_get)

lemma annotation_events:
  "event_ok (containment_fields kind st)" "has_status (containment_fields kind st) CancelledJob"
  "map_of (containment_fields kind st) ''worker_kind'' \<noteq> None"
  "map_of (containment_fields kind st) ''containment_state'' \<noteq> None"
  "event_ok (containment_fields kind st @ [(''containment_detail'', d)])"
  "has_status (containment_fields kind st @ [(''containment_detail'', d)]) CancelledJob"
  "map_of (containment_fields kind st @ [(''containment_detail'', d)]) ''worker_kind'' \<noteq> None"
  "map_of (containment_fields kind st @ [(''containment_detail'', d)]) ''containment_state'' \<noteq> None"
  by (simp_all add: event_ok_def containment_fields_def has_status_def jget_def dict_get_def)

lemma cleanup_step_kept:
  assumes "cleanup_kept jid kids s" and "jid \<noteq> []"
  shows "cleanup_kept jid kids (cleanup_step env jid s)"
proof (cases "map_of (cleanups s) jid")
  case None
  with assms show ?thesis by (simp add: cleanup_step_def)
next
  case (Some c)
  with assms have kids: "children s = kids" by (simp add: cleanup_kept_def)
  from Some show ?thesis
  proof (cases rule: cleanup_step_cases [where env = env])
    case (wait k p)
    with kids show ?thesis by (simp add: cleanup_kept_def map_of_update)
  next
    case (plain k)
    have "latest_event (cleanup_step env jid s) =
        latest_event (append_event (cleanup_now env) jid (containment_fields ''in-process'' ''not-applicable'') s)"
      by (rule latest_event_cong) (simp add: plain)
    with plain annotated_after [OF assms(2) annotation_events(1-4)] show ?thesis
      by (simp add: cleanup_kept_def cleanup_maps cleanup_side_fields)
  next
    case (killed k p)
    have "latest_event (cleanup_step env jid s) =
        latest_event (append_event (cleanup_now env) jid (containment_fields ''cli''
          (containment_state_of s p (tree_status env)) @ [(''containment_detail'', JStr (tree_status env))]) s)"
      by (rule latest_event_cong) (simp add: killed)
    with killed annotated_after [OF assms(2) annotation_events(5-8)] show ?thesis
      by (simp add: cleanup_kept_def cleanup_maps cleanup_side_fields)
  next
    case (retry k)
    with kids show ?thesis by (simp add: cleanup_kept_def cleanup_maps cleanup_side_fields)
  qed
qed

lemma run_cleanup_kept:
  "cleanup_kept jid kids s \<Longrightarrow> jid \<noteq> [] \<Longrightarrow> cleanup_kept jid kids (run_cleanup jid envs s)"
  by (induction jid envs s rule: run_cleanup.induct) (simp_all add: cleanup_step_kept)

lemma run_cleanup_left:
  "steps_left (map_of (cleanups (run_cleanup jid envs s)) jid) \<le> steps_left (map_of (cleanups s) jid) - length envs"
proof (induction jid envs s rule: run_cleanup.induct)
  case (2 jid env envs s)
  have "steps_left (map_of (cleanups (cleanup_step env jid s)) jid) \<le> steps_left (map_of (cleanups s) jid) - 1"
  proof (cases "map_of (cleanups s) jid")
    case None
    then show ?thesis by (simp add: cleanup_step_def)
  next
    case (Some c)
    with cleanup_step_decreases [OF Some, of env] show ?thesis by simp
  qed
  with 2 show ?case by simp
qed simp

lemma steps_left_0: "steps_left c = 0 \<longleftrightarrow> c = None"
  by (cases c rule: steps_left.cases) simp_all


text \<open>The wait for a process: it ends with an exit, a timeout or the deadline, whichever rounds the
  loop makes, because the clock moves on.\<close>

lemma wait_loop_bound:
  assumes adv: "\<And>i. clock (obs i) + d \<le> clock (obs (Suc i))" and "0 < d"
    and "deadline \<le> clock (obs i) + of_nat n * d"
  shows "\<exists>r. wait_loop deadline obs i = Some r \<and>
         (seen_exit (obs r) \<or> timed_out (obs r) \<or> deadline \<le> clock (obs r))"
  using assms(3)
proof (induction n arbitrary: i)
  case 0
  then show ?case by (subst wait_loop.simps) auto
next
  case (Suc n)
  have "deadline \<le> clock (obs (Suc i)) + of_nat n * d"
    using Suc.prems adv [of i] by (simp add: algebra_simps)
  from Suc.IH [OF this] show ?case by (subst wait_loop.simps) auto
qed

text \<open>The wait for a process returns, by an exit, a timeout or the deadline, when the clock advances.\<close>

theorem wait_process_exit_ends:
  assumes "\<And>i. clock (obs i) + d \<le> clock (obs (Suc i))" and "0 < d"
  shows "\<exists>r. wait_process_exit start timeout obs = Some r \<and>
         (timeout \<le> 0 \<or> seen_exit (obs r) \<or> timed_out (obs r) \<or> start + timeout \<le> clock (obs r))"
proof -
  obtain n where "(start + timeout - clock (obs 0)) / d < of_nat n"
    using reals_Archimedean2 by blast
  then have "start + timeout \<le> clock (obs 0) + of_nat n * d"
    using assms(2) by (simp add: field_simps)
  from wait_loop_bound [OF assms(1,2) this] show ?thesis
    by (auto simp: wait_process_exit_def)
qed

section \<open>What is left behind\<close>

text \<open>A worker that fails before its \<open>try\<close> keeps its slot for the life of the process.\<close>

definition slot_lost :: "sup \<Rightarrow> string \<Rightarrow> nat \<Rightarrow> bool" where
  "slot_lost s jid tid \<longleftrightarrow>
     map_of (active s) jid = Some tid \<and> tid < length (sup_tasks s) \<and> t_pc (sup_tasks s ! tid) = Ended Crashed"

lemma slot_lost_task: "sup_inv s \<Longrightarrow> slot_lost s jid tid \<Longrightarrow> task_job (sup_tasks s ! tid) = jid"
  by (auto simp: slot_lost_def sup_inv_def simp del: map_of_eq_Some_iff)

lemma slot_kept:
  assumes lost: "slot_lost s jid tid" and inv: "sup_inv s" and i: "i < length (sup_tasks s)" and "i \<noteq> tid"
    and tasks: "sup_tasks s' = (sup_tasks s)[i := t]"
    and act: "active s' = active s \<or> active s' = AList.delete (task_job (sup_tasks s ! i)) (active s)"
  shows "slot_lost s' jid tid"
proof -
  have "tid < length (sup_tasks s)" using lost by (simp add: slot_lost_def)
  with distinct_jobs [OF inv i] slot_lost_task [OF inv lost] \<open>i \<noteq> tid\<close> have "task_job (sup_tasks s ! i) \<noteq> jid" by metis
  with act lost \<open>i \<noteq> tid\<close> show ?thesis
    by (auto simp: slot_lost_def tasks map_of_delete simp del: map_of_eq_Some_iff)
qed

lemma slot_kept_same:
  "slot_lost s jid tid \<Longrightarrow> active s' = active s \<Longrightarrow> sup_tasks s' = sup_tasks s \<Longrightarrow> slot_lost s' jid tid"
  by (simp add: slot_lost_def)

lemma slot_confirm:
  assumes lost: "slot_lost s jid tid" and inv: "sup_inv s" and i: "i < length (sup_tasks s)"
    and pc: "t_pc (sup_tasks s ! i) = Ended WasCancelled"
  shows "slot_lost (confirm_cancelled now (task_job (sup_tasks s ! i)) i s) jid tid"
proof -
  have ne: "i \<noteq> tid" using lost pc by (auto simp: slot_lost_def)
  show ?thesis
    by (rule slot_kept [OF lost inv i ne, where t = "sup_tasks s ! i"]) (use confirm_fields in auto)
qed

lemma submit_keeps_active:
  assumes "jid' \<noteq> js_job_id spec" and "map_of (active s) jid' = Some tid" and "tid < length (sup_tasks s)"
  shows "map_of (active (snd (submit_job host now spec s))) jid' = Some tid \<and>
         tid < length (sup_tasks (snd (submit_job host now spec s))) \<and>
         sup_tasks (snd (submit_job host now spec s)) ! tid = sup_tasks s ! tid"
  using assms
  by (auto simp: submit_job_def Let_def register_task_def map_of_update nth_append split: res.splits
      simp del: map_of_eq_Some_iff)

text \<open>A worker that fails before its try block keeps its slot in every later step but a restart.\<close>

theorem crashed_start_keeps_slot:
  assumes "sup_step host show_float s s'" and "sup_inv s" and "slot_lost s jid tid"
  shows "slot_lost s' jid tid \<or> s' = restart s"
  using assms
proof (induction rule: sup_step.induct)
  case (submit spec s now)
  have "task_job (sup_tasks s ! tid) = jid" by (rule slot_lost_task [OF submit(3,4)])
  moreover have "tid < length (sup_tasks s)" using submit(4) by (simp add: slot_lost_def)
  ultimately have "jid \<in> task_job ` set (sup_tasks s)" by (metis nth_mem image_eqI)
  moreover have "js_job_id spec \<notin> task_job ` set (sup_tasks s)" using submit(2) by (simp add: known_job_def)
  ultimately have "jid \<noteq> js_job_id spec" by metis
  from submit_keeps_active [OF this, where s = s and tid = tid] submit(4) show ?case by (simp add: slot_lost_def)
next
  case (start i s now)
  then have "i \<noteq> tid" by (auto simp: slot_lost_def)
  from slot_kept [OF start(4,3,1) this, of "start_worker now i s"] show ?case by (simp add: start_worker_def)
next
  case (crash i s now appended)
  then have "i \<noteq> tid" by (auto simp: slot_lost_def)
  from slot_kept [OF crash(4,3,1) this, of "crash_at_start now appended i s"] show ?case
    by (simp add: crash_at_start_def split: if_splits)
next
  case (succeed i s now result)
  then have "i \<noteq> tid" by (auto simp: slot_lost_def)
  from slot_kept [OF succeed(4,3,1) this, of "job_succeeded show_float now i result s"] show ?case
    by (simp add: job_succeeded_def Let_def)
next
  case (fail i s now e msg)
  then have "i \<noteq> tid" by (auto simp: slot_lost_def)
  from slot_kept [OF fail(4,3,1) this, of "job_failed now i e msg s"] show ?case
    by (simp add: job_failed_def Let_def)
next
  case (announce i s k x emitted)
  then have "i \<noteq> tid" by (auto simp: slot_lost_def)
  from slot_kept [OF announce(4,3,1) this, of "announced emitted i s"] announce(2) show ?case
    by (simp add: announced_def spec_of_task_def)
next
  case (request s jid')
  show ?case
  proof (cases "map_of (active s) jid'")
    case (Some i)
    show ?thesis
    proof (cases "ended s i")
      case False
      with Some have s': "snd (cancel jid' s) = request_cancel i s" by (simp add: cancel_def)
      have "i \<noteq> tid" using False request(2) by (auto simp: slot_lost_def ended_def)
      then show ?thesis using request(2) by (simp add: s' request_cancel_def slot_lost_def)
    qed (use Some request(2) in \<open>simp add: cancel_def\<close>)
  qed (use request(2) in \<open>simp add: cancel_def\<close>)
next
  case (deliver i s now)
  show ?case
  proof (cases "t_pc (sup_tasks s ! i)")
    case (Ended e)
    with deliver(4) show ?thesis by (simp add: deliver_cancel_def Let_def)
  next
    case Created
    with deliver(4) have "i \<noteq> tid" by (auto simp: slot_lost_def)
    from slot_kept [OF deliver(4,3,1) this, of "deliver_cancel now i s"] Created show ?thesis
      by (simp add: deliver_cancel_def Let_def)
  next
    case Dispatching
    with deliver(4) have "i \<noteq> tid" by (auto simp: slot_lost_def)
    from slot_kept [OF deliver(4,3,1) this, of "deliver_cancel now i s"] Dispatching show ?thesis
      by (simp add: deliver_cancel_def Let_def spec_of_task_def)
  next
    case (Announcing k x)
    with deliver(4) have "i \<noteq> tid" by (auto simp: slot_lost_def)
    from slot_kept [OF deliver(4,3,1) this, of "deliver_cancel now i s"] Announcing show ?thesis
      by (simp add: deliver_cancel_def Let_def spec_of_task_def)
  qed
next
  case (callback i s now)
  let ?s0 = "set_task i (\<lambda>t. t\<lparr>t_notified := True\<rparr>) s"
  let ?jid = "task_job (sup_tasks s ! i)"
  show ?case
  proof (cases "t_pc (sup_tasks s ! i) = Ended WasCancelled")
    case False
    then show ?thesis using callback(1,5)
      by (cases "i = tid") (auto simp: on_cancelled_worker_done_def Let_def slot_lost_def)
  next
    case True
    then have ne: "i \<noteq> tid" using callback(5) by (auto simp: slot_lost_def)
    have "slot_lost (confirm_cancelled now ?jid i ?s0) jid tid"
      by (rule slot_kept [OF callback(5,4,1) ne]) (use confirm_fields [of now ?jid i ?s0] in auto)
    then show ?thesis using True
      by (auto simp: on_cancelled_worker_done_def Let_def spec_of_task_def intro: slot_kept_same)
  qed
next
  case (confirm i s jid' now)
  then show ?case by (simp add: after_worker_wait_def spec_of_task_def slot_confirm)
next
  case (contain s jid')
  show ?case by (intro disjI1 slot_kept_same [OF contain(3)]) simp_all
next
  case (clean s env jid')
  show ?case
  proof (cases "map_of (cleanups s) jid'")
    case None
    with clean(2) show ?thesis by (simp add: cleanup_step_def)
  next
    case (Some c)
    then show ?thesis
      by (cases rule: cleanup_step_cases [where env = env]; intro disjI1 slot_kept_same [OF clean(2)]; simp)
  qed
next
  case (noted i s p)
  show ?case by (intro disjI1 slot_kept_same [OF noted(4)]) (simp_all add: map_frames)
next
  case (cleared i s p)
  show ?case by (intro disjI1 slot_kept_same [OF cleared(4)]) simp_all
next
  case (exited s p rc)
  show ?case by (intro disjI1 slot_kept_same [OF exited(2)]) (simp_all add: map_frames)
next
  case (stop s)
  then show ?case by simp
qed

text \<open>A job without a task: nothing moves a status other than a cancelled one any more.\<close>

definition left_behind :: "sup \<Rightarrow> string \<Rightarrow> job_status \<Rightarrow> bool" where
  "left_behind s jid st \<longleftrightarrow> statuses s jid = Some st \<and> jid \<notin> task_job ` set (sup_tasks s)"

lemma stranded_other: "left_behind s jid st \<Longrightarrow> i < length (sup_tasks s) \<Longrightarrow> task_job (sup_tasks s ! i) \<noteq> jid"
  by (auto simp: left_behind_def)

lemma jobs_of_update:
  "task_job t = task_job (xs ! i) \<Longrightarrow> task_job ` set (xs[i := t]) \<subseteq> task_job ` set xs"
  using set_update_subset_insert [of xs i t] nth_mem [of i xs]
  by (cases "i < length xs") (auto simp: list_update_beyond)

lemma stranded_task:
  assumes "left_behind s jid st" and "i < length (sup_tasks s)"
    and "sup_tasks s' = (sup_tasks s)[i := t]" and "task_job t = task_job (sup_tasks s ! i)"
    and "statuses s' = statuses s \<or> (\<exists>x. statuses s' = (statuses s)(task_job (sup_tasks s ! i) := x))"
  shows "left_behind s' jid st"
  using assms stranded_other [OF assms(1,2)] jobs_of_update [OF assms(4)] by (auto simp: left_behind_def)

lemma stranded_same:
  "left_behind s jid st \<Longrightarrow> sup_tasks s' = sup_tasks s \<Longrightarrow> statuses s' = statuses s \<Longrightarrow> left_behind s' jid st"
  by (simp add: left_behind_def)

lemma submit_cases:
  obtains (refused) e where "submit_job host now spec s = (Raise e, s)"
  | (accepted) "submit_job host now spec s = (Ret (js_job_id spec),
      register_task (drop_win_endpoint spec) (append_lifecycle_event now (drop_win_endpoint spec) Queued
        [(''spec'', JObj (spec_to_dict (drop_win_endpoint spec)))] s))"
      "js_depth (drop_win_endpoint spec) \<le> MAX_DEPTH" "length (active s) < MAX_THREADS"
      "submission_gate host (drop_win_endpoint spec) = Ret ()"
proof (cases "MAX_DEPTH < js_depth (drop_win_endpoint spec) \<or> MAX_THREADS \<le> length (active s)")
  case True
  then have "\<exists>e. submit_job host now spec s = (Raise e, s)" by (auto simp: submit_job_def Let_def)
  with refused show ?thesis by blast
next
  case False
  show ?thesis
  proof (cases "submission_gate host (drop_win_endpoint spec)")
    case (Raise e)
    with False have "submit_job host now spec s = (Raise e, s)" by (simp add: submit_job_def Let_def)
    with refused show ?thesis by blast
  next
    case (Ret u)
    with False accepted show ?thesis by (simp add: submit_job_def Let_def)
  qed
qed

lemma statuses_known: "statuses s jid = Some st \<Longrightarrow> latest_event s jid \<noteq> None"
  by (auto simp: statuses_def split: option.splits)

lemma stranded_step:
  assumes "sup_step host show_float s s'" and "sup_inv s" and "left_behind s jid st"
  shows "left_behind s' jid st"
  using assms
proof (induction rule: sup_step.induct)
  case (submit spec s now)
  have ne: "jid \<noteq> js_job_id spec"
    using submit(2,4) by (auto simp: known_job_def left_behind_def dest: statuses_known)
  show ?case
  proof (rule submit_cases [of host now spec s])
    fix e assume "submit_job host now spec s = (Raise e, s)"
    with submit(4) show ?thesis by simp
  next
    assume "submit_job host now spec s = (Ret (js_job_id spec),
      register_task (drop_win_endpoint spec) (append_lifecycle_event now (drop_win_endpoint spec) Queued
        [(''spec'', JObj (spec_to_dict (drop_win_endpoint spec)))] s))"
    with submit(1,4) ne show ?thesis by (simp add: left_behind_def register_task_def statuses_frames(18) flip: register_task_def)
        (simp add: register_task_def)
  qed
next
  case (start i s now)
  show ?case
    by (rule stranded_task [OF start(4,1), where t = "(sup_tasks s ! i)\<lparr>t_pc := Dispatching\<rparr>"])
      (use task_of_inv(2) [OF start(3,1)] in \<open>auto simp: start_worker_def spec_of_task_def\<close>)
next
  case (crash i s now appended)
  show ?case
    by (rule stranded_task [OF crash(4,1), where t = "(sup_tasks s ! i)\<lparr>t_pc := Ended Crashed\<rparr>"])
      (use task_of_inv(2) [OF crash(3,1)] in \<open>auto simp: crash_at_start_def spec_of_task_def\<close>)
next
  case (succeed i s now result)
  show ?case
    by (rule stranded_task [OF succeed(4,1), where t = "(sup_tasks s ! i)\<lparr>t_pc := Announcing ''result'' []\<rparr>"])
      (use task_of_inv(2) [OF succeed(3,1)] in \<open>auto simp: job_succeeded_def Let_def spec_of_task_def\<close>)
next
  case (fail i s now e msg)
  show ?case
    by (rule stranded_task [OF fail(4,1), where t = "(sup_tasks s ! i)\<lparr>t_pc := Announcing ''error'' ((''detail'', JStr msg) # (if e = HardwareAffinityError then [(''policy'', JBool True)] else []))\<rparr>"])
      (use task_of_inv(2) [OF fail(3,1)] in \<open>auto simp: job_failed_def Let_def spec_of_task_def\<close>)
next
  case (announce i s k x emitted)
  show ?case
    by (rule stranded_task [OF announce(4,1), where t = "(sup_tasks s ! i)\<lparr>t_pc := Ended Returned\<rparr>"]) (use announce(2) in \<open>auto simp: announced_def\<close>)
next
  case (request s jid')
  show ?case
  proof (cases "map_of (active s) jid'")
    case (Some i)
    with request(1) have i: "i < length (sup_tasks s)" by (auto simp: sup_inv_def simp del: map_of_eq_Some_iff)
    show ?thesis
    proof (cases "ended s i")
      case False
      with Some have s': "snd (cancel jid' s) = request_cancel i s" by (simp add: cancel_def)
      show ?thesis unfolding s' by (rule stranded_task [OF request(2) i, where t = "(sup_tasks s ! i)\<lparr>t_cancel := True\<rparr>"]) (auto simp: request_cancel_def)
    qed (use Some request(2) in \<open>simp add: cancel_def\<close>)
  qed (use request(2) in \<open>simp add: cancel_def\<close>)
next
  case (deliver i s now)
  show ?case
  proof (cases "t_pc (sup_tasks s ! i)")
    case (Ended e)
    with deliver(4) show ?thesis by (simp add: deliver_cancel_def Let_def)
  qed (rule stranded_task [OF deliver(4,1), where t = "(sup_tasks s ! i)\<lparr>t_pc := Ended WasCancelled\<rparr>"];
      use task_of_inv(2) [OF deliver(3,1)] in \<open>auto simp: deliver_cancel_def Let_def spec_of_task_def\<close>)+
next
  case (callback i s now)
  show ?case
  proof (cases "t_pc (sup_tasks s ! i) = Ended WasCancelled")
    case False
    then show ?thesis
      by (intro stranded_task [OF callback(5,1), where t = "(sup_tasks s ! i)\<lparr>t_notified := True\<rparr>"]) (auto simp: on_cancelled_worker_done_def Let_def)
  next
    case True
    then show ?thesis
      using task_of_inv(2) [OF callback(4,1)]
      by (intro stranded_task [OF callback(5,1), where t = "(sup_tasks s ! i)\<lparr>t_notified := True\<rparr>"])
        (auto simp: on_cancelled_worker_done_def Let_def spec_of_task_def confirm_fields confirm_statuses)
  qed
next
  case (confirm i s jid' now)
  then show ?case
    using task_of_inv(2) [OF confirm(3,1)] stranded_other [OF confirm(4,1)]
    by (auto simp: after_worker_wait_def spec_of_task_def left_behind_def confirm_fields confirm_statuses)
next
  case (contain s jid')
  show ?case by (rule stranded_same [OF contain(3)]) simp_all
next
  case (clean s env jid')
  show ?case
  proof (cases "map_of (cleanups s) jid'")
    case None
    with clean(2) show ?thesis by (simp add: cleanup_step_def)
  next
    case (Some c)
    with clean(1) have "jid' \<noteq> []" "statuses s jid' = Some CancelledJob"
      by (auto simp: sup_inv_def simp del: map_of_eq_Some_iff)
    then have same: "(statuses s)(jid' := Some CancelledJob) = statuses s" and id: "jid' \<noteq> []" by auto
    from Some show ?thesis
      by (cases rule: cleanup_step_cases [where env = env]; intro stranded_same [OF clean(2)]; simp add: same id)
  qed
next
  case (noted i s p)
  show ?case by (rule stranded_same [OF noted(4)]) (simp_all add: map_frames)
next
  case (cleared i s p)
  show ?case by (rule stranded_same [OF cleared(4)]) simp_all
next
  case (exited s p rc)
  show ?case by (rule stranded_same [OF exited(2)]) (simp_all add: map_frames)
next
  case (stop s)
  then show ?case by (simp add: left_behind_def) (simp add: restart_def init_sup_def)
qed

lemma stranded_steps:
  "sup_steps host show_float s t \<Longrightarrow> sup_inv s \<Longrightarrow> left_behind s jid st \<Longrightarrow> left_behind t jid st"
proof (induction rule: sup_steps.induct)
  case (more s t u)
  have "sup_inv t" by (rule steps_inv [OF more.hyps(1) more.prems(1)])
  with more show ?case by (blast intro: stranded_step)
qed

lemma stranded_no_task: "sup_inv s \<Longrightarrow> left_behind s jid st \<Longrightarrow> map_of (active s) jid = None"
  by (cases "map_of (active s) jid") (auto simp: sup_inv_def left_behind_def simp del: map_of_eq_Some_iff, metis nth_mem image_eqI)

text \<open>A job that is running when the process restarts stays running for ever: it can be neither
  cancelled nor replayed.\<close>

theorem interrupted_job_stays_running:
  assumes "sup_inv s" and "statuses s jid = Some Running" and "sup_steps host show_float (restart s) t"
  shows "statuses t jid = Some Running \<and> fst (cancel jid t) = False \<and>
         replay_source t jid = Raise ReplayJobNotReplayableError"
proof -
  have inv: "sup_inv (restart s)" by (simp add: restart_def init_inv)
  have "left_behind (restart s) jid Running"
    using assms(2) by (simp add: left_behind_def) (simp add: restart_def init_sup_def)
  from stranded_steps [OF assms(3) inv this] have t: "left_behind t jid Running" .
  have "map_of (active t) jid = None" by (rule stranded_no_task [OF steps_inv [OF assms(3) inv] t])
  moreover from t obtain e where "latest_event t jid = Some e" "has_status e Running"
    by (auto simp: left_behind_def statuses_Some)
  ultimately show ?thesis
    using t by (simp add: left_behind_def cancel_def replay_source_def REPLAYABLE_STATUSES_def has_status_def)
qed

end
