(* ===== verification/SupervisorReplay.thy ===== *)
theory SupervisorReplay
  imports SupervisorSafety
begin

text \<open>
  The size of a result artifact, the replay of a finished job, the rows of a listing, and the
  statements of the supervisor on a small run.
\<close>

section \<open>The cap on a result\<close>

lemma utf8_append [simp]: "utf8_size (a @ b) = utf8_size a + utf8_size b"
  by (simp add: utf8_size_def)

lemma digit_size: "d < 10 \<Longrightarrow> utf8_size [char_of (48 + d :: nat)] = 1"
  by (simp add: utf8_size_def code_def)

lemma utf8_show_nat: "n < 10 ^ Suc k \<Longrightarrow> utf8_size (show_nat n) \<le> Suc k"
proof (induction k arbitrary: n)
  case 0
  then have "show_nat n = [char_of (48 + n)]" by (subst show_nat.simps) simp
  with 0 show ?case by (simp add: digit_size del: show_nat.simps)
next
  case (Suc k)
  show ?case
  proof (cases "n < 10")
    case True
    then have "show_nat n = [char_of (48 + n)]" by (subst show_nat.simps) simp
    with True show ?thesis by (simp add: digit_size del: show_nat.simps)
  next
    case False
    then have "show_nat n = show_nat (n div 10) @ [char_of (48 + n mod 10)]" by (subst show_nat.simps) simp
    moreover have "n div 10 < 10 ^ Suc k" using Suc.prems by (simp add: less_mult_imp_div_less)
    ultimately show ?thesis using Suc.IH [of "n div 10"] by (simp add: digit_size del: show_nat.simps)
  qed
qed

lemma utf8_le: "utf8_size s \<le> 2 * length s"
  by (induction s) (simp_all add: utf8_size_def)

lemma length_le_utf8: "length s \<le> utf8_size s"
  by (induction s) (simp_all add: utf8_size_def)

lemma json_quote_length: "length (json_quote s) \<le> 2 + 6 * length s"
proof -
  have "length (json_char c) \<le> 6" for c by (simp add: json_char_def)
  then have "length (concat (map json_char s)) \<le> 6 * length s"
    by (induction s) (simp_all add: add_le_mono)
  then show ?thesis by (simp add: json_quote_def)
qed

definition marker_prefix :: string where
  "marker_prefix = ''{'' @ indent_line 2 @ json_quote ''status'' @ '': '' @ json_quote ''truncated'' @ '','' @ indent_line 2
     @ json_quote ''reason'' @ '': '' @ json_quote (''result exceeded '' @ show_nat MAX_RESULT_BYTES @ '' bytes'')
     @ '','' @ indent_line 2 @ json_quote ''original_size_bytes'' @ '': ''"

lemma marker_text: "dumps show_float 0 (truncated_marker n) = marker_prefix @ show_nat n @ indent_line 0 @ ''}''"
  by (simp add: truncated_marker_def marker_prefix_def show_int_def numeral_2_eq_2 del: show_nat.simps)

lemma marker_prefix_length: "length marker_prefix \<le> 600"
proof -
  have "length (show_nat MAX_RESULT_BYTES) \<le> Suc 6"
    by (rule order_trans [OF length_le_utf8 utf8_show_nat]) (simp add: MAX_RESULT_BYTES_def)
  then have "length (''result exceeded '' @ show_nat MAX_RESULT_BYTES @ '' bytes'') \<le> 29"
    by (simp del: show_nat.simps)
  with json_quote_length [of "''result exceeded '' @ show_nat MAX_RESULT_BYTES @ '' bytes''"]
  have "length (json_quote (''result exceeded '' @ show_nat MAX_RESULT_BYTES @ '' bytes'')) \<le> 176" by linarith
  moreover have "length (json_quote ''status'') \<le> 38" "length (json_quote ''truncated'') \<le> 56"
    "length (json_quote ''reason'') \<le> 38" "length (json_quote ''original_size_bytes'') \<le> 116"
    by (rule order_trans [OF json_quote_length]; simp)+
  ultimately show ?thesis
    unfolding marker_prefix_def by (simp add: indent_line_def line_feed_def del: show_nat.simps)
qed

text \<open>What is written as the result of a job never exceeds two mebibytes, markers of oversized
  results included.\<close>

theorem artifact_size_bounded:
  assumes "utf8_size (dumps show_float 0 result) < 10 ^ Suc k" and "k < 1000000"
  shows "utf8_size (dumps show_float 0 (artifact_for show_float result)) \<le> MAX_RESULT_BYTES"
proof (cases "MAX_RESULT_BYTES < utf8_size (dumps show_float 0 result)")
  case True
  let ?n = "utf8_size (dumps show_float 0 result)"
  have "utf8_size (show_nat ?n) \<le> Suc k" by (rule utf8_show_nat) (rule assms(1))
  moreover have "utf8_size marker_prefix \<le> 1200" using utf8_le [of marker_prefix] marker_prefix_length by linarith
  moreover have "utf8_size (indent_line 0 @ ''}'') \<le> 4"
    by (rule order_trans [OF utf8_le]) (simp add: indent_line_def line_feed_def)
  ultimately have "utf8_size (dumps show_float 0 (truncated_marker ?n)) \<le> 1204 + Suc k"
    unfolding marker_text utf8_append by linarith
  with True assms(2) show ?thesis by (simp add: artifact_for_def Let_def MAX_RESULT_BYTES_def)
qed (simp add: artifact_for_def Let_def)

section \<open>Replay\<close>

lemma find_queued_snoc:
  "first_queued_event evs jid = None \<Longrightarrow> jget e ''job_id'' = JStr jid \<Longrightarrow> has_status e Queued \<Longrightarrow>
   first_queued_event (evs @ [e]) jid = Some e"
  by (induction evs) (auto simp: first_queued_event_def split: if_splits)

lemma unknown_not_queued:
  assumes "latest_event s jid = None" and "jid \<noteq> []"
  shows "first_queued_event (events s) jid = None"
proof -
  have "map_of (latest_status_per_job evs) (JStr jid) = None \<Longrightarrow> \<forall>e \<in> set evs. jget e ''job_id'' \<noteq> JStr jid" for evs
    using assms(2) by (induction evs rule: rev_induct) (auto simp: latest_snoc map_of_update split: if_splits)
  with assms(1) show ?thesis by (auto simp: latest_event_def first_queued_event_def find_None_iff)
qed

text \<open>What a replayed job keeps and what it does not.\<close>

definition replayed_as :: "string \<Rightarrow> string \<Rightarrow> job_spec \<Rightarrow> job_spec" where
  "replayed_as new_id created spec = spec\<lparr>js_job_id := new_id, js_created_at := created, js_depth := 0,
     js_lineage_trust := ''caller_reported'',
     js_metadata := caller_reported_lineage_metadata (JObj (js_metadata spec))
       (truthy_str (js_session_id spec) \<or> truthy_str (js_parent_orchestrator_id spec))\<rparr>"

lemma jget_spec_dict:
  "jget (spec_to_dict s) ''backend_hint'' = jstr_opt (js_backend_hint s)" "jget (spec_to_dict s) ''role'' = jstr_opt (js_role s)"
  "jget (spec_to_dict s) ''specialization'' = jstr_opt (js_specialization s)"
  "jget (spec_to_dict s) ''session_id'' = jstr_opt (js_session_id s)"
  "jget (spec_to_dict s) ''parent_orchestrator_id'' = jstr_opt (js_parent_orchestrator_id s)"
  "jget (spec_to_dict s) ''artifact_policy'' = jstr_opt (js_artifact_policy s)"
  "jget (spec_to_dict s) ''authenticated_lane'' = jstr_opt (js_authenticated_lane s)"
  "jget (spec_to_dict s) ''metadata'' = JObj (js_metadata s)"
  "dict_get (spec_to_dict s) ''intent'' d = JStr (js_intent s)" "dict_get (spec_to_dict s) ''prompt'' d = JStr (js_prompt s)"
  "dict_get (spec_to_dict s) ''constraints'' d = js_constraints s"
  "dict_get (spec_to_dict s) ''task_type'' d = JStr (js_task_type s)"
  by (simp_all add: spec_to_dict_def jget_def dict_get_def)

lemma opt_field [simp]: "opt_str_field (jstr_opt x) = Ret x" "truthy (jstr_opt x) = truthy_str x"
  by (cases x; simp add: jstr_opt_def opt_str_field_def truthy_str_def)+

lemma respec:
  assumes "constraints_field (js_constraints spec) = Ret (js_constraints spec)"
  shows "replayed_spec new_id created (spec_to_dict spec) = Ret (replayed_as new_id created spec)"
  using assms by (simp add: replayed_spec_def jget_spec_dict str_field_def replayed_as_def)

text \<open>The specification that a later replay finds is the one that was submitted.\<close>

lemma submitted_spec_found:
  assumes "submit_job host now spec s = (Ret jid, s')" and "\<not> known_job s (js_job_id spec)" and "js_job_id spec \<noteq> []"
  shows "queued_spec_for_job (events s') jid = Some (spec_to_dict (drop_win_endpoint spec))"
proof -
  let ?spec = "drop_win_endpoint spec" and ?x = "[(''spec'', JObj (spec_to_dict (drop_win_endpoint spec)))]"
  from assms(1) have jid: "jid = js_job_id spec"
    and s': "s' = register_task ?spec (append_lifecycle_event now ?spec Queued ?x s)"
    by (cases rule: submit_cases [of host now spec s]; simp)+
  let ?e = "lifecycle_event ?spec Queued ?x"
  have ok: "event_ok ?e" "jget ?e ''status'' = JStr (job_status_value Queued)" by (rule lifecycle_event_ok; simp)+
  have ev: "events s' = events s @ [event_record now jid ?e]"
    by (simp add: s' jid append_lifecycle_eq events_append_event events_def register_task_def)
      (simp add: append_event_def append_to_log_def load_events_append)
  have "first_queued_event (events s') jid = Some (event_record now jid ?e)"
    unfolding ev
    by (rule find_queued_snoc)
      (use assms(2,3) jid ok in \<open>auto simp: known_job_def unknown_not_queued event_record_get has_status_def\<close>)
  moreover have "jget ?e ''spec'' = JObj (spec_to_dict ?spec)"
    by (simp add: lifecycle_event_def jget_def dict_get_def map_of_update)
  ultimately show ?thesis by (simp add: queued_spec_for_job_def event_record_get [OF ok(1)])
qed


text \<open>A replay never promotes lineage, whatever was stored or overridden.\<close>

lemma replayed_spec_lineage:
  assumes "replayed_spec new_id created d = Ret spec"
  shows "js_job_id spec = new_id \<and> js_lineage_trust spec = ''caller_reported'' \<and> js_depth spec = 0 \<and>
         jget (js_metadata spec) ''lineage_trust'' \<in> {JNull, JStr ''caller_reported''}"
  using assms
  by (auto simp: replayed_spec_def res_bind_eq_Ret caller_reported_lineage_metadata_def Let_def jget_def dict_get_def
      map_of_update map_of_delete)

lemma drop_win_lineage:
  "js_lineage_trust (drop_win_endpoint spec) = js_lineage_trust spec"
  by (simp add: drop_win_endpoint_def)

text \<open>A replay succeeds only for a finished job, returns the new id, and its queued event carries the
  caller-reported label whatever was stored or overridden.\<close>

theorem replay_is_caller_reported:
  assumes "replay_job host now new_id jid overrides s = (Ret nid, s')" and "new_id \<noteq> []"
  shows "nid = new_id \<and> statuses s jid \<in> {Some Succeeded, Some FailedJob, Some CancelledJob} \<and>
         (\<exists>e. latest_event s' nid = Some e \<and> has_status e Queued \<and> jget e ''lineage_trust'' = JStr ''caller_reported'')"
proof -
  from assms(1) obtain queued where src: "replay_source s jid = Ret queued" by (auto simp: replay_job_def split: res.splits)
  with assms(1) obtain spec where sp: "replayed_spec new_id now (dict_update queued overrides) = Ret spec"
    and sub: "submit_job host now spec s = (Ret nid, s')" by (auto simp: replay_job_def split: res.splits)
  note lin = replayed_spec_lineage [OF sp]
  from src have st: "statuses s jid \<in> {Some Succeeded, Some FailedJob, Some CancelledJob}"
    by (auto simp: replay_source_def REPLAYABLE_STATUSES_def statuses_Some split: option.splits if_splits)
  let ?spec = "drop_win_endpoint spec" and ?x = "[(''spec'', JObj (spec_to_dict (drop_win_endpoint spec)))]"
  from sub have nid: "nid = js_job_id spec"
    and s': "s' = register_task ?spec (append_lifecycle_event now ?spec Queued ?x s)"
    by (cases rule: submit_cases [of host now spec s]; simp)+
  let ?e = "lifecycle_event ?spec Queued ?x"
  have ok: "event_ok ?e" by (rule lifecycle_event_ok) simp
  have "latest_event s' nid = latest_event (append_event now nid ?e s) nid"
    by (rule fun_cong [OF latest_event_cong]) (simp add: s' nid append_lifecycle_eq)
  also have "\<dots> = Some (event_record now nid ?e)" using assms(2) lin nid by (simp add: latest_append_event [OF ok])
  finally show ?thesis
    using nid lin st 
    by (simp add: has_status_def event_record_get [OF ok] drop_win_lineage lifecycle_event_ok(2,3))
qed

section \<open>Listing\<close>

lemma set_if_missing_other: "k' \<noteq> k \<Longrightarrow> jget (set_if_missing k v row) k' = jget row k'"
  by (simp add: set_if_missing_def jget_def dict_get_def map_of_update)

lemma set_columns_other:
  "k' \<notin> set ks \<Longrightarrow> jget (fold (\<lambda>k row. set_if_missing k (jget spec k) row) ks row) k' = jget row k'"
  by (induction ks arbitrary: row) (simp_all add: set_if_missing_other)

lemma list_row_status: "jget (list_row latest queued) k = jget latest k"
  if "k \<notin> {''created_at'', ''updated_at'', ''intent'', ''role'', ''backend_hint''}"
  using that
  by (auto simp: list_row_def Let_def set_if_missing_other set_columns_other LIST_SPEC_COLUMNS_def
      split: option.split json.split)

text \<open>The rows of a listing carry exactly the id and status of the latest event of each job.\<close>

theorem listing_is_faithful:
  shows "map (\<lambda>row. (jget row ''job_id'', jget row ''status'')) (list_jobs None s) =
         map (\<lambda>(jid, latest). (jid, jget latest ''status'')) (latest_status_per_job (events s))"
proof -
  have ok: "dict_ok (latest_status_per_job evs)" for evs
    by (induction evs rule: rev_induct) (simp_all add: latest_snoc)
  have "jget e ''job_id'' = j" if "(j, e) \<in> set (latest_status_per_job evs)" for j e evs
    using latest_event_member [OF map_of_is_SomeI [OF ok that]] by simp
  then show ?thesis
    by (auto simp: list_jobs_def list_records_per_job_def Let_def list_row_status)
qed

end
