(* ===== verification/JobApi.thy ===== *)
theory JobApi
  imports SupervisorReplay
begin

text \<open>
  The job endpoints of \<open>orchestrator/fastapi_app.py\<close> over the supervisor, and the supervisor's
  statements on a small run.  A request is what the framework has parsed and validated; the lane of
  the authenticated caller is an input.
\<close>

section \<open>Requests and responses\<close>

record job_request =
  rq_intent :: string
  rq_prompt :: string
  rq_backend_hint :: "string option"
  rq_constraints :: payload
  rq_metadata :: payload
  rq_task_type :: string
  rq_role :: "string option"
  rq_specialization :: "string option"
  rq_session_id :: "string option"
  rq_parent_orchestrator_id :: "string option"
  rq_artifact_policy :: "string option"

text \<open>The length limits the request model declares.\<close>

definition request_valid :: "job_request \<Rightarrow> bool" where
  "request_valid r \<longleftrightarrow>
     (case rq_session_id r of Some s \<Rightarrow> length s \<le> 256 | None \<Rightarrow> True) \<and>
     (case rq_parent_orchestrator_id r of Some s \<Rightarrow> length s \<le> 256 | None \<Rightarrow> True)"

datatype http_response = HttpOk payload | HttpError nat string

definition optional_meta_str :: "(json \<Rightarrow> string) \<Rightarrow> payload \<Rightarrow> string \<Rightarrow> string option" where
  "optional_meta_str repr meta key =
     (let value = jget meta key in
      if value = JNull then None
      else (let text = py_strip (json_text repr value) in if text = [] then None else Some text))"

definition request_field :: "(json \<Rightarrow> string) \<Rightarrow> payload \<Rightarrow> string option \<Rightarrow> string \<Rightarrow> string option" where
  "request_field repr meta explicit key =
     (case explicit of
        Some s \<Rightarrow> if py_strip s \<noteq> [] then Some (py_strip s) else optional_meta_str repr meta key
      | None \<Rightarrow> optional_meta_str repr meta key)"

definition request_spec ::
    "(json \<Rightarrow> string) \<Rightarrow> string option \<Rightarrow> string \<Rightarrow> string \<Rightarrow> job_request \<Rightarrow> job_spec" where
  "request_spec repr lane new_id created r =
     (let meta = rq_metadata r;
          tagged = jget (rq_constraints r) ''task_type'';
          task_type = (if py_strip (rq_task_type r) \<noteq> [] then py_strip (rq_task_type r)
                       else py_strip (if truthy tagged then json_text repr tagged else []));
          session = request_field repr meta (rq_session_id r) ''session_id'';
          parent = request_field repr meta (rq_parent_orchestrator_id r) ''parent_orchestrator_id''
      in \<lparr>js_job_id = new_id, js_intent = rq_intent r, js_prompt = rq_prompt r,
          js_backend_hint = rq_backend_hint r, js_constraints = JObj (rq_constraints r),
          js_metadata = caller_reported_lineage_metadata (JObj meta) (truthy_str session \<or> truthy_str parent),
          js_created_at = created, js_role = request_field repr meta (rq_role r) ''role'',
          js_specialization = request_field repr meta (rq_specialization r) ''specialization'',
          js_session_id = session, js_parent_orchestrator_id = parent,
          js_artifact_policy = request_field repr meta (rq_artifact_policy r) ''artifact_policy'',
          js_authenticated_lane = lane, js_lineage_trust = ''caller_reported'', js_depth = 0,
          js_task_type = task_type\<rparr>)"

definition JOB_SUBMIT_ERROR_DETAIL :: string where
  "JOB_SUBMIT_ERROR_DETAIL = ''Job submission could not be completed''"

text \<open>\<open>HardwareAffinityError\<close> is a \<open>RuntimeError\<close>, the endpoint policy's error a \<open>ValueError\<close>.\<close>

definition client_error :: "exn \<Rightarrow> bool" where
  "client_error e = (e \<in> {ValueError, RuntimeError, HardwareAffinityError, ModelEndpointPolicyError})"

definition supervisor_submit_job ::
    "host \<Rightarrow> string option \<Rightarrow> string \<Rightarrow> string \<Rightarrow> job_request \<Rightarrow> sup \<Rightarrow> http_response res \<times> sup" where
  "supervisor_submit_job host lane now new_id r s =
     (case submit_job host now (request_spec (repr_of (host_env_of host)) lane new_id now r) s of
        (Ret jid, s') \<Rightarrow>
          (Ret (HttpOk [(''job_id'', JStr jid), (''state'', JStr (job_status_value Queued))]), s')
      | (Raise e, s') \<Rightarrow>
          (if client_error e then Ret (HttpError 400 JOB_SUBMIT_ERROR_DETAIL) else Raise e, s'))"

definition supervisor_list_jobs :: "string option \<Rightarrow> sup \<Rightarrow> http_response" where
  "supervisor_list_jobs status s =
     (if truthy_str status then
        (case find (\<lambda>st. job_status_value st = the status) all_statuses of
           Some st \<Rightarrow> HttpOk [(''jobs'', JList (map JObj (list_jobs (Some st) s)))]
         | None \<Rightarrow> HttpError 400 (''Unknown status: '' @ the status))
      else HttpOk [(''jobs'', JList (map JObj (list_jobs None s)))])"

text \<open>The pattern of a version-4 UUID; \<open>$\<close> also matches before a final line feed.\<close>

definition is_uuid_hex :: "char \<Rightarrow> bool" where
  "is_uuid_hex c = (is_digit c \<or> to_lower c \<in> set ''abcdef'')"

definition uuid_char_ok :: "nat \<Rightarrow> char \<Rightarrow> bool" where
  "uuid_char_ok i c =
     (if i \<in> {8, 13, 18, 23} then c = CHR ''-''
      else if i = 14 then c = CHR ''4''
      else if i = 19 then c \<in> set ''89abAB''
      else is_uuid_hex c)"

definition uuid4_shape :: "string \<Rightarrow> bool" where
  "uuid4_shape s = (length s = 36 \<and> list_all (\<lambda>(i, c). uuid_char_ok i c) (enumerate 0 s))"

definition uuid4_match :: "string \<Rightarrow> bool" where
  "uuid4_match s = (uuid4_shape s \<or> (length s = 37 \<and> uuid4_shape (butlast s) \<and> last s = CHR 0x0A))"

definition INVALID_JOB_ID :: string where
  "INVALID_JOB_ID = ''job_id must be a uuid4-formatted server-issued identifier''"

definition validate_job_id :: "string \<Rightarrow> (http_response, string) sum" where
  "validate_job_id jid = (if uuid4_match jid then Inr jid else Inl (HttpError 400 INVALID_JOB_ID))"

definition supervisor_get_job :: "string \<Rightarrow> sup \<Rightarrow> http_response" where
  "supervisor_get_job jid s =
     (case validate_job_id jid of
        Inl r \<Rightarrow> r
      | Inr _ \<Rightarrow> (case get_status s jid of Some d \<Rightarrow> HttpOk d | None \<Rightarrow> HttpError 404 ''Job not found''))"

definition copy_present :: "payload \<Rightarrow> string \<Rightarrow> payload \<Rightarrow> payload" where
  "copy_present status k body = (if jget status k \<noteq> JNull then AList.update k (jget status k) body else body)"

definition cancel_body :: "sup \<Rightarrow> string \<Rightarrow> bool \<Rightarrow> json \<Rightarrow> payload" where
  "cancel_body s jid requested terminal =
     (let base = [(''job_id'', JStr jid), (''cancel_requested'', JBool requested), (''terminal_state'', terminal)];
          copied = (case get_status s jid of
              None \<Rightarrow> base
            | Some st \<Rightarrow> copy_present st ''containment_detail''
                (copy_present st ''containment_state'' (copy_present st ''worker_kind'' base)))
      in if \<not> requested then base
         else if map_of copied ''worker_kind'' = None \<and> map_of copied ''containment_state'' = None \<and>
                 has_registered_child jid s
         then AList.update ''containment_state'' (JStr ''unresolved'') (AList.update ''worker_kind'' (JStr ''cli'') copied)
         else copied)"

definition supervisor_cancel_job ::
    "string \<Rightarrow> (sup \<Rightarrow> sup) \<Rightarrow> (sup \<Rightarrow> sup) \<Rightarrow> string \<Rightarrow> sup \<Rightarrow> http_response \<times> sup" where
  "supervisor_cancel_job now worker_wait cleanup_wait jid s =
     (case validate_job_id jid of
        Inl r \<Rightarrow> (r, s)
      | Inr _ \<Rightarrow>
          (case cancel_with_terminal_state now jid worker_wait cleanup_wait s of
             ((requested, terminal), s') \<Rightarrow> (HttpOk (cancel_body s' jid requested terminal), s')))"

definition replay_value_error_to_http :: "exn \<Rightarrow> http_response" where
  "replay_value_error_to_http e =
     (if e = ReplayJobNotFoundError then HttpError 404 ''Job not found''
      else if e = ReplayJobNotReplayableError then HttpError 409 ''Job is not replayable''
      else if e = ReplayNoQueuedSpecError then HttpError 422 ''Job has no queued specification''
      else HttpError 400 ''Replay request could not be completed'')"

definition is_value_error :: "exn \<Rightarrow> bool" where
  "is_value_error e = (e \<in> {ValueError, ModelEndpointPolicyError, ReplayJobNotFoundError,
     ReplayJobNotReplayableError, ReplayNoQueuedSpecError})"

definition supervisor_replay_job ::
    "host \<Rightarrow> string option \<Rightarrow> string \<Rightarrow> string \<Rightarrow> string \<Rightarrow> sup \<Rightarrow> http_response res \<times> sup" where
  "supervisor_replay_job host lane now new_id jid s =
     (case validate_job_id jid of
        Inl r \<Rightarrow> (Ret r, s)
      | Inr _ \<Rightarrow>
          (case replay_job host now new_id jid [(''authenticated_lane'', jstr_opt lane)] s of
             (Ret nid, s') \<Rightarrow>
               (Ret (HttpOk [(''original_job_id'', JStr jid), (''new_job_id'', JStr nid),
                             (''state'', JStr (job_status_value Queued))]), s')
           | (Raise e, s') \<Rightarrow> (if is_value_error e then Ret (replay_value_error_to_http e) else Raise e, s')))"

section \<open>What the endpoints promise\<close>

text \<open>A job id that reaches the file system names no other directory.\<close>

lemma uuid_shape_chars:
  assumes "uuid4_shape s" and "c \<in> set s"
  shows "is_uuid_hex c \<or> c = CHR ''-''"
proof -
  from assms(2) obtain i where i: "i < length s" "s ! i = c" by (auto simp: in_set_conv_nth)
  then have "(i, c) \<in> set (enumerate 0 s)" by (auto simp: in_set_enumerate_eq)
  with assms(1) have "uuid_char_ok i c" by (auto simp: uuid4_shape_def list_all_iff)
  moreover have "is_uuid_hex CHR ''4''" and "list_all is_uuid_hex ''89abAB''" by code_simp+
  ultimately show ?thesis by (auto simp: uuid_char_ok_def split: if_splits)
qed

text \<open>A job id that passes validation contains no slash and no dot and has at most 37 characters.\<close>

theorem validated_ids_are_names:
  assumes "validate_job_id jid = Inr j"
  shows "j = jid \<and> CHR ''/'' \<notin> set j \<and> CHR ''.'' \<notin> set j \<and> 36 \<le> length j \<and> length j \<le> 37"
proof -
  have m: "uuid4_match jid" and j: "j = jid" using assms by (auto simp: validate_job_id_def split: if_splits)
  have bad: "\<not> is_uuid_hex CHR ''/''" "\<not> is_uuid_hex CHR ''.''" by code_simp+
  have shape: "CHR ''/'' \<notin> set s \<and> CHR ''.'' \<notin> set s" if "uuid4_shape s" for s
    using uuid_shape_chars [OF that] bad by blast
  from m show ?thesis unfolding uuid4_match_def j
  proof
    assume "uuid4_shape jid"
    then show "jid = jid \<and> CHR ''/'' \<notin> set jid \<and> CHR ''.'' \<notin> set jid \<and> 36 \<le> length jid \<and> length jid \<le> 37"
      using shape by (simp add: uuid4_shape_def)
  next
    assume a: "length jid = 37 \<and> uuid4_shape (butlast jid) \<and> last jid = CHR 0x0A"
    then have "jid = butlast jid @ [CHR 0x0A]" by (metis append_butlast_last_id length_0_conv zero_neq_numeral)
    then have "set jid = insert CHR 0x0A (set (butlast jid))" by (metis Un_insert_right list.simps(15) set_append sup_bot.right_neutral list.set(1))
    with a shape [of "butlast jid"] show "jid = jid \<and> CHR ''/'' \<notin> set jid \<and> CHR ''.'' \<notin> set jid \<and> 36 \<le> length jid \<and> length jid \<le> 37"
      by simp
  qed
qed

lemma copy_present_get: "map_of (copy_present st k body) k' = (if k' = k \<and> jget st k \<noteq> JNull then Some (jget st k) else map_of body k')"
  by (auto simp: copy_present_def map_of_update)

text \<open>A requested cancellation of a job whose child is still registered is reported with a worker
  kind or a containment state.\<close>

theorem retained_child_reported:
  assumes "has_registered_child jid s"
  shows "map_of (cancel_body s jid True terminal) ''worker_kind'' \<noteq> None \<or>
         map_of (cancel_body s jid True terminal) ''containment_state'' \<noteq> None"
  using assms
  by (auto simp: cancel_body_def Let_def copy_present_get map_of_update split: option.splits)

section \<open>A small run\<close>

definition demo_float :: "rat \<Rightarrow> string" where "demo_float q = ''0.0''"

definition demo_queued_job :: sup where
  "demo_queued_job = snd (submit_job demo_host ''t1'' demo_job_spec (init_sup [] []))"

lemma demo_queued_code [code]:
  "demo_queued_job = \<lparr>jobs_file = [EventLine
     [(''ts'', JStr ''t1''), (''job_id'', JStr ''job-1''), (''spec'', JObj (spec_to_dict demo_job_spec)),
      (''status'', JStr ''queued''), (''lineage_trust'', JStr ''caller_reported'')]],
     artifacts = [], active = [(''job-1'', 0)],
     sup_tasks = [\<lparr>t_spec = demo_job_spec, t_pc = Created, t_cancel = False, t_notified = False\<rparr>],
     children = [], exits = [], cleanups = [], cleanup_finished = [], gossiped = [], gossip_warned = False\<rparr>"
  by code_simp

definition demo_running :: sup where "demo_running = start_worker ''t2'' 0 demo_queued_job"

lemma demo_running_code [code]:
  "demo_running = \<lparr>jobs_file = [EventLine
     [(''ts'', JStr ''t1''), (''job_id'', JStr ''job-1''), (''spec'', JObj (spec_to_dict demo_job_spec)),
      (''status'', JStr ''queued''), (''lineage_trust'', JStr ''caller_reported'')],
     EventLine [(''ts'', JStr ''t2''), (''job_id'', JStr ''job-1''), (''status'', JStr ''running''),
      (''lineage_trust'', JStr ''caller_reported'')]],
     artifacts = [], active = [(''job-1'', 0)],
     sup_tasks = [\<lparr>t_spec = demo_job_spec, t_pc = Dispatching, t_cancel = False, t_notified = False\<rparr>],
     children = [], exits = [], cleanups = [], cleanup_finished = [], gossiped = [], gossip_warned = False\<rparr>"
  by code_simp

definition demo_succeeded :: sup where
  "demo_succeeded = job_succeeded demo_float ''t3'' 0 (JObj [(''output'', JStr ''ok'')]) demo_running"

lemma demo_artifact: "artifact_for demo_float (JObj [(''output'', JStr ''ok'')]) = JObj [(''output'', JStr ''ok'')]"
proof -
  let ?t = "dumps demo_float 0 (JObj [(''output'', JStr ''ok'')])"
  have "utf8_size ?t \<le> 100" by code_simp
  then show ?thesis by (simp add: artifact_for_def Let_def MAX_RESULT_BYTES_def del: dumps.simps)
qed

text \<open>Evaluations use the run with the size check already decided.\<close>

lemma demo_succeeded_code [code]:
  "demo_succeeded = goto 0 (Announcing ''result'' [])
     (append_lifecycle_event ''t3'' (spec_of_task demo_running 0) Succeeded
        [(''artifact'', JStr (artifact_path (js_job_id (spec_of_task demo_running 0))))]
        (demo_running\<lparr>artifacts := AList.update (js_job_id (spec_of_task demo_running 0))
           (JObj [(''output'', JStr ''ok'')]) (artifacts demo_running)\<rparr>))"
  by (simp add: demo_succeeded_def job_succeeded_def Let_def demo_artifact)

lemma demo_succeeded_value [code]:
  "demo_succeeded = \<lparr>jobs_file = [EventLine
     [(''ts'', JStr ''t1''), (''job_id'', JStr ''job-1''), (''spec'', JObj (spec_to_dict demo_job_spec)),
      (''status'', JStr ''queued''), (''lineage_trust'', JStr ''caller_reported'')],
     EventLine [(''ts'', JStr ''t2''), (''job_id'', JStr ''job-1''), (''status'', JStr ''running''),
      (''lineage_trust'', JStr ''caller_reported'')],
     EventLine [(''ts'', JStr ''t3''), (''job_id'', JStr ''job-1''), (''artifact'', JStr ''jobs/job-1/result.json''),
      (''status'', JStr ''succeeded''),
      (''lineage_trust'', JStr ''caller_reported'')]],
     artifacts = [(''job-1'', JObj [(''output'', JStr ''ok'')])], active = [(''job-1'', 0)],
     sup_tasks = [\<lparr>t_spec = demo_job_spec, t_pc = Announcing ''result'' [], t_cancel = False, t_notified = False\<rparr>],
     children = [], exits = [], cleanups = [], cleanup_finished = [], gossiped = [], gossip_warned = False\<rparr>"
  by code_simp

definition demo_asked :: sup where "demo_asked = snd (cancel ''job-1'' demo_succeeded)"

definition demo_overwritten :: sup where "demo_overwritten = deliver_cancel ''t4'' 0 demo_asked"

definition demo_cleaning :: sup where "demo_cleaning = on_cancelled_worker_done ''t5'' 0 demo_overwritten"

lemma demo_cleaning_code [code]:
  "demo_cleaning = \<lparr>jobs_file = [EventLine
     [(''ts'', JStr ''t1''), (''job_id'', JStr ''job-1''), (''spec'', JObj (spec_to_dict demo_job_spec)),
      (''status'', JStr ''queued''), (''lineage_trust'', JStr ''caller_reported'')],
     EventLine [(''ts'', JStr ''t2''), (''job_id'', JStr ''job-1''), (''status'', JStr ''running''),
      (''lineage_trust'', JStr ''caller_reported'')],
     EventLine [(''ts'', JStr ''t3''), (''job_id'', JStr ''job-1''), (''artifact'', JStr ''jobs/job-1/result.json''),
      (''status'', JStr ''succeeded''),
      (''lineage_trust'', JStr ''caller_reported'')],
     EventLine [(''ts'', JStr ''t4''), (''job_id'', JStr ''job-1''), (''status'', JStr ''cancelled''),
      (''lineage_trust'', JStr ''caller_reported'')]],
     artifacts = [(''job-1'', JObj [(''output'', JStr ''ok'')])], active = [],
     sup_tasks = [\<lparr>t_spec = demo_job_spec, t_pc = Ended WasCancelled, t_cancel = True, t_notified = True\<rparr>],
     children = [], exits = [], cleanups = [(''job-1'', Attempt 1)], cleanup_finished = [], gossiped = [], gossip_warned = False\<rparr>"
  by code_simp

definition demo_crashed :: sup where "demo_crashed = crash_at_start ''t2'' True 0 demo_queued_job"

lemma demo_job_start: "sup_steps demo_host demo_float (init_sup [] []) demo_queued_job"
proof (rule steps_one)
  have "js_job_id demo_job_spec \<noteq> []" by (simp add: demo_job_spec_def)
  moreover have "\<not> known_job (init_sup [] []) (js_job_id demo_job_spec)"
    by (simp add: known_job_def init_sup_def latest_event_def events_def load_events_def)
  ultimately show "sup_step demo_host demo_float (init_sup [] []) demo_queued_job"
    unfolding demo_queued_job_def by (rule sup_step.submit)
qed

lemma demo_run_step: "sup_step demo_host demo_float demo_queued_job demo_running"
  unfolding demo_running_def by (rule sup_step.start) code_simp+

lemma demo_crash_step: "sup_step demo_host demo_float demo_queued_job demo_crashed"
  unfolding demo_crashed_def by (rule sup_step.crash) code_simp+

lemma demo_success_steps: "sup_steps demo_host demo_float (init_sup [] []) demo_succeeded"
proof -
  have "sup_step demo_host demo_float demo_running demo_succeeded"
    unfolding demo_succeeded_def by (rule sup_step.succeed) code_simp+
  from sup_steps.more [OF sup_steps.more [OF demo_job_start demo_run_step] this] show ?thesis .
qed

lemma demo_cancel_steps: "sup_steps demo_host demo_float demo_succeeded demo_overwritten"
proof -
  have "sup_step demo_host demo_float demo_succeeded demo_asked"
    unfolding demo_asked_def by (rule sup_step.request)
  moreover have "sup_step demo_host demo_float demo_asked demo_overwritten"
    unfolding demo_overwritten_def by (rule sup_step.deliver) code_simp+
  ultimately show ?thesis by (blast intro: sup_steps.intros)
qed

lemma demo_cleaning_steps: "sup_steps demo_host demo_float (init_sup [] []) demo_cleaning"
proof -
  have "sup_step demo_host demo_float demo_overwritten demo_cleaning"
    unfolding demo_cleaning_def by (rule sup_step.callback) code_simp+
  with steps_trans [OF demo_cancel_steps demo_success_steps] show ?thesis by (rule sup_steps.more)
qed

text \<open>A run exists in which a job whose success and artifact are durable is afterwards recorded as
  cancelled.\<close>

theorem success_overwritten_by_cancel:
  shows "\<exists>s t. sup_steps demo_host demo_float (init_sup [] []) s \<and> statuses s ''job-1'' = Some Succeeded \<and>
     map_of (artifacts s) ''job-1'' = Some (JObj [(''output'', JStr ''ok'')]) \<and>
     sup_steps demo_host demo_float s t \<and> statuses t ''job-1'' = Some CancelledJob"
proof (intro exI conjI)
  show "statuses demo_succeeded ''job-1'' = Some Succeeded" by code_simp
  show "map_of (artifacts demo_succeeded) ''job-1'' = Some (JObj [(''output'', JStr ''ok'')])" by code_simp
  show "statuses demo_overwritten ''job-1'' = Some CancelledJob" by code_simp
qed (rule demo_success_steps demo_cancel_steps)+

lemma supervisor_refines_lifecycle_witness: "lifecycle_step (statuses demo_queued_job) (statuses demo_running)"
  by (rule supervisor_refines_lifecycle [OF demo_job_start demo_run_step])

lemma reachable_invariant_witness: "sup_inv demo_succeeded"
  by (rule reachable_invariant [OF demo_success_steps])

lemma success_has_artifact_witness: "files_ok demo_float demo_succeeded"
  by (rule success_has_artifact [OF demo_success_steps])

lemma waits_id: "waits host show_float (\<lambda>s. s)"
  by (simp add: waits_def sup_steps.none)

lemma reported_cancellation_is_final_witness: "statuses demo_cleaning ''job-1'' = Some CancelledJob"
  by (rule reported_cancellation_is_final [OF demo_cleaning_steps waits_id waits_id _ sup_steps.none,
        of "''t6''" "''job-1''" True])
    code_simp


lemma wait_process_exit_ends_witness:
  "\<exists>r. wait_process_exit 0 3 (\<lambda>i. \<lparr>seen_exit = False, clock = of_nat i, timed_out = False\<rparr>) = Some r \<and>
     0 + 3 \<le> (of_nat r :: rat)"
  using wait_process_exit_ends [of "\<lambda>i. \<lparr>seen_exit = False, clock = of_nat i, timed_out = False\<rparr>" 1 0 3]
  by simp

lemma crashed_start_keeps_slot_witness:
  "slot_lost (snd (cancel ''job-1'' demo_crashed)) ''job-1'' 0 \<or> snd (cancel ''job-1'' demo_crashed) = restart demo_crashed"
proof (rule crashed_start_keeps_slot [OF sup_step.request])
  show "sup_inv demo_crashed"
    by (rule steps_inv [OF sup_steps.more [OF demo_job_start demo_crash_step] init_inv])
  show "slot_lost demo_crashed ''job-1'' 0" by code_simp
qed

lemma interrupted_job_stays_running_witness: "statuses (restart demo_running) ''job-1'' = Some Running"
proof -
  have "sup_inv demo_running"
    by (rule steps_inv [OF sup_steps.more [OF demo_job_start demo_run_step] init_inv])
  moreover have "statuses demo_running ''job-1'' = Some Running" by code_simp
  ultimately show ?thesis using interrupted_job_stays_running [OF _ _ sup_steps.none] by blast
qed

lemma artifact_size_bounded_witness:
  "utf8_size (dumps demo_float 0 (artifact_for demo_float JNull)) \<le> MAX_RESULT_BYTES"
  by (rule artifact_size_bounded [of _ _ 1]) (simp_all add: utf8_size_def code_def)


lemma replay_is_caller_reported_witness:
  "statuses demo_succeeded ''job-1'' \<in> {Some Succeeded, Some FailedJob, Some CancelledJob}"
proof -
  have "replay_job demo_host ''t9'' ''job-2'' ''job-1'' [(''authenticated_lane'', JStr ''pt'')] demo_succeeded =
      (Ret ''job-2'', snd (replay_job demo_host ''t9'' ''job-2'' ''job-1'' [(''authenticated_lane'', JStr ''pt'')] demo_succeeded))"
    by code_simp
  from replay_is_caller_reported [OF this] show ?thesis by simp
qed

lemma validated_ids_are_names_witness:
  "CHR ''/'' \<notin> set ''0b5ac3de-0000-4abc-9def-00112233aabb''"
proof -
  have "validate_job_id ''0b5ac3de-0000-4abc-9def-00112233aabb'' = Inr ''0b5ac3de-0000-4abc-9def-00112233aabb''"
    by code_simp
  from validated_ids_are_names [OF this] show ?thesis by blast
qed

lemma retained_child_reported_witness:
  "map_of (cancel_body (note_child ''job-1'' 7 demo_running) ''job-1'' True JNull) ''worker_kind'' \<noteq> None \<or>
   map_of (cancel_body (note_child ''job-1'' 7 demo_running) ''job-1'' True JNull) ''containment_state'' \<noteq> None"
  by (rule retained_child_reported) code_simp

text \<open>The length limit of a session id holds for the field of the request, not for the same key in
  its metadata.\<close>

lemma long_session_accepted:
  fixes r :: job_request
  assumes "rq_session_id r = None" and "map_of (rq_metadata r) ''session_id'' = Some (JStr (replicate 300 CHR ''x''))"
    and "rq_parent_orchestrator_id r = None"
  shows "request_valid r \<and> js_session_id (request_spec repr lane i t r) = Some (replicate 300 CHR ''x'')"
proof -
  have strip: "py_strip (replicate 300 CHR ''x'') = replicate 300 CHR ''x''"
    by (simp add: py_strip_def is_space_def code_def)
  show ?thesis using assms strip
    by (simp add: request_valid_def request_spec_def request_field_def optional_meta_str_def Let_def jget_def
        dict_get_def json_text_def)
qed

end
