(* ===== verification/AgentTracker.thy ===== *)
theory AgentTracker
  imports Prelude
begin

text \<open>
  \<open>orchestrator/agent_tracker.py\<close> and \<open>orchestrator/spawn_reconciliation.py\<close>: the registry of
  agents kept in a JSON file with a copy in memory, and the reconciler that recruits the endpoints a
  network scan finds.  A record read from the file keeps whatever JSON values it has.  The clock, the
  fresh id and the outcome of each access to the file are inputs.
\<close>

section \<open>Records and their JSON form\<close>

record agent_record =
  agent_id :: json
  agent_role :: json
  agent_model :: json
  agent_backend :: json
  agent_host :: json
  agent_port :: json
  agent_status :: json
  created_at :: json
  updated_at :: json
  task_hash :: json
  parent_agent_id :: json
  agent_metadata :: json

definition required_fields :: "string list" where
  "required_fields = [''agent_id'', ''role'', ''model'', ''backend'', ''host'', ''port'', ''status'',
     ''created_at'', ''updated_at'']"

definition record_fields :: "string list" where
  "record_fields = required_fields @ [''task_hash'', ''parent_agent_id'', ''metadata'']"

text \<open>\<open>AgentRecord(**v)\<close>; \<open>None\<close> is the \<open>TypeError\<close> of an unknown or a missing field.\<close>

definition agent_of :: "payload \<Rightarrow> agent_record option" where
  "agent_of v =
     (if set (map fst v) \<subseteq> set record_fields \<and> set required_fields \<subseteq> set (map fst v) then
        Some \<lparr>agent_id = jget v ''agent_id'', agent_role = jget v ''role'', agent_model = jget v ''model'',
              agent_backend = jget v ''backend'', agent_host = jget v ''host'', agent_port = jget v ''port'',
              agent_status = jget v ''status'', created_at = jget v ''created_at'',
              updated_at = jget v ''updated_at'', task_hash = jget v ''task_hash'',
              parent_agent_id = jget v ''parent_agent_id'', agent_metadata = dict_get v ''metadata'' (JObj [])\<rparr>
      else None)"

definition asdict :: "agent_record \<Rightarrow> payload" where
  "asdict a = [(''agent_id'', agent_id a), (''role'', agent_role a), (''model'', agent_model a),
     (''backend'', agent_backend a), (''host'', agent_host a), (''port'', agent_port a),
     (''status'', agent_status a), (''created_at'', created_at a), (''updated_at'', updated_at a),
     (''task_hash'', task_hash a), (''parent_agent_id'', parent_agent_id a), (''metadata'', agent_metadata a)]"

lemma agent_of_asdict [simp]: "agent_of (asdict a) = Some a"
  by (simp add: agent_of_def asdict_def record_fields_def required_fields_def jget_def dict_get_def)

type_synonym agents = "(string, agent_record) dict"

text \<open>The loop over the entries of the file: an entry that is no record is skipped.\<close>

definition entry_agent :: "json \<Rightarrow> agent_record option" where
  "entry_agent v = (case v of JObj d \<Rightarrow> agent_of d | _ \<Rightarrow> None)"

fun decode_entries :: "payload \<Rightarrow> agents" where
  "decode_entries [] = []"
| "decode_entries ((k, v) # raw) =
     (case entry_agent v of Some a \<Rightarrow> (k, a) # decode_entries raw | None \<Rightarrow> decode_entries raw)"

definition has_stale :: "payload \<Rightarrow> bool" where
  "has_stale raw = list_ex (\<lambda>kv. entry_agent (snd kv) = None) raw"

definition encode_agents :: "agents \<Rightarrow> json" where
  "encode_agents agents = JObj (map (\<lambda>(k, a). (k, JObj (asdict a))) agents)"

lemma decode_encode [simp]: "decode_entries (map (\<lambda>(k, a). (k, JObj (asdict a))) m) = m"
  by (induction m) (auto simp: entry_agent_def)

lemma no_stale_encode [simp]: "\<not> has_stale (map (\<lambda>(k, a). (k, JObj (asdict a))) m)"
  by (induction m) (auto simp: entry_agent_def has_stale_def)

section \<open>State and persistence\<close>

datatype registry_file = NoRegistry | BadUtf8 | BadJson | Parsed json

record tracker =
  registry_file :: registry_file
  memory_agents :: agents
  registry_persists :: bool

definition new_tracker :: "registry_file \<Rightarrow> tracker" where
  "new_tracker f = \<lparr>registry_file = f, memory_agents = [], registry_persists = True\<rparr>"

record tracker_env =
  te_now :: rat
  te_new_id :: string
  te_read_ok :: bool
  te_unlink_ok :: bool
  te_prune :: write_outcome
  te_write :: write_outcome

text \<open>A write that fails half way leaves a strict prefix of the text of an object, which is no JSON.\<close>

definition save_agents :: "write_outcome \<Rightarrow> agents \<Rightarrow> tracker \<Rightarrow> tracker" where
  "save_agents w agents s =
     (let s1 = s\<lparr>memory_agents := agents\<rparr> in
      if \<not> registry_persists s then s1
      else case w of
             Written \<Rightarrow> s1\<lparr>registry_file := Parsed (encode_agents agents)\<rparr>
           | NotWritten \<Rightarrow> s1\<lparr>registry_persists := False\<rparr>
           | Truncated \<Rightarrow> s1\<lparr>registry_persists := False, registry_file := BadJson\<rparr>)"

definition load_agents :: "tracker_env \<Rightarrow> tracker \<Rightarrow> agents res \<times> tracker" where
  "load_agents env s =
     (if \<not> registry_persists s then (Ret (memory_agents s), s)
      else if \<not> te_read_ok env then (Ret (memory_agents s), s\<lparr>registry_persists := False\<rparr>)
      else case registry_file s of
             NoRegistry \<Rightarrow> (Ret [], s)
           | BadUtf8 \<Rightarrow> (Raise ValueError, s)
           | BadJson \<Rightarrow> (Ret (memory_agents s), s\<lparr>registry_persists := False\<rparr>)
           | Parsed (JObj raw) \<Rightarrow>
               (let agents = decode_entries raw;
                    s1 = (if has_stale raw then save_agents (te_prune env) agents s else s)
                in (Ret agents, s1\<lparr>memory_agents := agents\<rparr>))
           | Parsed _ \<Rightarrow>
               (if te_unlink_ok env then (Ret [], s\<lparr>registry_file := NoRegistry\<rparr>)
                else (Ret (memory_agents s), s\<lparr>registry_persists := False\<rparr>)))"

section \<open>Queries\<close>

text \<open>\<open>v in S\<close> for a set of strings: a list or a dictionary has no hash.\<close>

definition in_names :: "json \<Rightarrow> string list \<Rightarrow> bool res" where
  "in_names v names =
     (case v of JStr x \<Rightarrow> Ret (x \<in> set names) | JList _ \<Rightarrow> Raise TypeError | JObj _ \<Rightarrow> Raise TypeError
      | _ \<Rightarrow> Ret False)"

definition list_agents_of :: "tracker_env \<Rightarrow> string option \<Rightarrow> tracker \<Rightarrow> agent_record list res \<times> tracker" where
  "list_agents_of env status s =
     (case load_agents env s of
        (Raise e, s1) \<Rightarrow> (Raise e, s1)
      | (Ret agents, s1) \<Rightarrow>
          (Ret (case status of
                  Some st \<Rightarrow> if st \<noteq> [] then filter (\<lambda>a. agent_status a = JStr st) (map snd agents) else map snd agents
                | None \<Rightarrow> map snd agents), s1))"

definition LIVE :: "string list" where "LIVE = [''starting'', ''running'', ''idle'']"

fun first_live :: "string \<Rightarrow> string option \<Rightarrow> agent_record list \<Rightarrow> agent_record option res" where
  "first_live role hash [] = Ret None"
| "first_live role hash (a # as) =
     (if agent_role a \<noteq> JStr role then first_live role hash as
      else res_bind (in_names (agent_status a) LIVE) (\<lambda>live.
        if live \<and> (case hash of None \<Rightarrow> True | Some h \<Rightarrow> task_hash a = JStr h) then Ret (Some a)
        else first_live role hash as))"

definition find_existing ::
    "tracker_env \<Rightarrow> string \<Rightarrow> string option \<Rightarrow> tracker \<Rightarrow> agent_record option res \<times> tracker" where
  "find_existing env role hash s =
     (case load_agents env s of
        (Raise e, s1) \<Rightarrow> (Raise e, s1)
      | (Ret agents, s1) \<Rightarrow> (first_live role hash (map snd agents), s1))"

text \<open>Equality of dictionary keys: numbers and booleans compare by value.\<close>

definition number_of :: "json \<Rightarrow> rat option" where
  "number_of v = (case v of JInt i \<Rightarrow> Some (of_int i) | JFloat q \<Rightarrow> Some q | JBool b \<Rightarrow> Some (of_bool b) | _ \<Rightarrow> None)"

definition same_key :: "json \<Rightarrow> json \<Rightarrow> bool" where
  "same_key v w = (case (number_of v, number_of w) of (Some x, Some y) \<Rightarrow> x = y | _ \<Rightarrow> v = w)"

definition hashable :: "json \<Rightarrow> bool" where
  "hashable v = (case v of JList _ \<Rightarrow> False | JObj _ \<Rightarrow> False | _ \<Rightarrow> True)"

definition duplicate_roles :: "agent_record list \<Rightarrow> agent_record list res" where
  "duplicate_roles running =
     (if list_ex (\<lambda>a. \<not> hashable (agent_role a)) running then Raise TypeError
      else Ret (filter (\<lambda>a. 1 < length (filter (\<lambda>b. same_key (agent_role a) (agent_role b)) running)) running))"

definition detect_conflicts :: "tracker_env \<Rightarrow> tracker_env \<Rightarrow> tracker \<Rightarrow> agent_record list res \<times> tracker" where
  "detect_conflicts env1 env2 s =
     (case list_agents_of env1 (Some ''running'') s of
        (Raise e, s1) \<Rightarrow> (Raise e, s1)
      | (Ret running, s1) \<Rightarrow>
          (case list_agents_of env2 (Some ''idle'') s1 of
             (Raise e, s2) \<Rightarrow> (Raise e, s2)
           | (Ret idle, s2) \<Rightarrow> (duplicate_roles (running @ idle), s2)))"

section \<open>Mutations\<close>

text \<open>\<open>register\<close> reads the file, then writes it without a lock; \<open>register_in\<close> is the part after the
  read, so that another process may write in between.\<close>

record agent_request =
  ar_role :: string
  ar_model :: string
  ar_backend :: string
  ar_host :: string
  ar_port :: int
  ar_task_hash :: "string option"
  ar_parent :: "string option"
  ar_metadata :: payload
  ar_status :: string

definition agent_for :: "tracker_env \<Rightarrow> agent_request \<Rightarrow> agent_record" where
  "agent_for env r =
     \<lparr>agent_id = JStr (te_new_id env), agent_role = JStr (ar_role r), agent_model = JStr (ar_model r),
      agent_backend = JStr (ar_backend r), agent_host = JStr (ar_host r), agent_port = JInt (ar_port r),
      agent_status = JStr (ar_status r), created_at = JFloat (te_now env), updated_at = JFloat (te_now env),
      task_hash = jopt JStr (ar_task_hash r), parent_agent_id = jopt JStr (ar_parent r),
      agent_metadata = JObj (ar_metadata r)\<rparr>"

definition register_in :: "tracker_env \<Rightarrow> agent_request \<Rightarrow> agents \<Rightarrow> tracker \<Rightarrow> agent_record res \<times> tracker" where
  "register_in env r agents s =
     (Ret (agent_for env r), save_agents (te_write env) (AList.update (te_new_id env) (agent_for env r) agents) s)"

definition register :: "tracker_env \<Rightarrow> agent_request \<Rightarrow> tracker \<Rightarrow> agent_record res \<times> tracker" where
  "register env r s =
     (case load_agents env s of
        (Raise e, s1) \<Rightarrow> (Raise e, s1)
      | (Ret agents, s1) \<Rightarrow> register_in env r agents s1)"

definition with_status :: "tracker_env \<Rightarrow> string \<Rightarrow> agent_record \<Rightarrow> agent_record" where
  "with_status env status a = a\<lparr>agent_status := JStr status, updated_at := JFloat (te_now env)\<rparr>"

text \<open>The id is a value of a record, so it may be any JSON value.\<close>

definition update_status ::
    "tracker_env \<Rightarrow> json \<Rightarrow> string \<Rightarrow> tracker \<Rightarrow> agent_record option res \<times> tracker" where
  "update_status env aid status s =
     (case load_agents env s of
        (Raise e, s1) \<Rightarrow> (Raise e, s1)
      | (Ret agents, s1) \<Rightarrow>
          (case aid of
             JStr k \<Rightarrow>
               (case map_of agents k of
                  None \<Rightarrow> (Ret None, s1)
                | Some a \<Rightarrow>
                    (Ret (Some (with_status env status a)),
                     save_agents (te_write env) (AList.update k (with_status env status a) agents) s1))
           | _ \<Rightarrow> (if hashable aid then Ret None else Raise TypeError, s1)))"

definition destroy :: "tracker_env \<Rightarrow> string \<Rightarrow> tracker \<Rightarrow> bool res \<times> tracker" where
  "destroy env k s =
     (case load_agents env s of
        (Raise e, s1) \<Rightarrow> (Raise e, s1)
      | (Ret agents, s1) \<Rightarrow>
          if map_of agents k = None then (Ret False, s1)
          else (Ret True, save_agents (te_write env) (AList.delete k agents) s1))"

definition GONE :: "string list" where "GONE = [''stopped'', ''error'']"

definition destroy_stopped :: "tracker_env \<Rightarrow> tracker \<Rightarrow> nat res \<times> tracker" where
  "destroy_stopped env s =
     (case load_agents env s of
        (Raise e, s1) \<Rightarrow> (Raise e, s1)
      | (Ret agents, s1) \<Rightarrow>
          if list_ex (\<lambda>kv. \<not> hashable (agent_status (snd kv))) agents then (Raise TypeError, s1)
          else (let kept = filter (\<lambda>kv. in_names (agent_status (snd kv)) GONE = Ret False) agents
                in (Ret (length agents - length kept), save_agents (te_write env) kept s1)))"

section \<open>The reconciler\<close>

record ai_endpoint =
  ep_host :: string
  ep_port :: int
  ep_server_type :: string
  ep_models :: "string list"

definition endpoint_key :: "(json \<Rightarrow> string) \<Rightarrow> json \<Rightarrow> json \<Rightarrow> string" where
  "endpoint_key repr host port = json_text repr host @ '':'' @ json_text repr port"

definition known_endpoints :: "(json \<Rightarrow> string) \<Rightarrow> agent_record list \<Rightarrow> string list" where
  "known_endpoints repr known =
     map (\<lambda>a. endpoint_key repr (agent_host a) (agent_port a))
       (filter (\<lambda>a. agent_status a \<in> {JStr ''running'', JStr ''idle''}) known)"

definition find_registry_match :: "ai_endpoint \<Rightarrow> agent_record list \<Rightarrow> agent_record option" where
  "find_registry_match ep known =
     find (\<lambda>a. agent_host a = JStr (ep_host ep) \<and> same_key (agent_port a) (JInt (ep_port ep))) known"

definition infer_role :: "ai_endpoint \<Rightarrow> string" where
  "infer_role ep =
     (if has_sub ''coder'' (lower (concat (ep_models ep))) then ''recruited-coder''
      else if ep_server_type ep = ''ollama'' then ''recruited-reasoner'' else ''recruited-agent'')"

definition recruit_request :: "ai_endpoint \<Rightarrow> agent_request" where
  "recruit_request ep =
     \<lparr>ar_role = infer_role ep, ar_model = (case ep_models ep of [] \<Rightarrow> ''unknown'' | m # ms \<Rightarrow> m),
      ar_backend = ep_server_type ep, ar_host = ep_host ep, ar_port = ep_port ep, ar_task_hash = None,
      ar_parent = None, ar_metadata = [(''source'', JStr ''lan_discovery_recruit'')], ar_status = ''starting''\<rparr>"

text \<open>One orphan: its former record resumes, or it is registered anew.\<close>

definition recruit ::
    "agent_record list \<Rightarrow> tracker_env \<Rightarrow> tracker_env \<Rightarrow> ai_endpoint \<Rightarrow> tracker \<Rightarrow> agent_record option res \<times> tracker" where
  "recruit known env1 env2 ep s =
     (case find_registry_match ep known of
        Some a \<Rightarrow> update_status env1 (agent_id a) ''running'' s
      | None \<Rightarrow>
          (case register env1 (recruit_request ep) s of
             (Raise e, s1) \<Rightarrow> (Raise e, s1)
           | (Ret a, s1) \<Rightarrow>
               (case update_status env2 (agent_id a) ''running'' s1 of
                  (Raise e, s2) \<Rightarrow> (Raise e, s2)
                | (Ret u, s2) \<Rightarrow> (Ret (Some (case u of Some b \<Rightarrow> b | None \<Rightarrow> a)), s2))))"

text \<open>A scan is the list of endpoints found, each with the inputs of the two accesses to the file.\<close>

type_synonym scan = "(ai_endpoint \<times> tracker_env \<times> tracker_env) list"

fun reconcile_loop ::
    "(json \<Rightarrow> string) \<Rightarrow> agent_record list \<Rightarrow> scan \<Rightarrow> tracker \<Rightarrow> agent_record list res \<times> tracker" where
  "reconcile_loop repr known [] s = (Ret [], s)"
| "reconcile_loop repr known ((ep, env1, env2) # scan) s =
     (if endpoint_key repr (JStr (ep_host ep)) (JInt (ep_port ep)) \<in> set (known_endpoints repr known)
      then reconcile_loop repr known scan s
      else (case recruit known env1 env2 ep s of
              (Raise e, s1) \<Rightarrow> (Raise e, s1)
            | (Ret None, s1) \<Rightarrow> reconcile_loop repr known scan s1
            | (Ret (Some a), s1) \<Rightarrow>
                (case reconcile_loop repr known scan s1 of
                   (Raise e, s2) \<Rightarrow> (Raise e, s2)
                 | (Ret as, s2) \<Rightarrow> (Ret (a # as), s2))))"

definition reconcile_orphans ::
    "(json \<Rightarrow> string) \<Rightarrow> tracker_env \<Rightarrow> scan \<Rightarrow> tracker \<Rightarrow> agent_record list res \<times> tracker" where
  "reconcile_orphans repr env scan s =
     (case list_agents_of env None s of
        (Raise e, s1) \<Rightarrow> (Raise e, s1)
      | (Ret known, s1) \<Rightarrow> reconcile_loop repr known scan s1)"

section \<open>The registry as a map\<close>

text \<open>The copy in memory is what the file holds, or persistence is off.\<close>

definition synced :: "tracker \<Rightarrow> bool" where
  "synced s \<longleftrightarrow> (registry_persists s \<longrightarrow>
     (case registry_file s of
        NoRegistry \<Rightarrow> memory_agents s = []
      | Parsed (JObj raw) \<Rightarrow> \<not> has_stale raw \<and> decode_entries raw = memory_agents s
      | _ \<Rightarrow> False))"

lemma save_synced [simp]: "synced (save_agents w m s)" "memory_agents (save_agents w m s) = m"
  by (cases w; simp add: save_agents_def synced_def encode_agents_def Let_def)+

lemma load_synced:
  assumes "synced s"
  obtains s1 where "load_agents env s = (Ret (memory_agents s), s1)" and "synced s1"
    and "memory_agents s1 = memory_agents s"
proof (cases "registry_persists s \<and> te_read_ok env")
  case True
  with assms show thesis
    by (intro that [of s]) (auto simp: load_agents_def synced_def split: registry_file.splits json.splits)
next
  case False
  then show thesis
    using assms by (intro that [of "if registry_persists s then s\<lparr>registry_persists := False\<rparr> else s"])
      (auto simp: load_agents_def synced_def)
qed

datatype tracker_op =
    Register agent_request
  | UpdateStatus string string
  | Destroy string
  | DestroyStopped
  | Query

definition apply_op :: "tracker_env \<Rightarrow> tracker_op \<Rightarrow> tracker \<Rightarrow> tracker" where
  "apply_op env op s =
     (case op of
        Register r \<Rightarrow> snd (register env r s)
      | UpdateStatus k st \<Rightarrow> snd (update_status env (JStr k) st s)
      | Destroy k \<Rightarrow> snd (destroy env k s)
      | DestroyStopped \<Rightarrow> snd (destroy_stopped env s)
      | Query \<Rightarrow> snd (list_agents_of env None s))"

fun run_tracker :: "(tracker_env \<times> tracker_op) list \<Rightarrow> tracker \<Rightarrow> tracker" where
  "run_tracker [] s = s"
| "run_tracker ((env, op) # ops) s = run_tracker ops (apply_op env op s)"

definition gone :: "agent_record \<Rightarrow> bool" where
  "gone a \<longleftrightarrow> agent_status a \<in> {JStr ''stopped'', JStr ''error''}"

definition spec_op :: "tracker_env \<Rightarrow> tracker_op \<Rightarrow> (string \<rightharpoonup> agent_record) \<Rightarrow> string \<rightharpoonup> agent_record" where
  "spec_op env op m =
     (case op of
        Register r \<Rightarrow> m(te_new_id env \<mapsto> agent_for env r)
      | UpdateStatus k st \<Rightarrow> m(k := map_option (with_status env st) (m k))
      | Destroy k \<Rightarrow> m(k := None)
      | DestroyStopped \<Rightarrow>
          (if \<forall>a \<in> ran m. hashable (agent_status a)
           then m |` {k. \<forall>a. m k = Some a \<longrightarrow> \<not> gone a} else m)
      | Query \<Rightarrow> m)"

definition spec_run :: "(tracker_env \<times> tracker_op) list \<Rightarrow> (string \<rightharpoonup> agent_record) \<Rightarrow> string \<rightharpoonup> agent_record" where
  "spec_run ops = fold (\<lambda>(env, op). spec_op env op) ops"

lemma map_of_filter_values:
  "dict_ok d \<Longrightarrow> map_of (filter (\<lambda>kv. P (snd kv)) d) k =
     (case map_of d k of Some v \<Rightarrow> if P v then Some v else None | None \<Rightarrow> None)"
  by (induction d) (auto split: option.splits simp: map_of_eq_None_iff)

lemma dict_ok_filter: "dict_ok d \<Longrightarrow> dict_ok (filter P d)"
  by (induction d) auto

lemma not_gone: "hashable (agent_status a) \<Longrightarrow> in_names (agent_status a) GONE = Ret False \<longleftrightarrow> \<not> gone a"
  by (auto simp: in_names_def GONE_def gone_def hashable_def split: json.splits)

lemma apply_op_spec:
  assumes "synced s" and "dict_ok (memory_agents s)"
  shows "synced (apply_op env op s) \<and> dict_ok (memory_agents (apply_op env op s)) \<and>
         map_of (memory_agents (apply_op env op s)) = spec_op env op (map_of (memory_agents s))"
proof -
  obtain s1 where l: "load_agents env s = (Ret (memory_agents s), s1)" "synced s1" "memory_agents s1 = memory_agents s"
    by (rule load_synced [OF assms(1)])
  show ?thesis
  proof (cases op)
    case (Register r)
    with l assms show ?thesis
      by (simp add: apply_op_def spec_op_def register_def register_in_def update_conv')
  next
    case (UpdateStatus k st)
    with l assms show ?thesis
      by (cases "map_of (memory_agents s) k")
        (auto simp: apply_op_def spec_op_def update_status_def update_conv' fun_upd_idem)
  next
    case (Destroy k)
    with l assms show ?thesis
      by (cases "map_of (memory_agents s) k") (auto simp: apply_op_def spec_op_def destroy_def delete_conv' fun_upd_idem)
  next
    case DestroyStopped
    let ?m = "memory_agents s"
    have ran: "(\<forall>a \<in> ran (map_of ?m). hashable (agent_status a)) \<longleftrightarrow> \<not> list_ex (\<lambda>kv. \<not> hashable (agent_status (snd kv))) ?m"
      using assms(2) by (auto simp: ran_distinct list_ex_iff)
    show ?thesis
    proof (cases "list_ex (\<lambda>kv. \<not> hashable (agent_status (snd kv))) ?m")
      case True
      with l assms ran DestroyStopped show ?thesis by (auto simp: apply_op_def spec_op_def destroy_stopped_def)
    next
      case False
      let ?P = "\<lambda>a. in_names (agent_status a) GONE = Ret False"
      have "map_of (filter (\<lambda>kv. ?P (snd kv)) ?m) k = (map_of ?m |` {k. \<forall>a. map_of ?m k = Some a \<longrightarrow> \<not> gone a}) k" for k
      proof (cases "map_of ?m k")
        case None
        then show ?thesis using map_of_filter_values [OF assms(2), of ?P k] by (simp add: restrict_map_def)
      next
        case (Some a)
        from map_of_SomeD [OF this] False have "hashable (agent_status a)" by (force simp: list_ex_iff)
        from not_gone [OF this] Some show ?thesis
          using map_of_filter_values [OF assms(2), of ?P k] by (simp add: restrict_map_def)
      qed
      then have "map_of (filter (\<lambda>kv. ?P (snd kv)) ?m) = map_of ?m |` {k. \<forall>a. map_of ?m k = Some a \<longrightarrow> \<not> gone a}"
        by (rule ext)
      with l assms False ran DestroyStopped show ?thesis
        by (simp add: apply_op_def spec_op_def destroy_stopped_def Let_def dict_ok_filter)
    qed
  next
    case Query
    with l assms show ?thesis by (simp add: apply_op_def spec_op_def list_agents_of_def)
  qed
qed

lemma run_tracker_spec:
  assumes "synced s" and "dict_ok (memory_agents s)"
  shows "synced (run_tracker ops s) \<and> dict_ok (memory_agents (run_tracker ops s)) \<and>
         map_of (memory_agents (run_tracker ops s)) = spec_run ops (map_of (memory_agents s))"
  using assms
proof (induction ops s rule: run_tracker.induct)
  case (2 env op ops s)
  with apply_op_spec [of s env op] show ?case by (simp add: spec_run_def)
qed (simp add: spec_run_def)

text \<open>C16: Whatever accesses to the file fail, the registry an operation sees and leaves is the abstract map
  with that operation applied, over every run of operations.\<close>

theorem tracker_refines_registry:
  assumes "synced s" and "dict_ok (memory_agents s)"
  shows "map_of (memory_agents (run_tracker ops s)) = spec_run ops (map_of (memory_agents s))"
  using run_tracker_spec [OF assms] by blast

definition all_well :: "tracker_env \<Rightarrow> bool" where
  "all_well env \<longleftrightarrow> te_read_ok env \<and> te_unlink_ok env \<and> te_prune env = Written \<and> te_write env = Written"

lemma save_persists: "registry_persists s \<Longrightarrow> registry_persists (save_agents Written m s)"
  by (simp add: save_agents_def Let_def)

lemma load_persists:
  assumes "synced s" and "registry_persists s" and "all_well env"
  shows "load_agents env s = (Ret (memory_agents s), s)"
  using assms by (auto simp: load_agents_def synced_def all_well_def split: registry_file.splits json.splits)

lemma run_persists:
  assumes "synced s" and "dict_ok (memory_agents s)" and "registry_persists s" and "list_all (\<lambda>p. all_well (fst p)) ops"
  shows "registry_persists (run_tracker ops s)"
  using assms
proof (induction ops s rule: run_tracker.induct)
  case (2 env op ops s)
  from 2(5) have w: "all_well env" and ops: "list_all (\<lambda>p. all_well (fst p)) ops" by simp_all
  then have "te_write env = Written" by (simp add: all_well_def)
  with load_persists [OF 2(2,4) w] 2(4) save_persists [OF 2(4)]
  have "registry_persists (apply_op env op s)"
    by (auto simp: apply_op_def register_def register_in_def update_status_def destroy_def destroy_stopped_def
        list_agents_of_def Let_def split: tracker_op.splits option.splits)
  with 2(1) apply_op_spec [OF 2(2,3), of env op] ops show ?case by simp
qed simp

text \<open>When every access to the file succeeds, a process started on the file afterwards reads the
  registry that the run left.\<close>

theorem restart_recovers_registry:
  assumes "synced s" and "dict_ok (memory_agents s)" and "registry_persists s" and "list_all (\<lambda>p. all_well (fst p)) ops"
    and "te_read_ok env"
  shows "fst (load_agents env (new_tracker (registry_file (run_tracker ops s)))) = Ret (memory_agents (run_tracker ops s))"
proof -
  have "registry_persists (run_tracker ops s)" by (rule run_persists [OF assms(1-4)])
  moreover have "synced (run_tracker ops s)" using run_tracker_spec [OF assms(1,2)] by blast
  ultimately show ?thesis
    using assms(5) by (auto simp: synced_def load_agents_def new_tracker_def Let_def split: registry_file.splits json.splits)
qed

text \<open>What another process has put into the file between the read and the write of a registration is
  lost, and no access to the file has failed.\<close>

theorem concurrent_registration_lost:
  assumes "load_agents env s = (Ret agents, s1)" and "registry_persists s1" and "te_write env = Written"
    and "map_of agents k = None" and "k \<noteq> te_new_id env" and "te_read_ok env'"
  shows "\<exists>m. fst (load_agents env' (new_tracker (registry_file
           (snd (register_in env r agents (s1\<lparr>registry_file := f\<rparr>)))))) = Ret m \<and> map_of m k = None"
  using assms by (simp add: register_in_def save_agents_def load_agents_def new_tracker_def encode_agents_def
      Let_def update_conv')

lemma bad_json_kept:
  assumes "registry_file s = BadJson"
  shows "registry_file (snd (load_agents env s)) = BadJson" "\<not> registry_persists (snd (load_agents env s))"
    "is_Ret (fst (load_agents env s))"
  using assms by (auto simp: load_agents_def)

lemma save_off: "\<not> registry_persists s \<Longrightarrow> registry_file (save_agents w m s) = registry_file s"
  by (simp add: save_agents_def Let_def)

lemma apply_op_bad_json:
  assumes "registry_file s = BadJson"
  shows "registry_file (apply_op env op s) = BadJson"
proof -
  obtain m s1 where l: "load_agents env s = (Ret m, s1)" using bad_json_kept(3) [OF assms, of env]
    by (cases "load_agents env s") (auto simp: is_Ret_iff)
  with bad_json_kept(1,2) [OF assms, of env] have "registry_file s1 = BadJson" "\<not> registry_persists s1" by simp_all
  with l show ?thesis
    by (auto simp: apply_op_def register_def register_in_def update_status_def destroy_def destroy_stopped_def
        list_agents_of_def Let_def save_off split: tracker_op.splits option.splits)
qed

text \<open>A registry file that a torn write has damaged is never written again: no process that starts on
  it persists an operation.\<close>

theorem damaged_registry_stays:
  assumes "registry_file s = BadJson"
  shows "registry_file (run_tracker ops s) = BadJson"
  using assms by (induction ops s rule: run_tracker.induct) (simp_all add: apply_op_bad_json)

section \<open>What a reconciliation leaves\<close>

lemma of_char_digit: "d < 10 \<Longrightarrow> of_char (char_of (48 + d)) = (48 + d :: nat)"
  by simp

lemma digits_show_nat: "digits_value (show_nat n) = int n \<and> list_all is_digit (show_nat n)"
proof (induction n rule: show_nat.induct)
  case (1 n)
  show ?case
  proof (cases "n < 10")
    case True
    then show ?thesis
      by (subst (1 2) show_nat.simps) (simp add: digits_value_def is_digit_def code_def del: show_nat.simps)
  next
    case False
    with 1 have IH: "digits_value (show_nat (n div 10)) = int (n div 10)" "list_all is_digit (show_nat (n div 10))"
      by (simp_all del: show_nat.simps)
    let ?c = "char_of (48 + n mod 10) :: char"
    have c: "code ?c = 48 + n mod 10" by (simp add: code_def)
    then have d: "is_digit ?c" by (simp add: is_digit_def)
    have f: "filter is_digit (show_nat (n div 10)) = show_nat (n div 10)"
      using IH(2) by (simp add: list_all_iff del: show_nat.simps)
    have n: "show_nat n = show_nat (n div 10) @ [?c]" using False by (subst show_nat.simps) (simp del: show_nat.simps)
    have "10 * int (n div 10) + int (n mod 10) = int n" by presburger
    with IH c d f show ?thesis unfolding n by (simp add: digits_value_def del: show_nat.simps)
  qed
qed

lemma show_int_inj: "show_int i = show_int j \<longleftrightarrow> i = j"
proof
  assume eq: "show_int i = show_int j"
  have minus: "\<not> is_digit CHR ''-''" by (simp add: is_digit_def code_def)
  have head: "show_nat n \<noteq> CHR ''-'' # t" for n t
    using digits_show_nat [of n] minus by (cases "show_nat n") (auto simp del: show_nat.simps)
  have inj: "show_nat m = show_nat n \<longleftrightarrow> m = n" for m n
    by (metis digits_show_nat of_nat_eq_iff)
  have minus_neq: "show_nat n \<noteq> CHR ''-'' # t" "CHR ''-'' # t \<noteq> show_nat n" for n t
    using head [of n t] by metis+
  show "i = j"
    using eq by (cases "i < 0"; cases "j < 0") (simp_all add: show_int_def inj minus_neq del: show_nat.simps)
qed simp

lemma colon_show_int: "CHR '':'' \<notin> set (show_int i)"
proof -
  have "\<not> is_digit CHR '':''" by (simp add: is_digit_def code_def)
  then have "CHR '':'' \<notin> set (show_nat n)" for n
    using digits_show_nat [of n] by (auto simp: list_all_iff simp del: show_nat.simps)
  then show ?thesis by (simp add: show_int_def del: show_nat.simps)
qed

lemma split_at_last:
  assumes "xs @ c # ys = xs' @ c # ys'" and "c \<notin> set ys" and "c \<notin> set ys'"
  shows "xs = xs' \<and> ys = ys'"
proof -
  from assms(1) have "rev ys @ c # rev xs = rev ys' @ c # rev xs'"
    by (metis append.assoc append_Cons append_Nil rev.simps(2) rev_append)
  moreover have "takeWhile (\<lambda>x. x \<noteq> c) (rev zs @ c # t) = rev zs" if "c \<notin> set zs" for zs t
    by (subst takeWhile_append2) (use that in auto)
  ultimately have "rev ys = rev ys'" using assms(2,3) by metis
  with assms(1) show ?thesis by simp
qed

lemma endpoint_key_inj:
  "endpoint_key repr (JStr h) (JInt p) = endpoint_key repr (JStr h') (JInt p') \<longleftrightarrow> h = h' \<and> p = p'"
  by (auto simp: endpoint_key_def json_text_def show_int_inj dest!: split_at_last [OF _ colon_show_int colon_show_int])

text \<open>The registry is keyed by the ids of its records, with hosts and ports of their types.\<close>

definition agents_ok :: "agents \<Rightarrow> bool" where
  "agents_ok m \<longleftrightarrow> dict_ok m \<and>
     (\<forall>k a. map_of m k = Some a \<longrightarrow>
        agent_id a = JStr k \<and> (\<exists>h p. agent_host a = JStr h \<and> agent_port a = JInt p))"

definition live_at :: "agents \<Rightarrow> string \<Rightarrow> int \<Rightarrow> bool" where
  "live_at m h p \<longleftrightarrow> (\<exists>k a. map_of m k = Some a \<and> agent_host a = JStr h \<and> agent_port a = JInt p \<and>
     agent_status a \<in> {JStr ''running'', JStr ''idle''})"

definition resumed :: "agents \<Rightarrow> agents \<Rightarrow> bool" where
  "resumed m m' \<longleftrightarrow> (\<forall>k a. map_of m k = Some a \<longrightarrow>
     (\<exists>a'. map_of m' k = Some a' \<and> agent_host a' = agent_host a \<and> agent_port a' = agent_port a \<and>
        agent_status a' \<in> {agent_status a, JStr ''running''}))"

lemma resumed_refl: "resumed m m"
  by (simp add: resumed_def)

lemma resumedD:
  assumes "resumed m m'" and "map_of m k = Some a"
  obtains a' where "map_of m' k = Some a'" "agent_host a' = agent_host a" "agent_port a' = agent_port a"
    "agent_status a' \<in> {agent_status a, JStr ''running''}"
  using assms unfolding resumed_def by blast

lemma resumed_trans:
  assumes "resumed m m'" and "resumed m' m''"
  shows "resumed m m''"
  unfolding resumed_def
proof (intro allI impI)
  fix k a assume "map_of m k = Some a"
  from resumedD [OF assms(1) this] obtain a' where a': "map_of m' k = Some a'" "agent_host a' = agent_host a"
    "agent_port a' = agent_port a" "agent_status a' \<in> {agent_status a, JStr ''running''}" by metis
  from resumedD [OF assms(2) a'(1)] obtain a'' where "map_of m'' k = Some a''" "agent_host a'' = agent_host a'"
    "agent_port a'' = agent_port a'" "agent_status a'' \<in> {agent_status a', JStr ''running''}" by metis
  with a' show "\<exists>x. map_of m'' k = Some x \<and> agent_host x = agent_host a \<and> agent_port x = agent_port a \<and>
      agent_status x \<in> {agent_status a, JStr ''running''}" by (intro exI [of _ a'']) auto
qed

lemma resumed_live:
  assumes "resumed m m'" and "live_at m h p"
  shows "live_at m' h p"
proof -
  from assms(2) obtain k a where "map_of m k = Some a" "agent_host a = JStr h" "agent_port a = JInt p"
    "agent_status a \<in> {JStr ''running'', JStr ''idle''}" by (auto simp: live_at_def)
  moreover from this(1) assms(1) obtain a' where "map_of m' k = Some a'" "agent_host a' = agent_host a"
    "agent_port a' = agent_port a" "agent_status a' \<in> {agent_status a, JStr ''running''}" by (auto simp: resumed_def)
  ultimately show ?thesis unfolding live_at_def by (intro exI [of _ k] exI [of _ a']) auto
qed

text \<open>A state reached while the records in \<open>known\<close> are resumed.\<close>

definition tracker_sound :: "tracker \<Rightarrow> bool" where
  "tracker_sound s \<longleftrightarrow> synced s \<and> agents_ok (memory_agents s)"

lemma update_status_sound:
  assumes "tracker_sound s" and "map_of (memory_agents s) k = Some a"
  shows "\<exists>s'. update_status env (JStr k) ''running'' s = (Ret (Some (with_status env ''running'' a)), s') \<and> tracker_sound s' \<and>
           memory_agents s' = AList.update k (with_status env ''running'' a) (memory_agents s)"
proof -
  obtain s1 where l: "load_agents env s = (Ret (memory_agents s), s1)"
    using load_synced [of s env] assms(1) by (auto simp: tracker_sound_def)
  have "agents_ok (AList.update k (with_status env ''running'' a) (memory_agents s))"
    using assms by (auto simp: tracker_sound_def agents_ok_def map_of_update with_status_def)
  with l assms(2) show ?thesis by (simp add: update_status_def tracker_sound_def)
qed

lemma register_sound:
  assumes "tracker_sound s"
  shows "\<exists>s'. register env r s = (Ret (agent_for env r), s') \<and> tracker_sound s' \<and>
           memory_agents s' = AList.update (te_new_id env) (agent_for env r) (memory_agents s)"
proof -
  obtain s1 where l: "load_agents env s = (Ret (memory_agents s), s1)"
    using load_synced [of s env] assms(1) by (auto simp: tracker_sound_def)
  have "agents_ok (AList.update (te_new_id env) (agent_for env r) (memory_agents s))"
    using assms by (auto simp: tracker_sound_def agents_ok_def map_of_update agent_for_def)
  with l show ?thesis by (simp add: register_def register_in_def tracker_sound_def)
qed

lemma resumed_status:
  "map_of m k = Some a \<Longrightarrow> resumed m (AList.update k (with_status env ''running'' a) m)"
  by (auto simp: resumed_def map_of_update with_status_def)

lemma resumed_new: "map_of m k = None \<Longrightarrow> resumed m (AList.update k a m)"
  by (auto simp: resumed_def map_of_update)

lemma recruit_sound:
  assumes "tracker_sound s" and "resumed known (memory_agents s)" and "agents_ok known"
    and "map_of (memory_agents s) (te_new_id env1) = None"
  shows "\<exists>a s'. recruit (map snd known) env1 env2 ep s = (Ret (Some a), s') \<and> tracker_sound s' \<and>
           resumed (memory_agents s) (memory_agents s') \<and> live_at (memory_agents s') (ep_host ep) (ep_port ep) \<and>
           set (map fst (memory_agents s')) \<subseteq> insert (te_new_id env1) (set (map fst (memory_agents s)))"
proof (cases "find_registry_match ep (map snd known)")
  case (Some a)
  then have a: "a \<in> set (map snd known)" "agent_host a = JStr (ep_host ep)" "same_key (agent_port a) (JInt (ep_port ep))"
    by (auto simp: find_registry_match_def find_Some_iff)
  then obtain k where "(k, a) \<in> set known" by auto
  with assms(3) have k: "map_of known k = Some a" by (simp add: agents_ok_def)
  with assms(3) have typed: "agent_id a = JStr k" "\<exists>p. agent_port a = JInt p" by (auto simp: agents_ok_def)
  with a(3) have port: "agent_port a = JInt (ep_port ep)" by (auto simp: same_key_def number_of_def)
  from assms(2) k obtain a' where a': "map_of (memory_agents s) k = Some a'" "agent_host a' = agent_host a" "agent_port a' = agent_port a"
    by (auto simp: resumed_def)
  from update_status_sound [OF assms(1) a'(1), of env1] obtain s' where
    u: "update_status env1 (JStr k) ''running'' s = (Ret (Some (with_status env1 ''running'' a')), s')" "tracker_sound s'"
      "memory_agents s' = AList.update k (with_status env1 ''running'' a') (memory_agents s)" by blast
  have "live_at (memory_agents s') (ep_host ep) (ep_port ep)"
    unfolding live_at_def using a a' port u(3)
    by (intro exI [of _ k]) (simp add: map_of_update with_status_def)
  moreover have "resumed (memory_agents s) (memory_agents s')" unfolding u(3) by (rule resumed_status [OF a'(1)])
  moreover have "set (map fst (memory_agents s')) \<subseteq> set (map fst (memory_agents s))"
    using map_of_SomeD [OF a'(1)] by (force simp: u(3) dom_update)
  ultimately show ?thesis using Some typed u by (auto simp: recruit_def)
next
  case None
  from register_sound [OF assms(1), of env1 "recruit_request ep"] obtain s1 where
    r: "register env1 (recruit_request ep) s = (Ret (agent_for env1 (recruit_request ep)), s1)" "tracker_sound s1"
      "memory_agents s1 = AList.update (te_new_id env1) (agent_for env1 (recruit_request ep)) (memory_agents s)" by blast
  let ?a = "agent_for env1 (recruit_request ep)"
  have m1: "map_of (memory_agents s1) (te_new_id env1) = Some ?a" by (simp add: r(3) map_of_update)
  from update_status_sound [OF r(2) m1, of env2] obtain s' where
    u: "update_status env2 (JStr (te_new_id env1)) ''running'' s1 = (Ret (Some (with_status env2 ''running'' ?a)), s')" "tracker_sound s'"
      "memory_agents s' = AList.update (te_new_id env1) (with_status env2 ''running'' ?a) (memory_agents s1)" by blast
  have "live_at (memory_agents s') (ep_host ep) (ep_port ep)"
    unfolding live_at_def using u(3)
    by (intro exI [of _ "te_new_id env1"]) (simp add: map_of_update with_status_def agent_for_def recruit_request_def)
  moreover have "resumed (memory_agents s) (memory_agents s')"
    using resumed_trans [OF resumed_new [OF assms(4), of ?a] ] resumed_status [OF m1] by (simp add: r(3) u(3))
  moreover have "agent_id ?a = JStr (te_new_id env1)" by (simp add: agent_for_def)
  ultimately show ?thesis using None r u by (auto simp: recruit_def dom_update)
qed

definition scan_ids :: "scan \<Rightarrow> string list" where
  "scan_ids scan = map (\<lambda>(ep, env1, env2). te_new_id env1) scan"

definition fresh_scan :: "scan \<Rightarrow> agents \<Rightarrow> bool" where
  "fresh_scan scan m \<longleftrightarrow> distinct (scan_ids scan) \<and> set (scan_ids scan) \<inter> set (map fst m) = {}"

definition scanned_live :: "scan \<Rightarrow> agents \<Rightarrow> bool" where
  "scanned_live scan m \<longleftrightarrow> list_all (\<lambda>(ep, env1, env2). live_at m (ep_host ep) (ep_port ep)) scan"

lemma known_live:
  assumes "agents_ok known"
  shows "endpoint_key repr (JStr h) (JInt p) \<in> set (known_endpoints repr (map snd known)) \<longleftrightarrow> live_at known h p"
proof -
  have typed: "\<exists>h p. agent_host a = JStr h \<and> agent_port a = JInt p" if "(k, a) \<in> set known" for k a
    using that assms by (auto simp: agents_ok_def)
  have mem: "(k, a) \<in> set known \<longleftrightarrow> map_of known k = Some a" for k a
    using assms by (simp add: agents_ok_def)
  show ?thesis
  proof
    assume "endpoint_key repr (JStr h) (JInt p) \<in> set (known_endpoints repr (map snd known))"
    then obtain k a where a: "(k, a) \<in> set known" "agent_status a \<in> {JStr ''running'', JStr ''idle''}"
      "endpoint_key repr (JStr h) (JInt p) = endpoint_key repr (agent_host a) (agent_port a)"
      by (auto simp: known_endpoints_def)
    with typed [OF a(1)] have "agent_host a = JStr h" "agent_port a = JInt p" by (auto simp: endpoint_key_inj)
    with a mem show "live_at known h p" unfolding live_at_def by blast
  next
    assume "live_at known h p"
    then obtain k a where a: "map_of known k = Some a" "agent_host a = JStr h" "agent_port a = JInt p"
      "agent_status a \<in> {JStr ''running'', JStr ''idle''}" by (auto simp: live_at_def)
    from a(1) have "a \<in> set (map snd known)" by (force dest: map_of_SomeD)
    with a(4) have "a \<in> set (filter (\<lambda>a. agent_status a \<in> {JStr ''running'', JStr ''idle''}) (map snd known))"
      by simp
    then have "endpoint_key repr (agent_host a) (agent_port a) \<in> set (known_endpoints repr (map snd known))"
      unfolding known_endpoints_def set_map by (rule imageI)
    with a(2,3) show "endpoint_key repr (JStr h) (JInt p) \<in> set (known_endpoints repr (map snd known))" by simp
  qed
qed

lemma reconcile_loop_sound:
  assumes "tracker_sound s" and "resumed known (memory_agents s)" and "agents_ok known" and "fresh_scan scan (memory_agents s)"
  shows "\<exists>as s'. reconcile_loop repr (map snd known) scan s = (Ret as, s') \<and> tracker_sound s' \<and>
           resumed (memory_agents s) (memory_agents s') \<and> scanned_live scan (memory_agents s')"
  using assms(1,2,4)
proof (induction scan arbitrary: s)
  case Nil
  then show ?case by (simp add: scanned_live_def resumed_refl)
next
  case (Cons e scan)
  obtain ep env1 env2 where e: "e = (ep, env1, env2)" by (cases e)
  from Cons.prems(3) have new: "map_of (memory_agents s) (te_new_id env1) = None"
    and other: "te_new_id env1 \<notin> set (scan_ids scan)" and rest: "fresh_scan scan (memory_agents s)"
    by (auto simp: fresh_scan_def scan_ids_def e map_of_eq_None_iff)
  show ?case
  proof (cases "endpoint_key repr (JStr (ep_host ep)) (JInt (ep_port ep)) \<in> set (known_endpoints repr (map snd known))")
    case True
    with known_live [OF assms(3)] Cons.prems(2) have "live_at (memory_agents s) (ep_host ep) (ep_port ep)"
      using resumed_live by blast
    with Cons.IH [OF Cons.prems(1,2) rest] True show ?thesis
      by (auto simp: e scanned_live_def intro: resumed_live)
  next
    case False
    from recruit_sound [OF Cons.prems(1,2) assms(3) new, of env2 ep] obtain a s1 where
      r: "recruit (map snd known) env1 env2 ep s = (Ret (Some a), s1)" "tracker_sound s1"
        "resumed (memory_agents s) (memory_agents s1)" "live_at (memory_agents s1) (ep_host ep) (ep_port ep)"
        "set (map fst (memory_agents s1)) \<subseteq> insert (te_new_id env1) (set (map fst (memory_agents s)))" by blast
    have "fresh_scan scan (memory_agents s1)" using rest other r(5) unfolding fresh_scan_def by blast
    from Cons.IH [OF r(2) resumed_trans [OF Cons.prems(2) r(3)] this] obtain as s2 where
      l: "reconcile_loop repr (map snd known) scan s1 = (Ret as, s2)" "tracker_sound s2"
        "resumed (memory_agents s1) (memory_agents s2)" "scanned_live scan (memory_agents s2)" by blast
    with r False resumed_trans [OF r(3) l(3)] resumed_live [OF l(3) r(4)] show ?thesis
      by (simp add: e scanned_live_def)
  qed
qed

lemma reconcile_sound:
  assumes "tracker_sound s" and "fresh_scan scan (memory_agents s)"
  shows "\<exists>as s'. reconcile_orphans repr env scan s = (Ret as, s') \<and> tracker_sound s' \<and> scanned_live scan (memory_agents s') \<and>
           resumed (memory_agents s) (memory_agents s')"
proof -
  obtain s1 where l: "load_agents env s = (Ret (memory_agents s), s1)" "synced s1" "memory_agents s1 = memory_agents s"
    using load_synced [of s env] assms(1) by (auto simp: tracker_sound_def)
  from l assms(1) have "tracker_sound s1" by (simp add: tracker_sound_def)
  from reconcile_loop_sound [OF this, of "memory_agents s" scan repr] l(1,3) assms
  show ?thesis by (auto simp: reconcile_orphans_def list_agents_of_def resumed_refl tracker_sound_def)
qed

lemma reconcile_live:
  assumes "tracker_sound s" and "scanned_live scan (memory_agents s)"
  shows "\<exists>s'. reconcile_orphans repr env scan s = (Ret [], s') \<and> memory_agents s' = memory_agents s"
proof -
  obtain s1 where l: "load_agents env s = (Ret (memory_agents s), s1)" "memory_agents s1 = memory_agents s"
    using load_synced [of s env] assms(1) by (auto simp: tracker_sound_def)
  have "reconcile_loop repr (map snd (memory_agents s)) scan t = (Ret [], t)" for t
    using assms(2) known_live [of "memory_agents s" repr] assms(1)
    by (induction scan) (auto simp: scanned_live_def tracker_sound_def)
  with l show ?thesis by (simp add: reconcile_orphans_def list_agents_of_def)
qed

lemma scanned_live_map:
  "map fst scan' = map fst scan \<Longrightarrow> scanned_live scan m \<Longrightarrow> scanned_live scan' m"
proof -
  assume eq: "map fst scan' = map fst scan" and live: "scanned_live scan m"
  have "scanned_live sc m \<longleftrightarrow> list_all (\<lambda>ep. live_at m (ep_host ep) (ep_port ep)) (map fst sc)" for sc :: scan
    by (induction sc) (auto simp: scanned_live_def)
  with eq live show ?thesis by simp
qed

text \<open>C28: After a reconciliation every endpoint of the scan is served by a running or idle agent of the
  registry, and no agent that was registered before is gone.\<close>

theorem reconcile_covers_scan:
  assumes "tracker_sound s" and "fresh_scan scan (memory_agents s)"
  shows "\<exists>as s'. reconcile_orphans repr env scan s = (Ret as, s') \<and> scanned_live scan (memory_agents s') \<and>
           resumed (memory_agents s) (memory_agents s')"
  using reconcile_sound [OF assms, of repr env] by blast

text \<open>C27: A second reconciliation of the same endpoints recruits nobody and leaves the registry alone.\<close>

theorem reconcile_idempotent:
  assumes "tracker_sound s" and "fresh_scan scan (memory_agents s)" and "reconcile_orphans repr env scan s = (r, s1)"
    and "map fst scan' = map fst scan"
  shows "\<exists>s2. reconcile_orphans repr env' scan' s1 = (Ret [], s2) \<and> memory_agents s2 = memory_agents s1"
proof -
  from reconcile_sound [OF assms(1,2), of repr env] assms(3)
  have "tracker_sound s1" and "scanned_live scan (memory_agents s1)" by auto
  from reconcile_live [OF this(1) scanned_live_map [OF assms(4) this(2)]] show ?thesis .
qed

section \<open>A small registry\<close>

definition demo_te :: "string \<Rightarrow> tracker_env" where
  "demo_te i = \<lparr>te_now = 5, te_new_id = i, te_read_ok = True, te_unlink_ok = True, te_prune = Written, te_write = Written\<rparr>"

definition demo_request :: agent_request where
  "demo_request = \<lparr>ar_role = ''coder'', ar_model = ''qwen'', ar_backend = ''ollama'', ar_host = ''10.0.0.2'',
     ar_port = 11434, ar_task_hash = None, ar_parent = None, ar_metadata = [], ar_status = ''idle''\<rparr>"

definition demo_tracker :: tracker where
  "demo_tracker = snd (register (demo_te ''a1'') demo_request (new_tracker NoRegistry))"

lemma demo_tracker_eq:
  "demo_tracker = \<lparr>registry_file = Parsed (encode_agents [(''a1'', agent_for (demo_te ''a1'') demo_request)]),
     memory_agents = [(''a1'', agent_for (demo_te ''a1'') demo_request)], registry_persists = True\<rparr>"
  by (simp add: demo_tracker_def register_def register_in_def load_agents_def new_tracker_def save_agents_def demo_te_def)

lemma demo_sound: "tracker_sound demo_tracker"
  by (simp add: demo_tracker_eq tracker_sound_def synced_def encode_agents_def has_stale_def entry_agent_def agents_ok_def agent_for_def demo_te_def demo_request_def)

definition failing_te :: tracker_env where
  "failing_te = (demo_te ''a2'')\<lparr>te_read_ok := False, te_write := Truncated\<rparr>"

lemma tracker_refines_registry_witness:
  "map_of (memory_agents (run_tracker [(failing_te, Register demo_request)] demo_tracker)) =
     spec_run [(failing_te, Register demo_request)] (map_of (memory_agents demo_tracker))"
  by (rule tracker_refines_registry) (use demo_sound in \<open>simp_all add: tracker_sound_def agents_ok_def\<close>)

lemma restart_recovers_registry_witness:
  "fst (load_agents (demo_te ''b'') (new_tracker (registry_file
      (run_tracker [(demo_te ''a2'', Register demo_request), (demo_te ''x'', Destroy ''a1'')] demo_tracker)))) =
   Ret (memory_agents (run_tracker [(demo_te ''a2'', Register demo_request), (demo_te ''x'', Destroy ''a1'')] demo_tracker))"
  by (rule restart_recovers_registry)
    (use demo_sound in \<open>simp_all add: tracker_sound_def agents_ok_def all_well_def demo_te_def demo_tracker_eq\<close>)

lemma concurrent_registration_lost_witness:
  "\<exists>m. fst (load_agents (demo_te ''z'') (new_tracker (registry_file (snd (register_in (demo_te ''b1'') demo_request []
         ((new_tracker NoRegistry)\<lparr>registry_file := registry_file demo_tracker\<rparr>)))))) = Ret m \<and> map_of m ''a1'' = None"
  by (rule concurrent_registration_lost [of "demo_te ''b1''" "new_tracker NoRegistry"])
    (simp_all add: demo_te_def load_agents_def new_tracker_def)

lemma damaged_registry_stays_witness:
  "registry_file (run_tracker [(demo_te ''a2'', Register demo_request)] (new_tracker BadJson)) = BadJson"
  by (rule damaged_registry_stays) (simp add: new_tracker_def)

definition demo_scan :: scan where
  "demo_scan = [(\<lparr>ep_host = ''10.0.0.2'', ep_port = 11434, ep_server_type = ''ollama'', ep_models = [''qwen'']\<rparr>,
      demo_te ''r1'', demo_te ''u1''),
    (\<lparr>ep_host = ''10.0.0.3'', ep_port = 1234, ep_server_type = ''lm_studio'', ep_models = [''Qwen-Coder'']\<rparr>,
      failing_te, demo_te ''u2'')]"

lemma demo_fresh: "fresh_scan demo_scan (memory_agents demo_tracker)"
  by (simp add: fresh_scan_def scan_ids_def demo_scan_def demo_te_def failing_te_def demo_tracker_eq)

lemma reconcile_covers_scan_witness:
  "\<exists>as s'. reconcile_orphans (\<lambda>_. []) (demo_te ''l'') demo_scan demo_tracker = (Ret as, s') \<and>
     scanned_live demo_scan (memory_agents s') \<and> resumed (memory_agents demo_tracker) (memory_agents s')"
  by (rule reconcile_covers_scan [OF demo_sound demo_fresh])

lemma reconcile_idempotent_witness:
  "\<exists>s2. reconcile_orphans (\<lambda>_. []) (demo_te ''m'') demo_scan
      (snd (reconcile_orphans (\<lambda>_. []) (demo_te ''l'') demo_scan demo_tracker)) = (Ret [], s2) \<and>
     memory_agents s2 = memory_agents (snd (reconcile_orphans (\<lambda>_. []) (demo_te ''l'') demo_scan demo_tracker))"
  by (rule reconcile_idempotent [OF demo_sound demo_fresh surjective_pairing refl])

end
