(* ===== verification/Connectivity.thy ===== *)
theory Connectivity
  imports HardwareDispatch
begin

text \<open>
  \<open>orchestrator/connectivity.py\<close>: the probes of local and cloud backends, the cached answer whether an
  endpoint serves a model, and the health page's concurrent fan-out whose cloud probes share one
  refresh in flight per backend.  An HTTP exchange is a parameter; its \<open>None\<close> is an exception.
\<close>

section \<open>Probes\<close>

text \<open>A reply is its status and the JSON of its body; \<open>None\<close> for the body is a parse error.\<close>

record reply =
  rp_status :: nat
  rp_body :: "json option"

datatype http_get = Answered reply | Failed string

definition probe_ok :: "string \<Rightarrow> nat \<Rightarrow> payload" where
  "probe_ok url status = [(''ok'', JBool (status < 400)), (''status_code'', JInt (int status)), (''url'', JStr url)]"

definition probe_error :: "string \<Rightarrow> string \<Rightarrow> payload" where
  "probe_error url err = [(''ok'', JBool False), (''status_code'', JNull), (''url'', JStr url), (''error'', JStr err)]"

definition probe_result :: "string \<Rightarrow> http_get \<Rightarrow> payload" where
  "probe_result url r = (case r of Answered p \<Rightarrow> probe_ok url (rp_status p) | Failed err \<Rightarrow> probe_error url err)"

text \<open>\<open>_probe_local\<close> with the requests it makes.\<close>

definition probe_local_url ::
    "net_lib \<Rightarrow> host_env \<Rightarrow> (string \<Rightarrow> http_get) \<Rightarrow> string \<Rightarrow> payload \<times> string list" where
  "probe_local_url n h get url =
     (case validate_model_endpoint_url n url (allow_public_model_endpoints h) False of
        Raise _ \<Rightarrow> (probe_error url ''endpoint policy'', [])
      | Ret _ \<Rightarrow> (probe_result url (get url), [url]))"

definition check_ollama :: "net_lib \<Rightarrow> host_env \<Rightarrow> (string \<Rightarrow> http_get) \<Rightarrow> string \<Rightarrow> payload \<times> string list" where
  "check_ollama n h get host = probe_local_url n h get (rstrip_slash host @ ''/api/tags'')"

definition check_v1_models :: "net_lib \<Rightarrow> host_env \<Rightarrow> (string \<Rightarrow> http_get) \<Rightarrow> string \<Rightarrow> payload \<times> string list" where
  "check_v1_models n h get host = probe_local_url n h get (rstrip_slash host @ ''/v1/models'')"

section \<open>Which models an endpoint serves\<close>

definition CLOUD_BACKENDS :: "string list" where
  "CLOUD_BACKENDS = [''perplexity'', ''openrouter'', ''anthropic'', ''online'', ''xai'', ''cloud'']"

definition is_ollama_backend :: "string \<Rightarrow> bool" where
  "is_ollama_backend b = (let l = lower b in l = ''ollama'' \<or> has_sub ''ollama'' l)"

text \<open>\<open>{str(m.get(key, "")).lower() for m in ms}\<close>; \<open>None\<close> is the exception of an entry that is no object.\<close>

fun listed_ids :: "(json \<Rightarrow> string) \<Rightarrow> string \<Rightarrow> json list \<Rightarrow> string list option" where
  "listed_ids repr key [] = Some []"
| "listed_ids repr key (JObj d # ms) =
     map_option ((#) (lower (json_text repr (dict_get d key (JStr []))))) (listed_ids repr key ms)"
| "listed_ids repr key (m # ms) = None"

definition body_list :: "string \<Rightarrow> reply \<Rightarrow> json list option" where
  "body_list key r =
     (case rp_body r of
        Some (JObj d) \<Rightarrow>
          (let v = dict_get d key (JList []) in
           if \<not> truthy v then Some [] else (case py_iter v of Ret ms \<Rightarrow> Some ms | Raise _ \<Rightarrow> None))
      | _ \<Rightarrow> None)"

text \<open>An exception anywhere is an unreachable endpoint.\<close>

definition served_model_ids :: "(json \<Rightarrow> string) \<Rightarrow> (string \<Rightarrow> http_get) \<Rightarrow> string \<Rightarrow> string \<Rightarrow> bool \<times> string list" where
  "served_model_ids repr get base0 backend =
     (let base = rstrip_slash base0 in
      if is_ollama_backend backend then
        (case get (base @ ''/api/tags'') of
           Failed _ \<Rightarrow> (False, [])
         | Answered r \<Rightarrow>
             if 400 \<le> rp_status r then (False, [])
             else (case Option.bind (body_list ''models'' r) (\<lambda>ms. Option.bind (listed_ids repr ''name'' ms)
                     (\<lambda>names. map_option ((@) names) (listed_ids repr ''model'' ms))) of
                     None \<Rightarrow> (False, []) | Some ids \<Rightarrow> (True, filter (\<lambda>i. i \<noteq> []) ids)))
      else
        (case get (base @ ''/v1/models'') of
           Failed _ \<Rightarrow> (False, [])
         | Answered r \<Rightarrow>
             if 400 \<le> rp_status r then (False, [])
             else (case Option.bind (body_list ''data'' r) (listed_ids repr ''id'') of
                     None \<Rightarrow> (False, []) | Some ids \<Rightarrow> (True, filter (\<lambda>i. i \<noteq> []) ids))))"

section \<open>Normal forms of model ids\<close>

text \<open>The tags of the pattern \<open>[-_:](q\d[\w]*|\d+bit|f16|bf16|fp\d+|gguf|mlx)$\<close>; \<open>$\<close> also matches before a
  final line feed.\<close>

definition digits_then :: "string \<Rightarrow> string \<Rightarrow> bool" where
  "digits_then suffix s =
     (let ds = takeWhile is_digit s in ds \<noteq> [] \<and> dropWhile is_digit s = suffix)"

definition quant_tag :: "string \<Rightarrow> bool" where
  "quant_tag s =
     ((case s of q # d # rest \<Rightarrow> q = CHR ''q'' \<and> is_digit d \<and> list_all is_word rest | _ \<Rightarrow> False) \<or>
      digits_then ''bit'' s \<or> s \<in> {''f16'', ''bf16'', ''gguf'', ''mlx''} \<or>
      (take 2 s = ''fp'' \<and> digits_then [] (drop 2 s)))"

definition tag_rest :: "string \<Rightarrow> string option" where
  "tag_rest s =
     (if quant_tag s then Some []
      else if s \<noteq> [] \<and> last s = CHR 0x0A \<and> quant_tag (butlast s) then Some [CHR 0x0A] else None)"

text \<open>\<open>re.sub\<close> replaces the leftmost match.\<close>

fun strip_tag :: "string \<Rightarrow> string" where
  "strip_tag [] = []"
| "strip_tag (c # cs) =
     (if c \<in> set ''-_:'' then (case tag_rest cs of Some rest \<Rightarrow> rest | None \<Rightarrow> c # strip_tag cs)
      else c # strip_tag cs)"

lemma tag_rest_shorter: "tag_rest s = Some rest \<Longrightarrow> length rest \<le> length s"
  by (cases s) (auto simp: tag_rest_def split: if_splits)

lemma strip_tag_length: "length (strip_tag x) \<le> length x \<and> (strip_tag x \<noteq> x \<longrightarrow> length (strip_tag x) < length x)"
  by (induction x) (auto split: option.splits dest: tag_rest_shorter)

text \<open>The loop strips until nothing changes.\<close>

function norm_id :: "string \<Rightarrow> string" where
  "norm_id x = (let y = strip_tag x in if y = x then x else norm_id y)"
  by pat_completeness auto

termination by (relation "measure length") (use strip_tag_length in \<open>auto simp: Let_def\<close>)

declare norm_id.simps [simp del]

section \<open>The cached answer\<close>

record endpoint_entry =
  ee_time :: rat
  ee_ok :: bool
  ee_served :: "string list"

type_synonym endpoint_cache = "(string \<times> string, endpoint_entry) dict"

record probe_env =
  pe_repr :: "json \<Rightarrow> string"
  pe_get :: "string \<Rightarrow> http_get"
  pe_cloud_get :: "string \<Rightarrow> http_get"

definition ENDPOINT_TTL :: rat where "ENDPOINT_TTL = 20"

definition serves :: "string \<Rightarrow> string list \<Rightarrow> bool" where
  "serves model_id served =
     (let mid = lower model_id; nmid = norm_id mid in
      list_ex (\<lambda>s. mid = s \<or> take (length (mid @ '':'')) s = mid @ '':'' \<or> take (length (s @ '':'')) mid = s @ '':'' \<or>
         norm_id s = nmid) served)"

definition fresh_entry :: "probe_env \<Rightarrow> rat \<Rightarrow> string \<Rightarrow> string \<Rightarrow> endpoint_entry" where
  "fresh_entry env now base backend =
     (if backend \<in> set CLOUD_BACKENDS then
        \<lparr>ee_time = now, ee_ok = truthy (jget (probe_result base (pe_cloud_get env base)) ''ok''), ee_served = []\<rparr>
      else (let (ok, served) = served_model_ids (pe_repr env) (pe_get env) base backend in
            \<lparr>ee_time = now, ee_ok = ok, ee_served = served\<rparr>))"

definition entry_online :: "string \<Rightarrow> string \<Rightarrow> endpoint_entry \<Rightarrow> bool" where
  "entry_online backend model_id e =
     (if \<not> ee_ok e then False
      else if backend \<in> set CLOUD_BACKENDS then True
      else if model_id = [] then True
      else if ee_served e = [] then False
      else serves model_id (ee_served e))"

definition endpoint_online ::
    "probe_env \<Rightarrow> rat \<Rightarrow> string \<Rightarrow> string \<Rightarrow> string \<Rightarrow> endpoint_cache \<Rightarrow> bool \<times> endpoint_cache" where
  "endpoint_online env now base backend model_id cache =
     (case map_of cache (base, backend) of
        Some e \<Rightarrow>
          if now - ee_time e > ENDPOINT_TTL then
            (let e' = fresh_entry env now base backend in
             (entry_online backend model_id e', AList.update (base, backend) e' cache))
          else (entry_online backend model_id e, cache)
      | None \<Rightarrow>
          (let e' = fresh_entry env now base backend in
           (entry_online backend model_id e', AList.update (base, backend) e' cache)))"

section \<open>Single-flight cloud probes\<close>

definition CLOUD_URLS :: "(string, string) dict" where
  "CLOUD_URLS = [(''perplexity'', ''https://api.perplexity.ai''), (''openrouter'', ''https://openrouter.ai/api/v1/models''),
     (''anthropic'', ''https://api.anthropic.com'')]"

text \<open>A future is its result, \<open>None\<close> while it is pending; a leader is a refresh that has been started
  and has not published.\<close>

record cloud =
  cloud_cache :: "(string, rat \<times> payload) dict"
  cloud_inflight :: "(string, nat) dict"
  futures :: "payload option list"
  leaders :: "(string \<times> nat) list"

definition init_cloud :: cloud where
  "init_cloud = \<lparr>cloud_cache = [], cloud_inflight = [], futures = [], leaders = []\<rparr>"

definition CLOUD_OK_TTL :: rat where "CLOUD_OK_TTL = 60"
definition CLOUD_FAIL_TTL :: rat where "CLOUD_FAIL_TTL = 15"

datatype acquired = Cached payload | Waiting nat | Leading nat

definition cloud_acquire :: "rat \<Rightarrow> string \<Rightarrow> cloud \<Rightarrow> acquired \<times> cloud" where
  "cloud_acquire now name s =
     (let miss = (case map_of (cloud_inflight s) name of
            Some f \<Rightarrow> (Waiting f, s)
          | None \<Rightarrow> (let f = length (futures s) in
              (Leading f, s\<lparr>cloud_inflight := AList.update name f (cloud_inflight s),
                            futures := futures s @ [None], leaders := leaders s @ [(name, f)]\<rparr>)))
      in case map_of (cloud_cache s) name of
           Some (expires, r) \<Rightarrow> if now < expires then (Cached r, s) else miss
         | None \<Rightarrow> miss)"

definition resolve_future :: "nat \<Rightarrow> payload \<Rightarrow> cloud \<Rightarrow> cloud" where
  "resolve_future f r s =
     (if futures s ! f = None then s\<lparr>futures := (futures s)[f := Some r]\<rparr> else s)"

definition leave_flight :: "string \<Rightarrow> nat \<Rightarrow> cloud \<Rightarrow> cloud" where
  "leave_flight name f s =
     (let s1 = (if map_of (cloud_inflight s) name = Some f
                then s\<lparr>cloud_inflight := AList.delete name (cloud_inflight s)\<rparr> else s)
      in s1\<lparr>leaders := removeAll (name, f) (leaders s1)\<rparr>)"

text \<open>The \<open>finally\<close> block of the refresh, whatever the probe did.\<close>

definition publish :: "rat \<Rightarrow> string \<Rightarrow> nat \<Rightarrow> payload \<Rightarrow> cloud \<Rightarrow> cloud" where
  "publish now name f r s =
     (let ttl = (if truthy (jget r ''ok'') then CLOUD_OK_TTL else CLOUD_FAIL_TTL) in
      resolve_future f r (leave_flight name f (s\<lparr>cloud_cache := AList.update name (now + ttl, r) (cloud_cache s)\<rparr>)))"

definition failure_result :: "string \<Rightarrow> payload" where
  "failure_result err = probe_error [] err"

text \<open>What the probe of the leader comes to: a result, an exception, or one that is no \<open>Exception\<close>.\<close>

datatype probe_outcome = Probed payload | Excepted string | Aborted string

definition outcome_result :: "probe_outcome \<Rightarrow> payload" where
  "outcome_result p =
     (case p of Probed r \<Rightarrow> r | Excepted m \<Rightarrow> failure_result m | Aborted t \<Rightarrow> failure_result (''probe aborted: '' @ t))"

definition cloud_refresh :: "rat \<Rightarrow> string \<Rightarrow> nat \<Rightarrow> probe_outcome \<Rightarrow> cloud \<Rightarrow> cloud" where
  "cloud_refresh now name f p s = publish now name f (outcome_result p) s"

text \<open>The pool refuses the refresh.\<close>

definition refresh_refused :: "string \<Rightarrow> nat \<Rightarrow> string \<Rightarrow> cloud \<Rightarrow> cloud" where
  "refresh_refused name f err s =
     resolve_future f (failure_result (''probe not scheduled: '' @ err)) (leave_flight name f s)"

text \<open>Callers and refreshes in any order.\<close>

inductive cloud_step :: "cloud \<Rightarrow> cloud \<Rightarrow> bool" where
  acquire: "name \<in> fst ` set CLOUD_URLS \<Longrightarrow> cloud_acquire now name s = (a, s') \<Longrightarrow> cloud_step s s'"
| refresh: "(name, f) \<in> set (leaders s) \<Longrightarrow> cloud_step s (cloud_refresh now name f p s)"
| refused: "(name, f) \<in> set (leaders s) \<Longrightarrow> cloud_step s (refresh_refused name f err s)"

inductive cloud_steps :: "cloud \<Rightarrow> cloud \<Rightarrow> bool" for s0 :: cloud where
  none: "cloud_steps s0 s0"
| more: "cloud_steps s0 s \<Longrightarrow> cloud_step s s' \<Longrightarrow> cloud_steps s0 s'"

section \<open>The health page\<close>

definition local_urls :: "string \<Rightarrow> string \<Rightarrow> string \<Rightarrow> (string, string) dict" where
  "local_urls ollama lm_studio mlx =
     [(''ollama'', rstrip_slash ollama @ ''/api/tags''), (''lm_studio'', rstrip_slash lm_studio @ ''/v1/models''),
      (''mlx'', rstrip_slash mlx @ ''/v1/models'')]"

definition timeout_result :: "string \<Rightarrow> payload" where
  "timeout_result url = probe_error url ''timeout: probe exceeded 1.5s health deadline''"

text \<open>The acquisitions of the three cloud probes; \<open>refuse\<close> tells which the pool refuses.\<close>

fun acquire_all :: "(string \<Rightarrow> rat) \<Rightarrow> (string \<Rightarrow> string option) \<Rightarrow> string list \<Rightarrow> cloud \<Rightarrow> (string \<times> acquired) list \<times> cloud" where
  "acquire_all now refuse [] s = ([], s)"
| "acquire_all now refuse (name # names) s =
     (case cloud_acquire (now name) name s of
        (a, s1) \<Rightarrow>
          (let s2 = (case (a, refuse name) of (Leading f, Some err) \<Rightarrow> refresh_refused name f err s1 | _ \<Rightarrow> s1) in
           case acquire_all now refuse names s2 of (as, s3) \<Rightarrow> ((name, a) # as, s3)))"

text \<open>What is read of a future when the deadline has passed.\<close>

definition at_deadline :: "string \<Rightarrow> payload option \<Rightarrow> payload" where
  "at_deadline url fut = (case fut of None \<Rightarrow> timeout_result url | Some r \<Rightarrow> r)"

definition local_entry :: "string \<Rightarrow> (string + payload) option \<Rightarrow> payload" where
  "local_entry url fut =
     (case fut of None \<Rightarrow> timeout_result url | Some (Inr r) \<Rightarrow> r | Some (Inl err) \<Rightarrow> probe_error url err)"

definition cloud_entry :: "string \<Rightarrow> acquired \<Rightarrow> cloud \<Rightarrow> payload" where
  "cloud_entry url a s =
     (case a of Cached r \<Rightarrow> r | Waiting f \<Rightarrow> at_deadline url (futures s ! f) | Leading f \<Rightarrow> at_deadline url (futures s ! f))"

text \<open>\<open>local\<close> are the local probes finished by the deadline with their exception or result, \<open>meanwhile\<close> is what other callers and the
  refreshes do to the shared state until then.\<close>

definition backend_health_map ::
    "(string \<Rightarrow> rat) \<Rightarrow> (string \<Rightarrow> string option) \<Rightarrow> string \<Rightarrow> string \<Rightarrow> string \<Rightarrow> (string \<Rightarrow> (string + payload) option) \<Rightarrow>
     (cloud \<Rightarrow> cloud) \<Rightarrow> cloud \<Rightarrow> (string, payload) dict \<times> cloud" where
  "backend_health_map now refuse ollama lm_studio mlx local meanwhile s =
     (case acquire_all now refuse (map fst CLOUD_URLS) s of
        (as, s1) \<Rightarrow>
          (let s2 = meanwhile s1 in
           (map (\<lambda>(name, url). (name, local_entry url (local name))) (local_urls ollama lm_studio mlx) @
            map (\<lambda>(name, url). (name, case map_of as name of Some a \<Rightarrow> cloud_entry url a s2 | None \<Rightarrow> [])) CLOUD_URLS,
            s2)))"

section \<open>Local probes stay local\<close>

text \<open>Unless public endpoints are allowed, a local probe sends a request only to the loopback, to a private
  address or to \<open>localhost\<close>.\<close>

theorem local_probes_stay_local:
  assumes "\<not> allow_public_model_endpoints h" and "u \<in> set (snd (probe_local_url n h get url))"
    and "raw = (if has_sub ''://'' (py_strip url) then py_strip url else ''http://'' @ py_strip url)"
  shows "u = url \<and> (\<exists>parts host. urlparse n raw = Some parts \<and> url_hostname parts = Some host \<and> local_host n host)"
proof -
  from assms(2) obtain v where "u = url" "validate_model_endpoint_url n url False False = Ret v"
    using assms(1) by (auto simp: probe_local_url_def split: res.splits)
  then show ?thesis using assms(3)
    by (auto simp: validate_model_endpoint_url_def Let_def dest: host_allowed_private split: if_splits option.splits)
qed

section \<open>Normal forms\<close>

lemma norm_id_strip: "strip_tag (norm_id x) = norm_id x"
proof (induction x rule: norm_id.induct)
  case (1 x)
  show ?case
  proof (cases "strip_tag x = x")
    case True
    then show ?thesis by (simp add: norm_id.simps [of x])
  next
    case False
    with 1 show ?thesis by (simp add: norm_id.simps [of x])
  qed
qed

lemma norm_id_length: "length (norm_id x) \<le> length x"
proof (induction x rule: norm_id.induct)
  case (1 x)
  show ?case
  proof (cases "strip_tag x = x")
    case True
    then show ?thesis by (simp add: norm_id.simps [of x])
  next
    case False
    with 1 strip_tag_length [of x] show ?thesis by (simp add: norm_id.simps [of x])
  qed
qed

text \<open>The loop that strips format tags returns, with an id that has no tag left; normalising twice is
  normalising once.\<close>

theorem norm_id_normal:
  "strip_tag (norm_id x) = norm_id x \<and> norm_id (norm_id x) = norm_id x \<and> length (norm_id x) \<le> length x"
  using norm_id_strip [of x] norm_id_length [of x] by (simp add: norm_id.simps [of "norm_id x"])

section \<open>One refresh in flight per backend\<close>

definition cloud_inv :: "cloud \<Rightarrow> bool" where
  "cloud_inv s \<longleftrightarrow> distinct (map fst (leaders s)) \<and> distinct (map snd (leaders s)) \<and>
     fst ` set (leaders s) \<subseteq> fst ` set CLOUD_URLS \<and>
     dict_ok (cloud_inflight s) \<and> set (cloud_inflight s) = set (leaders s) \<and>
     (\<forall>f. (\<exists>n. (n, f) \<in> set (leaders s)) \<longleftrightarrow> f < length (futures s) \<and> futures s ! f = None)"

lemma cloud_invD:
  assumes "cloud_inv s"
  shows "distinct (map fst (leaders s))" "distinct (map snd (leaders s))" "fst ` set (leaders s) \<subseteq> fst ` set CLOUD_URLS"
    "dict_ok (cloud_inflight s)" "set (cloud_inflight s) = set (leaders s)"
    "(\<exists>n. (n, f) \<in> set (leaders s)) \<longleftrightarrow> f < length (futures s) \<and> futures s ! f = None"
  using assms by (simp_all add: cloud_inv_def)

lemma leader_future:
  "cloud_inv s \<Longrightarrow> (n, f) \<in> set (leaders s) \<Longrightarrow> f < length (futures s) \<and> futures s ! f = None"
  using cloud_invD(6) by blast

lemma init_cloud_inv: "cloud_inv init_cloud"
  by (simp add: cloud_inv_def init_cloud_def)

lemma acquire_inv:
  assumes "cloud_inv s" and "name \<in> fst ` set CLOUD_URLS" and "cloud_acquire now name s = (a, s')"
  shows "cloud_inv s'"
proof (cases "s' = s")
  case True
  with assms(1) show ?thesis by simp
next
  case False
  let ?f = "length (futures s)"
  from False assms(3) have n: "map_of (cloud_inflight s) name = None"
    and s': "s' = s\<lparr>cloud_inflight := AList.update name ?f (cloud_inflight s),
       futures := futures s @ [None], leaders := leaders s @ [(name, ?f)]\<rparr>"
    by (auto simp: cloud_acquire_def Let_def split: option.splits if_splits)
  have new: "name \<notin> fst ` set (leaders s)"
    using n cloud_invD(5) [OF assms(1)] by (metis map_of_eq_None_iff)
  have f: "?f \<notin> snd ` set (leaders s)" using leader_future [OF assms(1)] by fastforce
  have iff: "(\<exists>n. (n, g) \<in> set (leaders s')) \<longleftrightarrow> g < length (futures s') \<and> futures s' ! g = None" for g
  proof (cases "g = ?f")
    case True
    then show ?thesis by (auto simp: s')
  next
    case False
    then show ?thesis using cloud_invD(6) [OF assms(1), of g] by (auto simp: s' nth_append less_Suc_eq)
  qed
  have "set (cloud_inflight s') = set (leaders s')"
    using n cloud_invD(5) [OF assms(1)] by (simp add: s' update_new)
  moreover have "dict_ok (cloud_inflight s')" using cloud_invD(4) [OF assms(1)] by (simp add: s')
  moreover have "distinct (map fst (leaders s'))" "distinct (map snd (leaders s'))"
    using cloud_invD(1,2) [OF assms(1)] new f by (simp_all add: s')
  moreover have "fst ` set (leaders s') \<subseteq> fst ` set CLOUD_URLS"
    using cloud_invD(3) [OF assms(1)] assms(2) by (simp add: s')
  ultimately show ?thesis using iff unfolding cloud_inv_def by blast
qed

lemma distinct_map_removeAll: "distinct (map h xs) \<Longrightarrow> distinct (map h (removeAll x xs))"
  by (induction xs) auto

lemma same_leader:
  assumes "distinct (map fst xs)" and "distinct (map snd xs)" and "(m, f) \<in> set xs" and "(n, g) \<in> set xs"
  shows "n = m \<longleftrightarrow> g = f"
  using assms by (metis distinct_map fst_conv inj_onD prod.inject snd_conv)

lemma publish_parts:
  assumes "cloud_inv s" and "(name, f) \<in> set (leaders s)"
  shows "cloud_inv (resolve_future f r (leave_flight name f (s\<lparr>cloud_cache := c\<rparr>)))" (is "cloud_inv ?s")
    and "futures (resolve_future f r (leave_flight name f (s\<lparr>cloud_cache := c\<rparr>))) = (futures s)[f := Some r]"
proof -
  have "map_of (cloud_inflight s) name = Some f"
    using assms cloud_invD(4,5) [OF assms(1)] by (metis map_of_is_SomeI)
  then have s': "?s = s\<lparr>cloud_cache := c, cloud_inflight := AList.delete name (cloud_inflight s),
     leaders := removeAll (name, f) (leaders s), futures := (futures s)[f := Some r]\<rparr>"
    using leader_future [OF assms] by (simp add: leave_flight_def resolve_future_def)
  then show "futures ?s = (futures s)[f := Some r]" by simp
  have same: "(n, g) \<in> set (leaders s) \<Longrightarrow> n = name \<longleftrightarrow> g = f" for n g
    using same_leader [OF cloud_invD(1,2) [OF assms(1)] assms(2)] by blast
  have iff: "(\<exists>n. (n, g) \<in> set (leaders ?s)) \<longleftrightarrow> g < length (futures ?s) \<and> futures ?s ! g = None" for g
  proof (cases "g = f")
    case True
    with same show ?thesis unfolding s' by (auto simp: nth_list_update)
  next
    case False
    then show ?thesis unfolding s' using cloud_invD(6) [OF assms(1), of g] by simp
  qed
  have "set (cloud_inflight ?s) = set (leaders ?s)"
    using cloud_invD(5) [OF assms(1)] same unfolding s' by (auto simp: AList.delete_eq)
  moreover have "dict_ok (cloud_inflight ?s)" using cloud_invD(4) [OF assms(1)] unfolding s' by simp
  moreover have "distinct (map fst (leaders ?s))" "distinct (map snd (leaders ?s))"
    using cloud_invD(1,2) [OF assms(1)] unfolding s' by (simp_all add: distinct_map_removeAll)
  moreover have "fst ` set (leaders ?s) \<subseteq> fst ` set CLOUD_URLS"
    using cloud_invD(3) [OF assms(1)] unfolding s' by auto
  ultimately show "cloud_inv ?s" using iff unfolding cloud_inv_def by blast
qed

lemma cloud_step_inv: "cloud_step s s' \<Longrightarrow> cloud_inv s \<Longrightarrow> cloud_inv s'"
proof (induction rule: cloud_step.induct)
  case (acquire name now s a s')
  then show ?case by (blast intro: acquire_inv)
next
  case (refresh name f s now p)
  then show ?case unfolding cloud_refresh_def publish_def Let_def by (intro publish_parts(1))
next
  case (refused name f s err)
  from publish_parts(1) [OF refused(2,1), of _ "cloud_cache s"] show ?case by (simp add: refresh_refused_def)
qed

lemma cloud_steps_inv: "cloud_steps s s' \<Longrightarrow> cloud_inv s \<Longrightarrow> cloud_inv s'"
  by (induction rule: cloud_steps.induct) (auto intro: cloud_step_inv)

text \<open>C18: However callers and refreshes interleave, each backend has at most one refresh in flight, three
  workers suffice for all of them, and a future is pending exactly while a refresh will resolve it.\<close>

theorem single_flight:
  assumes "cloud_steps init_cloud s"
  shows "distinct (map fst (leaders s)) \<and> length (leaders s) \<le> 3 \<and>
    (\<forall>f < length (futures s). futures s ! f = None \<longleftrightarrow> (\<exists>name. (name, f) \<in> set (leaders s)))"
proof -
  have i: "cloud_inv s" by (rule cloud_steps_inv [OF assms init_cloud_inv])
  then have "length (leaders s) = card (fst ` set (leaders s))"
    by (metis cloud_inv_def distinct_card length_map list.set_map)
  also have "\<dots> \<le> card (fst ` set CLOUD_URLS)" using i by (intro card_mono) (auto simp: cloud_inv_def)
  also have "\<dots> \<le> 3" by (simp add: CLOUD_URLS_def)
  finally show ?thesis using cloud_invD(1,6) [OF i] by blast
qed

text \<open>When a refresh ends, however it ends, its waiters have the result and callers are answered from the
  cache for a minute after a success and for fifteen seconds after a failure.\<close>

theorem refresh_answers_waiters:
  assumes "cloud_steps init_cloud s" and "(name, f) \<in> set (leaders s)"
    and "r = outcome_result p" and "now' < now + (if truthy (jget r ''ok'') then 60 else 15)"
    and "s' = cloud_refresh now name f p s"
  shows "futures s' ! f = Some r \<and> cloud_acquire now' name s' = (Cached r, s')"
proof -
  have i: "cloud_inv s" by (rule cloud_steps_inv [OF assms(1) init_cloud_inv])
  then have "f < length (futures s)" using leader_future assms(2) by blast
  then have "futures s' ! f = Some r"
    unfolding assms(5) cloud_refresh_def publish_def Let_def assms(3) [symmetric]
    by (subst publish_parts(2) [OF i assms(2)]) simp
  moreover have "cloud_cache s' = AList.update name (now + (if truthy (jget r ''ok'') then 60 else 15), r) (cloud_cache s)"
    unfolding assms(5) cloud_refresh_def publish_def Let_def assms(3) [symmetric]
    by (simp add: resolve_future_def leave_flight_def Let_def CLOUD_OK_TTL_def CLOUD_FAIL_TTL_def)
  ultimately show ?thesis using assms(4) by (simp add: cloud_acquire_def map_of_update)
qed

section \<open>Cached answers\<close>

text \<open>An answer younger than its lifetime is given again without a probe, whatever the endpoint would
  say; afterwards the endpoint is asked and the answer kept.\<close>

theorem endpoint_asked_when_stale:
  assumes "map_of cache (base, backend) = Some e"
  shows "endpoint_online env now base backend m cache =
    (if now - ee_time e \<le> 20 then (entry_online backend m e, cache)
     else (entry_online backend m (fresh_entry env now base backend),
           AList.update (base, backend) (fresh_entry env now base backend) cache))"
  using assms by (auto simp: endpoint_online_def Let_def ENDPOINT_TTL_def)

section \<open>Concrete probes\<close>

definition demo_probe_host :: host_env where
  "demo_probe_host = \<lparr>getenv = (\<lambda>_. None), repr_of = (\<lambda>_. [])\<rparr>"

definition demo_net_lib :: net_lib where
  "demo_net_lib = \<lparr>urlparse = (\<lambda>u. Some \<lparr>url_scheme = ''http'', url_username = None, url_password = None,
     url_hostname = Some ''localhost'', url_port = Some 1234\<rparr>), parse_ip = (\<lambda>_. None)\<rparr>"

lemma local_probes_stay_local_witness:
  "\<exists>parts host. urlparse demo_net_lib ''http://localhost:1234/v1/models'' = Some parts \<and> url_hostname parts = Some host \<and>
     local_host demo_net_lib host"
proof -
  let ?u = "''http://localhost:1234/v1/models''"
  have "\<not> allow_public_model_endpoints demo_probe_host" by code_simp
  moreover have "?u \<in> set (snd (probe_local_url demo_net_lib demo_probe_host (\<lambda>_. Failed ''down'') ?u))" by code_simp
  moreover have "?u = (if has_sub ''://'' (py_strip ?u) then py_strip ?u else ''http://'' @ py_strip ?u)" by code_simp
  ultimately show ?thesis using local_probes_stay_local by blast
qed

definition demo_flight :: cloud where
  "demo_flight = snd (cloud_acquire 0 ''openrouter'' init_cloud)"

lemma demo_flight_steps: "cloud_steps init_cloud demo_flight"
proof (rule cloud_steps.more [OF cloud_steps.none])
  have "''openrouter'' \<in> fst ` set CLOUD_URLS" by (simp add: CLOUD_URLS_def)
  then show "cloud_step init_cloud demo_flight"
    unfolding demo_flight_def by (rule cloud_step.acquire [OF _ surjective_pairing])
qed

lemma demo_flight_leads: "leaders demo_flight = [(''openrouter'', 0)]"
  by (simp add: demo_flight_def cloud_acquire_def init_cloud_def)

lemma single_flight_witness: "distinct (map fst (leaders demo_flight)) \<and> length (leaders demo_flight) \<le> 3"
  using single_flight [OF demo_flight_steps] by blast

lemma refresh_answers_waiters_witness:
  "futures (cloud_refresh 3 ''openrouter'' 0 (Aborted ''SystemExit'') demo_flight) ! 0 =
     Some (failure_result (''probe aborted: '' @ ''SystemExit''))"
proof -
  have "(''openrouter'', 0) \<in> set (leaders demo_flight)" by (simp add: demo_flight_leads)
  from refresh_answers_waiters [OF demo_flight_steps this refl _ refl, of 3 3 "Aborted ''SystemExit''"]
  show ?thesis by (simp add: outcome_result_def)
qed

definition demo_entry :: endpoint_entry where
  "demo_entry = \<lparr>ee_time = 10, ee_ok = True, ee_served = [''qwen3.5:9b'']\<rparr>"

definition demo_probe :: probe_env where
  "demo_probe = \<lparr>pe_repr = (\<lambda>_. []), pe_get = (\<lambda>_. Failed ''down''), pe_cloud_get = (\<lambda>_. Failed ''down'')\<rparr>"

lemma endpoint_asked_when_stale_witness:
  "fst (endpoint_online demo_probe 25 ''http://h:1'' ''ollama'' ''Qwen3.5'' [((''http://h:1'', ''ollama''), demo_entry)]) \<and>
   \<not> fst (endpoint_online demo_probe 40 ''http://h:1'' ''ollama'' ''Qwen3.5'' [((''http://h:1'', ''ollama''), demo_entry)])"
proof -
  have e: "ee_time demo_entry = 10" "entry_online ''ollama'' ''Qwen3.5'' demo_entry"
    "\<not> entry_online ''ollama'' ''Qwen3.5'' (fresh_entry demo_probe 40 ''http://h:1'' ''ollama'')"
    by code_simp+
  have "map_of [((''http://h:1'', ''ollama''), demo_entry)] (''http://h:1'', ''ollama'') = Some demo_entry" by simp
  from endpoint_asked_when_stale [OF this, of demo_probe _ "''Qwen3.5''"] e show ?thesis by simp
qed

end
