(* ===== verification/ModelRegistry.thy ===== *)
theory ModelRegistry
  imports Connectivity "HOL-Library.Product_Lexorder" "HOL-Library.Multiset"
begin

text \<open>
  \<open>orchestrator/model_registry.py\<close> with \<open>utils/endpoint_policy_core.py\<close>: the targets that the
  configuration files list, where each is reached and whether it is online, and the fallback chain of a
  task type after the frugality gate.  The parsed YAML files, the environment, the address that LAN
  discovery finds and the clock are inputs.
\<close>

section \<open>Transport identities\<close>

record transport_identity =
  ti_scheme :: string
  ti_hostname :: string
  ti_port :: "int option"

definition with_port :: "transport_identity \<Rightarrow> int \<Rightarrow> string" where
  "with_port t port =
     (let host = (if CHR '':'' \<in> set (ti_hostname t) \<and> take 1 (ti_hostname t) \<noteq> ''[''
                  then ''['' @ ti_hostname t @ '']'' else ti_hostname t)
      in ti_scheme t @ ''://'' @ host @ '':'' @ show_int port)"

text \<open>\<open>is_ipv6\<close> tells which texts parse as an IPv6 address.\<close>

definition parse_transport_identity ::
    "net_lib \<Rightarrow> (string \<Rightarrow> bool) \<Rightarrow> string \<Rightarrow> string \<Rightarrow> transport_identity option" where
  "parse_transport_identity n is_ipv6 source default_scheme =
     (let raw = py_strip source;
          normalized = lower (if default_scheme \<noteq> [] then default_scheme else ''http'')
      in if raw = [] then None
         else if normalized \<notin> {''http'', ''https''} then None
         else (let candidate = (if has_sub ''://'' raw then raw
                                else normalized @ ''://'' @ (if is_ipv6 raw then ''['' @ raw @ '']'' else raw))
               in case urlparse n candidate of
                    None \<Rightarrow> None
                  | Some u \<Rightarrow>
                      (let scheme = lower (if url_scheme u \<noteq> [] then url_scheme u else normalized) in
                       if scheme \<notin> {''http'', ''https''} then None
                       else if truthy_str (url_username u) \<or> truthy_str (url_password u) then None
                       else (case url_hostname u of
                               None \<Rightarrow> None
                             | Some host \<Rightarrow>
                                 if host = [] then None
                                 else Some \<lparr>ti_scheme = scheme, ti_hostname = host, ti_port = url_port u\<rparr>))))"

definition build_transport_url :: "net_lib \<Rightarrow> (string \<Rightarrow> bool) \<Rightarrow> string \<Rightarrow> int \<Rightarrow> string \<Rightarrow> string option" where
  "build_transport_url n is_ipv6 source port default_scheme =
     map_option (\<lambda>t. with_port t port) (parse_transport_identity n is_ipv6 source default_scheme)"

section \<open>Configuration values\<close>

text \<open>The pattern \<open>^\$\{([^}:]+)(?::-([^}]*))?\}$\<close> on the stripped value.\<close>

definition expand_env_default :: "host_env \<Rightarrow> string \<Rightarrow> string" where
  "expand_env_default h value =
     (if \<not> has_sub ''${'' value then value
      else (let s = py_strip value; body = butlast (drop 2 s); var = takeWhile (\<lambda>c. c \<noteq> CHR '':'') body;
                rest = drop (length var) body
            in if take 2 s = ''${'' \<and> 3 \<le> length s \<and> last s = CHR ''}'' \<and> CHR ''}'' \<notin> set body \<and> var \<noteq> [] \<and>
                  (rest = [] \<or> take 2 rest = '':-'')
               then env_or h var (drop 2 rest) else value))"

fun find_scheme :: "string \<Rightarrow> string option" where
  "find_scheme [] = None"
| "find_scheme (c # cs) = (if take 3 (c # cs) = ''://'' then Some (drop 3 (c # cs)) else find_scheme cs)"

definition host_has_port :: "string \<Rightarrow> bool" where
  "host_has_port host =
     (let authority = takeWhile (\<lambda>c. c \<noteq> CHR ''/'') (case find_scheme host of Some r \<Rightarrow> r | None \<Rightarrow> host) in
      if take 1 authority = ''['' then
        (case dropWhile (\<lambda>c. c \<noteq> CHR '']'') authority of _ # c # _ \<Rightarrow> c = CHR '':'' | _ \<Rightarrow> False)
      else if 1 < length (filter (\<lambda>c. c = CHR '':'') authority) then False
      else CHR '':'' \<in> set authority)"

record registry_files =
  devices_yml :: payload
  models_yml :: payload
  routing_yml :: payload

record registry_env =
  re_net :: net_lib
  re_is_ipv6 :: "string \<Rightarrow> bool"
  re_host :: host_env
  re_tilted :: string
  re_probe :: probe_env
  re_clock :: "nat \<Rightarrow> rat"

text \<open>\<open>_normalize_devices\<close>: the list form becomes a dictionary; an entry without an id is skipped.\<close>

fun devices_by_id :: "json list \<Rightarrow> payload \<Rightarrow> payload res" where
  "devices_by_id [] acc = Ret acc"
| "devices_by_id (JObj d # ds) acc =
     (case map_of d ''id'' of
        None \<Rightarrow> devices_by_id ds acc
      | Some (JStr i) \<Rightarrow> devices_by_id ds (AList.update i (JObj d) acc)
      | Some _ \<Rightarrow> Raise TypeError)"
| "devices_by_id (d # ds) acc = Raise TypeError"

definition normalize_devices :: "payload \<Rightarrow> payload res" where
  "normalize_devices raw =
     (case dict_get raw ''devices'' (JObj []) of
        JList ds \<Rightarrow> devices_by_id ds []
      | JObj d \<Rightarrow> Ret d
      | _ \<Rightarrow> Raise TypeError)"

definition device_info :: "registry_files \<Rightarrow> string \<Rightarrow> payload res" where
  "device_info fs name =
     res_bind (normalize_devices (devices_yml fs)) (\<lambda>ds.
       (case dict_get ds name (JObj []) of JObj d \<Rightarrow> Ret d | _ \<Rightarrow> Raise TypeError))"

definition probes_disabled :: "host_env \<Rightarrow> bool" where
  "probes_disabled h =
     (lower (py_strip (env_or h ''PT_DISABLE_LIVE_MODEL_PROBES'' [])) \<in> {''1'', ''true'', ''yes'', ''on''})"

definition configured_host :: "registry_env \<Rightarrow> payload \<Rightarrow> string" where
  "configured_host env item =
     expand_env_default (re_host env) (json_text (repr_of (re_host env)) (dict_get item ''host'' (JStr [])))"

definition resolve_host :: "registry_env \<Rightarrow> registry_files \<Rightarrow> payload \<Rightarrow> bool \<Rightarrow> string res" where
  "resolve_host env fs item allow_live =
     res_bind (as_str (dict_get item ''device'' (JStr []))) (\<lambda>device.
     res_bind (device_info fs device) (\<lambda>info.
       if allow_live \<and> jget info ''identity_method'' = JStr ''active_tilting'' \<and> \<not> probes_disabled (re_host env) then
         (if jget item ''backend'' \<noteq> JStr ''ollama'' then Ret (re_tilted env)
          else res_bind (py_int (dict_get item ''port'' (JInt 11434))) (\<lambda>port.
            Ret (case build_transport_url (re_net env) (re_is_ipv6 env) (re_tilted env) port ''http'' of
                   None \<Rightarrow> configured_host env item | Some u \<Rightarrow> u)))
       else Ret (configured_host env item)))"

section \<open>Targets\<close>

record registry_target =
  tg_name :: string
  tg_backend :: string
  tg_device :: string
  tg_host :: string
  tg_port :: int
  tg_context_window :: json
  tg_roles :: "string list"
  tg_priority :: rat
  tg_online :: json
  tg_reasoning :: json
  tg_api_model :: string
  tg_api_path :: json
  tg_provider_options :: json
  tg_provenance :: json
  tg_frugality_tier :: "int option"

definition item_str :: "payload \<Rightarrow> string \<Rightarrow> string res" where
  "item_str item k = (case map_of item k of None \<Rightarrow> Raise (KeyError k) | Some v \<Rightarrow> as_str v)"

definition item_tier :: "payload \<Rightarrow> int option res" where
  "item_tier item =
     (case jget item ''frugality_tier'' of JNull \<Rightarrow> Ret None | JInt t \<Rightarrow> Ret (Some t) | _ \<Rightarrow> Raise TypeError)"

definition text_or_empty :: "json \<Rightarrow> string res" where
  "text_or_empty v = (if truthy v then as_str v else Ret [])"

definition target_base :: "string \<Rightarrow> int \<Rightarrow> string" where
  "target_base host port =
     (if host_has_port host then host else if port \<noteq> 0 then host @ '':'' @ show_int port else host)"

text \<open>The target of one entry, with the cached liveness answers; \<open>i\<close> is its position in the list.\<close>

definition target_of ::
    "registry_env \<Rightarrow> registry_files \<Rightarrow> bool \<Rightarrow> nat \<Rightarrow> payload \<Rightarrow> endpoint_cache \<Rightarrow> registry_target res \<times> endpoint_cache" where
  "target_of env fs probe i item cache =
     (case res_bind (resolve_host env fs item probe) (\<lambda>host.
           res_bind (py_int (dict_get item ''port'' (JInt 0))) (\<lambda>port.
           res_bind (item_str item ''backend'') (\<lambda>backend.
           res_bind (item_str item ''name'') (\<lambda>name.
           res_bind (item_str item ''device'') (\<lambda>device.
           res_bind (as_strs (dict_get item ''roles'' (jstrs [''general'']))) (\<lambda>roles.
           res_bind (as_float (dict_get item ''priority'' (JInt 100))) (\<lambda>prio.
           res_bind (text_or_empty (dict_get item ''api_model'' (JStr []))) (\<lambda>api.
           res_bind (item_tier item) (\<lambda>tier.
             Ret \<lparr>tg_name = name, tg_backend = backend, tg_device = device, tg_host = host, tg_port = port,
                  tg_context_window = jget item ''context_window'', tg_roles = roles, tg_priority = prio,
                  tg_online = dict_get item ''online'' (JBool False),
                  tg_reasoning = dict_get item ''reasoning'' (JStr ''general''),
                  tg_api_model = (if api \<noteq> [] then api else name),
                  tg_api_path = dict_get item ''api_path'' (JStr []),
                  tg_provider_options = jget item ''provider_options'', tg_provenance = jget item ''provenance'',
                  tg_frugality_tier = tier\<rparr>))))))))) of
        Raise e \<Rightarrow> (Raise e, cache)
      | Ret t \<Rightarrow>
          if \<not> probe \<or> probes_disabled (re_host env) then (Ret t, cache)
          else (case endpoint_online (re_probe env) (re_clock env i) (target_base (tg_host t) (tg_port t))
                  (tg_backend t) (tg_api_model t) cache of
                  (online, cache') \<Rightarrow> (Ret (t\<lparr>tg_online := JBool online\<rparr>), cache')))"

fun targets_of ::
    "registry_env \<Rightarrow> registry_files \<Rightarrow> bool \<Rightarrow> nat \<Rightarrow> json list \<Rightarrow> endpoint_cache \<Rightarrow>
     registry_target list res \<times> endpoint_cache" where
  "targets_of env fs probe i [] cache = (Ret [], cache)"
| "targets_of env fs probe i (JObj item # items) cache =
     (case target_of env fs probe i item cache of
        (Raise e, c1) \<Rightarrow> (Raise e, c1)
      | (Ret t, c1) \<Rightarrow>
          (case targets_of env fs probe (Suc i) items c1 of
             (Raise e, c2) \<Rightarrow> (Raise e, c2) | (Ret ts, c2) \<Rightarrow> (Ret (t # ts), c2)))"
| "targets_of env fs probe i (item # items) cache = (Raise TypeError, cache)"

definition list_models ::
    "registry_env \<Rightarrow> registry_files \<Rightarrow> bool \<Rightarrow> endpoint_cache \<Rightarrow> registry_target list res \<times> endpoint_cache" where
  "list_models env fs probe cache =
     (case py_iter (dict_get (models_yml fs) ''models'' (JList [])) of
        Raise e \<Rightarrow> (Raise e, cache)
      | Ret items \<Rightarrow>
          (case targets_of env fs probe 0 items cache of
             (Raise e, c1) \<Rightarrow> (Raise e, c1) | (Ret ts, c1) \<Rightarrow> (Ret (sort_key tg_priority ts), c1)))"

definition get_model ::
    "registry_env \<Rightarrow> registry_files \<Rightarrow> string \<Rightarrow> bool \<Rightarrow> endpoint_cache \<Rightarrow> registry_target option res \<times> endpoint_cache" where
  "get_model env fs name probe cache =
     (case list_models env fs probe cache of
        (Raise e, c1) \<Rightarrow> (Raise e, c1) | (Ret ts, c1) \<Rightarrow> (Ret (find (\<lambda>t. tg_name t = name) ts), c1))"

section \<open>Selection and routing\<close>

definition prefer_device :: "string option \<Rightarrow> registry_target list \<Rightarrow> registry_target list" where
  "prefer_device preferred candidates =
     (case preferred of
        None \<Rightarrow> candidates
      | Some d \<Rightarrow>
          if d = [] then candidates
          else filter (\<lambda>m. tg_device m = d) candidates @ filter (\<lambda>m. tg_device m \<noteq> d) candidates)"

definition select_for_role ::
    "registry_env \<Rightarrow> registry_files \<Rightarrow> string \<Rightarrow> string option \<Rightarrow> endpoint_cache \<Rightarrow>
     registry_target list res \<times> endpoint_cache" where
  "select_for_role env fs role preferred cache =
     (case list_models env fs True cache of
        (Raise e, c1) \<Rightarrow> (Raise e, c1)
      | (Ret ts, c1) \<Rightarrow> (Ret (prefer_device preferred (filter (\<lambda>m. role \<in> set (tg_roles m)) ts)), c1))"

definition target_key :: "registry_target \<Rightarrow> string \<times> string \<times> string" where
  "target_key t = (tg_name t, tg_device t, tg_backend t)"

fun add_unseen :: "registry_target list \<Rightarrow> registry_target list \<Rightarrow> registry_target list" where
  "add_unseen ordered [] = ordered"
| "add_unseen ordered (c # cs) =
     (if target_key c \<in> set (map target_key ordered) then add_unseen ordered cs else add_unseen (ordered @ [c]) cs)"

fun collect_roles ::
    "registry_env \<Rightarrow> registry_files \<Rightarrow> string list \<Rightarrow> string option \<Rightarrow> registry_target list \<Rightarrow> endpoint_cache \<Rightarrow>
     registry_target list res \<times> endpoint_cache" where
  "collect_roles env fs [] preferred ordered cache = (Ret ordered, cache)"
| "collect_roles env fs (role # roles) preferred ordered cache =
     (case select_for_role env fs role preferred cache of
        (Raise e, c1) \<Rightarrow> (Raise e, c1)
      | (Ret cs, c1) \<Rightarrow> collect_roles env fs roles preferred (add_unseen ordered cs) c1)"

definition route_config :: "registry_files \<Rightarrow> string \<Rightarrow> payload res" where
  "route_config fs task =
     (case dict_get (routing_yml fs) ''routes'' (JObj []) of
        JObj routes \<Rightarrow>
          (case dict_get routes task (dict_get routes ''default'' (JObj [])) of JObj r \<Rightarrow> Ret r | _ \<Rightarrow> Raise TypeError)
      | _ \<Rightarrow> Raise TypeError)"

definition route_roles :: "registry_files \<Rightarrow> string \<Rightarrow> string list res" where
  "route_roles fs task = res_bind (route_config fs task) (\<lambda>r. as_strs (dict_get r ''roles'' (jstrs [''general''])))"

definition gated :: "policy_env \<Rightarrow> string \<Rightarrow> bool \<Rightarrow> bool \<Rightarrow> string option \<Rightarrow> registry_target list \<Rightarrow> registry_target list res" where
  "gated policy task privacy oc oreason ts =
     res_bind (filter_chain_by_gate policy task privacy oc oreason (map (\<lambda>t. (t, tg_frugality_tier t)) ts))
       (\<lambda>kept. Ret (map fst kept))"

definition route_task ::
    "registry_env \<Rightarrow> policy_env \<Rightarrow> registry_files \<Rightarrow> string \<Rightarrow> string option \<Rightarrow> bool \<Rightarrow> bool \<Rightarrow> string option \<Rightarrow>
     endpoint_cache \<Rightarrow> registry_target list res \<times> endpoint_cache" where
  "route_task env policy fs task preferred privacy oc oreason cache =
     (case route_roles fs task of
        Raise e \<Rightarrow> (Raise e, cache)
      | Ret roles \<Rightarrow>
          (case collect_roles env fs roles preferred [] cache of
             (Raise e, c1) \<Rightarrow> (Raise e, c1)
           | (Ret ordered, c1) \<Rightarrow> (gated policy task privacy oc oreason ordered, c1)))"

section \<open>The order of a selection\<close>

lemma filter_sort_key: "filter P (sort_key f xs) = sort_key f (filter P xs)"
proof (rule properties_for_sort_key [symmetric])
  show "mset (filter P (sort_key f xs)) = mset (filter P xs)" by simp
next
  fix k assume "k \<in> set (filter P (sort_key f xs))"
  have "filter (\<lambda>x. f k = f x) (filter P (sort_key f xs)) = filter P (filter (\<lambda>x. f x = f k) (sort_key f xs))"
    by (simp add: conj_commute eq_commute)
  also have "\<dots> = filter P (filter (\<lambda>x. f x = f k) xs)" by (simp only: sort_key_stable)
  also have "\<dots> = filter (\<lambda>x. f k = f x) (filter P xs)" by (simp add: conj_commute eq_commute)
  finally show "filter (\<lambda>x. f k = f x) (filter P (sort_key f xs)) = filter (\<lambda>x. f k = f x) (filter P xs)" .
next
  show "sorted (map f (filter P (sort_key f xs)))" by (rule sorted_filter) simp
qed

lemma sorted_map_pair:
  "sorted (map f zs) \<Longrightarrow> \<forall>x \<in> set zs. Q x = b \<Longrightarrow> sorted (map (\<lambda>x. (Q x, f x)) zs)"
  by (induction zs) auto

lemma preferred_first_sort:
  fixes f :: "'a \<Rightarrow> 'k :: linorder"
  shows "filter (\<lambda>x. \<not> Q x) (sort_key f xs) @ filter Q (sort_key f xs) = sort_key (\<lambda>x. (Q x, f x)) xs" (is "?l @ ?r = _")
proof (rule properties_for_sort_key [symmetric])
  show "mset (?l @ ?r) = mset xs"
    using multiset_partition [of "mset (sort_key f xs)" Q] by (simp add: add.commute)
next
  fix k assume "k \<in> set (?l @ ?r)"
  have stable: "filter (\<lambda>x. f x = f k) (sort_key f xs) = filter (\<lambda>x. f x = f k) xs" by (rule sort_key_stable)
  have "filter (\<lambda>x. (Q k, f k) = (Q x, f x)) (?l @ ?r) = filter (\<lambda>x. Q x = Q k) (filter (\<lambda>x. f x = f k) (sort_key f xs))"
  proof (cases "Q k")
    case True
    then have "filter (\<lambda>x. (Q k, f k) = (Q x, f x)) ?l = []" by (simp add: filter_empty_conv)
    moreover from True have "filter (\<lambda>x. (Q k, f k) = (Q x, f x)) ?r = filter (\<lambda>x. Q x = Q k) (filter (\<lambda>x. f x = f k) (sort_key f xs))"
      by (auto intro!: filter_cong)
    ultimately show ?thesis by simp
  next
    case False
    then have "filter (\<lambda>x. (Q k, f k) = (Q x, f x)) ?r = []" by (simp add: filter_empty_conv)
    moreover from False have "filter (\<lambda>x. (Q k, f k) = (Q x, f x)) ?l = filter (\<lambda>x. Q x = Q k) (filter (\<lambda>x. f x = f k) (sort_key f xs))"
      by (auto intro!: filter_cong)
    ultimately show ?thesis by simp
  qed
  also have "\<dots> = filter (\<lambda>x. (Q k, f k) = (Q x, f x)) xs"
    unfolding stable by (auto intro!: filter_cong)
  finally show "filter (\<lambda>x. (Q k, f k) = (Q x, f x)) (?l @ ?r) = filter (\<lambda>x. (Q k, f k) = (Q x, f x)) xs" .
next
  have "sorted (map f ?l)" "sorted (map f ?r)" by (rule sorted_filter, simp)+
  from sorted_map_pair [OF this(1), of Q False] sorted_map_pair [OF this(2), of Q True]
  have "sorted (map (\<lambda>x. (Q x, f x)) ?l)" "sorted (map (\<lambda>x. (Q x, f x)) ?r)" by simp_all
  then show "sorted (map (\<lambda>x. (Q x, f x)) (?l @ ?r))"
    by (auto simp: sorted_append less_eq_prod_def)
qed

text \<open>The selection for a role is the stable sort, from the order of the file, of the targets of that role
  by two keys: not on the preferred device, then the priority.\<close>

theorem selection_is_stable_sort:
  assumes "py_iter (dict_get (models_yml fs) ''models'' (JList [])) = Ret items"
    and "targets_of env fs True 0 items cache = (Ret ts, c1)" and "d \<noteq> []"
  shows "select_for_role env fs role (Some d) cache =
    (Ret (sort_key (\<lambda>t. (tg_device t \<noteq> d, tg_priority t)) (filter (\<lambda>t. role \<in> set (tg_roles t)) ts)), c1)"
proof -
  have "prefer_device (Some d) (filter (\<lambda>t. role \<in> set (tg_roles t)) (sort_key tg_priority ts)) =
      sort_key (\<lambda>t. (tg_device t \<noteq> d, tg_priority t)) (filter (\<lambda>t. role \<in> set (tg_roles t)) ts)"
    using assms(3) preferred_first_sort [of "\<lambda>t. tg_device t \<noteq> d" tg_priority "filter (\<lambda>t. role \<in> set (tg_roles t)) ts"]
    by (simp add: prefer_device_def filter_sort_key)
  with assms(1,2) show ?thesis by (simp add: select_for_role_def list_models_def)
qed

section \<open>What a route contains\<close>

text \<open>A target is made from an entry of the file.\<close>

definition made_from :: "registry_files \<Rightarrow> registry_target \<Rightarrow> bool" where
  "made_from fs t \<longleftrightarrow>
     (\<exists>items item. py_iter (dict_get (models_yml fs) ''models'' (JList [])) = Ret items \<and> JObj item \<in> set items \<and>
        map_of item ''name'' = Some (JStr (tg_name t)) \<and> map_of item ''device'' = Some (JStr (tg_device t)) \<and>
        map_of item ''backend'' = Some (JStr (tg_backend t)) \<and> item_tier item = Ret (tg_frugality_tier t))"

lemma as_str_Ret: "as_str v = Ret x \<longleftrightarrow> v = JStr x"
  by (cases v) auto

lemma item_str_Ret: "item_str item k = Ret x \<longleftrightarrow> map_of item k = Some (JStr x)"
  by (auto simp: item_str_def as_str_Ret split: option.splits)

lemma target_of_made:
  assumes "target_of env fs probe i item cache = (Ret t, c1)"
  shows "map_of item ''name'' = Some (JStr (tg_name t)) \<and> map_of item ''device'' = Some (JStr (tg_device t)) \<and>
    map_of item ''backend'' = Some (JStr (tg_backend t)) \<and> item_tier item = Ret (tg_frugality_tier t)"
  using assms unfolding target_of_def
  by (auto simp: res_bind_eq_Ret item_str_Ret split: res.splits if_splits prod.splits)

lemma targets_of_made:
  assumes "targets_of env fs probe i items cache = (Ret ts, c1)" and "t \<in> set ts"
  shows "\<exists>item. JObj item \<in> set items \<and> map_of item ''name'' = Some (JStr (tg_name t)) \<and>
    map_of item ''device'' = Some (JStr (tg_device t)) \<and> map_of item ''backend'' = Some (JStr (tg_backend t)) \<and>
    item_tier item = Ret (tg_frugality_tier t)"
  using assms
proof (induction env fs probe i items cache arbitrary: ts c1 rule: targets_of.induct)
  case (2 env fs probe i item items cache)
  from "2.prems"(1) obtain u us c2 where u: "target_of env fs probe i item cache = (Ret u, c2)"
    and us: "targets_of env fs probe (Suc i) items c2 = (Ret us, c1)" and ts: "ts = u # us"
    by (auto split: prod.splits res.splits)
  from "2.prems"(2) ts consider "t = u" | "t \<in> set us" by auto
  then show ?case
  proof cases
    case 1
    with target_of_made [OF u] show ?thesis by (intro exI [of _ item]) simp
  next
    case 2
    from "2.IH" [OF u [symmetric] refl us 2] show ?thesis by auto
  qed
qed simp_all

lemma list_models_made:
  assumes "list_models env fs probe cache = (Ret ts, c1)" and "t \<in> set ts"
  shows "made_from fs t"
proof -
  from assms(1) obtain items us where "py_iter (dict_get (models_yml fs) ''models'' (JList [])) = Ret items"
    "targets_of env fs probe 0 items cache = (Ret us, c1)" "ts = sort_key tg_priority us"
    by (auto simp: list_models_def split: res.splits prod.splits)
  with targets_of_made [of env fs probe 0 items cache us c1 t] assms(2) show ?thesis
    unfolding made_from_def by (metis set_sort)
qed

lemma prefer_device_set: "set (prefer_device p cs) = set cs"
  by (auto simp: prefer_device_def split: option.splits)

lemma add_unseen_sound:
  assumes "distinct (map target_key ordered)"
  shows "distinct (map target_key (add_unseen ordered cs)) \<and> set ordered \<subseteq> set (add_unseen ordered cs) \<and>
    set (add_unseen ordered cs) \<subseteq> set ordered \<union> set cs \<and>
    target_key ` set (add_unseen ordered cs) = target_key ` (set ordered \<union> set cs)"
  using assms
proof (induction ordered cs rule: add_unseen.induct)
  case (2 ordered c cs)
  show ?case
  proof (cases "target_key c \<in> set (map target_key ordered)")
    case True
    with 2(1) [OF True 2(3)] show ?thesis by auto
  next
    case False
    with 2(3) have "distinct (map target_key (ordered @ [c]))" by simp
    from 2(2) [OF False this] False show ?thesis by auto
  qed
qed simp

definition route_candidate :: "registry_files \<Rightarrow> string list \<Rightarrow> registry_target \<Rightarrow> bool" where
  "route_candidate fs roles t \<longleftrightarrow> made_from fs t \<and> (\<exists>role \<in> set roles. role \<in> set (tg_roles t))"

lemma collect_roles_sound:
  assumes "collect_roles env fs roles p ordered cache = (Ret ts, c1)" and "distinct (map target_key ordered)"
    and "\<forall>t \<in> set ordered. route_candidate fs all t" and "set roles \<subseteq> set all"
  shows "distinct (map target_key ts) \<and> (\<forall>t \<in> set ts. route_candidate fs all t)"
  using assms
proof (induction env fs roles p ordered cache arbitrary: ts c1 rule: collect_roles.induct)
  case (2 env fs role roles preferred ordered cache)
  from "2.prems"(1) obtain cs c2 where cs: "select_for_role env fs role preferred cache = (Ret cs, c2)"
    and rest: "collect_roles env fs roles preferred (add_unseen ordered cs) c2 = (Ret ts, c1)"
    by (auto split: prod.splits res.splits)
  have "route_candidate fs all t" if "t \<in> set cs" for t
  proof -
    from cs obtain us where us: "list_models env fs True cache = (Ret us, c2)"
      "cs = prefer_device preferred (filter (\<lambda>m. role \<in> set (tg_roles m)) us)"
      by (auto simp: select_for_role_def split: prod.splits res.splits)
    with that have "t \<in> set us" "role \<in> set (tg_roles t)" by (auto simp: prefer_device_set)
    with list_models_made [OF us(1)] "2.prems"(4) show ?thesis by (auto simp: route_candidate_def)
  qed
  with "2.prems"(3) add_unseen_sound [OF "2.prems"(2), of cs]
  have "\<forall>t \<in> set (add_unseen ordered cs). route_candidate fs all t" by blast
  with "2.IH" [OF cs [symmetric] refl rest] add_unseen_sound [OF "2.prems"(2), of cs] "2.prems"(4)
  show ?case by simp
qed simp

lemma gated_eq:
  "gated policy task privacy oc oreason ts =
     Ret (filter (\<lambda>t. case tg_frugality_tier t of None \<Rightarrow> True | Some n \<Rightarrow>
       n \<le> (if offline policy then 2 else if privacy \<and> \<not> (oc \<and> reasoned oreason) then 3 else 6)) ts)"
  by (simp add: gated_def filter_chain_spec filter_map o_def)


section \<open>Endpoints on the discovered host\<close>

text \<open>An address rebuilt from discovery output has the scheme \<open>http\<close> or \<open>https\<close>, a host without
  credentials and exactly the port asked for.\<close>

theorem rebuilt_url_form:
  assumes "build_transport_url n v6 source port scheme = Some u"
  shows "\<exists>t. parse_transport_identity n v6 source scheme = Some t \<and> ti_scheme t \<in> {''http'', ''https''} \<and>
    ti_hostname t \<noteq> [] \<and> (\<exists>pre. u = ti_scheme t @ ''://'' @ pre @ '':'' @ show_int port)"
proof -
  from assms obtain t where t: "parse_transport_identity n v6 source scheme = Some t" "u = with_port t port"
    by (auto simp: build_transport_url_def)
  from t(1) have "ti_scheme t \<in> {''http'', ''https''}" "ti_hostname t \<noteq> []"
    by (auto simp: parse_transport_identity_def Let_def split: if_splits option.splits)
  with t show ?thesis by (auto simp: with_port_def Let_def)
qed

section \<open>A small registry\<close>

definition demo_item :: "string \<Rightarrow> string \<Rightarrow> int \<Rightarrow> json \<Rightarrow> json" where
  "demo_item name device prio ft = JObj [(''name'', JStr name), (''backend'', JStr ''ollama''), (''device'', JStr device),
     (''host'', JStr ''${OLLAMA:-http://10.0.0.2}''), (''port'', JInt 11434), (''roles'', jstrs [''coder'']),
     (''priority'', JInt prio), (''frugality_tier'', ft)]"

definition demo_registry_files :: registry_files where
  "demo_registry_files = \<lparr>devices_yml = [(''devices'', JList [JObj [(''id'', JStr ''mac'')]])],
     models_yml = [(''models'', JList [demo_item ''a'' ''mac'' 20 JNull, demo_item ''b'' ''win'' 10 (JInt 5)])],
     routing_yml = [(''routes'', JObj [(''default'', JObj [(''roles'', jstrs [''coder'', ''general''])])])]\<rparr>"

definition demo_registry_env :: registry_env where
  "demo_registry_env = \<lparr>re_net = demo_net_lib, re_is_ipv6 = (\<lambda>_. False),
     re_host = \<lparr>getenv = (\<lambda>k. if k = ''PT_DISABLE_LIVE_MODEL_PROBES'' then Some ''1'' else None), repr_of = (\<lambda>_. [])\<rparr>,
     re_tilted = [], re_probe = demo_probe, re_clock = of_nat\<rparr>"

lemma demo_targets:
  "is_Ret (fst (targets_of demo_registry_env demo_registry_files True 0
     [demo_item ''a'' ''mac'' 20 JNull, demo_item ''b'' ''win'' 10 (JInt 5)] []))"
  by code_simp

lemma selection_is_stable_sort_witness:
  "\<exists>ts c1. select_for_role demo_registry_env demo_registry_files ''coder'' (Some ''mac'') [] =
     (Ret (sort_key (\<lambda>t. (tg_device t \<noteq> ''mac'', tg_priority t)) (filter (\<lambda>t. ''coder'' \<in> set (tg_roles t)) ts)), c1)"
proof -
  let ?items = "[demo_item ''a'' ''mac'' 20 JNull, demo_item ''b'' ''win'' 10 (JInt 5)]"
  from demo_targets obtain ts c1 where "targets_of demo_registry_env demo_registry_files True 0 ?items [] = (Ret ts, c1)"
    by (cases "targets_of demo_registry_env demo_registry_files True 0 ?items []") (auto simp: is_Ret_iff)
  moreover have "py_iter (dict_get (models_yml demo_registry_files) ''models'' (JList [])) = Ret ?items"
    by (simp add: demo_registry_files_def dict_get_def)
  ultimately show ?thesis using selection_is_stable_sort [of demo_registry_files ?items] by blast
qed


lemma rebuilt_url_form_witness:
  "\<exists>t. parse_transport_identity demo_net_lib (\<lambda>_. False) ''localhost:1234'' ''http'' = Some t \<and>
     ti_scheme t \<in> {''http'', ''https''} \<and> ti_hostname t \<noteq> [] \<and>
     (\<exists>pre. ''http://localhost:80'' = ti_scheme t @ ''://'' @ pre @ '':'' @ show_int 80)"
proof -
  have "build_transport_url demo_net_lib (\<lambda>_. False) ''localhost:1234'' 80 ''http'' = Some ''http://localhost:80''"
    by code_simp
  then show ?thesis by (rule rebuilt_url_form)
qed

end
