(* ===== verification/CostGuard.thy ===== *)
theory CostGuard
  imports Prelude
begin

text \<open>
  \<open>orchestrator/cost_guard.py\<close>: the file-persisted daily budget with in-flight reservations.
  The clocks, the fresh id and the outcome of reading and writing the file are inputs; a failing
  write may leave the file as it was or truncated.  \<open>None\<close> as an amount is NaN or an infinity.  The
  asyncio lock makes each operation one step.
\<close>

section \<open>State\<close>

record budget =
  daily_budget :: rat
  daily_spend :: rat
  last_reset :: rat

datatype budget_file = NoFile | Malformed | Stored budget

record guard_env =
  wall_clock :: rat
  monotonic :: rat
  fresh_id :: string
  read_ok :: bool
  write_outcome :: write_outcome

record cost_guard =
  budget_file :: budget_file
  memory_state :: budget
  persist_enabled :: bool
  reserved :: "(string, rat \<times> rat) dict"

definition default_budget :: "rat \<Rightarrow> budget" where
  "default_budget now = \<lparr>daily_budget = 25, daily_spend = 0, last_reset = now\<rparr>"

definition new_guard :: "guard_env \<Rightarrow> budget_file \<Rightarrow> cost_guard" where
  "new_guard env f =
     \<lparr>budget_file = f, memory_state = default_budget (wall_clock env), persist_enabled = True, reserved = []\<rparr>"

definition ALERT_RATIO :: rat where "ALERT_RATIO = 4 / 5"
definition RESERVATION_TTL_SECONDS :: rat where "RESERVATION_TTL_SECONDS = 300"
definition TOKEN_CLIFF_WARN_TOKENS :: rat where "TOKEN_CLIFF_WARN_TOKENS = 180000"
definition TOKEN_CLIFF_HARD_TOKENS :: rat where "TOKEN_CLIFF_HARD_TOKENS = 199000"

section \<open>Persistence\<close>

definition save :: "guard_env \<Rightarrow> budget \<Rightarrow> cost_guard \<Rightarrow> cost_guard" where
  "save env p s =
     (let s1 = s\<lparr>memory_state := p\<rparr> in
      if \<not> persist_enabled s then s1
      else case write_outcome env of
             Written \<Rightarrow> s1\<lparr>budget_file := Stored p\<rparr>
           | NotWritten \<Rightarrow> s1\<lparr>persist_enabled := False\<rparr>
           | Truncated \<Rightarrow> s1\<lparr>persist_enabled := False, budget_file := Malformed\<rparr>)"

definition load :: "guard_env \<Rightarrow> cost_guard \<Rightarrow> budget res \<times> cost_guard" where
  "load env s =
     (if \<not> persist_enabled s then (Ret (memory_state s), s)
      else if \<not> read_ok env then (Ret (memory_state s), s\<lparr>persist_enabled := False\<rparr>)
      else case budget_file s of
             NoFile \<Rightarrow> (Ret (default_budget (wall_clock env)), save env (default_budget (wall_clock env)) s)
           | Malformed \<Rightarrow> (Raise ValueError, s)
           | Stored p \<Rightarrow> (Ret p, s\<lparr>memory_state := p\<rparr>))"

definition maybe_reset :: "guard_env \<Rightarrow> budget \<Rightarrow> cost_guard \<Rightarrow> budget \<times> cost_guard" where
  "maybe_reset env p s =
     (if wall_clock env - last_reset p \<ge> 86400
      then (let p' = p\<lparr>daily_spend := 0, last_reset := wall_clock env\<rparr> in (p', save env p' s))
      else (p, s))"

text \<open>\<open>self._maybe_reset(self._load())\<close>, which every operation starts with.\<close>

definition current :: "guard_env \<Rightarrow> cost_guard \<Rightarrow> budget res \<times> cost_guard" where
  "current env s =
     (case load env s of
        (Raise e, s1) \<Rightarrow> (Raise e, s1)
      | (Ret p, s1) \<Rightarrow> (case maybe_reset env p s1 of (p', s2) \<Rightarrow> (Ret p', s2)))"

section \<open>Operations\<close>

definition can_spend :: "guard_env \<Rightarrow> rat \<Rightarrow> cost_guard \<Rightarrow> bool res \<times> cost_guard" where
  "can_spend env cost s =
     (case current env s of
        (Raise e, s1) \<Rightarrow> (Raise e, s1)
      | (Ret p, s1) \<Rightarrow> (Ret (daily_spend p + cost \<le> daily_budget p), s1))"

definition alert_approaching :: "guard_env \<Rightarrow> cost_guard \<Rightarrow> bool res \<times> cost_guard" where
  "alert_approaching env s =
     (case current env s of
        (Raise e, s1) \<Rightarrow> (Raise e, s1)
      | (Ret p, s1) \<Rightarrow> (Ret (daily_spend p \<ge> daily_budget p * ALERT_RATIO), s1))"

definition charge_spend :: "guard_env \<Rightarrow> rat \<Rightarrow> cost_guard \<Rightarrow> budget res \<times> cost_guard" where
  "charge_spend env amount s =
     (case current env s of
        (Raise e, s1) \<Rightarrow> (Raise e, s1)
      | (Ret p, s1) \<Rightarrow>
          (let p' = p\<lparr>daily_spend := py_round 6 (daily_spend p + amount)\<rparr> in (Ret p', save env p' s1)))"

definition record_spend :: "guard_env \<Rightarrow> rat \<Rightarrow> cost_guard \<Rightarrow> budget res \<times> cost_guard" where
  "record_spend env amount s = charge_spend env amount s"

record snapshot_view =
  snap_budget :: budget
  snap_alert :: bool
  snap_remaining :: rat

definition guard_snapshot :: "guard_env \<Rightarrow> cost_guard \<Rightarrow> snapshot_view res \<times> cost_guard" where
  "guard_snapshot env s =
     (case current env s of
        (Raise e, s1) \<Rightarrow> (Raise e, s1)
      | (Ret p, s1) \<Rightarrow>
          (case alert_approaching env s1 of
             (Raise e, s2) \<Rightarrow> (Raise e, s2)
           | (Ret a, s2) \<Rightarrow>
               (Ret \<lparr>snap_budget = p, snap_alert = a, snap_remaining = py_round 6 (daily_budget p - daily_spend p)\<rparr>, s2)))"

definition set_budget :: "guard_env \<Rightarrow> rat \<Rightarrow> cost_guard \<Rightarrow> unit res \<times> cost_guard" where
  "set_budget env b s =
     (case load env s of
        (Raise e, s1) \<Rightarrow> (Raise e, s1)
      | (Ret p, s1) \<Rightarrow> (Ret (), save env (p\<lparr>daily_budget := b\<rparr>) s1))"

datatype cliff = Below | Approaching

definition check_token_cliff :: "rat option \<Rightarrow> cliff res" where
  "check_token_cliff tokens =
     (case tokens of
        None \<Rightarrow> Raise ValueError
      | Some n \<Rightarrow>
          if n < 0 then Raise ValueError
          else if n \<ge> TOKEN_CLIFF_HARD_TOKENS then Raise TokenCliffExceededError
          else if n \<ge> TOKEN_CLIFF_WARN_TOKENS then Ret Approaching else Ret Below)"

definition expired :: "rat \<Rightarrow> rat \<times> rat \<Rightarrow> bool" where
  "expired now r = (now - snd r > RESERVATION_TTL_SECONDS)"

definition sweep_expired :: "guard_env \<Rightarrow> cost_guard \<Rightarrow> cost_guard" where
  "sweep_expired env s = s\<lparr>reserved := filter (\<lambda>kv. \<not> expired (monotonic env) (snd kv)) (reserved s)\<rparr>"

definition in_flight :: "cost_guard \<Rightarrow> rat" where
  "in_flight s = sum_list (map (\<lambda>kv. fst (snd kv)) (reserved s))"

definition hold :: "guard_env \<Rightarrow> rat option \<Rightarrow> cost_guard \<Rightarrow> string res \<times> cost_guard" where
  "hold env estimated s =
     (case estimated of
        None \<Rightarrow> (Raise ValueError, s)
      | Some cost \<Rightarrow>
          if cost < 0 then (Raise ValueError, s)
          else
            (case current env (sweep_expired env s) of
               (Raise e, s1) \<Rightarrow> (Raise e, s1)
             | (Ret p, s1) \<Rightarrow>
                 if daily_spend p + in_flight s1 + cost > daily_budget p then (Raise BudgetExceededError, s1)
                 else (Ret (fresh_id env),
                       s1\<lparr>reserved := AList.update (fresh_id env) (cost, monotonic env) (reserved s1)\<rparr>)))"

definition commit_hold :: "guard_env \<Rightarrow> string \<Rightarrow> rat option option \<Rightarrow> cost_guard \<Rightarrow> budget res \<times> cost_guard" where
  "commit_hold env rid actual s =
     (case map_of (reserved s) rid of
        None \<Rightarrow> (Raise UnknownReservationError, s)
      | Some (estimated, _) \<Rightarrow>
          (case (case actual of None \<Rightarrow> Some estimated | Some a \<Rightarrow> a) of
             None \<Rightarrow> (Raise ValueError, s)
           | Some amount \<Rightarrow>
               if amount < 0 then (Raise ValueError, s)
               else charge_spend env amount (s\<lparr>reserved := AList.delete rid (reserved s)\<rparr>)))"

definition rollback :: "string \<Rightarrow> cost_guard \<Rightarrow> unit res \<times> cost_guard" where
  "rollback rid s =
     (if map_of (reserved s) rid = None then (Raise UnknownReservationError, s)
      else (Ret (), s\<lparr>reserved := AList.delete rid (reserved s)\<rparr>))"

section \<open>Invariant\<close>

definition micro :: "rat \<Rightarrow> bool" where
  "micro q \<longleftrightarrow> (\<exists>i :: int. q = of_int i / 10 ^ 6)"

definition guard_ok :: "cost_guard \<Rightarrow> bool" where
  "guard_ok s \<longleftrightarrow>
     (persist_enabled s \<longrightarrow> budget_file s = Stored (memory_state s)) \<and> 0 \<le> daily_spend (memory_state s) \<and>
     micro (daily_spend (memory_state s)) \<and> (\<forall>kv \<in> set (reserved s). 0 \<le> fst (snd kv) \<and> micro (fst (snd kv))) \<and>
     daily_spend (memory_state s) + in_flight s \<le> daily_budget (memory_state s)"

text \<open>Any sequence of the reserving operations, with any file errors; amounts are whole micro-dollars
  and a commit charges at most what was reserved.\<close>

inductive guard_run :: "cost_guard \<Rightarrow> cost_guard \<Rightarrow> bool" for s0 :: cost_guard where
  start: "guard_run s0 s0"
| holds: "guard_run s0 s \<Longrightarrow> (case cost of None \<Rightarrow> True | Some c \<Rightarrow> micro c) \<Longrightarrow> guard_run s0 (snd (hold env cost s))"
| commits: "guard_run s0 s \<Longrightarrow>
    (\<forall>e t a. map_of (reserved s) rid = Some (e, t) \<longrightarrow> actual = Some (Some a) \<longrightarrow> micro a \<and> a \<le> e) \<Longrightarrow>
    guard_run s0 (snd (commit_hold env rid actual s))"
| rollbacks: "guard_run s0 s \<Longrightarrow> guard_run s0 (snd (rollback rid s))"
| checks: "guard_run s0 s \<Longrightarrow> guard_run s0 (snd (can_spend env c s))"
| snapshots: "guard_run s0 s \<Longrightarrow> guard_run s0 (snd (guard_snapshot env s))"

lemma micro_round: "micro q \<Longrightarrow> py_round 6 q = q"
  unfolding micro_def py_round_def by auto

lemma micro_add: "micro p \<Longrightarrow> micro q \<Longrightarrow> micro (p + q)"
  unfolding micro_def by (metis add_divide_distrib of_int_add)

lemma micro_0 [simp]: "micro 0"
  unfolding micro_def by (intro exI [of _ 0]) simp

lemma save_ok:
  assumes "guard_ok s" and "0 \<le> daily_spend p" and "micro (daily_spend p)" and "daily_spend p + in_flight s \<le> daily_budget p"
  shows "guard_ok (save env p s) \<and> memory_state (save env p s) = p \<and> reserved (save env p s) = reserved s"
  using assms by (cases "write_outcome env") (auto simp: save_def guard_ok_def in_flight_def Let_def)

lemma guard_okD:
  assumes "guard_ok s"
  shows "0 \<le> in_flight s" "0 \<le> daily_spend (memory_state s)" "micro (daily_spend (memory_state s))"
    "daily_spend (memory_state s) + in_flight s \<le> daily_budget (memory_state s)"
  using assms by (auto simp: guard_ok_def in_flight_def intro!: sum_list_nonneg)

lemma current_ok:
  assumes "guard_ok s"
  obtains p s' where "current env s = (Ret p, s')" and "guard_ok s'" and "memory_state s' = p" and "reserved s' = reserved s"
    and "daily_budget p = daily_budget (memory_state s)" and "daily_spend p \<le> daily_spend (memory_state s)"
proof -
  obtain s1 where l: "load env s = (Ret (memory_state s), s1)" "guard_ok s1" "memory_state s1 = memory_state s"
    "reserved s1 = reserved s"
  proof (cases "persist_enabled s \<and> \<not> read_ok env")
    case True
    then show thesis
      using assms by (intro that [of "s\<lparr>persist_enabled := False\<rparr>"]) (simp_all add: load_def guard_ok_def in_flight_def)
  next
    case False
    then show thesis using assms by (intro that [of s]) (auto simp: load_def guard_ok_def)
  qed
  show thesis
  proof (cases "wall_clock env - last_reset (memory_state s) \<ge> 86400")
    case True
    let ?p = "memory_state s\<lparr>daily_spend := 0, last_reset := wall_clock env\<rparr>"
    have "daily_spend ?p + in_flight s1 \<le> daily_budget ?p"
      using guard_okD(2,4) [OF l(2)] l(3) by simp
    from save_ok [OF l(2) _ _ this, of env] l True show thesis
      by (intro that [of ?p "save env ?p s1"]) (use guard_okD(2) [OF assms] in \<open>simp_all add: current_def maybe_reset_def Let_def\<close>)
  next
    case False
    with l show thesis by (intro that [of "memory_state s" s1]) (simp_all add: current_def maybe_reset_def)
  qed
qed

lemma fewer_holds_ok:
  assumes "guard_ok s" and "set r \<subseteq> set (reserved s)" and "sum_list (map (\<lambda>kv. fst (snd kv)) r) \<le> in_flight s"
  shows "guard_ok (s\<lparr>reserved := r\<rparr>)"
  using assms by (auto simp: guard_ok_def in_flight_def)

lemma sum_filter_le:
  fixes f :: "'a \<Rightarrow> rat"
  assumes "\<forall>x \<in> set xs. 0 \<le> f x"
  shows "sum_list (map f (filter P xs)) \<le> sum_list (map f xs)"
  using assms by (induction xs) (auto simp: add_increasing)

lemma filter_holds_ok: "guard_ok s \<Longrightarrow> guard_ok (s\<lparr>reserved := filter P (reserved s)\<rparr>)"
  by (rule fewer_holds_ok) (auto simp: in_flight_def guard_ok_def intro!: sum_filter_le)

lemma delete_holds_ok:
  assumes "guard_ok s" and "map_of (reserved s) rid = Some (e, t)"
  shows "guard_ok (s\<lparr>reserved := AList.delete rid (reserved s)\<rparr>)" "in_flight (s\<lparr>reserved := AList.delete rid (reserved s)\<rparr>) + e \<le> in_flight s"
    "0 \<le> e" "micro e"
proof -
  have nonneg: "\<forall>kv \<in> set (reserved s). 0 \<le> fst (snd kv) \<and> micro (fst (snd kv))" using assms(1) by (simp add: guard_ok_def)
  with map_of_SomeD [OF assms(2)] show "0 \<le> e" "micro e" by auto
  show "guard_ok (s\<lparr>reserved := AList.delete rid (reserved s)\<rparr>)"
    unfolding AList.delete_eq by (rule filter_holds_ok [OF assms(1)])
  have "sum_list (map (\<lambda>kv. fst (snd kv)) (AList.delete rid xs)) + e \<le> sum_list (map (\<lambda>kv. fst (snd kv)) xs)"
    if "map_of xs rid = Some (e, t)" "\<forall>kv \<in> set xs. 0 \<le> fst (snd kv)" for xs :: "(string \<times> rat \<times> rat) list"
    using that
  proof (induction xs)
    case (Cons kv xs)
    show ?case
    proof (cases "fst kv = rid")
      case True
      with Cons.prems sum_filter_le [of xs "\<lambda>kv. fst (snd kv)"] show ?thesis by (cases kv) (simp add: AList.delete_eq)
    next
      case False
      with Cons show ?thesis by (cases kv) (simp add: AList.delete_eq)
    qed
  qed simp
  with assms(2) nonneg show "in_flight (s\<lparr>reserved := AList.delete rid (reserved s)\<rparr>) + e \<le> in_flight s"
    by (simp add: in_flight_def)
qed

lemma update_holds_ok:
  assumes "guard_ok s" and "0 \<le> x" and "micro x" and "daily_spend (memory_state s) + in_flight s + x \<le> daily_budget (memory_state s)"
  shows "guard_ok (s\<lparr>reserved := AList.update k (x, t) (reserved s)\<rparr>)"
proof -
  have "sum_list (map (\<lambda>kv. fst (snd kv)) (AList.update k (x, t) xs)) \<le> sum_list (map (\<lambda>kv. fst (snd kv)) xs) + x \<and>
      (\<forall>kv \<in> set (AList.update k (x, t) xs). 0 \<le> fst (snd kv) \<and> micro (fst (snd kv)))"
    if "\<forall>kv \<in> set xs. 0 \<le> fst (snd kv) \<and> micro (fst (snd kv))" for xs :: "(string \<times> rat \<times> rat) list"
    using that by (induction xs) (use assms(2,3) in auto)
  from this [of "reserved s"] assms(1,4) show ?thesis by (auto simp: guard_ok_def in_flight_def)
qed

lemma charge_spend_ok:
  assumes "guard_ok s" and "0 \<le> amount" and "micro amount"
    and "daily_spend (memory_state s) + amount + in_flight s \<le> daily_budget (memory_state s)"
  shows "guard_ok (snd (charge_spend env amount s))"
proof -
  obtain p s' where c: "current env s = (Ret p, s')" "guard_ok s'" "memory_state s' = p" "reserved s' = reserved s"
    "daily_budget p = daily_budget (memory_state s)" "daily_spend p \<le> daily_spend (memory_state s)"
    by (rule current_ok [OF assms(1)])
  have m: "micro (daily_spend p + amount)" using micro_add [OF guard_okD(3) [OF c(2)] assms(3)] c(3) by simp
  let ?p = "p\<lparr>daily_spend := daily_spend p + amount\<rparr>"
  have "guard_ok (save env ?p s')"
    using save_ok [OF c(2), of ?p env] guard_okD(2) [OF c(2)] m assms(2,4) c by (simp add: in_flight_def)
  with c(1) micro_round [OF m] show ?thesis by (simp add: charge_spend_def Let_def)
qed

lemma guard_run_ok: "guard_run s0 s \<Longrightarrow> guard_ok s0 \<Longrightarrow> guard_ok s"
proof (induction rule: guard_run.induct)
  case (holds s cost env)
  have swept: "guard_ok (sweep_expired env s)" using filter_holds_ok [OF holds.IH [OF holds.prems]] by (simp add: sweep_expired_def)
  obtain p s' where c: "current env (sweep_expired env s) = (Ret p, s')" "guard_ok s'" "memory_state s' = p"
    by (rule current_ok [OF swept])
  show ?case
  proof (cases cost)
    case (Some x)
    have "guard_ok (s'\<lparr>reserved := AList.update k (x, t) (reserved s')\<rparr>)"
      if "0 \<le> x" "daily_spend p + in_flight s' + x \<le> daily_budget p" for k t
      using update_holds_ok [OF c(2) that(1)] that(2) c(3) holds.hyps(2) Some by simp
    with c Some swept holds show ?thesis by (auto simp: hold_def)
  qed (use holds in \<open>simp add: hold_def\<close>)
next
  case (commits s rid actual env)
  note ok = commits.IH [OF commits.prems]
  show ?case
  proof (cases "map_of (reserved s) rid")
    case (Some et)
    obtain e t where et: "et = (e, t)" by (cases et)
    note d = delete_holds_ok [OF ok Some [unfolded et]]
    let ?s = "s\<lparr>reserved := AList.delete rid (reserved s)\<rparr>"
    have "guard_ok (snd (charge_spend env a ?s))" if "0 \<le> a" "micro a" "a \<le> e" for a
      using guard_okD(4) [OF ok] d(2) that by (intro charge_spend_ok [OF d(1)]) simp_all
    with commits.hyps(2) Some et ok d(3,4) show ?thesis
      by (auto simp: commit_hold_def split: option.splits)
  qed (use ok in \<open>simp add: commit_hold_def\<close>)
next
  case (rollbacks s rid)
  then show ?case by (auto simp: rollback_def dest: delete_holds_ok(1))
next
  case (checks s env c)
  from current_ok [OF checks.IH [OF checks.prems]] obtain p s' where "current env s = (Ret p, s')" "guard_ok s'" by metis
  then show ?case by (simp add: can_spend_def)
next
  case (snapshots s env)
  from current_ok [OF snapshots.IH [OF snapshots.prems]] obtain p s1 where c: "current env s = (Ret p, s1)" "guard_ok s1" by metis
  from current_ok [OF c(2)] obtain p2 s2 where "current env s1 = (Ret p2, s2)" "guard_ok s2" by metis
  with c show ?case by (simp add: guard_snapshot_def alert_approaching_def)
qed simp

section \<open>Properties\<close>

definition demo_guard_env :: guard_env where
  "demo_guard_env = \<lparr>wall_clock = 100, monotonic = 1000, fresh_id = ''h1'', read_ok = True, write_outcome = Written\<rparr>"

definition demo_budget :: budget where
  "demo_budget = \<lparr>daily_budget = 25, daily_spend = 20, last_reset = 0\<rparr>"

definition demo_guard :: cost_guard where
  "demo_guard = \<lparr>budget_file = Stored demo_budget, memory_state = demo_budget, persist_enabled = True, reserved = []\<rparr>"

lemma demo_guard_ok: "guard_ok demo_guard"
  by (auto simp: guard_ok_def demo_guard_def demo_budget_def in_flight_def micro_def intro!: exI [of _ 20000000])



text \<open>A reservation and its commit or rollback: what a commit charges is added to the settled
  spending of the day and its hold is gone, a rollback only drops the hold, and the id cannot be
  used again.\<close>

theorem commit_settles_once:
  assumes "guard_ok s" and "map_of (reserved s) rid = Some (e, t)" and "wall_clock env - last_reset (memory_state s) < 86400"
    and "write_outcome env = Written" and "read_ok env"
    and "amount = (case actual of None \<Rightarrow> e | Some a \<Rightarrow> a)" and "0 \<le> amount" and "micro amount"
    and "commit_hold env rid (map_option Some actual) s = (x, s')"
  shows "\<exists>p. x = Ret p \<and> daily_spend p = daily_spend (memory_state s) + amount \<and> memory_state s' = p \<and>
    map_of (reserved s') rid = None \<and>
    commit_hold env' rid actual' s' = (Raise UnknownReservationError, s') \<and> rollback rid s' = (Raise UnknownReservationError, s') \<and>
    memory_state (snd (rollback rid s)) = memory_state s"
proof -
  let ?s = "s\<lparr>reserved := AList.delete rid (reserved s)\<rparr>"
  let ?p = "(memory_state s)\<lparr>daily_spend := daily_spend (memory_state s) + amount\<rparr>"
  note d = delete_holds_ok [OF assms(1,2)]
  have m: "py_round 6 (daily_spend (memory_state s) + amount) = daily_spend (memory_state s) + amount"
    by (rule micro_round [OF micro_add [OF guard_okD(3) [OF assms(1)] assms(8)]])
  have l: "load env ?s = (Ret (memory_state s), ?s)"
    using assms(1,5) by (auto simp: load_def guard_ok_def)
  have "\<not> wall_clock env - last_reset (memory_state s) \<ge> 86400" using assms(3) by simp
  with l have c: "current env ?s = (Ret (memory_state s), ?s)" by (simp add: current_def maybe_reset_def)
  have val: "(case map_option Some actual of None \<Rightarrow> Some e | Some a \<Rightarrow> a) = Some amount"
    using assms(6) by (cases actual) simp_all
  have "commit_hold env rid (map_option Some actual) s = charge_spend env amount ?s"
    using assms(2,7) val by (simp add: commit_hold_def)
  with c m have com: "commit_hold env rid (map_option Some actual) s = (Ret ?p, save env ?p ?s)"
    by (simp add: charge_spend_def Let_def)
  with assms(4,9) have s': "x = Ret ?p" "memory_state s' = ?p" "reserved s' = AList.delete rid (reserved s)"
    by (auto simp: save_def Let_def split: if_splits)
  then have gone: "map_of (reserved s') rid = None" by (simp add: map_of_delete)
  with s'(1,2) show ?thesis by (simp add: commit_hold_def rollback_def assms(2))
qed

theorem commit_settles_once_witness:
  "\<exists>p s'. commit_hold demo_guard_env ''h1'' (Some (Some 2)) (snd (hold demo_guard_env (Some 3) demo_guard)) = (Ret p, s') \<and>
     daily_spend p = 22 \<and> rollback ''h1'' s' = (Raise UnknownReservationError, s')"
proof -
  let ?s = "snd (hold demo_guard_env (Some 3) demo_guard)"
  have m: "micro 3" "micro 2" unfolding micro_def by (rule exI [of _ 3000000], simp) (rule exI [of _ 2000000], simp)
  then have "guard_run demo_guard ?s" by (intro guard_run.holds guard_run.start) simp
  from guard_run_ok [OF this demo_guard_ok] have ok: "guard_ok ?s" .
  have s: "map_of (reserved ?s) ''h1'' = Some (3, 1000)" "memory_state ?s = demo_budget" by code_simp+
  obtain x s' where c: "commit_hold demo_guard_env ''h1'' (map_option Some (Some 2)) ?s = (x, s')" by fastforce
  from commit_settles_once [OF ok s(1) _ _ _ refl _ _ c] s(2) m(2) c show ?thesis
    by (auto simp: demo_guard_env_def demo_budget_def)
qed

text \<open>An unreadable budget file opens the guard: a fresh process that cannot read the file works
  on the defaults, so that spending recorded in the file, even beyond the budget, blocks nothing.\<close>

theorem unreadable_file_forgets_spending:
  assumes "s = new_guard env0 (Stored b)" and "\<not> read_ok env" and "0 \<le> c" and "c \<le> 25"
    and "wall_clock env = wall_clock env0"
  shows "fst (can_spend env c s) = Ret True \<and> fst (hold env (Some c) s) = Ret (fresh_id env)"
  using assms
  by (simp add: can_spend_def hold_def current_def load_def maybe_reset_def new_guard_def default_budget_def
      sweep_expired_def in_flight_def)

theorem unreadable_file_forgets_spending_witness:
  "fst (can_spend (demo_guard_env\<lparr>read_ok := False\<rparr>) 20 (new_guard demo_guard_env (Stored demo_budget))) = Ret True \<and>
   fst (can_spend demo_guard_env 20 (new_guard demo_guard_env (Stored demo_budget))) = Ret False"
proof -
  have "fst (can_spend demo_guard_env 20 (new_guard demo_guard_env (Stored demo_budget))) = Ret False" by code_simp
  moreover have "\<not> read_ok (demo_guard_env\<lparr>read_ok := False\<rparr>)"
    "wall_clock (demo_guard_env\<lparr>read_ok := False\<rparr>) = wall_clock demo_guard_env" by simp_all
  ultimately show ?thesis
    using unreadable_file_forgets_spending [OF refl, of "demo_guard_env\<lparr>read_ok := False\<rparr>" 20 demo_guard_env demo_budget] by simp
qed

end
