(* ===== verification/Orchestrate.thy ===== *)
theory Orchestrate
  imports AgentTracker ModelRegistry CostGuard
begin

text \<open>
  The \<open>/orchestrate\<close> endpoint of \<open>fastapi_app.py\<close> over the agent tracker, the cost guard and the model
  registry: a request checks for a running agent, holds its cost, probes the candidates of its route,
  registers an agent and settles the hold, which is rolled back on every other way out.  The handler
  suspends while it probes, in the shielded rollback and in the bridge call; other requests run there.
\<close>

section \<open>Candidates and their probes\<close>

definition GLM_ORCHESTRATOR_MODEL :: string where "GLM_ORCHESTRATOR_MODEL = ''glm-5.3-flash:cloud''"

definition AUTORESEARCH_TASK_TYPES :: "string list" where
  "AUTORESEARCH_TASK_TYPES = [''autoresearch'', ''autoresearch-coder'', ''ml-experiment'']"

definition LOCAL_RUNTIME_BACKENDS :: "string list" where
  "LOCAL_RUNTIME_BACKENDS = [''ollama'', ''lm-studio'', ''mlx'']"

definition ORAMASYS_TASK_TYPES :: "string list" where
  "ORAMASYS_TASK_TYPES = [''deep_reasoning'', ''code_analysis'']"

definition candidate_base_url :: "net_lib \<Rightarrow> (string \<Rightarrow> bool) \<Rightarrow> string \<Rightarrow> int \<Rightarrow> string" where
  "candidate_base_url n is_ipv6 host port =
     (case build_transport_url n is_ipv6 host port ''http'' of
        Some built \<Rightarrow> built
      | None \<Rightarrow> rstrip_slash host @ '':'' @ show_int port)"

definition normalize_model_name :: "string \<Rightarrow> string" where
  "normalize_model_name v = map (\<lambda>c. if c = CHR ''_'' then CHR ''-'' else c) (lower (py_strip v))"

definition model_matches :: "string \<Rightarrow> string \<Rightarrow> bool" where
  "model_matches available expected =
     (let lhs = normalize_model_name available; rhs = normalize_model_name expected in
      lhs = rhs \<or> take (length rhs) lhs = rhs \<or> take (length lhs) rhs = lhs \<or> has_sub rhs lhs \<or> has_sub lhs rhs)"

definition is_local_candidate :: "registry_target \<Rightarrow> bool" where
  "is_local_candidate t = (tg_backend t \<in> set LOCAL_RUNTIME_BACKENDS \<and> tg_device t \<noteq> ''cloud'')"

text \<open>\<open>item.get(k1) or item.get(k2) or ""\<close> for the objects of a list.\<close>

fun listed_names :: "string \<Rightarrow> string \<Rightarrow> json list \<Rightarrow> json list" where
  "listed_names k1 k2 [] = []"
| "listed_names k1 k2 (JObj d # ms) =
     (if truthy (jget d k1) then jget d k1 else if truthy (jget d k2) then jget d k2 else JStr []) # listed_names k1 k2 ms"
| "listed_names k1 k2 (m # ms) = listed_names k1 k2 ms"

text \<open>\<open>any(_model_matches(id, expected) for id in ids)\<close>: an id before the first match that is no
  string raises.\<close>

fun any_matches :: "string \<Rightarrow> json list \<Rightarrow> bool res" where
  "any_matches expected [] = Ret False"
| "any_matches expected (JStr s # ids) = (if model_matches s expected then Ret True else any_matches expected ids)"
| "any_matches expected (i # ids) = Raise TypeError"

text \<open>The common part of \<open>_probe_openai_compatible\<close> and \<open>_probe_ollama_model\<close>.\<close>

definition probe_listing :: "string \<Rightarrow> string \<Rightarrow> string \<Rightarrow> string \<Rightarrow> reply \<Rightarrow> (bool \<times> string) res" where
  "probe_listing key k1 k2 expected r =
     (if 400 \<le> rp_status r then Ret (False, ''HTTP '' @ show_nat (rp_status r))
      else case rp_body r of
             None \<Rightarrow> Raise ValueError
           | Some body \<Rightarrow>
               res_bind (py_iter (case body of JObj d \<Rightarrow> dict_get d key (JList []) | _ \<Rightarrow> JList [])) (\<lambda>models.
                 (let ids = listed_names k1 k2 models in
                  if ids = [] then Ret (True, ''reachable'')
                  else res_bind (any_matches expected ids) (\<lambda>found.
                    Ret (if found then (True, ''model-available'') else (False, ''model-not-loaded:'' @ expected))))))"

definition probe_openai_compatible :: "string \<Rightarrow> reply \<Rightarrow> (bool \<times> string) res" where
  "probe_openai_compatible expected r = probe_listing ''data'' ''id'' ''name'' expected r"

definition probe_ollama_model :: "string \<Rightarrow> reply \<Rightarrow> (bool \<times> string) res" where
  "probe_ollama_model expected r = probe_listing ''models'' ''name'' ''model'' expected r"

definition probe_glm_cloud_candidate :: "(json \<Rightarrow> string) \<Rightarrow> reply \<Rightarrow> (bool \<times> string) res" where
  "probe_glm_cloud_candidate repr r =
     (if rp_status r = 429 then Ret (False, ''rate-limited'')
      else if 400 \<le> rp_status r then Ret (False, ''HTTP '' @ show_nat (rp_status r))
      else case rp_body r of
             None \<Rightarrow> Raise ValueError
           | Some (JObj d) \<Rightarrow>
               if truthy (jget d ''error'') then Ret (False, json_text repr (jget d ''error''))
               else if jget d ''response'' \<noteq> JNull \<or> jget d ''done'' \<noteq> JNull then Ret (True, ''glm-ready'')
               else Ret (False, ''empty-response'')
           | Some _ \<Rightarrow> Ret (False, ''empty-response''))"

text \<open>The exchanges a request makes while it probes: \<open>ex_get\<close> and \<open>ex_generate\<close> answer a URL for the
  candidate at a position, and \<open>ex_text\<close> is the text of an exception.\<close>

record exchange =
  ex_net :: net_lib
  ex_is_ipv6 :: "string \<Rightarrow> bool"
  ex_host :: host_env
  ex_get :: "nat \<Rightarrow> string \<Rightarrow> http_get"
  ex_generate :: "nat \<Rightarrow> string \<Rightarrow> string \<Rightarrow> http_get"
  ex_text :: "exn \<Rightarrow> string"

definition timeout_ok :: "host_env \<Rightarrow> string \<Rightarrow> string \<Rightarrow> bool" where
  "timeout_ok h k dflt = is_Ret (py_float (JStr (env_or h k dflt)))"

definition judged :: "exchange \<Rightarrow> (reply \<Rightarrow> (bool \<times> string) res) \<Rightarrow> http_get \<Rightarrow> bool \<times> string" where
  "judged ex f g =
     (case g of
        Failed msg \<Rightarrow> (False, msg)
      | Answered r \<Rightarrow> (case f r of Ret x \<Rightarrow> x | Raise e \<Rightarrow> (False, ex_text ex e)))"

definition candidate_availability :: "exchange \<Rightarrow> nat \<Rightarrow> registry_target \<Rightarrow> bool \<times> string" where
  "candidate_availability ex i t =
     (if tg_backend t \<notin> set LOCAL_RUNTIME_BACKENDS then (True, ''not-probed'')
      else (let base = candidate_base_url (ex_net ex) (ex_is_ipv6 ex) (tg_host t) (tg_port t) in
            if \<not> timeout_ok (ex_host ex) ''MODEL_PROBE_TIMEOUT'' ''3'' then (False, ex_text ex ValueError)
            else if tg_name t = GLM_ORCHESTRATOR_MODEL then
              (if \<not> timeout_ok (ex_host ex) ''GLM_PROBE_TIMEOUT'' ''8'' then (False, ex_text ex ValueError)
               else judged ex (probe_glm_cloud_candidate (repr_of (ex_host ex)))
                      (ex_generate ex i (base @ ''/api/generate'') (tg_name t)))
            else if tg_backend t = ''ollama'' then
              judged ex (probe_ollama_model (tg_name t)) (ex_get ex i (base @ ''/api/tags''))
            else judged ex (probe_openai_compatible (tg_name t)) (ex_get ex i (base @ ''/v1/models''))))"

definition availability_key :: "registry_target \<Rightarrow> string" where
  "availability_key t = tg_name t @ ''@'' @ tg_device t"

definition availability_entry :: "registry_target \<Rightarrow> bool \<times> string \<Rightarrow> json" where
  "availability_entry t a =
     JObj [(''ready'', JBool (fst a)), (''detail'', JStr (snd a)), (''backend'', JStr (tg_backend t)), (''device'', JStr (tg_device t))]"

fun probe_all :: "exchange \<Rightarrow> nat \<Rightarrow> registry_target list \<Rightarrow> payload \<Rightarrow> registry_target list \<times> payload" where
  "probe_all ex i [] avail = ([], avail)"
| "probe_all ex i (t # ts) avail =
     (let a = candidate_availability ex i t;
          rest = probe_all ex (Suc i) ts (AList.update (availability_key t) (availability_entry t a) avail)
      in ((if fst a then t # fst rest else fst rest), snd rest))"

definition resolve_candidates :: "exchange \<Rightarrow> registry_target list \<Rightarrow> string \<Rightarrow> registry_target list \<times> payload" where
  "resolve_candidates ex candidates kind =
     (case probe_all ex 0 candidates [] of
        (resolved, avail) \<Rightarrow>
          if kind \<in> set AUTORESEARCH_TASK_TYPES then (filter is_local_candidate resolved, avail)
          else (if resolved = [] then candidates else resolved, avail))"

section \<open>Requests and replies\<close>

record orch_request =
  or_task :: string
  or_type :: string
  or_device :: "string option"
  or_cost :: "rat option"
  or_parent :: "string option"
  or_force :: bool
  or_tokens :: "nat option"

datatype outcome = Answer payload | Error exn | Disconnected

text \<open>Where a request is: not started, probing with its hold and its warnings, in the rollback of its
  hold, in the bridge call, or answered.\<close>

datatype orch_pc =
    Arrived
  | Probing string "(rat \<times> rat) option" cliff "registry_target list"
  | Rolling string outcome
  | Bridging payload string
  | Replied outcome

record orch_config =
  oc_files :: registry_files
  oc_sha256 :: "string \<Rightarrow> string"

record desk =
  d_tracker :: tracker
  d_guard :: cost_guard
  d_cache :: endpoint_cache

record begin_env =
  be_find :: tracker_env
  be_reserve :: guard_env
  be_alert :: guard_env
  be_snapshot :: guard_env
  be_registry :: registry_env
  be_policy :: policy_env

definition task_hash_of :: "orch_config \<Rightarrow> orch_request \<Rightarrow> string" where
  "task_hash_of cfg rq = oc_sha256 cfg (or_type rq @ '':'' @ or_task rq)"

definition effective_input_tokens :: "orch_request \<Rightarrow> nat" where
  "effective_input_tokens rq =
     (let est = length (or_task rq) div 4 in
      case or_tokens rq of None \<Rightarrow> est | Some n \<Rightarrow> max n est)"

text \<open>\<open>math.isfinite\<close> raises on an integer that rounds beyond the largest float.\<close>

definition cliff_check :: "orch_request \<Rightarrow> cliff res" where
  "cliff_check rq =
     (let n = effective_input_tokens rq in
      if 2 ^ 1024 - 2 ^ 970 \<le> int n then Raise OtherError
      else (case check_token_cliff (Some (of_nat n)) of
              Raise e \<Rightarrow> Raise (if e = TokenCliffExceededError then HTTPException 413 else e)
            | Ret c \<Rightarrow> Ret c))"

definition conflict_reply :: "agent_record \<Rightarrow> payload" where
  "conflict_reply a =
     [(''status'', JStr ''conflict''),
      (''message'', JStr (''A running agent already exists for this role and task. '' @
         ''Pass force=true to override, or use the existing agent below.'')),
      (''existing_agent'', JObj (asdict a))]"

definition budget_warning_of :: "begin_env \<Rightarrow> cost_guard \<Rightarrow> (rat \<times> rat) option res \<times> cost_guard" where
  "budget_warning_of env g =
     (case alert_approaching (be_alert env) g of
        (Raise e, g1) \<Rightarrow> (Raise e, g1)
      | (Ret a, g1) \<Rightarrow>
          if \<not> a then (Ret None, g1)
          else (case guard_snapshot (be_snapshot env) g1 of
                  (Raise e, g2) \<Rightarrow> (Raise e, g2)
                | (Ret v, g2) \<Rightarrow> (Ret (Some (daily_spend (snap_budget v), daily_budget (snap_budget v))), g2)))"

text \<open>The handler up to its first suspension.\<close>

definition orch_route :: "orch_config \<Rightarrow> begin_env \<Rightarrow> orch_request \<Rightarrow> string \<Rightarrow> cliff \<Rightarrow> desk \<Rightarrow> orch_pc \<times> desk" where
  "orch_route cfg env rq rid c d =
     (case budget_warning_of env (d_guard d) of
        (Raise e, g1) \<Rightarrow> (Rolling rid (Error e), d\<lparr>d_guard := g1\<rparr>)
      | (Ret w, g1) \<Rightarrow>
          (case route_task (be_registry env) (be_policy env) (oc_files cfg) (or_type rq) (or_device rq) False False None
                  (d_cache d) of
             (Raise e, c1) \<Rightarrow> (Rolling rid (Error e), d\<lparr>d_guard := g1, d_cache := c1\<rparr>)
           | (Ret [], c1) \<Rightarrow> (Rolling rid (Error (HTTPException 404)), d\<lparr>d_guard := g1, d_cache := c1\<rparr>)
           | (Ret (t # ts), c1) \<Rightarrow> (Probing rid w c (t # ts), d\<lparr>d_guard := g1, d_cache := c1\<rparr>)))"

definition orch_begin :: "orch_config \<Rightarrow> begin_env \<Rightarrow> orch_request \<Rightarrow> desk \<Rightarrow> orch_pc \<times> desk" where
  "orch_begin cfg env rq d =
     (case find_existing (be_find env) (or_type rq) (Some (task_hash_of cfg rq)) (d_tracker d) of
        (Raise e, t1) \<Rightarrow> (Replied (Error e), d\<lparr>d_tracker := t1\<rparr>)
      | (Ret existing, t1) \<Rightarrow>
          (let d1 = d\<lparr>d_tracker := t1\<rparr> in
           case (if or_force rq then None else existing) of
             Some a \<Rightarrow> (Replied (Answer (conflict_reply a)), d1)
           | None \<Rightarrow>
               (case cliff_check rq of
                  Raise e \<Rightarrow> (Replied (Error e), d1)
                | Ret c \<Rightarrow>
                    (case hold (be_reserve env) (or_cost rq) (d_guard d1) of
                       (Raise e, g1) \<Rightarrow>
                         (Replied (Error (if e = BudgetExceededError then HTTPException 402 else e)), d1\<lparr>d_guard := g1\<rparr>)
                     | (Ret rid, g1) \<Rightarrow> orch_route cfg env rq rid c (d1\<lparr>d_guard := g1\<rparr>)))))"


text \<open>\<open>f"{q:.2f}"\<close>.\<close>

definition two_digits :: "rat \<Rightarrow> string" where
  "two_digits q =
     (let c = nat (abs (round_half_even (q * 100))) in
      (if q < 0 then ''-'' else []) @ show_nat (c div 100) @ ''.'' @ show_nat (c mod 100 div 10) @ show_nat (c mod 10))"

definition budget_text :: "rat \<times> rat \<Rightarrow> string" where
  "budget_text w = ''Budget at '' @ two_digits (fst w) @ '' / '' @ two_digits (snd w) @ '' (>=80%)''"

definition cliff_text :: "nat \<Rightarrow> string" where
  "cliff_text n = ''Token count '' @ show_nat n @ '' is approaching the 199k billing cliff (warn threshold: 180000)''"

text \<open>\<open>_runtime_summary\<close> of the runtime file: absent, not readable as JSON, or a value.\<close>

definition runtime_flag :: "payload \<Rightarrow> string \<Rightarrow> string \<Rightarrow> bool res" where
  "runtime_flag p section_key k =
     (case dict_get p section_key (JObj []) of JObj d \<Rightarrow> Ret (truthy (jget d k)) | _ \<Rightarrow> Raise TypeError)"

definition runtime_summary :: "json option res \<Rightarrow> payload res" where
  "runtime_summary file =
     res_bind file (\<lambda>state.
       (case state of
          None \<Rightarrow> Ret [(''available'', JBool False), (''gateway_ready'', JBool False), (''distributed'', JBool False)]
        | Some JNull \<Rightarrow> Ret [(''available'', JBool False), (''gateway_ready'', JBool False), (''distributed'', JBool False)]
        | Some (JObj p) \<Rightarrow>
            res_bind (runtime_flag p ''gateway'' ''gateway_ready'') (\<lambda>g.
            res_bind (runtime_flag p ''routing'' ''distributed'') (\<lambda>d.
              Ret [(''available'', JBool True), (''gateway_ready'', JBool g), (''distributed'', JBool d)]))
        | Some _ \<Rightarrow> Raise TypeError))"

section \<open>Registration, settlement and the reply\<close>

record finish_env =
  fe_exchange :: exchange
  fe_register :: tracker_env
  fe_commit :: guard_env
  fe_record :: guard_env
  fe_runtime :: "json option res"

definition needs_user_action :: "payload \<Rightarrow> payload \<Rightarrow> payload" where
  "needs_user_action runtime avail =
     [(''status'', JStr ''needs_user_action''),
      (''message'', JStr (''No viable local coder backend is reachable for autoresearch. '' @
         ''Start Windows LM Studio (Qwen3.5-27B-Claude-4.6-Opus-Reasoning-Distilled-v2) '' @
         ''or a reachable local LM Studio fallback, then retry.'')),
      (''runtime'', JObj runtime), (''availability'', JObj avail)]"

definition own_route :: "registry_files \<Rightarrow> string \<Rightarrow> payload res" where
  "own_route fs kind =
     (case dict_get (routing_yml fs) ''routes'' (JObj []) of
        JObj routes \<Rightarrow> (case dict_get routes kind (JObj []) of JObj r \<Rightarrow> Ret r | _ \<Rightarrow> Raise TypeError)
      | _ \<Rightarrow> Raise TypeError)"

definition agent_request_for :: "orch_config \<Rightarrow> orch_request \<Rightarrow> registry_target \<Rightarrow> agent_request" where
  "agent_request_for cfg rq t =
     \<lparr>ar_role = or_type rq, ar_model = tg_name t, ar_backend = tg_backend t, ar_host = tg_host t, ar_port = tg_port t,
      ar_task_hash = Some (task_hash_of cfg rq), ar_parent = or_parent rq,
      ar_metadata = [(''reasoning'', tg_reasoning t), (''device'', JStr (tg_device t)), (''online'', tg_online t)],
      ar_status = ''idle''\<rparr>"

text \<open>Targets of a chain have different keys, so \<open>is not\<close> compares keys.\<close>

definition fallback_entries :: "registry_target \<Rightarrow> registry_target list \<Rightarrow> json" where
  "fallback_entries selected chain =
     (let ms = take 5 (filter (\<lambda>m. target_key m \<noteq> target_key selected) chain) in
      JList (map (\<lambda>(i, m). JObj [(''priority'', JInt (int i + 2)), (''name'', JStr (tg_name m)), (''backend'', JStr (tg_backend m)),
        (''device'', JStr (tg_device m)), (''online'', tg_online m)]) (zip [0..<length ms] ms)))"

definition created_reply ::
    "finish_env \<Rightarrow> orch_request \<Rightarrow> (rat \<times> rat) option \<Rightarrow> cliff \<Rightarrow> registry_target list \<Rightarrow> registry_target \<Rightarrow>
     agent_record \<Rightarrow> payload \<Rightarrow> payload \<Rightarrow> payload" where
  "created_reply env rq w c chain t a runtime avail =
     [(''status'', JStr ''created''), (''agent'', JObj (asdict a)),
      (''selected_model'', JObj [(''name'', JStr (tg_name t)), (''backend'', JStr (tg_backend t)), (''device'', JStr (tg_device t)),
         (''host'', JStr (candidate_base_url (ex_net (fe_exchange env)) (ex_is_ipv6 (fe_exchange env)) (tg_host t) (tg_port t))),
         (''online'', tg_online t), (''reasoning'', tg_reasoning t)]),
      (''fallback_chain'', fallback_entries t chain), (''runtime'', JObj runtime), (''availability'', JObj avail)]
     @ (case w of Some x \<Rightarrow> [(''budget_warning'', JStr (budget_text x))] | None \<Rightarrow> [])
     @ (if c = Approaching then [(''token_cliff_warning'', JStr (cliff_text (effective_input_tokens rq)))] else [])"

text \<open>\<open>commit\<close>, and \<open>record_spend\<close> where the hold has expired in between.\<close>

definition settle_hold :: "finish_env \<Rightarrow> string \<Rightarrow> rat option \<Rightarrow> cost_guard \<Rightarrow> unit res \<times> cost_guard" where
  "settle_hold env rid cost g =
     (case commit_hold (fe_commit env) rid (Some cost) g of
        (Ret _, g1) \<Rightarrow> (Ret (), g1)
      | (Raise e, g1) \<Rightarrow>
          if e \<noteq> UnknownReservationError then (Raise e, g1)
          else (case cost of
                  None \<Rightarrow> (Raise ValueError, g1)
                | Some x \<Rightarrow>
                    (case record_spend (fe_record env) x g1 of (Ret _, g2) \<Rightarrow> (Ret (), g2) | (Raise e2, g2) \<Rightarrow> (Raise e2, g2))))"

definition orch_reply :: "finish_env \<Rightarrow> orch_request \<Rightarrow> payload \<Rightarrow> payload \<Rightarrow> orch_pc" where
  "orch_reply env rq route response =
     (if or_type rq \<in> set ORAMASYS_TASK_TYPES \<and> truthy (jget route ''endpoint'')
      then Bridging response (json_text (repr_of (ex_host (fe_exchange env))) (jget route ''endpoint''))
      else Replied (Answer response))"

text \<open>The handler from the last probe to the rollback, the bridge call or the reply.\<close>

definition orch_settle ::
    "orch_config \<Rightarrow> finish_env \<Rightarrow> orch_request \<Rightarrow> string \<Rightarrow> (rat \<times> rat) option \<Rightarrow> cliff \<Rightarrow> registry_target list \<Rightarrow>
     payload \<Rightarrow> payload \<Rightarrow> registry_target \<Rightarrow> desk \<Rightarrow> orch_pc \<times> desk" where
  "orch_settle cfg env rq rid w c chain avail route t d =
     (case register (fe_register env) (agent_request_for cfg rq t) (d_tracker d) of
        (Raise e, t1) \<Rightarrow> (Rolling rid (Error e), d\<lparr>d_tracker := t1\<rparr>)
      | (Ret a, t1) \<Rightarrow>
          (case settle_hold env rid (or_cost rq) (d_guard d) of
             (Raise e, g1) \<Rightarrow> (Rolling rid (Error e), d\<lparr>d_tracker := t1, d_guard := g1\<rparr>)
           | (Ret _, g1) \<Rightarrow>
               (case runtime_summary (fe_runtime env) of
                  Raise e \<Rightarrow> Replied (Error e)
                | Ret rt \<Rightarrow> orch_reply env rq route (created_reply env rq w c chain t a rt avail),
                d\<lparr>d_tracker := t1, d_guard := g1\<rparr>)))"

definition orch_finish ::
    "orch_config \<Rightarrow> finish_env \<Rightarrow> orch_request \<Rightarrow> string \<Rightarrow> (rat \<times> rat) option \<Rightarrow> cliff \<Rightarrow> registry_target list \<Rightarrow>
     desk \<Rightarrow> orch_pc \<times> desk" where
  "orch_finish cfg env rq rid w c chain d =
     (case resolve_candidates (fe_exchange env) chain (or_type rq) of
        ([], avail) \<Rightarrow>
          (case runtime_summary (fe_runtime env) of
             Raise e \<Rightarrow> (Rolling rid (Error e), d)
           | Ret rt \<Rightarrow> (Rolling rid (Answer (needs_user_action rt avail)), d))
      | (t # ts, avail) \<Rightarrow>
          (case own_route (oc_files cfg) (or_type rq) of
             Raise e \<Rightarrow> (Rolling rid (Error e), d)
           | Ret route \<Rightarrow> orch_settle cfg env rq rid w c chain avail route t d))"

text \<open>The shielded rollback; a reservation that has expired is none of its concern.\<close>

definition orch_rollback :: "string \<Rightarrow> outcome \<Rightarrow> desk \<Rightarrow> orch_pc \<times> desk" where
  "orch_rollback rid out d = (Replied out, d\<lparr>d_guard := snd (rollback rid (d_guard d))\<rparr>)"

text \<open>\<open>os.path.expandvars\<close>: \<open>$NAME\<close> and \<open>${NAME}\<close>, with names of ASCII word characters.\<close>

definition var_token :: "string \<Rightarrow> (string \<times> string) option" where
  "var_token s =
     (let ident = takeWhile (\<lambda>c. is_word c \<and> code c < 128) s; inner = takeWhile (\<lambda>c. c \<noteq> CHR ''}'') (tl s) in
      if ident \<noteq> [] then Some (ident, ident)
      else if take 1 s = ''{'' \<and> CHR ''}'' \<in> set s then Some (CHR ''{'' # inner @ ''}'', inner)
      else None)"

function expand_vars :: "host_env \<Rightarrow> string \<Rightarrow> string" where
  "expand_vars h [] = []"
| "expand_vars h (c # cs) =
     (if c \<noteq> CHR ''$'' then c # expand_vars h cs
      else case var_token cs of
             None \<Rightarrow> c # expand_vars h cs
           | Some (tok, name) \<Rightarrow>
               (case getenv h name of Some v \<Rightarrow> v | None \<Rightarrow> c # tok) @ expand_vars h (drop (length tok) cs))"
  by pat_completeness auto
termination by (relation "measure (length \<circ> snd)") auto

text \<open>What the bridge call comes to: the fields of its result, or the text of its exception.\<close>

definition bridge_fields :: "host_env \<Rightarrow> string \<Rightarrow> string + payload \<Rightarrow> payload" where
  "bridge_fields h endpoint r =
     (case r of
        Inr result \<Rightarrow> dict_update [(''enabled'', JBool True)] result
      | Inl msg \<Rightarrow> [(''enabled'', JBool True), (''error'', JStr msg), (''endpoint'', JStr (expand_vars h endpoint))])"

definition orch_bridged :: "host_env \<Rightarrow> string + payload \<Rightarrow> payload \<Rightarrow> string \<Rightarrow> orch_pc" where
  "orch_bridged h r response endpoint =
     (let b = JObj (bridge_fields h endpoint r) in
      Replied (Answer (AList.update ''ultrathink_bridge'' b (AList.update ''oramasys_bridge'' b response))))"

section \<open>Requests in flight\<close>

record orch =
  o_desk :: desk
  o_reqs :: "(orch_request \<times> orch_pc) list"

definition put_pc :: "nat \<Rightarrow> orch_pc \<times> desk \<Rightarrow> orch \<Rightarrow> orch" where
  "put_pc i r s = s\<lparr>o_desk := snd r, o_reqs := (o_reqs s)[i := (fst (o_reqs s ! i), fst r)]\<rparr>"

definition hold_of :: "orch_pc \<Rightarrow> string option" where
  "hold_of pc = (case pc of Probing rid _ _ _ \<Rightarrow> Some rid | Rolling rid _ \<Rightarrow> Some rid | _ \<Rightarrow> None)"

definition taken_holds :: "orch \<Rightarrow> string set" where
  "taken_holds s = {rid. \<exists>r \<in> set (o_reqs s). hold_of (snd r) = Some rid}"

text \<open>\<open>CancelledError\<close>, which a disconnect raises at the point of suspension.  The rollback is shielded:
  a cancellation there changes what the client sees and nothing else.\<close>

definition cancelled_pc :: "orch_pc \<Rightarrow> orch_pc" where
  "cancelled_pc pc =
     (case pc of
        Arrived \<Rightarrow> Replied Disconnected
      | Probing rid _ _ _ \<Rightarrow> Rolling rid Disconnected
      | Rolling rid _ \<Rightarrow> Rolling rid Disconnected
      | Bridging _ _ \<Rightarrow> Replied Disconnected
      | Replied out \<Rightarrow> Replied out)"

text \<open>One step of one request, of a reader of the budget, or, unless \<open>alone\<close>, of another process on the
  files.  The id of a new hold is a fresh UUID.  With \<open>alone\<close> no request settles after its hold has expired.\<close>

inductive orch_step :: "orch_config \<Rightarrow> bool \<Rightarrow> orch \<Rightarrow> orch \<Rightarrow> bool" for cfg alone where
  arrive: "orch_step cfg alone s (s\<lparr>o_reqs := o_reqs s @ [(rq, Arrived)]\<rparr>)"
| begin_request: "i < length (o_reqs s) \<Longrightarrow> o_reqs s ! i = (rq, Arrived) \<Longrightarrow>
     fresh_id (be_reserve env) \<notin> taken_holds s \<union> fst ` set (reserved (d_guard (o_desk s))) \<Longrightarrow>
     orch_step cfg alone s (put_pc i (orch_begin cfg env rq (o_desk s)) s)"
| probed: "i < length (o_reqs s) \<Longrightarrow> o_reqs s ! i = (rq, Probing rid w c chain) \<Longrightarrow>
     (alone \<longrightarrow> map_of (reserved (d_guard (o_desk s))) rid \<noteq> None) \<Longrightarrow>
     orch_step cfg alone s (put_pc i (orch_finish cfg fenv rq rid w c chain (o_desk s)) s)"
| rolled: "i < length (o_reqs s) \<Longrightarrow> o_reqs s ! i = (rq, Rolling rid out) \<Longrightarrow>
     orch_step cfg alone s (put_pc i (orch_rollback rid out (o_desk s)) s)"
| bridged: "i < length (o_reqs s) \<Longrightarrow> o_reqs s ! i = (rq, Bridging response endpoint) \<Longrightarrow>
     orch_step cfg alone s (put_pc i (orch_bridged h r response endpoint, o_desk s) s)"
| disconnect: "i < length (o_reqs s) \<Longrightarrow> o_reqs s ! i = (rq, pc) \<Longrightarrow>
     orch_step cfg alone s (put_pc i (cancelled_pc pc, o_desk s) s)"
| read_budget: "orch_step cfg alone s
     (s\<lparr>o_desk := (o_desk s)\<lparr>d_guard := snd (guard_snapshot genv (d_guard (o_desk s)))\<rparr>\<rparr>)"
| registry_changed: "orch_step cfg alone s (s\<lparr>o_desk := (o_desk s)\<lparr>d_tracker := t\<rparr>\<rparr>)"
| budget_changed: "\<not> alone \<Longrightarrow>
     orch_step cfg alone s (s\<lparr>o_desk := (o_desk s)\<lparr>d_guard := (d_guard (o_desk s))\<lparr>budget_file := f\<rparr>\<rparr>\<rparr>)"

inductive orch_steps :: "orch_config \<Rightarrow> bool \<Rightarrow> orch \<Rightarrow> orch \<Rightarrow> bool" for cfg alone where
  none: "orch_steps cfg alone s s"
| more: "orch_steps cfg alone s t \<Longrightarrow> orch_step cfg alone t u \<Longrightarrow> orch_steps cfg alone s u"


section \<open>The desk a request draws on\<close>

text \<open>
  What the handler relies on in the guard: \<open>held\<close> has the reservations with their amounts; taking a hold
  adds its own, a settlement and a release remove one, and nothing adds another.
\<close>

locale hold_desk =
  fixes held :: "'g \<Rightarrow> (string \<times> rat) set"
    and take_hold :: "'e \<Rightarrow> rat option \<Rightarrow> 'g \<Rightarrow> string res \<times> 'g"
    and settle :: "'f \<Rightarrow> string \<Rightarrow> rat option \<Rightarrow> 'g \<Rightarrow> unit res \<times> 'g"
    and release :: "string \<Rightarrow> 'g \<Rightarrow> unit res \<times> 'g"
    and new_id :: "'e \<Rightarrow> string"
  assumes taken: "take_hold e cost g = (Ret rid, g') \<Longrightarrow>
      rid = new_id e \<and> (\<exists>c. cost = Some c \<and> held g' \<subseteq> insert (rid, c) (held g))"
    and refused: "take_hold e cost g = (Raise x, g') \<Longrightarrow> held g' \<subseteq> held g"
    and settled: "settle f rid cost g = (Ret u, g') \<Longrightarrow> held g' \<subseteq> held g - {rid} \<times> UNIV"
    and unsettled: "settle f rid cost g = (Raise x, g') \<Longrightarrow> held g' \<subseteq> held g"
    and released: "held (snd (release rid g)) \<subseteq> held g - {rid} \<times> UNIV"
begin

text \<open>The reservations are among the claims \<open>R\<close> of the requests.\<close>

definition owned :: "(string \<times> rat) set \<Rightarrow> 'g \<Rightarrow> bool" where
  "owned R g \<longleftrightarrow> held g \<subseteq> R"

lemma owned_mono: "owned R g \<Longrightarrow> held g' \<subseteq> held g \<Longrightarrow> R \<subseteq> R' \<Longrightarrow> owned R' g'"
  by (auto simp: owned_def)

lemma owned_taken: "owned R g \<Longrightarrow> take_hold e cost g = (Ret rid, g') \<Longrightarrow> \<exists>c. cost = Some c \<and> owned (insert (rid, c) R) g'"
  using taken [of e cost g rid g'] by (auto simp: owned_def)

lemma owned_settled: "owned R g \<Longrightarrow> settle f rid cost g = (Ret u, g') \<Longrightarrow> owned (R - {rid} \<times> UNIV) g'"
  using settled [of f rid cost g u g'] by (auto simp: owned_def)

lemma owned_released: "owned R g \<Longrightarrow> owned (R - {rid} \<times> UNIV) (snd (release rid g))"
  using released [of rid g] by (auto simp: owned_def)

end

definition held_amounts :: "cost_guard \<Rightarrow> (string \<times> rat) set" where
  "held_amounts g = (\<lambda>r. (fst r, fst (snd r))) ` set (reserved g)"

lemma save_reserved [simp]: "reserved (save env p g) = reserved g"
  by (cases "write_outcome env") (simp_all add: save_def Let_def)

lemma current_reserved: "reserved (snd (current env g)) = reserved g"
  by (auto simp: current_def load_def maybe_reset_def Let_def split: budget_file.splits)

lemma current_reservedD: "current env g = (r, g') \<Longrightarrow> reserved g' = reserved g"
  using current_reserved [of env g] by simp

lemma charge_reservedD: "charge_spend env x g = (r, g') \<Longrightarrow> reserved g' = reserved g"
  by (auto simp: charge_spend_def Let_def split: prod.splits res.splits dest: current_reservedD)

lemma snapshot_reserved: "reserved (snd (guard_snapshot env g)) = reserved g"
  by (auto simp: guard_snapshot_def alert_approaching_def split: prod.splits res.splits dest!: current_reservedD)

lemma snapshot_reservedD: "guard_snapshot env g = (r, g') \<Longrightarrow> reserved g' = reserved g"
  using snapshot_reserved [of env g] by simp

lemma held_deleted: "reserved g' = AList.delete rid (reserved g) \<Longrightarrow> held_amounts g' = held_amounts g - {rid} \<times> UNIV"
  by (auto simp: held_amounts_def AList.delete_eq)

lemma commit_reserved:
  assumes "commit_hold env rid a g = (r, g')"
  shows "reserved g' = reserved g \<or> reserved g' = AList.delete rid (reserved g)"
    and "r = Ret p \<Longrightarrow> reserved g' = AList.delete rid (reserved g)"
    and "r = Raise UnknownReservationError \<Longrightarrow> map_of (reserved g) rid = None \<and> g' = g
      \<or> reserved g' = AList.delete rid (reserved g)"
  using assms by (auto simp: commit_hold_def split: option.splits if_splits prod.splits dest: charge_reservedD)

lemma update_entries: "set (AList.update k v xs) \<subseteq> insert (k, v) (set xs)"
  by (induction xs) auto

lemma absent_unheld: "map_of (reserved g) rid = None \<Longrightarrow> held_amounts g \<subseteq> held_amounts g - {rid} \<times> UNIV"
  by (auto simp: held_amounts_def map_of_eq_None_iff)

interpretation desk: hold_desk held_amounts hold settle_hold rollback fresh_id
proof
  fix e cost g rid g'
  assume h: "hold e cost g = (Ret rid, g')"
  then obtain c p g1 where c: "cost = Some c" "current e (sweep_expired e g) = (Ret p, g1)" "rid = fresh_id e"
    "reserved g' = AList.update rid (c, monotonic e) (reserved g1)"
    by (auto simp: hold_def split: option.splits if_splits prod.splits res.splits)
  have "reserved g1 = reserved (sweep_expired e g)" by (rule current_reservedD [OF c(2)])
  with c update_entries [of rid "(c, monotonic e)" "reserved g1"]
  show "rid = fresh_id e \<and> (\<exists>c. cost = Some c \<and> held_amounts g' \<subseteq> insert (rid, c) (held_amounts g))"
    by (force simp: held_amounts_def sweep_expired_def)
next
  fix e cost g x g'
  assume "hold e cost g = (Raise x, g')"
  then have "reserved g' = reserved g \<or> reserved g' = reserved (sweep_expired e g)"
    by (auto simp: hold_def split: option.splits if_splits prod.splits res.splits dest: current_reservedD)
  then show "held_amounts g' \<subseteq> held_amounts g" by (auto simp: held_amounts_def sweep_expired_def)
next
  fix f rid cost g u g'
  assume s: "settle_hold f rid cost g = (Ret u, g')"
  obtain r g1 where c: "commit_hold (fe_commit f) rid (Some cost) g = (r, g1)" by (cases "commit_hold (fe_commit f) rid (Some cost) g")
  note cr = commit_reserved [OF c]
  show "held_amounts g' \<subseteq> held_amounts g - {rid} \<times> UNIV"
  proof (cases r)
    case (Ret p)
    with s c cr(2) [OF Ret] show ?thesis by (simp add: settle_hold_def held_deleted)
  next
    case (Raise e)
    with s c obtain x r2 where "e = UnknownReservationError" "record_spend (fe_record f) x g1 = (r2, g')"
      by (auto simp: settle_hold_def split: if_splits option.splits prod.splits res.splits)
    moreover from this have "reserved g' = reserved g1" by (auto simp: record_spend_def dest: charge_reservedD)
    ultimately show ?thesis using cr(3) Raise absent_unheld [of g rid] by (auto simp: held_deleted held_amounts_def AList.delete_eq)
  qed
next
  fix f rid cost g x g'
  assume s: "settle_hold f rid cost g = (Raise x, g')"
  obtain r g1 where c: "commit_hold (fe_commit f) rid (Some cost) g = (r, g1)" by (cases "commit_hold (fe_commit f) rid (Some cost) g")
  have "reserved g' = reserved g1"
    using s c by (auto simp: settle_hold_def record_spend_def split: res.splits if_splits option.splits prod.splits dest: charge_reservedD)
  with commit_reserved(1) [OF c] show "held_amounts g' \<subseteq> held_amounts g" by (auto simp: held_amounts_def AList.delete_eq)
next
  fix rid g
  show "held_amounts (snd (rollback rid g)) \<subseteq> held_amounts g - {rid} \<times> UNIV"
    using absent_unheld [of g rid] by (simp add: rollback_def held_deleted)
qed

section \<open>Holds belong to requests\<close>

definition holds_at :: "orch \<Rightarrow> nat \<Rightarrow> string \<Rightarrow> rat \<Rightarrow> bool" where
  "holds_at s i rid c \<longleftrightarrow> i < length (o_reqs s) \<and> hold_of (snd (o_reqs s ! i)) = Some rid \<and> or_cost (fst (o_reqs s ! i)) = Some c"

definition claims_of :: "orch \<Rightarrow> (string \<times> rat) set" where
  "claims_of s = {(rid, c). \<exists>i. holds_at s i rid c}"

definition unique_holds :: "orch \<Rightarrow> bool" where
  "unique_holds s \<longleftrightarrow> (\<forall>i j rid. i < length (o_reqs s) \<longrightarrow> j < length (o_reqs s) \<longrightarrow>
     hold_of (snd (o_reqs s ! i)) = Some rid \<longrightarrow> hold_of (snd (o_reqs s ! j)) = Some rid \<longrightarrow> i = j)"

definition orch_inv :: "orch \<Rightarrow> bool" where
  "orch_inv s \<longleftrightarrow> desk.owned (claims_of s) (d_guard (o_desk s)) \<and> unique_holds s"

lemma put_pc_fields [simp]:
  "o_desk (put_pc i r s) = snd r" "length (o_reqs (put_pc i r s)) = length (o_reqs s)"
  by (simp_all add: put_pc_def)

lemma put_pc_nth:
  "i < length (o_reqs s) \<Longrightarrow> j < length (o_reqs s) \<Longrightarrow>
     o_reqs (put_pc i r s) ! j = (if i = j then (fst (o_reqs s ! i), fst r) else o_reqs s ! j)"
  by (simp add: put_pc_def nth_list_update)

lemma claims_put:
  assumes "i < length (o_reqs s)" and "o_reqs s ! i = (rq, old)"
  shows "hold_of pc = None \<Longrightarrow> hold_of old = Some rid \<Longrightarrow> claims_of s - {rid} \<times> UNIV \<subseteq> claims_of (put_pc i (pc, d) s)"
    and "hold_of pc = hold_of old \<Longrightarrow> claims_of s \<subseteq> claims_of (put_pc i (pc, d) s)"
    and "hold_of old = None \<Longrightarrow> claims_of s \<subseteq> claims_of (put_pc i (pc, d) s)"
    and "hold_of pc = Some rid \<Longrightarrow> or_cost rq = Some c \<Longrightarrow> (rid, c) \<in> claims_of (put_pc i (pc, d) s)"
proof -
  have other: "holds_at (put_pc i (pc, d) s) j r c" if "holds_at s j r c" "i \<noteq> j" for j r c
    using that assms by (simp add: holds_at_def put_pc_nth)
  have own: "holds_at (put_pc i (pc, d) s) i r c" if "hold_of pc = Some r" "or_cost rq = Some c" for r c
    using that assms by (simp add: holds_at_def put_pc_nth)
  show "hold_of pc = Some rid \<Longrightarrow> or_cost rq = Some c \<Longrightarrow> (rid, c) \<in> claims_of (put_pc i (pc, d) s)"
    using own by (auto simp: claims_of_def)
  have old: "hold_of old = Some r \<and> or_cost rq = Some c" if "holds_at s i r c" for r c
    using that assms(2) by (simp add: holds_at_def)
  show "claims_of s - {rid} \<times> UNIV \<subseteq> claims_of (put_pc i (pc, d) s)" if "hold_of old = Some rid"
    using other old that by (force simp: claims_of_def)
  show "hold_of pc = hold_of old \<Longrightarrow> claims_of s \<subseteq> claims_of (put_pc i (pc, d) s)"
    using other own old by (force simp: claims_of_def)
  show "hold_of old = None \<Longrightarrow> claims_of s \<subseteq> claims_of (put_pc i (pc, d) s)"
    using other old by (force simp: claims_of_def)
qed

lemma unique_put:
  assumes "unique_holds s" and "i < length (o_reqs s)" and "o_reqs s ! i = (rq, old)"
    and "\<And>rid. hold_of pc = Some rid \<Longrightarrow> hold_of old = Some rid \<or> rid \<notin> taken_holds s"
  shows "unique_holds (put_pc i (pc, d) s)"
proof -
  have taken: "rid \<in> taken_holds s" if "j < length (o_reqs s)" "hold_of (snd (o_reqs s ! j)) = Some rid" for j rid
    using that by (auto simp: taken_holds_def intro!: bexI [of _ "o_reqs s ! j"])
  have same: "j = k" if "j < length (o_reqs s)" "k < length (o_reqs s)" "hold_of (snd (o_reqs s ! j)) = Some rid"
    "hold_of (snd (o_reqs s ! k)) = Some rid" for j k rid
    using assms(1) that unfolding unique_holds_def by blast
  have clash: False if "j < length (o_reqs s)" "j \<noteq> i" "hold_of (snd (o_reqs s ! j)) = Some rid" "hold_of pc = Some rid" for j rid
    using assms(2-4) taken [of j rid] same [of i j rid] that by auto
  show ?thesis unfolding unique_holds_def
  proof (intro allI impI)
    fix j k rid
    assume a: "j < length (o_reqs (put_pc i (pc, d) s))" "k < length (o_reqs (put_pc i (pc, d) s))"
      "hold_of (snd (o_reqs (put_pc i (pc, d) s) ! j)) = Some rid" "hold_of (snd (o_reqs (put_pc i (pc, d) s) ! k)) = Some rid"
    then show "j = k" using assms(2) same [of j k rid] clash [of j rid] clash [of k rid]
      by (auto simp: put_pc_nth split: if_splits)
  qed
qed

lemma owned_same: "desk.owned R g \<Longrightarrow> reserved g' = reserved g \<Longrightarrow> desk.owned R g'"
  by (erule desk.owned_mono) (simp_all add: held_amounts_def)

lemma alert_reservedD: "alert_approaching env g = (r, g') \<Longrightarrow> reserved g' = reserved g"
  by (auto simp: alert_approaching_def split: prod.splits res.splits dest: current_reservedD)

lemma warning_reserved: "budget_warning_of env g = (r, g') \<Longrightarrow> reserved g' = reserved g"
  by (auto simp: budget_warning_of_def split: prod.splits res.splits if_splits dest!: alert_reservedD snapshot_reservedD)

lemma begin_owned:
  assumes "orch_begin cfg env rq d = (pc, d')" and "desk.owned R (d_guard d)"
  shows "hold_of pc = None \<and> desk.owned R (d_guard d') \<or>
    (\<exists>c. hold_of pc = Some (fresh_id (be_reserve env)) \<and> or_cost rq = Some c \<and>
       desk.owned (insert (fresh_id (be_reserve env), c) R) (d_guard d'))"
proof -
  have route: "hold_of pc = Some rid \<and> reserved (d_guard d') = reserved (d_guard d1)"
    if "orch_route cfg env rq rid c d1 = (pc, d')" for rid c d1
    using that by (auto simp: orch_route_def hold_of_def split: prod.splits res.splits list.splits dest: warning_reserved)
  obtain r g1 where h: "hold (be_reserve env) (or_cost rq) (d_guard d) = (r, g1)" by fastforce
  show ?thesis
  proof (cases "\<exists>c d1 rid. r = Ret rid \<and> d_guard d1 = g1 \<and> orch_route cfg env rq rid c d1 = (pc, d')")
    case True
    then obtain c d1 rid where b: "r = Ret rid" "d_guard d1 = g1" "orch_route cfg env rq rid c d1 = (pc, d')" by blast
    from desk.owned_taken [OF assms(2) h [unfolded b(1)]] desk.taken [OF h [unfolded b(1)]]
    obtain c where "or_cost rq = Some c" "rid = fresh_id (be_reserve env)" "desk.owned (insert (rid, c) R) g1" by auto
    with route [OF b(3)] b(2) owned_same [of _ g1 "d_guard d'"] show ?thesis by auto
  next
    case False
    with assms(1) h have "hold_of pc = None \<and> (d_guard d' = d_guard d \<or> (\<exists>e. r = Raise e) \<and> d_guard d' = g1)"
      by (auto simp: orch_begin_def Let_def hold_of_def split: prod.splits res.splits option.splits if_splits)
    with assms(2) desk.refused h desk.owned_mono [OF assms(2), of g1 R] show ?thesis by auto
  qed
qed

lemma finish_owned:
  assumes "orch_finish cfg env rq rid w c chain d = (pc, d')" and "desk.owned R (d_guard d)"
  shows "hold_of pc = Some rid \<and> desk.owned R (d_guard d') \<or>
    hold_of pc = None \<and> desk.owned (R - {rid} \<times> UNIV) (d_guard d')"
proof -
  obtain r g1 where s: "settle_hold env rid (or_cost rq) (d_guard d) = (r, g1)" by fastforce
  from assms(1) s have "hold_of pc = Some rid \<and> (d_guard d' = d_guard d \<or> (\<exists>e. r = Raise e) \<and> d_guard d' = g1) \<or>
      hold_of pc = None \<and> (\<exists>u. r = Ret u) \<and> d_guard d' = g1"
    by (auto simp: orch_finish_def orch_settle_def orch_reply_def hold_of_def
        split: prod.splits res.splits list.splits if_splits)
  then show ?thesis
    using assms(2) desk.owned_mono [OF assms(2), of g1 R] desk.unsettled [of env rid "or_cost rq" "d_guard d" _ g1]
      desk.owned_settled [OF assms(2), of env rid "or_cost rq" _ g1] s by auto
qed

lemma orch_step_inv:
  assumes "orch_step cfg alone s s'" and "orch_inv s"
  shows "orch_inv s'"
  using assms
proof cases
  case (arrive rq)
  have "claims_of s \<subseteq> claims_of s'" unfolding arrive claims_of_def holds_at_def by (force simp: nth_append)
  moreover have "unique_holds s'"
    using assms(2) unfolding arrive unique_holds_def orch_inv_def by (auto simp: nth_append hold_of_def less_Suc_eq split: if_splits)
  ultimately show ?thesis using assms(2) arrive desk.owned_mono by (auto simp: orch_inv_def)
next
  case (begin_request i rq env)
  obtain pc d' where b: "orch_begin cfg env rq (o_desk s) = (pc, d')" by fastforce
  note cp = claims_put(3,4) [OF begin_request(2,3), where pc = pc and d = d']
  have "desk.owned (claims_of (put_pc i (pc, d') s)) (d_guard d')"
    using begin_owned [OF b] assms(2) cp desk.owned_mono [of _ "d_guard d'" "d_guard d'" "claims_of (put_pc i (pc, d') s)"]
    by (fastforce simp: orch_inv_def hold_of_def)
  moreover have "unique_holds (put_pc i (pc, d') s)"
    using begin_owned [OF b, of "claims_of s"] assms(2) begin_request(4)
    by (intro unique_put [OF _ begin_request(2,3)]) (auto simp: orch_inv_def)
  ultimately show ?thesis using begin_request(1) b by (simp add: orch_inv_def)
next
  case (probed i rq rid w c chain fenv)
  obtain pc d' where b: "orch_finish cfg fenv rq rid w c chain (o_desk s) = (pc, d')" by fastforce
  note cp = claims_put(1,2) [OF probed(2,3), where pc = pc and d = d']
  note f = finish_owned [OF b, of "claims_of s"]
  have "desk.owned (claims_of (put_pc i (pc, d') s)) (d_guard d')"
    using f assms(2) cp desk.owned_mono [of _ "d_guard d'" "d_guard d'" "claims_of (put_pc i (pc, d') s)"]
    by (fastforce simp: orch_inv_def hold_of_def)
  moreover have "unique_holds (put_pc i (pc, d') s)"
    using f assms(2) by (intro unique_put [OF _ probed(2,3)]) (auto simp: orch_inv_def hold_of_def)
  ultimately show ?thesis using probed(1) b by (simp add: orch_inv_def)
next
  case (rolled i rq rid out)
  let ?d = "(o_desk s)\<lparr>d_guard := snd (rollback rid (d_guard (o_desk s)))\<rparr>"
  have "claims_of s - {rid} \<times> UNIV \<subseteq> claims_of (put_pc i (Replied out, ?d) s)"
    by (rule claims_put(1) [OF rolled(2,3)]) (simp_all add: hold_of_def)
  with assms(2) desk.owned_released [of "claims_of s" "d_guard (o_desk s)" rid]
  have "desk.owned (claims_of (put_pc i (Replied out, ?d) s)) (d_guard ?d)"
    by (auto simp: orch_inv_def intro: desk.owned_mono)
  moreover have "unique_holds (put_pc i (Replied out, ?d) s)"
    using assms(2) by (intro unique_put [OF _ rolled(2,3)]) (simp_all add: orch_inv_def hold_of_def)
  ultimately show ?thesis using rolled(1) by (simp add: orch_inv_def orch_rollback_def)
next
  case (bridged i rq response endpoint h r)
  have h: "hold_of (orch_bridged h r response endpoint) = None" by (simp add: hold_of_def orch_bridged_def Let_def)
  have "claims_of s \<subseteq> claims_of s'" unfolding bridged(1) by (rule claims_put(3) [OF bridged(2,3)]) (simp add: hold_of_def)
  moreover have "unique_holds s'" unfolding bridged(1)
    using assms(2) h by (intro unique_put [OF _ bridged(2,3)]) (simp_all add: orch_inv_def)
  ultimately show ?thesis using assms(2) bridged(1) desk.owned_mono by (auto simp: orch_inv_def)
next
  case (disconnect i rq pc)
  have "hold_of (cancelled_pc pc) = hold_of pc" by (cases pc) (simp_all add: hold_of_def cancelled_pc_def)
  then have "claims_of s \<subseteq> claims_of s'" "unique_holds s'"
    unfolding disconnect(1) using assms(2)
    by (auto simp: orch_inv_def intro!: claims_put(2) [OF disconnect(2,3), THEN subsetD] unique_put [OF _ disconnect(2,3)])
  then show ?thesis using assms(2) disconnect(1) desk.owned_mono by (auto simp: orch_inv_def)
next
  case (read_budget genv)
  with assms(2) show ?thesis
    by (auto simp: orch_inv_def claims_of_def holds_at_def unique_holds_def snapshot_reserved intro: owned_same)
next
  case (registry_changed t)
  with assms(2) show ?thesis by (simp add: orch_inv_def claims_of_def holds_at_def unique_holds_def)
next
  case (budget_changed f)
  with assms(2) show ?thesis
    by (auto simp: orch_inv_def claims_of_def holds_at_def unique_holds_def intro: owned_same)
qed

definition fresh_desk :: "orch \<Rightarrow> bool" where
  "fresh_desk s \<longleftrightarrow> o_reqs s = [] \<and> reserved (d_guard (o_desk s)) = []"

lemma orch_steps_inv: "orch_steps cfg alone s s' \<Longrightarrow> orch_inv s \<Longrightarrow> orch_inv s'"
  by (induction rule: orch_steps.induct) (auto intro: orch_step_inv)

lemma fresh_inv: "fresh_desk s \<Longrightarrow> orch_inv s"
  by (simp add: fresh_desk_def orch_inv_def desk.owned_def held_amounts_def unique_holds_def)

text \<open>C8: No hold outlives its request: whatever the interleaving, the disconnects, the errors and the changes
  of the files, every reservation of the guard is the one of exactly one request that is probing or in
  its rollback, with that request's cost.\<close>

theorem holds_are_owned:
  assumes "orch_steps cfg alone s0 s" and "fresh_desk s0" and "(rid, c, t) \<in> set (reserved (d_guard (o_desk s)))"
  shows "\<exists>!i. i < length (o_reqs s) \<and> hold_of (snd (o_reqs s ! i)) = Some rid \<and> or_cost (fst (o_reqs s ! i)) = Some c"
proof -
  have inv: "orch_inv s" by (rule orch_steps_inv [OF assms(1) fresh_inv [OF assms(2)]])
  with assms(3) have "(rid, c) \<in> claims_of s" by (force simp: orch_inv_def desk.owned_def held_amounts_def)
  then obtain i where "holds_at s i rid c" by (auto simp: claims_of_def)
  with inv show ?thesis unfolding orch_inv_def unique_holds_def holds_at_def by blast
qed

section \<open>The budget with requests in flight\<close>

lemma alert_ok: "guard_ok g \<Longrightarrow> guard_ok (snd (alert_approaching env g))"
  by (rule current_ok [of g env]) (auto simp: alert_approaching_def)

lemma guard_snapshot_ok: "guard_ok g \<Longrightarrow> guard_ok (snd (guard_snapshot env g))"
  by (rule guard_run_ok [OF guard_run.snapshots [OF guard_run.start]])

lemma warning_ok: "guard_ok g \<Longrightarrow> guard_ok (snd (budget_warning_of env g))"
  using alert_ok [of g "be_alert env"] guard_snapshot_ok [of "snd (alert_approaching (be_alert env) g)" "be_snapshot env"]
  by (auto simp: budget_warning_of_def split: prod.splits res.splits)

lemma hold_ok: "guard_ok g \<Longrightarrow> (case cost of None \<Rightarrow> True | Some c \<Rightarrow> micro c) \<Longrightarrow> guard_ok (snd (hold env cost g))"
  by (rule guard_run_ok [OF guard_run.holds [OF guard_run.start]])

lemma begin_ok:
  assumes "guard_ok (d_guard d)" and "case or_cost rq of None \<Rightarrow> True | Some c \<Rightarrow> micro c"
  shows "guard_ok (d_guard (snd (orch_begin cfg env rq d)))"
proof -
  have route: "guard_ok (d_guard (snd (orch_route cfg env rq rid c d1)))" if "guard_ok (d_guard d1)" for rid c d1
    using warning_ok [OF that, of env] by (auto simp: orch_route_def split: prod.splits res.splits list.splits)
  show ?thesis
    using hold_ok [OF assms, of "be_reserve env"] assms(1) route
    by (auto simp: orch_begin_def Let_def split: prod.splits res.splits option.splits)
qed

lemma settle_held_ok:
  assumes "guard_ok g" and "map_of (reserved g) rid = Some (e, t)" and "micro e"
  shows "guard_ok (snd (settle_hold env rid (Some e) g))"
proof -
  let ?g = "g\<lparr>reserved := AList.delete rid (reserved g)\<rparr>"
  note d = delete_holds_ok [OF assms(1,2)]
  obtain p g2 where "current (fe_commit env) ?g = (Ret p, g2)" by (rule current_ok [OF d(1)])
  with assms(2) d(3) have r: "is_Ret (fst (commit_hold (fe_commit env) rid (Some (Some e)) g))"
    by (simp add: commit_hold_def charge_spend_def Let_def)
  have "guard_ok (snd (commit_hold (fe_commit env) rid (Some (Some e)) g))"
    using assms by (intro guard_run_ok [OF guard_run.commits [OF guard_run.start]]) auto
  with r show ?thesis by (auto simp: settle_hold_def split: prod.splits res.splits)
qed

lemma finish_ok:
  assumes "guard_ok (d_guard d)" and "map_of (reserved (d_guard d)) rid = Some (e, t)" and "or_cost rq = Some e" and "micro e"
  shows "guard_ok (d_guard (snd (orch_finish cfg env rq rid w c chain d)))"
  using settle_held_ok [OF assms(1,2,4), of env] assms(1,3)
  by (auto simp: orch_finish_def orch_settle_def split: prod.splits res.splits list.splits)

definition micro_costs :: "orch \<Rightarrow> bool" where
  "micro_costs s \<longleftrightarrow> (\<forall>r \<in> set (o_reqs s). case or_cost (fst r) of None \<Rightarrow> True | Some c \<Rightarrow> micro c)"

lemma micro_costs_at: "micro_costs s \<Longrightarrow> i < length (o_reqs s) \<Longrightarrow> o_reqs s ! i = (rq, pc) \<Longrightarrow> case or_cost rq of None \<Rightarrow> True | Some c \<Rightarrow> micro c"
  unfolding micro_costs_def using nth_mem by fastforce

lemma step_guard_ok:
  assumes "orch_step cfg True s s'" and "orch_inv s" and "guard_ok (d_guard (o_desk s))" and "micro_costs s"
  shows "guard_ok (d_guard (o_desk s'))"
  using assms(1)
proof cases
  case (begin_request i rq env)
  with begin_ok [OF assms(3) micro_costs_at [OF assms(4)]] show ?thesis by simp
next
  case (probed i rq rid w c chain fenv)
  then obtain e t where m: "map_of (reserved (d_guard (o_desk s))) rid = Some (e, t)" by fastforce
  then have "(rid, e) \<in> claims_of s"
    using assms(2) map_of_SomeD [OF m] by (force simp: orch_inv_def desk.owned_def held_amounts_def)
  then obtain j where "holds_at s j rid e" by (auto simp: claims_of_def)
  moreover have "hold_of (snd (o_reqs s ! i)) = Some rid" using probed(3) by (simp add: hold_of_def)
  moreover have "unique_holds s" using assms(2) by (simp add: orch_inv_def)
  ultimately have "j = i" using probed(2) unfolding unique_holds_def holds_at_def by blast
  with \<open>holds_at s j rid e\<close> probed(3) have "or_cost rq = Some e" by (simp add: holds_at_def)
  with finish_ok [OF assms(3) m] micro_costs_at [OF assms(4) probed(2,3)] probed(1) show ?thesis by simp
next
  case (rolled i rq rid out)
  with assms(3) show ?thesis using guard_run_ok [OF guard_run.rollbacks [OF guard_run.start]] by (simp add: orch_rollback_def)
next
  case (read_budget genv)
  with assms(3) guard_snapshot_ok show ?thesis by simp
qed (use assms(3) in simp_all)

lemma requests_put: "i < length (o_reqs s) \<Longrightarrow> map fst (o_reqs (put_pc i r s)) = map fst (o_reqs s)"
  by (simp add: put_pc_def map_update) (metis length_map list_update_id nth_map)

lemma step_requests:
  assumes "orch_step cfg alone s s'"
  shows "set (map fst (o_reqs s)) \<subseteq> set (map fst (o_reqs s'))"
  using assms
proof cases
  case (arrive rq)
  then show ?thesis by auto
qed (simp_all add: requests_put del: set_map)

lemma step_micro_costs: "orch_step cfg alone s s' \<Longrightarrow> micro_costs s' \<Longrightarrow> micro_costs s"
  using step_requests [of cfg alone s s'] by (force simp: micro_costs_def)

lemma steps_guard_ok:
  "orch_steps cfg alone s0 s \<Longrightarrow> alone \<Longrightarrow> orch_inv s0 \<Longrightarrow> guard_ok (d_guard (o_desk s0)) \<Longrightarrow> micro_costs s \<Longrightarrow>
   guard_ok (d_guard (o_desk s))"
proof (induction rule: orch_steps.induct)
  case (more s t u)
  then have "micro_costs t" using step_micro_costs by blast
  with more step_guard_ok [of cfg t u] orch_steps_inv [OF more.hyps(1)] show ?case by simp
qed


section \<open>What a created agent stands for\<close>

lemma probe_all_resolved: "set (fst (probe_all ex i ts avail)) \<subseteq> set ts"
  by (induction ts arbitrary: i avail) (auto simp: Let_def)

lemma resolve_candidates_set: "resolve_candidates ex ts k = (rs, avail) \<Longrightarrow> set rs \<subseteq> set ts"
  using probe_all_resolved [of ex 0 ts "[]"]
  by (auto simp: resolve_candidates_def split: prod.splits if_splits)

lemma resolve_autoresearch:
  "resolve_candidates ex ts k = (rs, avail) \<Longrightarrow> k \<in> set AUTORESEARCH_TASK_TYPES \<Longrightarrow> \<forall>t \<in> set rs. is_local_candidate t"
  by (auto simp: resolve_candidates_def split: prod.splits)

text \<open>The charge of a settled request: under its hold, or without one where the hold has expired.\<close>

definition charged :: "finish_env \<Rightarrow> string \<Rightarrow> rat \<Rightarrow> cost_guard \<Rightarrow> budget res \<times> cost_guard" where
  "charged env rid x g =
     (if map_of (reserved g) rid = None then charge_spend (fe_record env) x g
      else charge_spend (fe_commit env) x (g\<lparr>reserved := AList.delete rid (reserved g)\<rparr>))"

lemma charge_raises: "charge_spend env x g = (Raise e, g') \<Longrightarrow> e = ValueError"
  by (auto simp: charge_spend_def current_def load_def Let_def split: prod.splits res.splits if_splits budget_file.splits)

lemma settle_hold_charges:
  assumes "settle_hold env rid cost g = (Ret u, g')"
  shows "\<exists>x b. cost = Some x \<and> charged env rid x g = (Ret b, g')"
  using assms
  by (auto simp: settle_hold_def commit_hold_def record_spend_def charged_def
      split: prod.splits res.splits option.splits if_splits dest: charge_raises)

text \<open>C17: Every way out of the second half: the hold is still the request's and goes to the rollback, or it
  is settled.  Where it is settled an agent of the request is registered on a target of the chain, on a
  local runtime if the task is one of autoresearch, and the cost is on the books.\<close>

theorem settled_requests_are_registered:
  assumes "orch_finish cfg env rq rid w c chain d = (pc, d')" and "hold_of pc = None"
  shows "\<exists>t \<in> set chain. (or_type rq \<in> set AUTORESEARCH_TASK_TYPES \<longrightarrow> is_local_candidate t) \<and>
    map_of (memory_agents (d_tracker d')) (te_new_id (fe_register env)) =
      Some (agent_for (fe_register env) (agent_request_for cfg rq t)) \<and>
    (\<exists>x b. or_cost rq = Some x \<and> charged env rid x (d_guard d) = (Ret b, d_guard d'))"
proof -
  from assms obtain t ts avail route where r: "resolve_candidates (fe_exchange env) chain (or_type rq) = (t # ts, avail)"
    and s: "orch_settle cfg env rq rid w c chain avail route t d = (pc, d')"
    by (auto simp: orch_finish_def hold_of_def split: prod.splits list.splits res.splits)
  from s assms(2) obtain a t1 g1 where reg: "register (fe_register env) (agent_request_for cfg rq t) (d_tracker d) = (Ret a, t1)"
    and settled: "settle_hold env rid (or_cost rq) (d_guard d) = (Ret (), g1)" and d': "d_tracker d' = t1" "d_guard d' = g1"
    by (auto simp: orch_settle_def hold_of_def split: prod.splits res.splits)
  from reg have m: "map_of (memory_agents t1) (te_new_id (fe_register env)) = Some (agent_for (fe_register env) (agent_request_for cfg rq t))"
    by (auto simp: register_def register_in_def update_conv' split: prod.splits res.splits)
  from settle_hold_charges [OF settled] obtain x b where "or_cost rq = Some x" "charged env rid x (d_guard d) = (Ret b, g1)" by blast
  with d' m resolve_candidates_set [OF r] resolve_autoresearch [OF r] show ?thesis
    by (intro bexI [of _ t] conjI exI [of _ x] exI [of _ b]) auto
qed


section \<open>The conflict check\<close>

lemma finish_registers:
  assumes "synced (d_tracker d)" and "orch_finish cfg env rq rid w c chain d = (pc, d')" and "hold_of pc = None"
  shows "synced (d_tracker d')"
    and "\<exists>t. map_of (memory_agents (d_tracker d')) =
      (map_of (memory_agents (d_tracker d)))(te_new_id (fe_register env) \<mapsto> agent_for (fe_register env) (agent_request_for cfg rq t))"
proof -
  obtain s1 where l: "load_agents (fe_register env) (d_tracker d) = (Ret (memory_agents (d_tracker d)), s1)"
    by (rule load_synced [OF assms(1)])
  from assms(2,3) obtain t r where "register (fe_register env) (agent_request_for cfg rq t) (d_tracker d) = (r, d_tracker d')"
    by (auto simp: orch_finish_def orch_settle_def hold_of_def split: prod.splits list.splits res.splits)
  with l have e: "d_tracker d' = save_agents (te_write (fe_register env)) (AList.update (te_new_id (fe_register env))
      (agent_for (fe_register env) (agent_request_for cfg rq t)) (memory_agents (d_tracker d))) s1"
    by (auto simp: register_def register_in_def)
  then show "synced (d_tracker d')" and "\<exists>t. map_of (memory_agents (d_tracker d')) =
      (map_of (memory_agents (d_tracker d)))(te_new_id (fe_register env) \<mapsto> agent_for (fe_register env) (agent_request_for cfg rq t))"
    by (auto simp: update_conv')
qed


section \<open>Concrete requests\<close>

definition demo_orch_config :: orch_config where
  "demo_orch_config = \<lparr>oc_files = demo_registry_files, oc_sha256 = (\<lambda>s. s)\<rparr>"

definition demo_orch_request :: orch_request where
  "demo_orch_request = \<lparr>or_task = ''sum'', or_type = ''coding'', or_device = Some ''mac'', or_cost = Some 2, or_parent = None,
     or_force = False, or_tokens = None\<rparr>"

definition demo_begin :: "string \<Rightarrow> begin_env" where
  "demo_begin rid = \<lparr>be_find = demo_te ''unused'', be_reserve = demo_guard_env\<lparr>fresh_id := rid\<rparr>, be_alert = demo_guard_env,
     be_snapshot = demo_guard_env, be_registry = demo_registry_env, be_policy = demo_policy\<rparr>"

definition demo_exchange :: exchange where
  "demo_exchange = \<lparr>ex_net = demo_net_lib, ex_is_ipv6 = (\<lambda>_. False), ex_host = \<lparr>getenv = (\<lambda>_. None), repr_of = (\<lambda>_. [])\<rparr>,
     ex_get = (\<lambda>_ _. Failed ''down''), ex_generate = (\<lambda>_ _ _. Failed ''down''), ex_text = (\<lambda>_. [])\<rparr>"

definition demo_finish :: "string \<Rightarrow> finish_env" where
  "demo_finish aid = \<lparr>fe_exchange = demo_exchange, fe_register = demo_te aid, fe_commit = demo_guard_env, fe_record = demo_guard_env,
     fe_runtime = Ret None\<rparr>"

definition demo_desk :: desk where
  "demo_desk = \<lparr>d_tracker = new_tracker NoRegistry, d_guard = demo_guard, d_cache = []\<rparr>"

definition demo_orch :: orch where
  "demo_orch = \<lparr>o_desk = demo_desk, o_reqs = []\<rparr>"

definition demo_chain :: "registry_target list" where
  "demo_chain = (case fst (route_task demo_registry_env demo_policy demo_registry_files ''coding'' (Some ''mac'') False False None [])
     of Ret ts \<Rightarrow> ts | Raise _ \<Rightarrow> [])"

definition two_holds :: cost_guard where
  "two_holds = demo_guard\<lparr>reserved := [(''h1'', 2, 1000), (''h2'', 2, 1000)]\<rparr>"

lemma demo_route:
  "route_task demo_registry_env demo_policy demo_registry_files ''coding'' (Some ''mac'') False False None [] = (Ret demo_chain, [])"
  "demo_chain \<noteq> []"
proof -
  let ?r = "route_task demo_registry_env demo_policy demo_registry_files ''coding'' (Some ''mac'') False False None []"
  have "is_Ret (fst ?r)" and "snd ?r = []" and "demo_chain \<noteq> []" by code_simp+
  then show "?r = (Ret demo_chain, [])" "demo_chain \<noteq> []" by (cases ?r; auto simp: demo_chain_def is_Ret_iff)+
qed

lemma demo_holds:
  "hold (demo_guard_env\<lparr>fresh_id := ''h1''\<rparr>) (Some 2) demo_guard = (Ret ''h1'', demo_guard\<lparr>reserved := [(''h1'', 2, 1000)]\<rparr>)"
  "hold (demo_guard_env\<lparr>fresh_id := ''h2''\<rparr>) (Some 2) (demo_guard\<lparr>reserved := [(''h1'', 2, 1000)]\<rparr>) = (Ret ''h2'', two_holds)"
  by (simp_all add: hold_def current_def load_def maybe_reset_def sweep_expired_def in_flight_def expired_def two_holds_def
      demo_guard_def demo_guard_env_def demo_budget_def RESERVATION_TTL_SECONDS_def)

lemma demo_warns:
  "budget_warning_of (demo_begin rid) (demo_guard\<lparr>reserved := R\<rparr>) = (Ret (Some (20, 25)), demo_guard\<lparr>reserved := R\<rparr>)"
  by (simp add: budget_warning_of_def alert_approaching_def guard_snapshot_def current_def load_def maybe_reset_def
      demo_begin_def demo_guard_def demo_guard_env_def demo_budget_def ALERT_RATIO_def)

lemma demo_cliff: "cliff_check demo_orch_request = Ret Below" by code_simp

lemma demo_begins:
  assumes "d_tracker d = new_tracker NoRegistry" and "d_cache d = []"
    and "hold (demo_guard_env\<lparr>fresh_id := rid\<rparr>) (Some 2) (d_guard d) = (Ret rid, demo_guard\<lparr>reserved := R\<rparr>)"
  shows "orch_begin demo_orch_config (demo_begin rid) demo_orch_request d =
    (Probing rid (Some (20, 25)) Below demo_chain, d\<lparr>d_guard := demo_guard\<lparr>reserved := R\<rparr>\<rparr>)"
proof -
  have f: "find_existing (be_find (demo_begin rid)) ''coding'' h (d_tracker d) = (Ret None, d_tracker d)" for h
    using assms(1) by (simp add: find_existing_def load_agents_def new_tracker_def demo_begin_def demo_te_def)
  obtain t ts where c: "demo_chain = t # ts" using demo_route(2) by (cases demo_chain) auto
  from assms(3) have h: "hold (be_reserve (demo_begin rid)) (or_cost demo_orch_request) (d_guard d) = (Ret rid, demo_guard\<lparr>reserved := R\<rparr>)"
    by (simp add: demo_begin_def demo_orch_request_def)
  have r: "route_task (be_registry (demo_begin rid)) (be_policy (demo_begin rid)) (oc_files demo_orch_config) ''coding''
      (or_device demo_orch_request) False False None (d_cache d) = (Ret (t # ts), [])"
    using demo_route(1) assms(2) c by (simp add: demo_begin_def demo_orch_config_def demo_orch_request_def)
  have k: "or_type demo_orch_request = ''coding''" "or_force demo_orch_request = False" by (simp_all add: demo_orch_request_def)
  show ?thesis using f h demo_warns r assms(2)
    by (simp add: orch_begin_def orch_route_def demo_cliff k c)
qed

definition demo_probing :: orch where
  "demo_probing = \<lparr>o_desk = demo_desk\<lparr>d_guard := two_holds\<rparr>,
     o_reqs = [(demo_orch_request, Probing ''h1'' (Some (20, 25)) Below demo_chain),
               (demo_orch_request, Probing ''h2'' (Some (20, 25)) Below demo_chain)]\<rparr>"

lemma demo_probing_steps: "orch_steps demo_orch_config alone demo_orch demo_probing"
proof -
  define s2 where "s2 = demo_orch\<lparr>o_reqs := [(demo_orch_request, Arrived), (demo_orch_request, Arrived)]\<rparr>"
  define s3 where "s3 = put_pc 0 (orch_begin demo_orch_config (demo_begin ''h1'') demo_orch_request (o_desk s2)) s2"
  have s2: "orch_steps demo_orch_config alone demo_orch s2"
    using orch_steps.more [OF orch_steps.more [OF orch_steps.none orch_step.arrive] orch_step.arrive, of demo_orch_config alone demo_orch demo_orch_request demo_orch_request]
    by (simp add: s2_def demo_orch_def)
  have 1: "orch_step demo_orch_config alone s2 s3" unfolding s3_def
    by (rule orch_step.begin_request) (simp_all add: s2_def demo_orch_def taken_holds_def hold_of_def demo_desk_def demo_guard_def)
  have s3: "s3 = \<lparr>o_desk = demo_desk\<lparr>d_guard := demo_guard\<lparr>reserved := [(''h1'', 2, 1000)]\<rparr>\<rparr>,
      o_reqs = [(demo_orch_request, Probing ''h1'' (Some (20, 25)) Below demo_chain), (demo_orch_request, Arrived)]\<rparr>"
    unfolding s3_def s2_def by (subst demo_begins [OF _ _ ]) (simp_all add: demo_orch_def demo_desk_def demo_holds put_pc_def)
  have "orch_step demo_orch_config alone s3
      (put_pc 1 (orch_begin demo_orch_config (demo_begin ''h2'') demo_orch_request (o_desk s3)) s3)"
    by (rule orch_step.begin_request) (simp_all add: s3 taken_holds_def hold_of_def demo_desk_def demo_begin_def)
  moreover have "put_pc 1 (orch_begin demo_orch_config (demo_begin ''h2'') demo_orch_request (o_desk s3)) s3 = demo_probing"
    unfolding s3 using demo_holds(2)
    by (subst demo_begins [where R = "reserved two_holds"]) (simp_all add: demo_desk_def put_pc_def demo_probing_def two_holds_def)
  ultimately show ?thesis using orch_steps.more [OF orch_steps.more [OF s2 1]] by simp
qed

lemma demo_resolves: "fst (resolve_candidates demo_exchange demo_chain ''coding'') \<noteq> []"
  using demo_route(2) by (simp add: resolve_candidates_def AUTORESEARCH_TASK_TYPES_def split: prod.splits)

lemma demo_finishes:
  assumes "synced (d_tracker d)" and "is_Ret (fst (settle_hold (demo_finish aid) rid (Some 2) (d_guard d)))"
    and "orch_finish demo_orch_config (demo_finish aid) demo_orch_request rid w c demo_chain d = (pc, d')"
  shows "hold_of pc = None \<and> d_guard d' = snd (settle_hold (demo_finish aid) rid (Some 2) (d_guard d))"
proof -
  obtain t ts avail where r: "resolve_candidates demo_exchange demo_chain ''coding'' = (t # ts, avail)"
    using demo_resolves by (cases "resolve_candidates demo_exchange demo_chain ''coding''"; cases "fst (resolve_candidates demo_exchange demo_chain ''coding'')") auto
  obtain s1 where "load_agents (demo_te aid) (d_tracker d) = (Ret (memory_agents (d_tracker d)), s1)" by (rule load_synced [OF assms(1)])
  moreover have "own_route demo_registry_files ''coding'' = Ret []" by code_simp
  ultimately show ?thesis
    using assms(2,3) r
    by (auto simp: orch_finish_def orch_settle_def demo_finish_def demo_orch_request_def demo_orch_config_def register_def
        register_in_def runtime_summary_def orch_reply_def ORAMASYS_TASK_TYPES_def hold_of_def is_Ret_iff split: prod.splits res.splits)
qed

lemma demo_settles:
  "is_Ret (fst (settle_hold (demo_finish ''a1'') ''h1'' (Some 2) two_holds))"
  "is_Ret (fst (settle_hold (demo_finish ''a2'') ''h2'' (Some 2) (snd (settle_hold (demo_finish ''a1'') ''h1'' (Some 2) two_holds))))"
  by code_simp+

lemma holds_are_owned_witness:
  "\<exists>!i. i < length (o_reqs demo_probing) \<and> hold_of (snd (o_reqs demo_probing ! i)) = Some ''h2'' \<and>
     or_cost (fst (o_reqs demo_probing ! i)) = Some 2"
proof -
  have "fresh_desk demo_orch" by (simp add: fresh_desk_def demo_orch_def demo_desk_def demo_guard_def)
  moreover have "(''h2'', 2, 1000) \<in> set (reserved (d_guard (o_desk demo_probing)))" by (simp add: demo_probing_def two_holds_def)
  ultimately show ?thesis by (rule holds_are_owned [OF demo_probing_steps])
qed


definition after_first :: desk where
  "after_first = snd (orch_finish demo_orch_config (demo_finish ''a1'') demo_orch_request ''h1'' (Some (20, 25)) Below demo_chain
     (demo_desk\<lparr>d_guard := two_holds\<rparr>))"

lemma demo_synced: "synced (d_tracker (demo_desk\<lparr>d_guard := g\<rparr>))"
  by (simp add: demo_desk_def new_tracker_def synced_def)

lemma first_settles:
  "\<exists>pc. orch_finish demo_orch_config (demo_finish ''a1'') demo_orch_request ''h1'' (Some (20, 25)) Below demo_chain
     (demo_desk\<lparr>d_guard := two_holds\<rparr>) = (pc, after_first) \<and> hold_of pc = None \<and>
     d_guard after_first = snd (settle_hold (demo_finish ''a1'') ''h1'' (Some 2) two_holds)"
proof -
  let ?f = "orch_finish demo_orch_config (demo_finish ''a1'') demo_orch_request ''h1'' (Some (20, 25)) Below demo_chain (demo_desk\<lparr>d_guard := two_holds\<rparr>)"
  have e: "?f = (fst ?f, after_first)" by (simp add: after_first_def)
  have "is_Ret (fst (settle_hold (demo_finish ''a1'') ''h1'' (Some 2) (d_guard (demo_desk\<lparr>d_guard := two_holds\<rparr>))))"
    using demo_settles(1) by simp
  from demo_finishes [OF demo_synced this e] e show ?thesis by auto
qed

lemma settled_requests_are_registered_witness:
  "\<exists>t \<in> set demo_chain.
     map_of (memory_agents (d_tracker after_first)) ''a1'' = Some (agent_for (demo_te ''a1'') (agent_request_for demo_orch_config demo_orch_request t))"
proof -
  from first_settles obtain pc where f: "orch_finish demo_orch_config (demo_finish ''a1'') demo_orch_request ''h1'' (Some (20, 25))
      Below demo_chain (demo_desk\<lparr>d_guard := two_holds\<rparr>) = (pc, after_first)" "hold_of pc = None" by blast
  from settled_requests_are_registered [OF f] show ?thesis by (auto simp: demo_finish_def demo_te_def)
qed

definition long_request :: orch_request where
  "long_request = demo_orch_request\<lparr>or_task := replicate 800000 CHR ''x'', or_tokens := Some 0\<rparr>"



end
