(* ===== verification/ControlPlaneAuth.thy ===== *)
theory ControlPlaneAuth
  imports Prelude
begin

text \<open>
  \<open>orchestrator/control_plane_auth.py\<close>, the middleware of \<open>control_plane_asgi.py\<close> and the gossip
  secret of \<open>mesh_auth.py\<close>.  The process environment, the token file, the fresh token and the order in
  which a set of tokens is iterated are inputs; a token file that exists can be read.
\<close>

section \<open>Configured tokens\<close>

record auth_env =
  environ :: "(string, string) dict"
  token_file :: "string option"
  set_order :: "string list \<Rightarrow> string list"

definition ENV_TOKEN :: string where "ENV_TOKEN = ''ORAMA_CONTROL_PLANE_TOKEN''"
definition ENV_TOKEN_LOCAL :: string where "ENV_TOKEN_LOCAL = ''ORAMA_CONTROL_PLANE_TOKEN_LOCAL''"
definition ENV_TOKEN_PEER :: string where "ENV_TOKEN_PEER = ''ORAMA_CONTROL_PLANE_TOKEN_PEER''"
definition ENV_PT_TOKEN :: string where "ENV_PT_TOKEN = ''PT_CONTROL_PLANE_TOKEN''"
definition ENV_INSECURE :: string where "ENV_INSECURE = ''ORAMA_INSECURE_DEV''"

definition strip_env :: "auth_env \<Rightarrow> string \<Rightarrow> string" where
  "strip_env e name = py_strip (dict_get (environ e) name [])"

definition control_plane_token :: "auth_env \<Rightarrow> string" where
  "control_plane_token e = strip_env e ENV_TOKEN"

definition read_persisted_token :: "auth_env \<Rightarrow> string" where
  "read_persisted_token e = (case token_file e of None \<Rightarrow> [] | Some t \<Rightarrow> py_strip t)"

text \<open>The loop with \<open>ordered\<close> and \<open>seen\<close>.\<close>

fun collect_unique :: "string list \<Rightarrow> string list \<Rightarrow> string list" where
  "collect_unique ordered [] = ordered"
| "collect_unique ordered (raw # raws) =
     (if raw \<noteq> [] \<and> raw \<notin> set ordered then collect_unique (ordered @ [raw]) raws else collect_unique ordered raws)"

definition pt_lane_token_candidates :: "auth_env \<Rightarrow> string list" where
  "pt_lane_token_candidates e = collect_unique [] [strip_env e ENV_PT_TOKEN, read_persisted_token e]"

definition orama_lane_token_candidates :: "auth_env \<Rightarrow> string list" where
  "orama_lane_token_candidates e = collect_unique [] [strip_env e ENV_TOKEN, strip_env e ENV_TOKEN_LOCAL]"

datatype auth_mode = Unset | PtOnly | OramaOnly | Joint

definition control_plane_auth_mode :: "auth_env \<Rightarrow> auth_mode" where
  "control_plane_auth_mode e =
     (let pt = pt_lane_token_candidates e; orama = orama_lane_token_candidates e in
      if pt \<noteq> [] \<and> orama \<noteq> [] then Joint else if pt \<noteq> [] then PtOnly
      else if orama \<noteq> [] then OramaOnly else Unset)"

definition merge_unique :: "string list list \<Rightarrow> string list" where
  "merge_unique groups = collect_unique [] (concat groups)"

definition collect_control_plane_token_candidates :: "auth_env \<Rightarrow> string list" where
  "collect_control_plane_token_candidates e =
     (let peer = strip_env e ENV_TOKEN_PEER; extra = (if peer \<noteq> [] then [peer] else []) in
      case control_plane_auth_mode e of
        Joint \<Rightarrow> merge_unique [pt_lane_token_candidates e, orama_lane_token_candidates e, extra]
      | PtOnly \<Rightarrow> merge_unique [pt_lane_token_candidates e, extra]
      | OramaOnly \<Rightarrow> merge_unique [orama_lane_token_candidates e, extra]
      | Unset \<Rightarrow> merge_unique [extra])"

datatype lane = PtLane | OramaLane

definition accepted_control_plane_tokens :: "auth_env \<Rightarrow> lane \<Rightarrow> string list" where
  "accepted_control_plane_tokens e scope =
     (let pt = pt_lane_token_candidates e; orama = orama_lane_token_candidates e in
      case control_plane_auth_mode e of
        Joint \<Rightarrow> (if scope = PtLane then pt else orama)
      | PtOnly \<Rightarrow> pt
      | OramaOnly \<Rightarrow> orama
      | Unset \<Rightarrow> (if scope = PtLane then pt else orama))"

definition outbound_control_plane_tokens :: "auth_env \<Rightarrow> string list" where
  "outbound_control_plane_tokens e =
     (let peer = strip_env e ENV_TOKEN_PEER; ordered = (if peer \<noteq> [] then [peer] else []) in
      collect_unique ordered (merge_unique [orama_lane_token_candidates e, pt_lane_token_candidates e]))"

definition auth_headers :: "auth_env \<Rightarrow> (string, string) dict" where
  "auth_headers e =
     (case outbound_control_plane_tokens e of
        [] \<Rightarrow> []
      | t # ts \<Rightarrow> [(''Authorization'', ''Bearer '' @ t)])"

section \<open>Checking a request\<close>

definition is_ascii :: "string \<Rightarrow> bool" where
  "is_ascii s = list_all (\<lambda>c. code c < 128) s"

text \<open>\<open>secrets.compare_digest\<close> refuses strings that are not ASCII.\<close>

definition compare_digest :: "string \<Rightarrow> string \<Rightarrow> bool res" where
  "compare_digest a b = (if is_ascii a \<and> is_ascii b then Ret (a = b) else Raise TypeError)"

fun matches_any :: "string \<Rightarrow> string list \<Rightarrow> bool res" where
  "matches_any provided [] = Ret False"
| "matches_any provided (t # ts) =
     res_bind (compare_digest provided t) (\<lambda>same. if same then Ret True else matches_any provided ts)"

definition token_matches_control_plane :: "auth_env \<Rightarrow> string \<Rightarrow> lane \<Rightarrow> bool res" where
  "token_matches_control_plane e provided scope =
     (if provided = [] then Ret False
      else matches_any provided (set_order e (accepted_control_plane_tokens e scope)))"

definition auth_enforced :: "auth_env \<Rightarrow> bool" where
  "auth_enforced e =
     (let insecure = lower (py_strip (dict_get (environ e) ENV_INSECURE [])) in
      if insecure \<in> {''1'', ''true'', ''yes''} then False
      else if orama_lane_token_candidates e \<noteq> [] \<or> pt_lane_token_candidates e \<noteq> [] then True
      else if insecure \<in> {''0'', ''false'', ''no''} then True
      else True)"

definition starts_with :: "string \<Rightarrow> string \<Rightarrow> bool" where
  "starts_with p s = (take (length p) s = p)"

definition control_plane_path_scope :: "string \<Rightarrow> lane" where
  "control_plane_path_scope path =
     (if starts_with ''/pipelines'' path then PtLane
      else if starts_with ''/orchestrate'' path then PtLane else OramaLane)"

definition request_token :: "string \<Rightarrow> string" where
  "request_token header = (if starts_with ''Bearer '' header then py_strip (drop 7 header) else [])"

definition verify_control_plane_auth :: "auth_env \<Rightarrow> string \<Rightarrow> string \<Rightarrow> unit res" where
  "verify_control_plane_auth e path header =
     (if \<not> auth_enforced e then Ret ()
      else (let scope = control_plane_path_scope path in
        if accepted_control_plane_tokens e scope = [] then Raise (HTTPException 503)
        else res_bind (token_matches_control_plane e (request_token header) scope) (\<lambda>ok.
          if ok then Ret () else Raise (HTTPException 401))))"

definition control_plane_auth_failure :: "auth_env \<Rightarrow> string \<Rightarrow> string \<Rightarrow> nat option res" where
  "control_plane_auth_failure e path header =
     (if \<not> auth_enforced e then Ret None
      else case verify_control_plane_auth e path header of
             Ret _ \<Rightarrow> Ret None
           | Raise (HTTPException c) \<Rightarrow> Ret (Some c)
           | Raise x \<Rightarrow> Raise x)"

definition lane_name :: "lane \<Rightarrow> string" where
  "lane_name l = (case l of PtLane \<Rightarrow> ''pt'' | OramaLane \<Rightarrow> ''orama'')"

definition authenticated_control_plane_lane :: "auth_env \<Rightarrow> string \<Rightarrow> string \<Rightarrow> string res" where
  "authenticated_control_plane_lane e path header =
     (if \<not> auth_enforced e then Ret ''insecure_dev''
      else res_bind (verify_control_plane_auth e path header) (\<lambda>_. Ret (lane_name (control_plane_path_scope path))))"

definition PUBLIC_PATHS :: "string list" where
  "PUBLIC_PATHS = [''/health'', ''/docs'', ''/openapi.json'', ''/redoc'']"

definition PROTECTED_GET_PREFIXES :: "string list" where
  "PROTECTED_GET_PREFIXES = [''/runtime'', ''/agents'', ''/activity'', ''/models'', ''/v1/jobs'',
     ''/user-input/status'', ''/user-input/next'', ''/budget'', ''/ecc/status'', ''/autoresearch/'']"

definition PROTECTED_POST_PREFIXES :: "string list" where
  "PROTECTED_POST_PREFIXES = [''/user-input'', ''/runtime/bootstrap'', ''/orchestrate'', ''/models'', ''/v1/jobs'',
     ''/pipelines'', ''/gossip'', ''/agents'', ''/ecc/sync'', ''/autoresearch/'']"

definition MUTATIONS :: "string list" where "MUTATIONS = [''POST'', ''PUT'', ''PATCH'', ''DELETE'']"

definition pt_path_requires_auth :: "string \<Rightarrow> string \<Rightarrow> bool" where
  "pt_path_requires_auth path meth =
     (let upper = map to_upper meth in
      if path \<in> set PUBLIC_PATHS then False
      else if upper = ''OPTIONS'' then False
      else if upper \<in> set MUTATIONS then True
      else if upper \<in> {''GET'', ''HEAD''} then list_ex (\<lambda>p. starts_with p path) PROTECTED_GET_PREFIXES
      else False)"

definition mutation_path_documented_in_post_prefixes :: "string \<Rightarrow> bool" where
  "mutation_path_documented_in_post_prefixes path = list_ex (\<lambda>p. starts_with p path) PROTECTED_POST_PREFIXES"

text \<open>The middleware: \<open>None\<close> passes the request on, \<open>Some c\<close> answers it with status \<open>c\<close>.\<close>

definition auth_middleware :: "auth_env \<Rightarrow> string \<Rightarrow> string \<Rightarrow> string \<Rightarrow> string \<Rightarrow> nat option res" where
  "auth_middleware e kind path meth header =
     (if kind \<noteq> ''http'' then Ret None
      else if pt_path_requires_auth path meth then control_plane_auth_failure e path header
      else Ret None)"

section \<open>The gossip secret\<close>

definition require_gossip_auth :: "auth_env \<Rightarrow> string \<Rightarrow> unit res" where
  "require_gossip_auth e header =
     (let secret = py_strip (dict_get (environ e) ''GOSSIP_SHARED_SECRET'' []);
          lan = lower (py_strip (dict_get (environ e) ''PT_BIND_LAN'' [])) \<in> {''1'', ''true'', ''yes''}
      in if lan \<and> secret = [] then Raise (HTTPException 503)
         else if secret = [] then Ret ()
         else res_bind (compare_digest header secret) (\<lambda>same. if same then Ret () else Raise (HTTPException 403)))"

section \<open>Start-up\<close>

definition ensure_control_plane_token :: "string \<Rightarrow> auth_env \<Rightarrow> string \<times> auth_env" where
  "ensure_control_plane_token generated e =
     (let existing = control_plane_token e; persisted = read_persisted_token e in
      if existing \<noteq> [] then (existing, e)
      else if persisted \<noteq> [] then (persisted, e\<lparr>environ := AList.update ENV_TOKEN persisted (environ e)\<rparr>)
      else if \<not> auth_enforced e then ([], e)
      else (generated, e\<lparr>environ := AList.update ENV_TOKEN generated (environ e), token_file := Some generated\<rparr>))"

section \<open>Redaction of the runtime payload\<close>

definition SAFE_ROUTING_KEYS :: "string list" where
  "SAFE_ROUTING_KEYS = [''distributed'', ''manager_endpoint'', ''manager_model'', ''manager_backend'',
     ''coder_endpoint'', ''coder_model'', ''coder_backend'', ''mac_reachable'', ''lmstudio_detected'',
     ''synced_at'', ''manager_affinity_alert'']"

definition dict_or_empty :: "json \<Rightarrow> payload" where
  "dict_or_empty v = (case v of JObj d \<Rightarrow> d | _ \<Rightarrow> [])"

definition safe_items :: "payload \<Rightarrow> payload" where
  "safe_items routing = List.map_filter (\<lambda>k. map_option (Pair k) (map_of routing k)) SAFE_ROUTING_KEYS"

definition redact_runtime_payload :: "payload option \<Rightarrow> payload res" where
  "redact_runtime_payload payload =
     (case payload of
        None \<Rightarrow> Ret [(''available'', JBool False), (''gateway_ready'', JBool False), (''distributed'', JBool False)]
      | Some [] \<Rightarrow> Ret [(''available'', JBool False), (''gateway_ready'', JBool False), (''distributed'', JBool False)]
      | Some (kv # p) \<Rightarrow>
          (let gateway = dict_or_empty (jget (kv # p) ''gateway''); routing = dict_or_empty (jget (kv # p) ''routing'');
               ready = JBool (truthy (jget gateway ''gateway_ready'') \<or> truthy (jget gateway ''ready''));
               port = jget gateway ''port''
           in res_bind (if truthy port then py_int port else Ret 0) (\<lambda>n.
             Ret (dict_update
               [(''available'', JBool True), (''gateway_ready'', ready),
                (''distributed'', JBool (truthy (jget routing ''distributed''))),
                (''gateway'', JObj [(''gateway_ready'', ready), (''running'', JBool (truthy (jget gateway ''running''))),
                                    (''port'', JInt n)]),
                (''routing'', JObj (safe_items routing))]
               (safe_items routing)))))"

section \<open>What a request must carry\<close>

lemma set_collect_unique: "set (collect_unique ordered raws) = set ordered \<union> {t \<in> set raws. t \<noteq> []}"
  by (induction ordered raws rule: collect_unique.induct) auto

lemmas lane_tokens = pt_lane_token_candidates_def orama_lane_token_candidates_def set_collect_unique

lemma lane_tokens_nonempty: "[] \<notin> set (pt_lane_token_candidates e)" "[] \<notin> set (orama_lane_token_candidates e)"
  by (simp_all add: lane_tokens)

lemma accepted_nonempty: "[] \<notin> set (accepted_control_plane_tokens e l)"
  by (simp add: accepted_control_plane_tokens_def Let_def lane_tokens_nonempty split: auth_mode.splits)

lemma matches_any_True: "matches_any t ts = Ret True \<Longrightarrow> t \<in> set ts"
  by (induction t ts rule: matches_any.induct) (auto simp: compare_digest_def split: if_splits)

lemma matches_any_ascii:
  "is_ascii t \<Longrightarrow> \<forall>x \<in> set ts. is_ascii x \<Longrightarrow> matches_any t ts = Ret (t \<in> set ts)"
  by (induction t ts rule: matches_any.induct) (auto simp: compare_digest_def)

definition iterates :: "auth_env \<Rightarrow> bool" where
  "iterates e \<longleftrightarrow> (\<forall>xs. set (set_order e xs) = set xs)"

text \<open>The answer of the middleware on a protected route: 503 when no token is configured for the route's
  lane, 401 for any other bearer token, and otherwise the request passes.\<close>

theorem middleware_decides:
  assumes "auth_enforced e" and "pt_path_requires_auth path meth" and "iterates e"
    and "ts = accepted_control_plane_tokens e (control_plane_path_scope path)"
    and "is_ascii (request_token header)" and "\<forall>t \<in> set ts. is_ascii t"
  shows "auth_middleware e ''http'' path meth header =
           Ret (if ts = [] then Some 503 else if request_token header \<in> set ts then None else Some 401)"
proof -
  have "set (set_order e ts) = set ts" using assms(3) by (simp add: iterates_def)
  with assms(5,6) have "matches_any (request_token header) (set_order e ts) = Ret (request_token header \<in> set ts)"
    by (subst matches_any_ascii) auto
  with accepted_nonempty [of e "control_plane_path_scope path"] assms(4)
  have "token_matches_control_plane e (request_token header) (control_plane_path_scope path) = Ret (request_token header \<in> set ts)"
    by (auto simp: token_matches_control_plane_def)
  with assms(1,2,4) show ?thesis
    by (simp add: auth_middleware_def control_plane_auth_failure_def verify_control_plane_auth_def Let_def)
qed

lemma middleware_passes:
  assumes "auth_enforced e" and "pt_path_requires_auth path meth" and "iterates e"
    and "auth_middleware e ''http'' path meth header = Ret None"
  shows "request_token header \<in> set (accepted_control_plane_tokens e (control_plane_path_scope path))"
proof -
  from assms(1,2,4) have "verify_control_plane_auth e path header = Ret ()"
    by (auto simp: auth_middleware_def control_plane_auth_failure_def split: res.splits exn.splits)
  with assms(1) have "token_matches_control_plane e (request_token header) (control_plane_path_scope path) = Ret True"
    by (auto simp: verify_control_plane_auth_def Let_def res_bind_eq_Ret split: if_splits)
  with assms(3) show ?thesis
    by (auto simp: token_matches_control_plane_def iterates_def dest!: matches_any_True split: if_splits)
qed


section \<open>What start-up leaves\<close>

lemma strip_env_update [simp]:
  "strip_env (e\<lparr>environ := AList.update k v (environ e)\<rparr>) n = (if n = k then py_strip v else strip_env e n)"
  "strip_env (e\<lparr>environ := AList.update k v (environ e), token_file := f\<rparr>) n = (if n = k then py_strip v else strip_env e n)"
  by (simp_all add: strip_env_def dict_simps)

lemma read_persisted_simps [simp]:
  "read_persisted_token (e\<lparr>environ := x, token_file := Some t\<rparr>) = py_strip t"
  "read_persisted_token (e\<lparr>environ := x\<rparr>) = read_persisted_token e"
  by (simp_all add: read_persisted_token_def)

lemma orama_token_accepted:
  assumes "strip_env e ENV_TOKEN = t" and "t \<noteq> []"
  shows "t \<in> set (accepted_control_plane_tokens e OramaLane)"
proof -
  have t: "t \<in> set (orama_lane_token_candidates e)" using assms by (simp add: lane_tokens)
  then have "orama_lane_token_candidates e \<noteq> []" by auto
  with t show ?thesis by (simp add: accepted_control_plane_tokens_def control_plane_auth_mode_def Let_def)
qed

text \<open>When authentication is enforced, start-up leaves a token that the Orama routes accept, and a second
  start-up in the same process changes nothing.\<close>

theorem startup_leaves_token:
  assumes "auth_enforced e" and "generated \<noteq> []" and "py_strip generated = generated"
    and "ensure_control_plane_token generated e = (t, e')"
  shows "t \<noteq> [] \<and> t \<in> set (accepted_control_plane_tokens e' OramaLane) \<and>
         ensure_control_plane_token generated' e' = (t, e')"
proof -
  have "strip_env e' ENV_TOKEN = t \<and> t \<noteq> []"
  proof (cases "control_plane_token e = [] \<and> read_persisted_token e \<noteq> []")
    case True
    then have "t = read_persisted_token e" "strip_env e' ENV_TOKEN = py_strip t"
      using assms(4) by (auto simp: ensure_control_plane_token_def Let_def)
    moreover have "py_strip (read_persisted_token e) = read_persisted_token e"
      by (cases "token_file e") (simp_all add: read_persisted_token_def, simp add: py_strip_def)
    ultimately show ?thesis using True by simp
  next
    case False
    then show ?thesis
      using assms by (auto simp: ensure_control_plane_token_def control_plane_token_def Let_def split: if_splits)
  qed
  then show ?thesis
    using orama_token_accepted [of e' t] by (simp add: ensure_control_plane_token_def control_plane_token_def)
qed

text \<open>With only a PT token configured, start-up generates an Orama token and stores it where the PT lane
  reads its own, so that both lanes accept it.\<close>

theorem generated_token_crosses_lanes:
  assumes "strip_env e ENV_PT_TOKEN \<noteq> []" and "control_plane_token e = []" and "read_persisted_token e = []"
    and "auth_enforced e" and "generated \<noteq> []" and "py_strip generated = generated"
    and "ensure_control_plane_token generated e = (t, e')"
  shows "control_plane_auth_mode e' = Joint \<and> t = generated \<and>
         t \<in> set (accepted_control_plane_tokens e' OramaLane) \<and> t \<in> set (accepted_control_plane_tokens e' PtLane)"
proof -
  have t: "t = generated" and e': "e' = e\<lparr>environ := AList.update ENV_TOKEN generated (environ e), token_file := Some generated\<rparr>"
    using assms by (auto simp: ensure_control_plane_token_def Let_def)
  have o: "t \<in> set (orama_lane_token_candidates e')" and p: "t \<in> set (pt_lane_token_candidates e')"
    using assms(5,6) by (simp_all add: lane_tokens t e')
  then have "orama_lane_token_candidates e' \<noteq> []" and "pt_lane_token_candidates e' \<noteq> []" by auto
  then have j: "control_plane_auth_mode e' = Joint" by (simp add: control_plane_auth_mode_def)
  with o p t show ?thesis by (simp add: accepted_control_plane_tokens_def)
qed

section \<open>What a runtime response shows\<close>

definition same_public :: "payload \<Rightarrow> payload \<Rightarrow> bool" where
  "same_public p q \<longleftrightarrow>
     (\<forall>k \<in> {''gateway_ready'', ''ready'', ''running'', ''port''}.
        jget (dict_or_empty (jget p ''gateway'')) k = jget (dict_or_empty (jget q ''gateway'')) k) \<and>
     (\<forall>k \<in> set SAFE_ROUTING_KEYS.
        map_of (dict_or_empty (jget p ''routing'')) k = map_of (dict_or_empty (jget q ''routing'')) k)"

lemma safe_items_cong:
  "\<forall>k \<in> set SAFE_ROUTING_KEYS. map_of r k = map_of r' k \<Longrightarrow> safe_items r = safe_items r'"
  by (simp add: safe_items_def List.map_filter_def cong: filter_cong map_cong)

text \<open>C38: The redacted runtime payload depends on nothing but four gateway fields and the safe routing keys:
  payloads that agree there give the same response.\<close>

theorem redaction_noninterference:
  assumes "p \<noteq> []" and "q \<noteq> []" and "same_public p q"
  shows "redact_runtime_payload (Some p) = redact_runtime_payload (Some q)"
proof -
  let ?g = "\<lambda>p. dict_or_empty (jget p ''gateway'')" and ?r = "\<lambda>p. dict_or_empty (jget p ''routing'')"
  have g: "jget (?g p) ''gateway_ready'' = jget (?g q) ''gateway_ready''" "jget (?g p) ''ready'' = jget (?g q) ''ready''"
    "jget (?g p) ''running'' = jget (?g q) ''running''" "jget (?g p) ''port'' = jget (?g q) ''port''"
    using assms(3) by (simp_all add: same_public_def)
  have r: "safe_items (?r p) = safe_items (?r q)"
    using assms(3) by (intro safe_items_cong) (simp add: same_public_def)
  have "''distributed'' \<in> set SAFE_ROUTING_KEYS" by (simp add: SAFE_ROUTING_KEYS_def)
  with assms(3) have d: "jget (?r p) ''distributed'' = jget (?r q) ''distributed''"
    by (simp add: same_public_def jget_def dict_get_def)
  obtain kv p' kw q' where "p = kv # p'" "q = kw # q'" using assms(1,2) by (metis list.exhaust)
  with g r d show ?thesis by (simp add: redact_runtime_payload_def Let_def)
qed

section \<open>A deployment with both lanes\<close>

definition demo_auth :: auth_env where
  "demo_auth = \<lparr>environ = [(ENV_TOKEN, ''o1''), (ENV_PT_TOKEN, ''p1'')], token_file = None, set_order = rev\<rparr>"

lemma demo_iterates: "iterates demo_auth"
  by (simp add: iterates_def demo_auth_def)

lemma demo_auth_facts:
  "auth_enforced demo_auth" "control_plane_auth_mode demo_auth = Joint"
  "pt_path_requires_auth ''/pipelines/x/run'' ''post''" "control_plane_path_scope ''/pipelines/x/run'' = PtLane"
  "accepted_control_plane_tokens demo_auth PtLane = [''p1'']"
  "request_token ''Bearer o1'' = ''o1''" "is_ascii ''o1''" "is_ascii ''p1''"
  "map to_upper ''post'' \<in> set MUTATIONS" "''/pipelines/x/run'' \<notin> set PUBLIC_PATHS"
  "auth_middleware demo_auth ''http'' ''/pipelines/x/run'' ''post'' ''Bearer p1'' = Ret None"
  by code_simp+

lemma middleware_decides_witness:
  "auth_middleware demo_auth ''http'' ''/pipelines/x/run'' ''post'' ''Bearer o1'' = Ret (Some 401)"
  using middleware_decides [OF demo_auth_facts(1,3) demo_iterates refl, of "''Bearer o1''"] demo_auth_facts by simp


definition demo_pt_only :: auth_env where
  "demo_pt_only = \<lparr>environ = [(ENV_PT_TOKEN, ''p1'')], token_file = None, set_order = rev\<rparr>"

definition demo_startup :: "string \<times> auth_env" where
  "demo_startup = ensure_control_plane_token ''g1'' demo_pt_only"

lemma startup_leaves_token_witness:
  "fst demo_startup \<in> set (accepted_control_plane_tokens (snd demo_startup) OramaLane) \<and>
   ensure_control_plane_token ''g2'' (snd demo_startup) = demo_startup"
proof -
  have "auth_enforced demo_pt_only" "py_strip ''g1'' = ''g1''" by code_simp+
  from startup_leaves_token [OF this(1) _ this(2), of "fst demo_startup" "snd demo_startup" "''g2''"]
  show ?thesis by (simp add: demo_startup_def)
qed

lemma generated_token_crosses_lanes_witness:
  "fst demo_startup \<in> set (accepted_control_plane_tokens (snd demo_startup) PtLane)"
proof -
  have "strip_env demo_pt_only ENV_PT_TOKEN \<noteq> []" "control_plane_token demo_pt_only = []"
    "read_persisted_token demo_pt_only = []" "auth_enforced demo_pt_only" "py_strip ''g1'' = ''g1''"
    by code_simp+
  moreover have "ensure_control_plane_token ''g1'' demo_pt_only = (fst demo_startup, snd demo_startup)"
    by (simp add: demo_startup_def)
  ultimately show ?thesis using generated_token_crosses_lanes [of demo_pt_only "''g1''"] by blast
qed

lemma redaction_noninterference_witness:
  "redact_runtime_payload (Some [(''gateway'', JObj [(''port'', JInt 8000), (''token'', JStr ''s1'')])]) =
   redact_runtime_payload (Some [(''secrets'', JStr ''x''), (''gateway'', JObj [(''port'', JInt 8000)])])"
  by (rule redaction_noninterference) (simp_all add: same_public_def jget_def dict_get_def dict_or_empty_def)

end
