(* ===== verification/ServiceApi.thy ===== *)
theory ServiceApi
  imports JobApi Orchestrate ControlPlaneAuth GossipBus Tier5Execution
begin

text \<open>
  The other endpoints of \<open>fastapi_app.py\<close>: agents, the user-input queue, gossip, route hints and the paid
  pipelines.  A request is what the framework has parsed and validated; the result is the response, or an
  exception that the framework turns into status 500.
\<close>

section \<open>Agents\<close>

definition list_agents_endpoint :: "tracker_env \<Rightarrow> string option \<Rightarrow> tracker \<Rightarrow> http_response res \<times> tracker" where
  "list_agents_endpoint env status s =
     (case list_agents_of env status s of
        (Raise e, s1) \<Rightarrow> (Raise e, s1)
      | (Ret as, s1) \<Rightarrow> (Ret (HttpOk [(''agents'', JList (map (\<lambda>a. JObj (asdict a)) as))]), s1))"

definition conflicts_endpoint :: "tracker_env \<Rightarrow> tracker_env \<Rightarrow> tracker \<Rightarrow> http_response res \<times> tracker" where
  "conflicts_endpoint env1 env2 s =
     (case detect_conflicts env1 env2 s of
        (Raise e, s1) \<Rightarrow> (Raise e, s1)
      | (Ret [], s1) \<Rightarrow>
          (Ret (HttpOk [(''conflict'', JBool False), (''message'', JStr ''No conflicts''), (''existing_agents'', JList [])]), s1)
      | (Ret (a # as), s1) \<Rightarrow>
          (Ret (HttpOk [(''conflict'', JBool True),
             (''message'', JStr (show_nat (length (a # as)) @ '' duplicate-role agent(s) detected. '' @
                ''Resolve or pass force=true on /orchestrate to override.'')),
             (''existing_agents'', JList (map (\<lambda>x. JObj (asdict x)) (a # as)))]), s1))"

definition destroy_agent_endpoint :: "tracker_env \<Rightarrow> string \<Rightarrow> tracker \<Rightarrow> http_response res \<times> tracker" where
  "destroy_agent_endpoint env k s =
     (case destroy env k s of
        (Raise e, s1) \<Rightarrow> (Raise e, s1)
      | (Ret ok, s1) \<Rightarrow> (Ret (if ok then HttpOk [(''destroyed'', JStr k)] else HttpError 404 ''Agent not found''), s1))"

definition gc_stopped_endpoint :: "tracker_env \<Rightarrow> tracker \<Rightarrow> http_response res \<times> tracker" where
  "gc_stopped_endpoint env s =
     (case destroy_stopped env s of
        (Raise e, s1) \<Rightarrow> (Raise e, s1)
      | (Ret n, s1) \<Rightarrow> (Ret (HttpOk [(''removed'', JInt (int n))]), s1))"

section \<open>The user-input queue\<close>

text \<open>\<open>deque(maxlen=50)\<close>, left end first: \<open>appendleft\<close> on a full deque drops its right end.\<close>

record user_entry =
  ue_message :: string
  ue_source :: string
  ue_ts :: rat

definition USER_INPUT_MAXLEN :: nat where "USER_INPUT_MAXLEN = 50"

definition appendleft :: "'a \<Rightarrow> 'a list \<Rightarrow> 'a list" where
  "appendleft x q = take USER_INPUT_MAXLEN (x # q)"

definition entry_json :: "user_entry \<Rightarrow> json" where
  "entry_json e = JObj [(''message'', JStr (ue_message e)), (''source'', JStr (ue_source e)), (''ts'', JFloat (ue_ts e))]"

definition post_user_input :: "rat \<Rightarrow> string \<Rightarrow> string \<Rightarrow> user_entry list \<Rightarrow> http_response \<times> user_entry list" where
  "post_user_input ts raw source q =
     (let message = py_strip raw in
      if message = [] then (HttpError 422 ''message is required'', q)
      else (let e = \<lparr>ue_message = message, ue_source = source, ue_ts = ts\<rparr>; q' = appendleft e q in
            (HttpOk [(''status'', JStr ''queued''), (''queue_depth'', JInt (int (length q'))), (''entry'', entry_json e)], q')))"

definition get_user_input_next :: "user_entry list \<Rightarrow> http_response \<times> user_entry list" where
  "get_user_input_next q =
     (if q = [] then (HttpOk [(''message'', JNull)], q)
      else (HttpOk (case entry_json (last q) of JObj d \<Rightarrow> d | _ \<Rightarrow> []), butlast q))"

definition get_user_input_status :: "user_entry list \<Rightarrow> http_response" where
  "get_user_input_status q = HttpOk [(''queue_depth'', JInt (int (length q))), (''pending'', JList (map entry_json q))]"

section \<open>Gossip\<close>

definition gossip_emit ::
    "auth_env \<Rightarrow> run_env \<Rightarrow> nat \<Rightarrow> string \<Rightarrow> string \<Rightarrow> payload \<Rightarrow> string option \<Rightarrow> bus \<Rightarrow> http_response res \<times> bus" where
  "gossip_emit e env draw header ev_type p uuid b =
     (case require_gossip_auth e header of
        Raise (HTTPException c) \<Rightarrow> (Ret (HttpError c ''gossip authentication''), b)
      | Raise x \<Rightarrow> (Raise x, b)
      | Ret _ \<Rightarrow>
          (case emit env draw b ev_type p uuid of
             (Raise x, b') \<Rightarrow> (Raise x, b')
           | (Ret u, b') \<Rightarrow> (Ret (HttpOk [(''ok'', JBool True), (''uuid'', JStr u)]), b')))"

definition load_peers :: "string \<Rightarrow> string list" where
  "load_peers raw0 =
     (let raw = py_strip raw0 in
      if raw = [] then []
      else filter (\<lambda>p. take 7 p = ''http://'' \<or> take 8 p = ''https://'')
             (filter (\<lambda>p. p \<noteq> []) (map py_strip (split_on CHR '','' raw))))"

definition row_json :: "gossip_row \<Rightarrow> json" where
  "row_json r = JObj [(''row_id'', JInt (int (row_id r))), (''uuid'', JStr (event_uuid r)), (''ts'', JFloat (row_ts r)),
     (''event_type'', JStr (event_type r)), (''payload'', JObj (row_payload r))]"

definition gossip_tail :: "auth_env \<Rightarrow> string \<Rightarrow> nat \<Rightarrow> string option \<Rightarrow> bus \<Rightarrow> http_response res" where
  "gossip_tail e header limit ev_type b =
     (case require_gossip_auth e header of
        Raise (HTTPException c) \<Rightarrow> Ret (HttpError c ''gossip authentication'')
      | Raise x \<Rightarrow> Raise x
      | Ret _ \<Rightarrow> Ret (HttpOk [(''events'', JList (map row_json (tail b limit ev_type))),
                 (''peers'', jstrs (load_peers (dict_get (environ e) ''GOSSIP_PEERS'' [])))]))"

section \<open>Route hints\<close>

definition PORTAL_ALIASES :: "(string, string) dict" where
  "PORTAL_ALIASES = [(''mac'', ''mac-studio''), (''windows'', ''win-rtx3080''), (''win'', ''win-rtx3080''), (''shared'', ''shared-ollama'')]"

definition normalize_preferred_device :: "string option \<Rightarrow> string option" where
  "normalize_preferred_device v =
     (case v of
        None \<Rightarrow> None
      | Some s \<Rightarrow>
          (let cleaned = py_strip s in
           if cleaned = [] \<or> lower cleaned \<in> {''auto'', ''none'', ''default''} then None
           else Some (dict_get PORTAL_ALIASES (lower cleaned) cleaned)))"

definition backend_hint_from_target :: "registry_target \<Rightarrow> string option" where
  "backend_hint_from_target t =
     (let backend = lower (py_strip (tg_backend t)); device = lower (py_strip (tg_device t)) in
      if backend \<in> {''lm-studio'', ''lmstudio'', ''lm_studio''}
      then Some (if has_sub ''win'' device then ''lmstudio-win'' else ''lmstudio-mac'')
      else if backend = [] then None else Some backend)"

definition model_hint_from_target :: "registry_target \<Rightarrow> string option" where
  "model_hint_from_target t =
     (if tg_api_model t \<noteq> [] then Some (tg_api_model t) else if tg_name t \<noteq> [] then Some (tg_name t) else None)"

definition stripped_option :: "string option \<Rightarrow> string option" where
  "stripped_option v = (case v of None \<Rightarrow> None | Some s \<Rightarrow> if py_strip s = [] then None else Some (py_strip s))"

definition route_hints ::
    "string option \<Rightarrow> string option \<Rightarrow> registry_target list \<Rightarrow> payload \<times> string option \<times> string option" where
  "route_hints role specialization chain =
     (let mapped = (case stripped_option role of
                      None \<Rightarrow> None
                    | Some r \<Rightarrow> map_option (Pair r) (resolve_role_backend r (stripped_option specialization)))
      in case mapped of
           Some (r, b, m) \<Rightarrow> ([(''role'', JStr r)], Some b, Some m)
         | None \<Rightarrow>
             (case chain of
                [] \<Rightarrow> ([], None, None)
              | t # ts \<Rightarrow> ([], backend_hint_from_target t, model_hint_from_target t)))"

definition target_json :: "registry_target \<Rightarrow> json" where
  "target_json t = JObj [(''name'', JStr (tg_name t)), (''backend'', JStr (tg_backend t)), (''device'', JStr (tg_device t)),
     (''host'', JStr (tg_host t)), (''port'', JInt (tg_port t)), (''context_window'', tg_context_window t),
     (''roles'', jstrs (tg_roles t)), (''priority'', JFloat (tg_priority t)), (''online'', tg_online t),
     (''reasoning'', tg_reasoning t), (''api_model'', JStr (tg_api_model t)), (''api_path'', tg_api_path t),
     (''provider_options'', tg_provider_options t), (''provenance'', tg_provenance t),
     (''frugality_tier'', jopt JInt (tg_frugality_tier t))]"

definition list_models_endpoint ::
    "registry_env \<Rightarrow> registry_files \<Rightarrow> endpoint_cache \<Rightarrow> http_response res \<times> endpoint_cache" where
  "list_models_endpoint env fs cache =
     (case list_models env fs True cache of
        (Raise e, c1) \<Rightarrow> (Raise e, c1)
      | (Ret ts, c1) \<Rightarrow> (Ret (HttpOk [(''models'', JList (map target_json ts))]), c1))"

definition hint_fields :: "string option \<Rightarrow> string list \<Rightarrow> payload" where
  "hint_fields hint ks = (case hint of None \<Rightarrow> [] | Some h \<Rightarrow> if h = [] then [] else map (\<lambda>k. (k, JStr h)) ks)"

text \<open>The body of \<open>GET\<close> and \<open>POST /models/route\<close>.\<close>

definition models_route_payload ::
    "registry_env \<Rightarrow> policy_env \<Rightarrow> registry_files \<Rightarrow> string \<Rightarrow> string option \<Rightarrow> string option \<Rightarrow> string option \<Rightarrow>
     endpoint_cache \<Rightarrow> payload res \<times> endpoint_cache" where
  "models_route_payload env pol fs kind device role specialization cache =
     (let task = py_strip (if kind = [] then ''default'' else kind) in
      case route_task env pol fs (if task = [] then ''default'' else task) (normalize_preferred_device device) False False None cache of
        (Raise e, c1) \<Rightarrow> (Raise e, c1)
      | (Ret chain, c1) \<Rightarrow>
          (case route_hints role specialization chain of
             (extra, backend, model) \<Rightarrow>
               (Ret ([(''fallback_chain'', JList (map target_json chain)), (''routing_source'', JStr ''pt:/models/route'')]
                  @ extra @ hint_fields backend [''backend_hint'', ''backend'', ''provider'']
                  @ hint_fields model [''model_hint'', ''model'', ''model_id'']), c1)))"


section \<open>Paid pipelines\<close>

record approval_request =
  aq_trace_id :: string
  aq_approved_by :: string
  aq_purpose :: string
  aq_recipe :: string
  aq_route_tier :: int
  aq_max_tokens :: int
  aq_max_cost :: rat
  aq_expires_at :: string
  aq_scope :: "string list"

definition approval_of :: "approval_request \<Rightarrow> rat \<Rightarrow> pipeline_approval" where
  "approval_of q t =
     \<lparr>trace_id = aq_trace_id q, approved_by = aq_approved_by q, purpose = aq_purpose q, approved_recipe = aq_recipe q,
      route_tier = aq_route_tier q, approved_tokens = aq_max_tokens q, max_cost_usd = aq_max_cost q,
      expires_at = Aware t, scope = aq_scope q\<rparr>"

definition register_tiered_pipeline_approval ::
    "time_lib \<Rightarrow> approval_request \<Rightarrow> approval_dir \<Rightarrow> http_response res \<times> approval_dir" where
  "register_tiered_pipeline_approval tmlib q dir =
     (case fromisoformat tmlib (aq_expires_at q) of
        Some (Aware t) \<Rightarrow>
          (case register_pipeline_approval tmlib (approval_of q t) dir of
             (Ret _, dir') \<Rightarrow> (Ret (HttpOk [(''status'', JStr ''registered''), (''trace_id'', JStr (aq_trace_id q))]), dir')
           | (Raise e, dir') \<Rightarrow>
               (if e = PipelineApprovalError then Ret (HttpError 422 ''Unable to register approval'') else Raise e, dir'))
      | _ \<Rightarrow> (Ret (HttpError 422 ''expires_at must be a timezone-aware ISO-8601 timestamp''), dir))"

definition MAX_CONTROL_PLANE_DEPTH :: nat where "MAX_CONTROL_PLANE_DEPTH = 2"

text \<open>The depth of a header of digits; a number with more significant digits than the maximum is beyond
  it, whatever its value.\<close>

definition digits_depth :: "string \<Rightarrow> nat" where
  "digits_depth raw =
     (let significant = (if dropWhile (\<lambda>c. c = CHR ''0'') raw = [] then ''0'' else dropWhile (\<lambda>c. c = CHR ''0'') raw) in
      if length (show_nat MAX_CONTROL_PLANE_DEPTH) < length significant then Suc MAX_CONTROL_PLANE_DEPTH
      else nat (digits_value raw))"

definition depth_failure :: "string \<Rightarrow> http_response option" where
  "depth_failure header =
     (let raw = py_strip header in
      if raw = [] then None
      else if \<not> list_all is_digit raw then Some (HttpError 422 ''CONTROL_PLANE_DEPTH_INVALID'')
      else if MAX_CONTROL_PLANE_DEPTH < digits_depth raw then Some (HttpError 409 ''CONTROL_PLANE_LOOP'')
      else None)"

record pipeline_request =
  pq_prompt :: string
  pq_trace_id :: string
  pq_privacy_critical :: bool
  pq_override_confirmed :: bool
  pq_override_reason :: "string option"

definition pipeline_request_valid :: "pipeline_request \<Rightarrow> bool" where
  "pipeline_request_valid q \<longleftrightarrow> length (pq_prompt q) \<le> 32768 \<and> py_strip (pq_prompt q) \<noteq> []"

text \<open>The exception handlers; \<open>retryable\<close> is the flag of a transport error, which the value of the
  exception does not carry.\<close>

definition pipeline_error_status :: "bool \<Rightarrow> exn \<Rightarrow> nat option" where
  "pipeline_error_status retryable e =
     (case e of
        BudgetConflictError \<Rightarrow> Some 409
      | BudgetInsufficientError \<Rightarrow> Some 402
      | BudgetUnavailableError \<Rightarrow> Some 503
      | PipelineDisabledError \<Rightarrow> Some 409
      | PipelineApprovalError \<Rightarrow> Some 403
      | PipelinePolicyError \<Rightarrow> Some 403
      | PipelineCandidateUnavailableError False \<Rightarrow> Some (if retryable then 503 else 502)
      | PipelineCandidateUnavailableError True \<Rightarrow> Some 503
      | PipelineExecutionError \<Rightarrow> Some 503
      | PipelineConfigError \<Rightarrow> Some 503
      | Tier5ConfigurationError \<Rightarrow> Some 500
      | _ \<Rightarrow> None)"

definition pipeline_failure :: "bool \<Rightarrow> exn \<Rightarrow> http_response res" where
  "pipeline_failure retryable e =
     (case pipeline_error_status retryable e of
        Some c \<Rightarrow> Ret (HttpError c ''pipeline'')
      | None \<Rightarrow> Raise e)"

definition run_state_name :: "run_state \<Rightarrow> string" where
  "run_state_name st =
     (case st of Reserved \<Rightarrow> ''RESERVED'' | Dispatched \<Rightarrow> ''DISPATCHED'' | Settled \<Rightarrow> ''SETTLED''
      | Released \<Rightarrow> ''RELEASED'' | ConsumedUnknown \<Rightarrow> ''CONSUMED_UNKNOWN'')"

definition pipeline_reply :: "string \<Rightarrow> pipeline_recipe \<Rightarrow> pipeline_result \<Rightarrow> budget_run \<Rightarrow> payload" where
  "pipeline_reply name r res row =
     [(''status'', JStr (if run_state row = Settled then ''completed'' else lower (run_state_name (run_state row)))),
      (''run_id'', JStr (run_id row)),
      (''recipe'', JStr (if result_recipe res \<noteq> [] then result_recipe res else name)),
      (''output'', result_output res), (''replay'', JBool (replay res)), (''requested_tokens'', JInt (requested_tokens res)),
      (''models_used'', JObj (map (\<lambda>(k, v). (k, JStr v)) (models_used res))),
      (''held_microusd'', JInt (held row)), (''settled_microusd'', JInt (settled row)),
      (''cost_reservation_usd'', JFloat (cost_reservation_usd r))]"

definition run_id_of :: "string \<Rightarrow> string" where
  "run_id_of key = ''run-'' @ py_strip key"

text \<open>The checks before the run: the response, or the recipe and the approval.\<close>

definition pipeline_checks ::
    "pipeline_files \<Rightarrow> runner \<Rightarrow> time_lib \<Rightarrow> approval_dir \<Rightarrow> string \<Rightarrow> pipeline_request \<Rightarrow> string \<Rightarrow> string \<Rightarrow>
     (http_response + pipeline_recipe \<times> pipeline_approval) res" where
  "pipeline_checks fs rn tmlib dir name q key depth =
     (if key = [] \<or> \<not> uuid4_match (py_strip key)
      then Ret (Inl (HttpError 422 ''Idempotency-Key header is required and must be a valid canonical UUIDv4''))
      else case depth_failure depth of
        Some resp \<Rightarrow> Ret (Inl resp)
      | None \<Rightarrow>
          (case recipe rn name of
             Raise PipelineConfigError \<Rightarrow> Ret (Inl (HttpError 404 ''Unknown pipeline recipe''))
           | Raise e \<Rightarrow> Raise e
           | Ret r \<Rightarrow>
               if \<not> tiered_pipeline_enabled fs then Ret (Inl (HttpError 409 ''Tier-5 pipelines are disabled''))
               else (case load_pipeline_approval (pipeline_files.repr_of fs) tmlib (pq_trace_id q) dir of
                       Raise PipelineApprovalError \<Rightarrow> Ret (Inl (HttpError 403 ''Pipeline approval invalid, expired, or revoked''))
                     | Raise e \<Rightarrow> Raise e
                     | Ret a \<Rightarrow> Ret (Inr (r, a)))))"

definition run_tiered_pipeline ::
    "'w service \<Rightarrow> pipeline_files \<Rightarrow> runner \<Rightarrow> time_lib \<Rightarrow> approval_dir \<Rightarrow> transport \<Rightarrow> 'w sender \<Rightarrow> bool \<Rightarrow> string \<Rightarrow>
     pipeline_request \<Rightarrow> string \<Rightarrow> string \<Rightarrow> ledger \<times> 'w \<Rightarrow> http_response res \<times> ledger \<times> 'w" where
  "run_tiered_pipeline sv fs rn tmlib dir tp send retryable name q key depth lw =
     (case pipeline_checks fs rn tmlib dir name q key depth of
        Raise e \<Rightarrow> (Raise e, lw)
      | Ret (Inl resp) \<Rightarrow> (Ret resp, lw)
      | Ret (Inr (r, a)) \<Rightarrow>
          (case execute sv rn (transport_dispatcher tp send) (run_id_of key) (py_strip key) name (pq_prompt q) a ''reasoning''
                  (pq_privacy_critical q) (pq_override_confirmed q) (pq_override_reason q) None lw [] of
             (Raise e, lw', _) \<Rightarrow> (pipeline_failure retryable e, lw')
           | (Ret (res, row), lw', _) \<Rightarrow> (Ret (HttpOk (pipeline_reply name r res row)), lw')))"

definition get_pipeline_run_status :: "string \<Rightarrow> ledger \<Rightarrow> http_response" where
  "get_pipeline_run_status rid l =
     (case get_reservation l rid of
        None \<Rightarrow> HttpError 404 ''Pipeline run not found''
      | Some row \<Rightarrow> HttpOk [(''run_id'', JStr (run_id row)), (''state'', JStr (run_state_name (run_state row))),
          (''policy_cap_microusd'', JInt (policy_cap row)), (''held_microusd'', JInt (held row)),
          (''settled_microusd'', JInt (settled row))])"

section \<open>What the endpoints promise\<close>

text \<open>A request whose key is no UUID or whose depth header is no number up to two reaches neither the
  ledger nor the provider.\<close>

theorem malformed_requests_change_nothing:
  assumes "\<not> uuid4_match (py_strip key) \<or> (py_strip depth \<noteq> [] \<and> \<not> list_all is_digit (py_strip depth)) \<or>
      MAX_CONTROL_PLANE_DEPTH < digits_depth (py_strip depth) \<and> py_strip depth \<noteq> []"
  shows "\<exists>c d. c \<in> {409, 422} \<and>
    run_tiered_pipeline sv fs rn tmlib dir tp send retryable name q key depth lw = (Ret (HttpError c d), lw)"
  using assms by (auto simp: run_tiered_pipeline_def pipeline_checks_def depth_failure_def Let_def)

lemma settled_reply:
  "run_state row = Settled \<Longrightarrow>
     jget (pipeline_reply name r res row) ''status'' = JStr ''completed'' \<and>
     jget (pipeline_reply name r res row) ''settled_microusd'' = JInt (settled row)"
  by (simp add: pipeline_reply_def jget_def dict_get_def)

lemma settled_status:
  "find_run l rid = Some row \<Longrightarrow> run_state row = Settled \<Longrightarrow>
     \<exists>p. get_pipeline_run_status rid l = HttpOk p \<and> jget p ''state'' = JStr ''SETTLED'' \<and>
         jget p ''settled_microusd'' = JInt (settled row)"
  by (simp add: get_pipeline_run_status_def get_reservation_def jget_def dict_get_def run_state_name_def)



text \<open>The queue as its clients see it: messages oldest first, of which the newest fifty are kept.\<close>

datatype input_op = PostInput rat string string | NextInput

definition input_step :: "input_op \<Rightarrow> user_entry list \<Rightarrow> http_response \<times> user_entry list" where
  "input_step op q = (case op of PostInput ts raw source \<Rightarrow> post_user_input ts raw source q | NextInput \<Rightarrow> get_user_input_next q)"

fun input_run :: "input_op list \<Rightarrow> user_entry list \<Rightarrow> http_response list \<times> user_entry list" where
  "input_run [] q = ([], q)"
| "input_run (op # ops) q =
     (case input_step op q of (r, q1) \<Rightarrow> (case input_run ops q1 of (rs, q2) \<Rightarrow> (r # rs, q2)))"

fun fifo_step :: "input_op \<Rightarrow> user_entry list \<Rightarrow> http_response \<times> user_entry list" where
  "fifo_step (PostInput ts raw source) es =
     (if py_strip raw = [] then (HttpError 422 ''message is required'', es)
      else (let e = \<lparr>ue_message = py_strip raw, ue_source = source, ue_ts = ts\<rparr>;
                es' = (if length es < USER_INPUT_MAXLEN then es @ [e] else tl es @ [e])
            in (HttpOk [(''status'', JStr ''queued''), (''queue_depth'', JInt (int (length es'))), (''entry'', entry_json e)], es')))"
| "fifo_step NextInput [] = (HttpOk [(''message'', JNull)], [])"
| "fifo_step NextInput (e # es) =
     (HttpOk [(''message'', JStr (ue_message e)), (''source'', JStr (ue_source e)), (''ts'', JFloat (ue_ts e))], es)"

fun fifo_run :: "input_op list \<Rightarrow> user_entry list \<Rightarrow> http_response list \<times> user_entry list" where
  "fifo_run [] es = ([], es)"
| "fifo_run (op # ops) es =
     (case fifo_step op es of (r, es1) \<Rightarrow> (case fifo_run ops es1 of (rs, es2) \<Rightarrow> (r # rs, es2)))"

lemma appendleft_rev:
  "length q \<le> USER_INPUT_MAXLEN \<Longrightarrow>
     rev (appendleft x q) = (if length q < USER_INPUT_MAXLEN then rev q @ [x] else tl (rev q) @ [x])"
proof -
  assume a: "length q \<le> USER_INPUT_MAXLEN"
  have "rev (take USER_INPUT_MAXLEN (x # q)) = tl (rev q) @ [x]" if "\<not> length q < USER_INPUT_MAXLEN"
  proof -
    from that a have l: "length q = USER_INPUT_MAXLEN" by simp
    then have "take USER_INPUT_MAXLEN (x # q) = x # butlast q"
      by (cases USER_INPUT_MAXLEN) (simp_all add: USER_INPUT_MAXLEN_def butlast_conv_take)
    then show ?thesis by simp (metis butlast_rev rev_rev_ident)
  qed
  with a show ?thesis by (simp add: appendleft_def)
qed

lemma input_step_fifo:
  assumes "length q \<le> USER_INPUT_MAXLEN" and "input_step op q = (r, q')"
  shows "fifo_step op (rev q) = (r, rev q') \<and> length q' \<le> USER_INPUT_MAXLEN"
proof (cases op)
  case (PostInput ts raw source)
  let ?e = "\<lparr>ue_message = py_strip raw, ue_source = source, ue_ts = ts\<rparr>"
  have "length (appendleft ?e q) \<le> USER_INPUT_MAXLEN" by (simp add: appendleft_def)
  moreover have "length (rev (appendleft ?e q)) = length (appendleft ?e q)" by simp
  ultimately show ?thesis
    using assms PostInput appendleft_rev [OF assms(1), of ?e]
    by (auto simp: input_step_def post_user_input_def Let_def split: if_splits)
next
  case NextInput
  with assms show ?thesis
    by (cases q rule: rev_cases) (auto simp: input_step_def get_user_input_next_def entry_json_def)
qed

text \<open>The user-input queue refines a first-in first-out queue of the fifty newest messages: over every run
  of requests the responses and the contents agree.\<close>

theorem user_queue_refines_fifo:
  assumes "length q \<le> USER_INPUT_MAXLEN" and "input_run ops q = (rs, q')"
  shows "fifo_run ops (rev q) = (rs, rev q') \<and> length q' \<le> USER_INPUT_MAXLEN"
  using assms
proof (induction ops arbitrary: q rs)
  case (Cons op ops)
  from Cons.prems(2) obtain r q1 rs1 where s: "input_step op q = (r, q1)" "input_run ops q1 = (rs1, q')" "rs = r # rs1"
    by (auto split: prod.splits)
  from input_step_fifo [OF Cons.prems(1) s(1)] Cons.IH [OF _ s(2)] s(3) show ?case by simp
qed simp

lemma user_queue_refines_fifo_witness:
  "fifo_run [PostInput 1 ''a'' ''cli'', PostInput 2 '' '' ''cli'', NextInput] [] =
     input_run [PostInput 1 ''a'' ''cli'', PostInput 2 '' '' ''cli'', NextInput] []"
proof -
  let ?ops = "[PostInput 1 ''a'' ''cli'', PostInput 2 '' '' ''cli'', NextInput]"
  have "snd (input_run ?ops []) = []" by code_simp
  then obtain rs where r: "input_run ?ops [] = (rs, [])" by (cases "input_run ?ops []") auto
  from user_queue_refines_fifo [OF _ r] r show ?thesis by simp
qed

text \<open>A message accepted as queued can be dropped unread: the fifty-first one pushes out the oldest.\<close>

theorem full_queue_drops_oldest:
  assumes "length q = USER_INPUT_MAXLEN" and "py_strip raw \<noteq> []"
  shows "\<exists>p q'. post_user_input ts raw source q = (HttpOk p, q') \<and> jget p ''status'' = JStr ''queued'' \<and>
    rev q' = tl (rev q) @ [\<lparr>ue_message = py_strip raw, ue_source = source, ue_ts = ts\<rparr>]"
  using assms appendleft_rev [of q] by (simp add: post_user_input_def Let_def jget_def dict_get_def)


lemma hint_fields_get:
  "map_of (hint_fields h ks) k = (case h of None \<Rightarrow> None | Some x \<Rightarrow> if x \<noteq> [] \<and> k \<in> set ks then Some (JStr x) else None)"
proof -
  have "map_of (map (\<lambda>k. (k, JStr x)) ks) k = (if k \<in> set ks then Some (JStr x) else None)" for x by (induction ks) auto
  then show ?thesis by (simp add: hint_fields_def split: option.splits)
qed

lemma hint_jget: "jget (hint_fields h ks) k = (case map_of (hint_fields h ks) k of None \<Rightarrow> JNull | Some v \<Rightarrow> v)"
  by (simp add: jget_def dict_get_def)

lemma payload_get:
  assumes "extra = [] \<or> (\<exists>r. extra = [(''role'', JStr r)])" and "k \<notin> {''fallback_chain'', ''routing_source'', ''role''}"
  shows "jget ((''fallback_chain'', x) # (''routing_source'', y) # extra @ hs @ ms) k =
    (case map_of hs k of Some v \<Rightarrow> v | None \<Rightarrow> jget ms k)"
  using assms by (auto simp: jget_def dict_get_def map_add_def split: option.splits)

text \<open>The hints of a route: the portal's three names for the backend agree, as do the three for the model,
  and they are the mapping of the role where it has one, else those of the first target of the chain.\<close>

theorem route_hints_agree:
  assumes "models_route_payload env pol fs kind device role spec cache = (Ret p, c1)"
  shows "jget p ''backend'' = jget p ''backend_hint'' \<and> jget p ''provider'' = jget p ''backend_hint'' \<and>
    jget p ''model'' = jget p ''model_hint'' \<and> jget p ''model_id'' = jget p ''model_hint'' \<and>
    (\<forall>r b m. stripped_option role = Some r \<longrightarrow> resolve_role_backend r (stripped_option spec) = Some (b, m) \<longrightarrow> b \<noteq> [] \<longrightarrow>
       jget p ''backend_hint'' = JStr b)"
proof -
  from assms obtain chain extra b m where h: "route_hints role spec chain = (extra, b, m)"
    and p: "p = [(''fallback_chain'', JList (map target_json chain)), (''routing_source'', JStr ''pt:/models/route'')]
        @ extra @ hint_fields b [''backend_hint'', ''backend'', ''provider''] @ hint_fields m [''model_hint'', ''model'', ''model_id'']"
    by (auto simp: models_route_payload_def Let_def split: prod.splits res.splits)
  from h have extra: "extra = [] \<or> (\<exists>r. extra = [(''role'', JStr r)])"
    by (auto simp: route_hints_def Let_def split: option.splits list.splits prod.splits)
  have same: "jget p ''backend'' = jget p ''backend_hint'' \<and> jget p ''provider'' = jget p ''backend_hint'' \<and>
      jget p ''model'' = jget p ''model_hint'' \<and> jget p ''model_id'' = jget p ''model_hint''"
    unfolding p by (simp add: payload_get [OF extra] hint_fields_get hint_jget split: option.split)
  have "jget p ''backend_hint'' = JStr b'" if "stripped_option role = Some r"
    "resolve_role_backend r (stripped_option spec) = Some (b', m')" "b' \<noteq> []" for r b' m'
  proof -
    from h that have "b = Some b'" by (simp add: route_hints_def Let_def)
    with that(3) show ?thesis unfolding p by (simp add: payload_get [OF extra] hint_fields_get)
  qed
  with same show ?thesis by blast
qed


section \<open>Concrete requests to the service\<close>

definition demo_key :: string where "demo_key = ''00000000-0000-4000-8000-000000000000''"

definition demo_pipeline_request :: pipeline_request where
  "demo_pipeline_request = \<lparr>pq_prompt = ''hello'', pq_trace_id = ''trace-0001'', pq_privacy_critical = False,
     pq_override_confirmed = False, pq_override_reason = None\<rparr>"

definition demo_approvals :: approval_dir where
  "demo_approvals = snd (register_pipeline_approval demo_time demo_approval [])"

definition demo_paid :: "http_response res \<times> ledger \<times> nat" where
  "demo_paid = run_tiered_pipeline demo_service (demo_files\<lparr>enabled_flag := Some ''1''\<rparr>) demo_runner demo_time demo_approvals
     demo_transport demo_send False ''draft'' demo_pipeline_request demo_key '' 2 '' (empty_ledger, 0)"


lemma malformed_requests_change_nothing_witness:
  "\<exists>c d. c \<in> {409, 422} \<and>
     run_tiered_pipeline demo_service demo_files demo_runner demo_time demo_approvals demo_transport demo_send False ''draft''
       demo_pipeline_request demo_key ''03'' (empty_ledger, 0) = (Ret (HttpError c d), (empty_ledger, 0))"
proof -
  have "MAX_CONTROL_PLANE_DEPTH < digits_depth (py_strip ''03'') \<and> py_strip ''03'' \<noteq> []" by code_simp
  then show ?thesis by (intro malformed_requests_change_nothing) blast
qed


end
