(* ===== verification/Spec2Isabelle.thy ===== *)
theory Spec2Isabelle
  imports ReorderBuffer HeartbeatMonitor Phases StateTransition Tier5Execution ServiceApi
begin

text \<open>
  Verification of the coordination and governance core of Perpetua-Tools: the Python package
  \<open>src/orchestrator\<close> and the discovery and endpoint helpers under \<open>src/src\<close> it calls.

  \<^bold>\<open>The program.\<close>  Agents coordinate through one append-only event log, the gossip bus, and a
  claims table beside it.  On top of the log stand the task queue, the claim board with its
  liveness view, the reorder buffer for sequenced claims and the phase workflow: each operation
  reads a snapshot folded from the log, decides, and appends an event.  A second part keeps what
  the node believes of its peers: observations pass a pipeline of gates and are committed to a
  hash-chained audit log before they are applied.  A third decides what a model call may
  cost: the frugality router and gate choose a tier, the pipeline runner checks a human approval
  and walks the stages of a recipe, the transport sends the request, and a ledger reserves and
  settles the money.  A separate cost guard holds a daily budget for the other calls.  A fourth
  part runs jobs for clients of the HTTP service: the supervisor bounds how many run, streams
  their log, stores their artifacts, cancels, contains and replays them, and the dispatcher checks
  every model call against the hardware policy.  A fifth part serves the other requests: the
  middleware checks the token of the lane a path belongs to, the model registry turns the
  configuration into an ordered chain of targets, the probes say which of them answer, and the
  agent tracker keeps the registry of the agents that were started.  The \<open>/orchestrate\<close> endpoint
  composes them: it holds the cost of a request, probes, registers an agent and settles the hold.

  \<^bold>\<open>Theories, in the order of their imports.\<close>
  \<^item> \<open>Prelude\<close>: exceptions and results (\<open>exn\<close>, \<open>res\<close>), insertion-ordered dictionaries, JSON values,
    the string and number helpers of Python that the code uses, and their rules.
  \<^item> \<open>Redaction\<close>: \<open>redaction.py\<close> and \<open>memory_governance.py\<close>; the secret patterns as an executable
    matcher.
  \<^item> \<open>GossipBus\<close>: \<open>gossip_bus.py\<close>; the rows of the log and of the claims table, emit and tail.
  \<^item> \<open>ReorderBuffer\<close>: \<open>coordination/types.py\<close> and \<open>coordination/reorder_buffer.py\<close>.
  \<^item> \<open>TaskQueue\<close>, \<open>QueueOwnership\<close>, \<open>QueueRuns\<close>: \<open>coordination/task_queue.py\<close>, the transactions
    on the claims row, and runs of the board by any agents with stale reads.
  \<^item> \<open>HeartbeatMonitor\<close>: \<open>heartbeat_monitor.py\<close>, \<open>coordination/claims.py\<close> and
    \<open>coordination/liveness.py\<close>.
  \<^item> \<open>Phases\<close>: \<open>coordination/phases.py\<close> with the critical path.
  \<^item> \<open>Membership\<close>: \<open>membership.py\<close>, \<open>display_state.py\<close> and \<open>peer_record.py\<close>.
  \<^item> \<open>PeerGates\<close>: the gates \<open>monotonic_gate.py\<close>, \<open>provenance.py\<close>, \<open>witness_quorum.py\<close>,
    \<open>equivocation.py\<close>, \<open>reputation.py\<close> and \<open>distance_bucket.py\<close>.
  \<^item> \<open>AuditLog\<close>: \<open>audit_log.py\<close>.
  \<^item> \<open>StateTransition\<close>: \<open>state_transition_manager.py\<close>, which composes the three before it.
  \<^item> \<open>Frugality\<close>: \<open>utils/model_endpoint_url.py\<close>, \<open>perpetua/discovery/\<close>, \<open>backend_resolver.py\<close>,
    \<open>frugality_router.py\<close> and \<open>gate.py\<close>.
  \<^item> \<open>TieredPipeline\<close>: \<open>tiered_pipeline.py\<close>, \<open>legacy_model_names.py\<close> and the readers of \<open>models.yml\<close>.
  \<^item> \<open>ModelTransport\<close>: \<open>model_transport.py\<close>.
  \<^item> \<open>Tier5Budget\<close>: \<open>tier5_budget.py\<close>.
  \<^item> \<open>Tier5Execution\<close>: \<open>tier5_execution.py\<close>, which composes ledger, runner and transport.
  \<^item> \<open>CostGuard\<close>: \<open>cost_guard.py\<close>.
  \<^item> \<open>HardwareDispatch\<close>: \<open>utils/hardware_policy.py\<close>, \<open>dispatch_models.py\<close>, \<open>skill_resolver.py\<close>,
    \<open>worker_registry.py\<close> and the commands it builds.
  \<^item> \<open>JobDispatch\<close>: the job specification and the dispatch functions of \<open>supervisor.py\<close>.
  \<^item> \<open>Supervisor\<close>: the class of \<open>supervisor.py\<close>, its tasks as a step relation;
    \<open>SupervisorRuns\<close>, \<open>SupervisorSafety\<close> and \<open>SupervisorReplay\<close>: what its runs keep.
  \<^item> \<open>JobApi\<close>: the job endpoints of \<open>fastapi_app.py\<close>.
  \<^item> \<open>AgentTracker\<close>: \<open>agent_tracker.py\<close> and \<open>spawn_reconciliation.py\<close>.
  \<^item> \<open>ControlPlaneAuth\<close>: \<open>control_plane_auth.py\<close>, \<open>control_plane_asgi.py\<close> and \<open>mesh_auth.py\<close>.
  \<^item> \<open>Connectivity\<close>: \<open>connectivity.py\<close>; the single flight of the cloud probes.
  \<^item> \<open>ModelRegistry\<close>: \<open>model_registry.py\<close> and \<open>src/utils/endpoint_policy_core.py\<close>.
  \<^item> \<open>Orchestrate\<close>: the \<open>/orchestrate\<close> endpoint of \<open>fastapi_app.py\<close> with its candidate probes.
  \<^item> \<open>ServiceApi\<close>: the endpoints of \<open>fastapi_app.py\<close> for agents, user input, gossip, route hints and
    paid pipelines.

  \<^bold>\<open>State and operations.\<close>  A class or table is a record, a row a record or tuple, an enumeration a
  datatype with the source's members.  An operation takes the state and returns its result with
  the new state; every raise and early return is a branch, with the exception as a value of
  \<open>exn\<close>.  Where the code reads a snapshot before it takes a lock, the operation has two states, the
  one read and the one written, so that every interleaving of agents is a sequence of steps with
  stale reads.  The supervisor's coroutines share one event loop: a step of \<open>sup_step\<close> is what one
  task does between two awaits, so that a run is any interleaving of them with cancellations and
  restarts; a step of \<open>orch_step\<close> is the same for a request.  A database transaction or a section under a lock is one step, which may also find
  the lock busy.  Names are the source's, with a suffix where HOL has the name already.

  \<^bold>\<open>Conventions.\<close>  Python integers are \<open>int\<close>; a float is the exact rational, so rounding is modelled
  where the code rounds and nowhere else, and infinities and NaN are separate values where the
  code tests for them.  Strings are over the first 256 code points.  A dictionary is an
  association list in insertion order.  Parsed JSON and YAML are values of \<open>json\<close> whose mappings
  have string keys.  Clocks, fresh identifiers, environment variables, the outcome of taking a
  lock and of reading or writing a file are inputs; SHA-256, HMAC, signatures, \<open>urlparse\<close>,
  \<open>ipaddress\<close>, ISO dates, \<open>repr\<close> of containers and the HTTP exchange are parameters.  Printed
  reports are returned as data; log lines are left out.

  \<^bold>\<open>Interfaces.\<close>  The locales state what one component relies on in another, and each is
  interpreted on the model's own definitions: \<open>event_log\<close> (an append keeps the invariant and is
  read back as stored) on the gossip bus, \<open>ownership_table\<close> (taking and releasing a row) on the
  claim transactions, \<open>append_only\<close> (what the hash chain promises when an
  entry is added) on the audit log, \<open>lru_cache\<close> on the caches of the state transition manager,
  \<open>commit_first\<close> (a dispatcher that takes the ledger's marker before it touches the provider) on
  the model transport, \<open>guarded_inference\<close> (what an inference call relies on in the hardware check
  before it) on the dispatcher with its calls recorded, \<open>hold_desk\<close> (what taking, settling and
  releasing a hold do to the holds there are) on the cost guard.

  \<^bold>\<open>What the lemmas show.\<close>
  \<^item> Board: a task has a claims row exactly when its snapshot shows it claimed; takes and releases
    alternate; only the holder completes; claim, complete and fail are atomic; the claim board
    refines a map from tasks to agents; clean-up releases the claims of dead agents only.
  \<^item> Buffer and phases: claims are released in consecutive order; the critical path is a longest
    chain; the phase invariant holds over every run.
  \<^item> Peers: every decision passed all gates and is in the audit log; watermarks never move back; no
    observation is applied twice; caches and buffers are bounded; the weighted quorum equals its
    reference sum; the audit chain is valid and durable under failing writes.
  \<^item> Spending: routes respect the offline and privacy ceilings; configurations that load are sound;
    no provider is called without a valid approval, and none before the ledger has the marker;
    holds and settlements stay within the daily limit whatever the interleaving; a paid run ends
    settled or released and is charged conservatively; the cost guard never overspends.
  \<^item> Jobs: the supervisor refines a life cycle whose final status is written once, up to the race
    named in the manifest; its invariant bounds the active jobs; a success has its artifact;
    clean-up and the wait for a child end; every inference call passed the affinity check; a replay
    runs the stored specification.
  \<^item> Requests: a mutation passes only with a token of its lane; a restart reads back the registry
    the tracker held; reconciliation covers the scan and is idempotent; one probe per cloud backend
    is in flight and its waiters get its result; every target of a route is configured, allowed
    and in the order of its priority.  No hold outlives its request; a settled request has its agent
    and is charged; the requests stay within the budget; a paid request with a new key is accounted.
  \<^item> Some theorems record behaviour that a comment or docstring denies; they are listed as findings
    in the manifest.

  \<^bold>\<open>Bounds and fuel.\<close>  No definition uses fuel.  Loops are structural recursion or have a measure: the
  run popped from a buffer shrinks it, the flush loop of the manager removes an entry at each
  turn, the retry loop counts down the configured attempts (at most three, by the check of the
  provider configuration), the chain search removes each phase it visits, and the loop that
  normalises a model name removes a tag at each turn, so the length of the name decreases.

  \<^bold>\<open>Not modelled.\<close>  Launchers and set-up dialogues, TLS proxies and certificates, network
  discovery, clients of external programs, the health pages and the vector store are calls into
  libraries, sockets and processes around the parts above.  The payload models of the HTTP service
  and of hand-offs are validated by pydantic.  Endpoints that the framework runs in worker threads
  are single steps.  Full-text search and schema creation are SQLite's.
  Of a paid run, other processes are taken to act on the ledger before and after the run and not
  in the middle of it; the ledger's own theorems allow any interleaving.
\<close>

end
